(* ===== verification/Table.thy ===== *)
theory Table
  imports Prelude "HOL-Library.AList"
begin

text \<open>
  Hash maps (\<open>HashMap\<close>, \<open>DashMap\<close>) as association lists with distinct keys. The iteration
  order of a Rust hash map is unspecified; here it is the order of the list, and no fact of
  the development depends on it. The content of a table is the map \<open>map_of t\<close>; \<open>tab_simps\<close>
  computes it after each operation.
\<close>

named_theorems tab_simps \<open>lookup after a table operation\<close>

type_synonym ('k, 'v) table = "('k \<times> 'v) list"

definition wf_table :: "('k, 'v) table \<Rightarrow> bool" where
  "wf_table t \<longleftrightarrow> distinct (map fst t)"

definition t_insert :: "'k \<Rightarrow> 'v \<Rightarrow> ('k, 'v) table \<Rightarrow> ('k, 'v) table" where
  "t_insert k v t = AList.update k v t"

definition t_remove :: "'k \<Rightarrow> ('k, 'v) table \<Rightarrow> ('k, 'v) table" where
  "t_remove k t = AList.delete k t"

definition t_retain :: "('k \<Rightarrow> 'v \<Rightarrow> bool) \<Rightarrow> ('k, 'v) table \<Rightarrow> ('k, 'v) table" where
  "t_retain P t = filter (\<lambda>(k, v). P k v) t"

definition t_remove_if :: "'k \<Rightarrow> ('v \<Rightarrow> bool) \<Rightarrow> ('k, 'v) table \<Rightarrow> ('k, 'v) table" where
  "t_remove_if k P t = t_retain (\<lambda>k' v. \<not> (k' = k \<and> P v)) t"

definition t_len :: "('k, 'v) table \<Rightarrow> nat" where
  "t_len t = length t"

definition t_values :: "('k, 'v) table \<Rightarrow> 'v list" where
  "t_values t = map snd t"

lemma wf_table_Nil [simp]: "wf_table []"
  by (simp add: wf_table_def)

lemma wf_t_insert [simp]: "wf_table t \<Longrightarrow> wf_table (t_insert k v t)"
  by (simp add: wf_table_def t_insert_def distinct_update)

lemma wf_t_remove [simp]: "wf_table t \<Longrightarrow> wf_table (t_remove k t)"
  by (simp add: wf_table_def t_remove_def distinct_delete)

lemma wf_t_retain [simp]: "wf_table t \<Longrightarrow> wf_table (t_retain P t)"
  by (induction t) (auto simp: wf_table_def t_retain_def)

lemma wf_t_remove_if [simp]: "wf_table t \<Longrightarrow> wf_table (t_remove_if k P t)"
  by (simp add: t_remove_if_def)

lemma t_get_insert [tab_simps]: "map_of (t_insert k v t) = (map_of t)(k \<mapsto> v)"
  by (simp add: t_insert_def update_conv')

lemma t_get_remove [tab_simps]: "map_of (t_remove k t) = (map_of t)(k := None)"
  by (simp add: t_remove_def delete_conv')

lemma t_get_retain [tab_simps]:
  assumes "wf_table t"
  shows "map_of (t_retain P t) k = (case map_of t k of None \<Rightarrow> None | Some v \<Rightarrow> if P k v then Some v else None)"
  using assms
proof (induction t)
  case (Cons x t)
  obtain k' v where x: "x = (k', v)" by (cases x)
  from Cons have "k' \<notin> fst ` set t" "wf_table t"
    by (auto simp: wf_table_def x)
  moreover from this(1) have "map_of t k' = None" by (simp add: map_of_eq_None_iff)
  ultimately show ?case using Cons.IH by (auto simp: t_retain_def x)
qed (simp add: t_retain_def)

lemma t_get_remove_if [tab_simps]:
  "wf_table t \<Longrightarrow> map_of (t_remove_if k P t) k' =
     (case map_of t k' of None \<Rightarrow> None | Some v \<Rightarrow> if k' = k \<and> P v then None else Some v)"
  by (auto simp: t_remove_if_def t_get_retain split: option.splits)

lemma t_len_insert:
  "wf_table t \<Longrightarrow> t_len (t_insert k v t) = (if map_of t k = None then Suc (t_len t) else t_len t)"
  unfolding t_len_def t_insert_def wf_table_def
  by (induction t) (auto simp: map_of_eq_None_iff image_iff)

lemma t_len_retain [simp]: "t_len (t_retain P t) \<le> t_len t"
  by (simp add: t_len_def t_retain_def)

lemma t_len_remove: "t_len (t_remove k t) \<le> t_len t"
  by (simp add: t_len_def t_remove_def length_delete_le)

lemma t_len_remove_if:
  assumes "wf_table t" "map_of t k = Some v" "P v"
  shows "Suc (t_len (t_remove_if k P t)) = t_len t"
  using assms
proof (induction t)
  case (Cons x t)
  obtain k' v' where x: "x = (k', v')" by (cases x)
  from Cons have n: "k' \<notin> fst ` set t" "wf_table t" by (auto simp: wf_table_def x)
  show ?case
  proof (cases "k' = k")
    case True
    with n have "t_remove_if k P t = t"
      by (auto simp: t_remove_if_def t_retain_def filter_id_conv image_iff)
    with Cons True show ?thesis
      by (simp add: t_remove_if_def t_retain_def t_len_def x)
  next
    case False
    with Cons n show ?thesis
      by (simp add: t_remove_if_def t_retain_def t_len_def x)
  qed
qed simp

lemma t_values_iff: "wf_table t \<Longrightarrow> v \<in> set (t_values t) \<longleftrightarrow> (\<exists>k. map_of t k = Some v)"
  by (force simp: t_values_def wf_table_def)

lemma t_len_card: "wf_table t \<Longrightarrow> t_len t = card (dom (map_of t))"
  by (metis distinct_card dom_map_of_conv_image_fst length_map list.set_map t_len_def wf_table_def)

text \<open>Inserting or removing under several keys, as the loops over hostnames do.\<close>

definition insert_all :: "'k list \<Rightarrow> 'v \<Rightarrow> ('k, 'v) table \<Rightarrow> ('k, 'v) table" where
  "insert_all ks v t = fold (\<lambda>k. t_insert k v) ks t"

definition remove_all_if :: "'k list \<Rightarrow> ('v \<Rightarrow> bool) \<Rightarrow> ('k, 'v) table \<Rightarrow> ('k, 'v) table" where
  "remove_all_if ks P t = fold (\<lambda>k. t_remove_if k P) ks t"

lemma wf_insert_all [simp]: "wf_table t \<Longrightarrow> wf_table (insert_all ks v t)"
  unfolding insert_all_def by (induction ks arbitrary: t) auto

lemma wf_remove_all_if [simp]: "wf_table t \<Longrightarrow> wf_table (remove_all_if ks P t)"
  unfolding remove_all_if_def by (induction ks arbitrary: t) auto

lemma t_get_insert_all [tab_simps]:
  "map_of (insert_all ks v t) k = (if k \<in> set ks then Some v else map_of t k)"
  unfolding insert_all_def by (induction ks arbitrary: t) (auto simp: t_get_insert)

lemma t_get_remove_all_if [tab_simps]:
  "wf_table t \<Longrightarrow> map_of (remove_all_if ks P t) k =
     (case map_of t k of None \<Rightarrow> None | Some v \<Rightarrow> if k \<in> set ks \<and> P v then None else Some v)"
  unfolding remove_all_if_def
proof (induction ks arbitrary: t)
  case (Cons x ks)
  then show ?case by (auto simp: t_get_remove_if split: option.splits)
qed (auto split: option.splits)

end
