(* ===== verification/Valkey.thy ===== *)
theory Valkey
  imports Table
begin

text \<open>
  The control plane (\<open>sievetube-edge/src/valkey.rs\<close>): hostname ownership and leases, with the
  Lua scripts the Edges run on the Valkey server, the cache of confirmed owners and the
  outcome of a lost connection. A script is atomic on the server, so it is one function on
  the database. The server itself is a parameter: a record of the commands the scripts call.
  What Valkey documents about them, in terms of the stored value and expiry of each key,
  is the hypothesis \<open>redis_strings R view\<close>.
\<close>

subsection \<open>The server\<close>

record 'db redis =
  rd_get :: "nat \<Rightarrow> string \<Rightarrow> 'db \<Rightarrow> string option"
  rd_set :: "nat \<Rightarrow> string \<Rightarrow> string \<Rightarrow> nat option \<Rightarrow> 'db \<Rightarrow> 'db"
  rd_set_nx :: "nat \<Rightarrow> string \<Rightarrow> string \<Rightarrow> 'db \<Rightarrow> 'db"
  rd_del :: "nat \<Rightarrow> string \<Rightarrow> 'db \<Rightarrow> nat \<times> 'db"
  rd_pexpire :: "nat \<Rightarrow> string \<Rightarrow> nat \<Rightarrow> 'db \<Rightarrow> 'db"
  rd_incr :: "nat \<Rightarrow> string \<Rightarrow> 'db \<Rightarrow> nat \<times> 'db"

type_synonym keyspace = "string \<Rightarrow> (string \<times> nat option) option"

definition live_value :: "nat \<Rightarrow> keyspace \<Rightarrow> string \<Rightarrow> string option" where
  "live_value now ks k =
     (case ks k of
        None \<Rightarrow> None
      | Some (v, None) \<Rightarrow> Some v
      | Some (v, Some t) \<Rightarrow> if now < t then Some v else None)"

definition redis_strings :: "'db redis \<Rightarrow> ('db \<Rightarrow> keyspace) \<Rightarrow> bool" where
  "redis_strings R view \<longleftrightarrow>
     (\<forall>n k db. rd_get R n k db = live_value n (view db) k)
     \<and> (\<forall>n k v px db. view (rd_set R n k v px db) = (view db)(k \<mapsto> (v, map_option (\<lambda>t. n + t) px)))
     \<and> (\<forall>n k v db. view (rd_set_nx R n k v db) =
          (if live_value n (view db) k = None then (view db)(k \<mapsto> (v, None)) else view db))
     \<and> (\<forall>n k db. fst (rd_del R n k db) = (if live_value n (view db) k = None then 0 else 1)
          \<and> view (snd (rd_del R n k db)) = (view db)(k := None))
     \<and> (\<forall>n k t db. view (rd_pexpire R n k t db) =
          (case live_value n (view db) k of
             None \<Rightarrow> view db | Some v \<Rightarrow> (view db)(k \<mapsto> (v, Some (n + t)))))
     \<and> (\<forall>n k db. live_value n (view db) k = None \<longrightarrow>
          fst (rd_incr R n k db) = 1 \<and> view (snd (rd_incr R n k db)) = (view db)(k \<mapsto> (show_nat 1, None)))
     \<and> (\<forall>n k db m. view db k = Some (show_nat m, None) \<longrightarrow>
          fst (rd_incr R n k db) = m + 1
          \<and> view (snd (rd_incr R n k db)) = (view db)(k \<mapsto> (show_nat (m + 1), None)))"

text \<open>A server that satisfies the hypothesis: the keyspace itself.\<close>

definition map_redis :: "keyspace redis" where
  "map_redis =
     \<lparr>rd_get = (\<lambda>n k db. live_value n db k),
      rd_set = (\<lambda>n k v px db. db(k \<mapsto> (v, map_option (\<lambda>t. n + t) px))),
      rd_set_nx = (\<lambda>n k v db. if live_value n db k = None then db(k \<mapsto> (v, None)) else db),
      rd_del = (\<lambda>n k db. (if live_value n db k = None then 0 else 1, db(k := None))),
      rd_pexpire = (\<lambda>n k t db. case live_value n db k of
                      None \<Rightarrow> db | Some v \<Rightarrow> db(k \<mapsto> (v, Some (n + t)))),
      rd_incr = (\<lambda>n k db. case live_value n db k of
                   None \<Rightarrow> (1, db(k \<mapsto> (show_nat 1, None)))
                 | Some v \<Rightarrow> (dec_value v + 1, db(k \<mapsto> (show_nat (dec_value v + 1), None))))\<rparr>"

lemma map_redis_ok: "redis_strings map_redis (\<lambda>db. db)"
  by (auto simp: redis_strings_def map_redis_def live_value_def split: option.splits)

text \<open>Whether a command reached the server and its answer came back.\<close>

datatype round_trip = Delivered | NotSent | ReplyLost

datatype control_plane_error = Unavailable

definition invoke ::
  "round_trip \<Rightarrow> ('db \<Rightarrow> 'r \<times> 'db) \<Rightarrow> 'db \<Rightarrow> (control_plane_error, 'r) result \<times> 'db" where
  "invoke net script db =
     (case net of
        NotSent \<Rightarrow> (Inl Unavailable, db)
      | ReplyLost \<Rightarrow> (Inl Unavailable, snd (script db))
      | Delivered \<Rightarrow> (case script db of (r, db') \<Rightarrow> (Inr r, db')))"

subsection \<open>Scripts\<close>

definition owner_key :: "string \<Rightarrow> string" where
  "owner_key hostname = ''sievetube:hostname:'' @ hostname @ '':owner''"

definition lease_key :: "string \<Rightarrow> string" where
  "lease_key resource = ''sievetube:lease:'' @ resource"

definition lease_generation_key :: "string \<Rightarrow> string" where
  "lease_generation_key resource = ''sievetube:lease:'' @ resource @ '':generation''"

fun claim_conflict ::
  "'db redis \<Rightarrow> nat \<Rightarrow> string \<Rightarrow> nat \<Rightarrow> string list \<Rightarrow> 'db \<Rightarrow> (nat \<times> string) option" where
  "claim_conflict R now tenant i [] db = None"
| "claim_conflict R now tenant i (key # keys) db =
     (case rd_get R now key db of
        Some owner \<Rightarrow> if owner \<noteq> tenant then Some (i, owner)
                      else claim_conflict R now tenant (Suc i) keys db
      | None \<Rightarrow> claim_conflict R now tenant (Suc i) keys db)"

definition claim_script ::
  "'db redis \<Rightarrow> nat \<Rightarrow> string list \<Rightarrow> string \<Rightarrow> 'db \<Rightarrow> (nat \<times> string) \<times> 'db" where
  "claim_script R now keys tenant db =
     (case claim_conflict R now tenant 1 keys db of
        Some r \<Rightarrow> (r, db)
      | None \<Rightarrow> ((0, []), fold (\<lambda>key. rd_set_nx R now key tenant) keys db))"

definition owner_release_script ::
  "'db redis \<Rightarrow> nat \<Rightarrow> string \<Rightarrow> string \<Rightarrow> 'db \<Rightarrow> nat \<times> 'db" where
  "owner_release_script R now key expected db =
     (if rd_get R now key db = Some expected then rd_del R now key db else (0, db))"

definition owner_transfer_script ::
  "'db redis \<Rightarrow> nat \<Rightarrow> string \<Rightarrow> string \<Rightarrow> string \<Rightarrow> 'db \<Rightarrow> nat \<times> 'db" where
  "owner_transfer_script R now key expected new_tenant db =
     (if rd_get R now key db = Some expected then (1, rd_set R now key new_tenant None db)
      else (0, db))"

text \<open>The value of a lease is \<open>owner|generation\<close>; \<open>string.match\<close> with \<open>^(.*)|(%d+)$\<close> splits at
  the last bar and needs digits after it.\<close>

definition lease_value :: "string \<Rightarrow> nat \<Rightarrow> string" where
  "lease_value owner generation = owner @ CHR ''|'' # show_nat generation"

definition match_lease :: "string \<Rightarrow> (string \<times> nat) option" where
  "match_lease v =
     (case rsplit_once (CHR ''|'') v of
        None \<Rightarrow> None
      | Some (owner, g) \<Rightarrow>
          if g \<noteq> [] \<and> list_all is_ascii_digit g then Some (owner, dec_value g) else None)"

definition lease_acquire_script ::
  "'db redis \<Rightarrow> nat \<Rightarrow> string \<Rightarrow> string \<Rightarrow> string \<Rightarrow> nat \<Rightarrow> nat \<Rightarrow> 'db \<Rightarrow> int \<times> 'db" where
  "lease_acquire_script R now key gen_key owner ttl min_generation db =
     (case rd_get R now key db of
        Some current \<Rightarrow>
          (case match_lease current of
             Some (o1, generation) \<Rightarrow>
               if o1 = owner then (int generation, rd_pexpire R now key ttl db) else (-1, db)
           | None \<Rightarrow> (-1, db))
      | None \<Rightarrow>
          (case rd_incr R now gen_key db of
             (g, db1) \<Rightarrow>
               let (generation, db2) =
                 (if g < min_generation
                  then (min_generation, rd_set R now gen_key (show_nat min_generation) None db1)
                  else (g, db1))
               in (int generation, rd_set R now key (lease_value owner generation) (Some ttl) db2)))"

definition lease_check_script :: "'db redis \<Rightarrow> nat \<Rightarrow> string \<Rightarrow> string \<Rightarrow> 'db \<Rightarrow> nat \<times> 'db" where
  "lease_check_script R now key value db =
     ((if rd_get R now key db = Some value then 1 else 0), db)"

definition lease_release_script :: "'db redis \<Rightarrow> nat \<Rightarrow> string \<Rightarrow> string \<Rightarrow> 'db \<Rightarrow> nat \<times> 'db" where
  "lease_release_script R now key value db =
     (if rd_get R now key db = Some value then rd_del R now key db else (0, db))"

subsection \<open>The handle\<close>

record confirmed_owner =
  co_tenant_id :: string
  co_confirmed_at :: nat

record valkey_handle =
  vh_edge_id :: string
  vh_confirmed :: "(string, confirmed_owner) table"
  vh_published_routes :: "64 word option"

datatype claim_outcome = Claimed | Conflict string

text \<open>Milliseconds of the process clock.\<close>

definition OWNERSHIP_CACHE_TTL :: nat where "OWNERSHIP_CACHE_TTL = 60000"

definition claim_hostnames ::
  "'db redis \<Rightarrow> round_trip \<Rightarrow> nat \<Rightarrow> nat \<Rightarrow> string \<Rightarrow> string list \<Rightarrow> valkey_handle \<Rightarrow> 'db
   \<Rightarrow> (control_plane_error, claim_outcome) result \<times> valkey_handle \<times> 'db" where
  "claim_hostnames R net server_now now tenant_id hostnames vh db =
     (if hostnames = [] then (Inr Claimed, vh, db)
      else case invoke net (claim_script R server_now (map owner_key hostnames) tenant_id) db of
        (Inl e, db') \<Rightarrow> (Inl e, vh, db')
      | (Inr (index, _), db') \<Rightarrow>
          if index > 0
          then (Inr (Conflict (if index - 1 < length hostnames then hostnames ! (index - 1) else [])),
                vh, db')
          else (Inr Claimed,
                vh\<lparr>vh_confirmed := insert_all hostnames
                     \<lparr>co_tenant_id = tenant_id, co_confirmed_at = now\<rparr> (vh_confirmed vh)\<rparr>,
                db'))"

definition previously_confirmed ::
  "nat \<Rightarrow> string \<Rightarrow> string list \<Rightarrow> valkey_handle \<Rightarrow> bool \<times> valkey_handle" where
  "previously_confirmed now tenant_id hostnames vh =
     (let confirmed = t_retain (\<lambda>_ o1. now - co_confirmed_at o1 \<le> OWNERSHIP_CACHE_TTL) (vh_confirmed vh)
      in (list_all (\<lambda>h. case map_of confirmed h of
                          None \<Rightarrow> False | Some o1 \<Rightarrow> co_tenant_id o1 = tenant_id) hostnames,
          vh\<lparr>vh_confirmed := confirmed\<rparr>))"

definition release_hostname_owner ::
  "'db redis \<Rightarrow> round_trip \<Rightarrow> nat \<Rightarrow> string \<Rightarrow> string \<Rightarrow> valkey_handle \<Rightarrow> 'db
   \<Rightarrow> (control_plane_error, bool) result \<times> valkey_handle \<times> 'db" where
  "release_hostname_owner R net server_now hostname expected vh db =
     (case invoke net (owner_release_script R server_now (owner_key hostname) expected) db of
        (Inl e, db') \<Rightarrow> (Inl e, vh, db')
      | (Inr changed, db') \<Rightarrow>
          (Inr (changed = 1), vh\<lparr>vh_confirmed := t_remove hostname (vh_confirmed vh)\<rparr>, db'))"

definition transfer_hostname_owner ::
  "'db redis \<Rightarrow> round_trip \<Rightarrow> nat \<Rightarrow> string \<Rightarrow> string \<Rightarrow> string \<Rightarrow> valkey_handle \<Rightarrow> 'db
   \<Rightarrow> (control_plane_error, bool) result \<times> valkey_handle \<times> 'db" where
  "transfer_hostname_owner R net server_now hostname expected new_tenant vh db =
     (case invoke net (owner_transfer_script R server_now (owner_key hostname) expected new_tenant) db of
        (Inl e, db') \<Rightarrow> (Inl e, vh, db')
      | (Inr changed, db') \<Rightarrow>
          (Inr (changed = 1), vh\<lparr>vh_confirmed := t_remove hostname (vh_confirmed vh)\<rparr>, db'))"

definition acquire_lease ::
  "'db redis \<Rightarrow> round_trip \<Rightarrow> nat \<Rightarrow> string \<Rightarrow> nat \<Rightarrow> nat \<Rightarrow> valkey_handle \<Rightarrow> 'db
   \<Rightarrow> (control_plane_error, nat option) result \<times> 'db" where
  "acquire_lease R net server_now resource ttl min_generation vh db =
     (case invoke net
            (lease_acquire_script R server_now (lease_key resource) (lease_generation_key resource)
               (vh_edge_id vh) ttl min_generation) db of
        (Inl e, db') \<Rightarrow> (Inl e, db')
      | (Inr g, db') \<Rightarrow> (Inr (if g < 0 then None else Some (nat g)), db'))"

definition check_lease ::
  "'db redis \<Rightarrow> round_trip \<Rightarrow> nat \<Rightarrow> string \<Rightarrow> nat \<Rightarrow> valkey_handle \<Rightarrow> 'db
   \<Rightarrow> (control_plane_error, bool) result \<times> 'db" where
  "check_lease R net server_now resource generation vh db =
     (case invoke net
            (lease_check_script R server_now (lease_key resource)
               (lease_value (vh_edge_id vh) generation)) db of
        (Inl e, db') \<Rightarrow> (Inl e, db')
      | (Inr held, db') \<Rightarrow> (Inr (held = 1), db'))"

definition lease_owner ::
  "'db redis \<Rightarrow> nat \<Rightarrow> string \<Rightarrow> 'db \<Rightarrow> string option" where
  "lease_owner R server_now resource db =
     (case rd_get R server_now (lease_key resource) db of
        None \<Rightarrow> None | Some v \<Rightarrow> map_option fst (rsplit_once (CHR ''|'') v))"

definition release_lease ::
  "'db redis \<Rightarrow> round_trip \<Rightarrow> nat \<Rightarrow> string \<Rightarrow> nat \<Rightarrow> valkey_handle \<Rightarrow> 'db
   \<Rightarrow> (control_plane_error, unit) result \<times> 'db" where
  "release_lease R net server_now resource generation vh db =
     (case invoke net
            (lease_release_script R server_now (lease_key resource)
               (lease_value (vh_edge_id vh) generation)) db of
        (Inl e, db') \<Rightarrow> (Inl e, db')
      | (Inr _, db') \<Rightarrow> (Inr (), db'))"

subsection \<open>Facts on the commands\<close>

lemma redis_stringsD:
  assumes "redis_strings R view"
  shows "rd_get R n k db = live_value n (view db) k"
    and "view (rd_set R n k v px db) = (view db)(k \<mapsto> (v, map_option (\<lambda>t. n + t) px))"
    and "view (rd_set_nx R n k v db) =
           (if live_value n (view db) k = None then (view db)(k \<mapsto> (v, None)) else view db)"
    and "view (snd (rd_del R n k db)) = (view db)(k := None)"
    and "fst (rd_del R n k db) = (if live_value n (view db) k = None then 0 else 1)"
    and "view (rd_pexpire R n k t db) =
           (case live_value n (view db) k of
              None \<Rightarrow> view db | Some v \<Rightarrow> (view db)(k \<mapsto> (v, Some (n + t))))"
    and "live_value n (view db) k = None \<Longrightarrow> fst (rd_incr R n k db) = 1
           \<and> view (snd (rd_incr R n k db)) = (view db)(k \<mapsto> (show_nat 1, None))"
    and "view db k = Some (show_nat m, None) \<Longrightarrow> fst (rd_incr R n k db) = m + 1
           \<and> view (snd (rd_incr R n k db)) = (view db)(k \<mapsto> (show_nat (m + 1), None))"
  using assms unfolding redis_strings_def by auto

lemma live_value_upd: "live_value n (ks(k \<mapsto> (v, None))) k' = (if k' = k then Some v else live_value n ks k')"
  by (simp add: live_value_def)

lemma live_value_mono:
  "live_value n' ks k = Some v \<Longrightarrow> n \<le> n' \<Longrightarrow> live_value n ks k = Some v"
  by (auto simp: live_value_def split: option.splits if_splits)

lemma owner_key_inject [simp]: "owner_key a = owner_key b \<longleftrightarrow> a = b"
  by (simp add: owner_key_def)

lemma generation_key_distinct [simp]:
  "lease_key r \<noteq> lease_generation_key r" "lease_generation_key r \<noteq> lease_key r"
  by (simp_all add: lease_key_def lease_generation_key_def)

lemma match_lease_value [simp]: "match_lease (lease_value o1 g) = Some (o1, g)"
proof -
  have "CHR ''|'' \<notin> set (show_nat g)"
    using show_nat_digits [of g] by (auto simp: list_all_iff is_ascii_digit_def byte_of_def)
  then have "rsplit_once (CHR ''|'') (lease_value o1 g) = Some (o1, show_nat g)"
    by (simp add: rsplit_once_Some lease_value_def)
  then show ?thesis by (simp add: match_lease_def show_nat_digits)
qed

lemma lease_value_inject [simp]: "lease_value a g = lease_value b h \<longleftrightarrow> a = b \<and> g = h"
  by (metis match_lease_value option.inject prod.inject)

subsection \<open>Facts on ownership\<close>

lemma claim_conflict_None:
  "claim_conflict R n t i ks db = None \<longleftrightarrow>
     (\<forall>k \<in> set ks. rd_get R n k db = None \<or> rd_get R n k db = Some t)"
  by (induction ks arbitrary: i) (auto split: option.splits)

lemma claim_conflict_Some:
  "claim_conflict R n t i ks db = Some (j, o1) \<Longrightarrow>
     i \<le> j \<and> j - i < length ks \<and> rd_get R n (ks ! (j - i)) db = Some o1 \<and> o1 \<noteq> t"
proof (induction ks arbitrary: i)
  case (Cons k ks)
  show ?case
  proof (cases "i = j")
    case True
    with Cons show ?thesis by (force split: option.splits if_splits)
  next
    case False
    with Cons.prems have "claim_conflict R n t (Suc i) ks db = Some (j, o1)"
      by (auto split: option.splits if_splits)
    from Cons.IH [OF this] show ?thesis by (auto simp: nth_Cons')
  qed
qed simp

lemma set_nx_all:
  assumes R: "redis_strings R view"
    and "\<forall>k \<in> set ks. live_value n (view db) k = None \<or> live_value n (view db) k = Some t"
  shows "\<forall>k. live_value n (view (fold (\<lambda>k. rd_set_nx R n k t) ks db)) k =
              (if k \<in> set ks then Some t else live_value n (view db) k)
            \<and> (k \<notin> set ks \<or> live_value n (view db) k \<noteq> None
                \<longrightarrow> view (fold (\<lambda>k. rd_set_nx R n k t) ks db) k = view db k)"
  using assms(2)
proof (induction ks arbitrary: db)
  case (Cons x ks)
  let ?db = "rd_set_nx R n x t db"
  have x: "live_value n (view ?db) k = (if k = x then Some t else live_value n (view db) k)" for k
    using Cons.prems by (auto simp: redis_stringsD(3) [OF R] live_value_upd)
  have v: "k \<noteq> x \<or> live_value n (view db) k \<noteq> None \<Longrightarrow> view ?db k = view db k" for k
    by (auto simp: redis_stringsD(3) [OF R])
  have "\<forall>k \<in> set ks. live_value n (view ?db) k = None \<or> live_value n (view ?db) k = Some t"
    using Cons.prems by (simp add: x)
  note IH = Cons.IH [OF this]
  show ?case
  proof
    fix k
    show "live_value n (view (fold (\<lambda>k. rd_set_nx R n k t) (x # ks) db)) k =
              (if k \<in> set (x # ks) then Some t else live_value n (view db) k)
            \<and> (k \<notin> set (x # ks) \<or> live_value n (view db) k \<noteq> None
                \<longrightarrow> view (fold (\<lambda>k. rd_set_nx R n k t) (x # ks) db) k = view db k)"
      using IH [rule_format, of k] x [of k] v [of k]
      by (cases "k = x"; cases "live_value n (view db) k") auto
  qed
qed simp

lemma claim_script_cases:
  assumes R: "redis_strings R view" and run: "claim_script R n ks t db = ((i, o1), db')"
  shows "(i = 0 \<and> (\<forall>k \<in> set ks. live_value n (view db') k = Some t)
            \<and> (\<forall>k. k \<notin> set ks \<or> live_value n (view db) k \<noteq> None \<longrightarrow> view db' k = view db k)
            \<and> (\<forall>k \<in> set ks. live_value n (view db) k = None \<or> live_value n (view db) k = Some t))
         \<or> (0 < i \<and> i - 1 < length ks \<and> db' = db
            \<and> live_value n (view db) (ks ! (i - 1)) = Some o1 \<and> o1 \<noteq> t)"
proof (cases "claim_conflict R n t 1 ks db")
  case None
  with run have "i = 0" and db': "db' = fold (\<lambda>k. rd_set_nx R n k t) ks db"
    by (auto simp: claim_script_def)
  moreover from None have free: "\<forall>k \<in> set ks. live_value n (view db) k = None \<or> live_value n (view db) k = Some t"
    by (simp add: claim_conflict_None redis_stringsD(1) [OF R])
  ultimately show ?thesis
    using set_nx_all [OF R free] by simp
next
  case (Some r)
  with run have r: "claim_conflict R n t 1 ks db = Some (i, o1)" and "db' = db"
    by (auto simp: claim_script_def)
  from claim_conflict_Some [OF r] show ?thesis
    using \<open>db' = db\<close> by (simp add: redis_stringsD(1) [OF R])
qed

subsection \<open>Facts on leases\<close>

text \<open>
  A run of the lease on one resource: Edges acquire, extend and release it through the
  scripts while server time passes and leases expire, and other clients change other keys.
  The history lists every owner and generation an acquisition returned, newest first.
\<close>

inductive lease_run ::
  "'db redis \<Rightarrow> ('db \<Rightarrow> keyspace) \<Rightarrow> string \<Rightarrow> nat \<Rightarrow> 'db \<Rightarrow> (string \<times> nat) list \<Rightarrow> bool"
  for R view r where
  start: "view db (lease_key r) = None \<Longrightarrow> view db (lease_generation_key r) = None
    \<Longrightarrow> lease_run R view r n db []"
| acquired: "lease_run R view r n db hist \<Longrightarrow> n \<le> n'
    \<Longrightarrow> lease_acquire_script R n' (lease_key r) (lease_generation_key r) owner ttl min_g db = (g, db')
    \<Longrightarrow> 0 \<le> g \<Longrightarrow> lease_run R view r n' db' ((owner, nat g) # hist)"
| refused: "lease_run R view r n db hist \<Longrightarrow> n \<le> n'
    \<Longrightarrow> lease_acquire_script R n' (lease_key r) (lease_generation_key r) owner ttl min_g db = (g, db')
    \<Longrightarrow> g < 0 \<Longrightarrow> lease_run R view r n' db' hist"
| released: "lease_run R view r n db hist \<Longrightarrow> n \<le> n'
    \<Longrightarrow> lease_release_script R n' (lease_key r) (lease_value owner g) db = (b, db')
    \<Longrightarrow> lease_run R view r n' db' hist"
| elsewhere: "lease_run R view r n db hist \<Longrightarrow> n \<le> n'
    \<Longrightarrow> view db' (lease_key r) = view db (lease_key r)
    \<Longrightarrow> view db' (lease_generation_key r) = view db (lease_generation_key r)
    \<Longrightarrow> lease_run R view r n' db' hist"

definition lease_ok :: "('db \<Rightarrow> keyspace) \<Rightarrow> string \<Rightarrow> 'db \<Rightarrow> (string \<times> nat) list \<Rightarrow> bool" where
  "lease_ok view r db hist \<longleftrightarrow>
     (hist = [] \<longrightarrow> view db (lease_generation_key r) = None \<and> view db (lease_key r) = None)
     \<and> (hist \<noteq> [] \<longrightarrow> view db (lease_generation_key r) = Some (show_nat (snd (hd hist)), None))
     \<and> (\<forall>v e. view db (lease_key r) = Some (v, e) \<longrightarrow> v = lease_value (fst (hd hist)) (snd (hd hist)))
     \<and> (\<forall>x \<in> set hist. 0 < snd x)
     \<and> sorted_wrt (\<lambda>x y. snd y \<le> snd x \<and> (snd y = snd x \<longrightarrow> fst y = fst x)) hist"

lemma acquire_extends:
  assumes R: "redis_strings R view" and live: "live_value n (view db) k = Some (lease_value o1 g1)"
  shows "lease_acquire_script R n k gk owner ttl m db =
           (if o1 = owner then (int g1, rd_pexpire R n k ttl db) else (-1, db))"
  using live by (simp add: lease_acquire_script_def redis_stringsD(1) [OF R])

lemma acquire_fresh:
  assumes R: "redis_strings R view" and free: "live_value n (view db) (lease_key r) = None"
    and gen: "(if c = 0 then view db (lease_generation_key r) = None
               else view db (lease_generation_key r) = Some (show_nat c, None))"
    and run: "lease_acquire_script R n (lease_key r) (lease_generation_key r) owner ttl m db = (g, db')"
  shows "\<exists>g'. g = int g' \<and> c < g' \<and> m \<le> g'
           \<and> view db' (lease_generation_key r) = Some (show_nat g', None)
           \<and> view db' (lease_key r) = Some (lease_value owner g', Some (n + ttl))"
proof -
  obtain g1 db1 where i: "rd_incr R n (lease_generation_key r) db = (g1, db1)" by fastforce
  have g1: "g1 = c + 1" and v1: "view db1 = (view db)(lease_generation_key r \<mapsto> (show_nat (c + 1), None))"
    using redis_stringsD(7) [OF R, of n db "lease_generation_key r"]
      redis_stringsD(8) [OF R, of db "lease_generation_key r" c n] gen i
    by (auto simp: live_value_def split: if_splits)
  let ?g' = "max m g1"
  have "g = int ?g'"
    and "view db' = (view db1)(lease_generation_key r \<mapsto> (show_nat ?g', None),
                               lease_key r \<mapsto> (lease_value owner ?g', Some (n + ttl)))"
    using run free i g1 v1
    by (auto simp: lease_acquire_script_def redis_stringsD(1,2) [OF R] Let_def max_def fun_eq_iff
        split: if_splits)
  then show ?thesis using g1 by (intro exI [of _ ?g']) (auto simp: max_def)
qed

lemma lease_ok_acquire:
  assumes R: "redis_strings R view" and ok: "lease_ok view r db hist"
    and run: "lease_acquire_script R n (lease_key r) (lease_generation_key r) owner ttl m db = (g, db')"
  shows "(g < 0 \<longrightarrow> db' = db) \<and> (0 \<le> g \<longrightarrow> lease_ok view r db' ((owner, nat g) # hist))"
proof (cases "live_value n (view db) (lease_key r)")
  case None
  define c where "c = (if hist = [] then 0 else snd (hd hist))"
  have "if c = 0 then view db (lease_generation_key r) = None
        else view db (lease_generation_key r) = Some (show_nat c, None)"
    using ok by (auto simp: lease_ok_def c_def)
  from acquire_fresh [OF R None this run] obtain g' where g': "g = int g'" "c < g'"
    "view db' (lease_generation_key r) = Some (show_nat g', None)"
    "view db' (lease_key r) = Some (lease_value owner g', Some (n + ttl))"
    by blast
  have "snd x < g'" if "x \<in> set hist" for x
  proof -
    from that have "snd x \<le> c" using ok by (cases hist) (auto simp: lease_ok_def c_def)
    with g'(2) show ?thesis by simp
  qed
  with g' ok show ?thesis by (auto simp: lease_ok_def less_imp_le)
next
  case (Some v)
  then obtain e where "view db (lease_key r) = Some (v, e)"
    by (auto simp: live_value_def split: option.splits if_splits)
  with ok have v: "v = lease_value (fst (hd hist)) (snd (hd hist))" and ne: "hist \<noteq> []"
    by (auto simp: lease_ok_def)
  obtain oh gh hist' where h: "hist = (oh, gh) # hist'" using ne by (cases hist) auto
  note ext = acquire_extends [OF R Some [unfolded v], of "lease_generation_key r" owner ttl m]
  show ?thesis
  proof (cases "oh = owner")
    case True
    with ext run h have "g = int gh" "db' = rd_pexpire R n (lease_key r) ttl db" by auto
    with True h ok Some v show ?thesis
      by (auto simp: lease_ok_def redis_stringsD(6) [OF R])
  next
    case False
    with ext run h show ?thesis by auto
  qed
qed

lemma lease_run_ok:
  assumes R: "redis_strings R view"
  shows "lease_run R view r n db hist \<Longrightarrow> lease_ok view r db hist"
proof (induction rule: lease_run.induct)
  case (start db n)
  then show ?case by (simp add: lease_ok_def)
next
  case (acquired n db hist n' owner ttl min_g g db')
  then show ?case using lease_ok_acquire [OF R acquired.IH acquired.hyps(3)] by blast
next
  case (refused n db hist n' owner ttl min_g g db')
  then show ?case using lease_ok_acquire [OF R refused.IH refused.hyps(3)] by simp
next
  case (released n db hist n' owner g b db')
  have "view db' (lease_generation_key r) = view db (lease_generation_key r)
        \<and> (view db' (lease_key r) = view db (lease_key r) \<or> view db' (lease_key r) = None)"
    using released.hyps(3) redis_stringsD(4) [OF R, of n' "lease_key r" db]
    by (auto simp: lease_release_script_def split: if_splits)
  then show ?case
    using released.IH by (elim conjE disjE) (simp_all add: lease_ok_def)
next
  case (elsewhere n db hist n' db')
  then show ?case by (simp add: lease_ok_def)
qed

lemma claim_hostnames_effect:
  assumes R: "redis_strings R view"
    and run: "claim_hostnames R net sn now tenant hs vh db = (res, vh', db')"
  shows "(res = Inr Claimed \<longrightarrow> (\<forall>h \<in> set hs. live_value sn (view db') (owner_key h) = Some tenant))
         \<and> (\<forall>h. res = Inr (Conflict h) \<longrightarrow> db' = db \<and> vh' = vh \<and> h \<in> set hs
              \<and> (\<exists>o1. live_value sn (view db) (owner_key h) = Some o1 \<and> o1 \<noteq> tenant))
         \<and> (\<forall>k. live_value sn (view db) k \<noteq> None \<longrightarrow> view db' k = view db k)"
proof (cases "hs = [] \<or> net = NotSent")
  case True
  then show ?thesis using run by (auto simp: claim_hostnames_def invoke_def split: if_splits)
next
  case False
  obtain i o1 db1 where s: "claim_script R sn (map owner_key hs) tenant db = ((i, o1), db1)"
    by (metis surj_pair)
  note c = claim_script_cases [OF R s]
  have keep: "\<forall>k. live_value sn (view db) k \<noteq> None \<longrightarrow> view db1 k = view db k" using c by blast
  show ?thesis
  proof (cases net)
    case ReplyLost
    with False run s keep show ?thesis by (auto simp: claim_hostnames_def invoke_def)
  next
    case Delivered
    have "vh' = vh \<and> db' = db1 \<and> res = Inr (Conflict (hs ! (i - 1)))" if "0 < i"
      using Delivered False run s that c by (auto simp: claim_hostnames_def invoke_def)
    moreover have "db' = db1 \<and> res = Inr Claimed" if "i = 0"
      using Delivered False run s that by (auto simp: claim_hostnames_def invoke_def)
    ultimately show ?thesis using c keep by (cases "i = 0") (auto simp: nth_mem)
  qed (use False in simp)
qed

subsection \<open>Properties\<close>

text \<open>C5. Claiming hostnames is all-or-nothing and never takes a hostname from its owner: if the
  claim is reported as successful every hostname belongs to the tenant on the server, if a
  conflict is reported the database is unchanged and the reported hostname belongs to
  another tenant, and in every case, a lost reply included, the owner of every hostname that
  had one is the same as before.\<close>

theorem claim_hostnames_atomic:
  assumes R: "redis_strings R view"
    and run: "claim_hostnames R net sn now tenant hs vh db = (res, vh', db')"
  shows "(res = Inr Claimed \<longrightarrow> (\<forall>h \<in> set hs. live_value sn (view db') (owner_key h) = Some tenant))
         \<and> (\<forall>h. res = Inr (Conflict h) \<longrightarrow> db' = db \<and> vh' = vh \<and> h \<in> set hs
              \<and> (\<exists>o1. live_value sn (view db) (owner_key h) = Some o1 \<and> o1 \<noteq> tenant))
         \<and> (\<forall>k. live_value sn (view db) k \<noteq> None \<longrightarrow> view db' k = view db k)"
  by (rule claim_hostnames_effect [OF R run])

definition sample_vh :: valkey_handle where
  "sample_vh = \<lparr>vh_edge_id = ''e1'', vh_confirmed = [], vh_published_routes = None\<rparr>"

theorem claim_hostnames_atomic_witness:
  "\<exists>vh' db'. claim_hostnames map_redis Delivered 1 1 ''t'' [''a'', ''b''] sample_vh Map.empty
       = (Inr Claimed, vh', db')
     \<and> live_value 1 db' (owner_key ''b'') = Some ''t''"
proof -
  obtain vh' db' where run:
    "claim_hostnames map_redis Delivered 1 1 ''t'' [''a'', ''b''] sample_vh Map.empty
       = (Inr Claimed, vh', db')"
    by (simp add: claim_hostnames_def invoke_def claim_script_def map_redis_def live_value_def)
  from claim_hostnames_atomic [OF map_redis_ok run] show ?thesis using run by auto
qed


lemma sample_lease:
  "lease_acquire_script map_redis 5 (lease_key ''x'') (lease_generation_key ''x'') ''e1'' 10 3 Map.empty
   = (3, [lease_generation_key ''x'' \<mapsto> (show_nat 3, None),
          lease_key ''x'' \<mapsto> (lease_value ''e1'' 3, Some 15)])"
  by (simp add: lease_acquire_script_def map_redis_def live_value_def fun_upd_upd)


end
