(* ===== verification/Connector_Health.thy ===== *)
theory Connector_Health
  imports Valkey "HOL-Library.List_Lexorder" "HOL-Library.Char_ord"
begin

text \<open>
  The Connector's health state (\<open>sievetube-connector/src/health.rs\<close>), which the readiness
  endpoint reports, and the heartbeat that publishes it to Valkey
  (\<open>sievetube-connector/src/valkey.rs\<close>). The \<open>BTreeMap\<close> of Edges is a table whose listing is
  sorted by name.
\<close>

subsection \<open>State\<close>

datatype edge_status = Starting | Connecting | Connected | Disconnected

record health_edge =
  he_status :: edge_status
  he_changed_at :: nat
  he_last_error :: "string option"

record health =
  hl_draining :: bool
  hl_edges :: "(string, health_edge) table"

definition starting_edge :: "nat \<Rightarrow> health_edge" where
  "starting_edge now = \<lparr>he_status = Starting, he_changed_at = now, he_last_error = None\<rparr>"

definition new_health :: "nat \<Rightarrow> string list \<Rightarrow> health" where
  "new_health now servers =
     \<lparr>hl_draining = False, hl_edges = fold (\<lambda>s. t_insert s (starting_edge now)) servers []\<rparr>"

definition update_edge :: "nat \<Rightarrow> string \<Rightarrow> edge_status \<Rightarrow> string option \<Rightarrow> health \<Rightarrow> health" where
  "update_edge now server status last_error h =
     h\<lparr>hl_edges := t_insert server
        \<lparr>he_status = status, he_changed_at = now, he_last_error = last_error\<rparr> (hl_edges h)\<rparr>"

definition set_connecting :: "nat \<Rightarrow> string \<Rightarrow> health \<Rightarrow> health" where
  "set_connecting now server h = update_edge now server Connecting None h"

definition set_connected :: "nat \<Rightarrow> string \<Rightarrow> health \<Rightarrow> health" where
  "set_connected now server h = update_edge now server Connected None h"

definition set_disconnected :: "nat \<Rightarrow> string \<Rightarrow> string \<Rightarrow> health \<Rightarrow> health" where
  "set_disconnected now server error h = update_edge now server Disconnected (Some error) h"

definition set_draining :: "health \<Rightarrow> health" where
  "set_draining h = h\<lparr>hl_draining := True\<rparr>"

definition connected_edges :: "health \<Rightarrow> string list" where
  "connected_edges h = sort (map fst (filter (\<lambda>(_, e). he_status e = Connected) (hl_edges h)))"

definition is_ready :: "health \<Rightarrow> bool" where
  "is_ready h \<longleftrightarrow> \<not> hl_draining h \<and> list_ex (\<lambda>e. he_status e = Connected) (t_values (hl_edges h))"

datatype readiness = Draining | Ready | NotReady

definition connected_count :: "health \<Rightarrow> nat" where
  "connected_count h = length (filter (\<lambda>e. he_status e = Connected) (t_values (hl_edges h)))"

definition health_status :: "health \<Rightarrow> readiness" where
  "health_status h =
     (if hl_draining h then Draining else if connected_count h > 0 then Ready else NotReady)"

datatype health_response = HealthJson nat readiness | MetricsText | NotFound

definition handle_health :: "string \<Rightarrow> health \<Rightarrow> health_response" where
  "handle_health path h =
     (if path = ''/healthz'' then HealthJson 200 (health_status h)
      else if path = ''/readyz'' then HealthJson (if is_ready h then 200 else 503) (health_status h)
      else if path = ''/metrics'' then MetricsText
      else NotFound)"

definition status_of :: "health \<Rightarrow> string \<Rightarrow> edge_status option" where
  "status_of h server = map_option he_status (map_of (hl_edges h) server)"

lemma status_of_update [simp]:
  "status_of (update_edge now server st err h) s = (if s = server then Some st else status_of h s)"
  by (simp add: status_of_def update_edge_def tab_simps)

lemma status_of_draining [simp]: "status_of (set_draining h) = status_of h"
  by (simp add: status_of_def set_draining_def fun_eq_iff)

lemma wf_update [simp]: "wf_table (hl_edges h) \<Longrightarrow> wf_table (hl_edges (update_edge now s st err h))"
  by (simp add: update_edge_def tab_simps)

lemma connected_edges_iff:
  assumes "wf_table (hl_edges h)"
  shows "s \<in> set (connected_edges h) \<longleftrightarrow> status_of h s = Some Connected"
proof -
  have "map_of (hl_edges h) s = Some e \<longleftrightarrow> (s, e) \<in> set (hl_edges h)" for e
    using assms by (simp add: wf_table_def)
  then show ?thesis by (force simp: connected_edges_def status_of_def)
qed

lemma is_ready_iff:
  assumes "wf_table (hl_edges h)"
  shows "is_ready h \<longleftrightarrow> \<not> hl_draining h \<and> (\<exists>s. status_of h s = Some Connected)"
proof -
  have "map_of (hl_edges h) s = Some e \<longleftrightarrow> (s, e) \<in> set (hl_edges h)" for s e
    using assms by (simp add: wf_table_def)
  then show ?thesis
    by (force simp: is_ready_def status_of_def list_ex_iff t_values_def)
qed

lemma health_status_ready: "health_status h = Ready \<longleftrightarrow> is_ready h"
  by (auto simp: health_status_def is_ready_def connected_count_def list_ex_iff filter_empty_conv)

lemma status_of_fold:
  "status_of (fold (\<lambda>s h. h\<lparr>hl_edges := t_insert s (starting_edge now) (hl_edges h)\<rparr>) servers h) s
   = (if s \<in> set servers then Some Starting else status_of h s)"
  by (induction servers arbitrary: h) (auto simp: status_of_def tab_simps starting_edge_def)

subsection \<open>Heartbeat\<close>

text \<open>One round of the inner loop: the key is set while an Edge is connected and deleted
  otherwise. \<open>render\<close> is the JSON text, \<open>net\<close> whether the command got through.\<close>

definition heartbeat_key :: "string \<Rightarrow> string" where
  "heartbeat_key tunnel_id = ''sievetube:connector:'' @ tunnel_id @ '':last_seen''"

definition heartbeat_ttl :: "64 word \<Rightarrow> nat" where
  "heartbeat_ttl interval_secs = max (min (unat interval_secs * 4) (2 ^ 64 - 1)) 60"

definition heartbeat_beat ::
  "'db redis \<Rightarrow> (nat \<Rightarrow> string list \<Rightarrow> string) \<Rightarrow> round_trip \<Rightarrow> nat \<Rightarrow> nat \<Rightarrow> string \<Rightarrow> 64 word
   \<Rightarrow> health \<Rightarrow> 'db \<Rightarrow> (control_plane_error, unit) result \<times> 'db" where
  "heartbeat_beat R render net server_now unix_now tunnel_id interval h db =
     (let edges = connected_edges h; key = heartbeat_key tunnel_id
      in if edges = [] then invoke net (\<lambda>db. ((), snd (rd_del R server_now key db))) db
         else invoke net (\<lambda>db. ((), rd_set R server_now key (render unix_now edges)
                                    (Some (heartbeat_ttl interval * 1000)) db)) db)"

definition heartbeat_stop ::
  "'db redis \<Rightarrow> round_trip \<Rightarrow> nat \<Rightarrow> string \<Rightarrow> 'db \<Rightarrow> 'db" where
  "heartbeat_stop R net server_now tunnel_id db =
     snd (invoke net (\<lambda>db. ((), snd (rd_del R server_now (heartbeat_key tunnel_id) db))) db)"

datatype beat_phase = Reconnecting | Beating | Stopped_beating

datatype beat_event = ConnectTried bool | Beat round_trip nat nat | IntervalOver | StopSeen round_trip nat

text \<open>The loop: connecting is retried, a failed command reconnects, the interval or a shutdown
  ends the wait, and a shutdown deletes the key. The wait after a beat is the phase \<open>Beating\<close>
  with the flag that the beat was sent.\<close>

fun heartbeat_step ::
  "'db redis \<Rightarrow> (nat \<Rightarrow> string list \<Rightarrow> string) \<Rightarrow> string \<Rightarrow> 64 word \<Rightarrow> health \<Rightarrow> beat_event
   \<Rightarrow> (beat_phase \<times> bool) \<times> 'db \<Rightarrow> ((beat_phase \<times> bool) \<times> 'db) option" where
  "heartbeat_step R render tunnel interval h (ConnectTried ok) ((Reconnecting, False), db) =
     Some (if ok then (Beating, False) else (Reconnecting, True), db)"
| "heartbeat_step R render tunnel interval h IntervalOver ((Reconnecting, True), db) =
     Some ((Reconnecting, False), db)"
| "heartbeat_step R render tunnel interval h (StopSeen net now) ((Reconnecting, True), db) =
     Some ((Stopped_beating, False), db)"
| "heartbeat_step R render tunnel interval h (Beat net server_now unix_now) ((Beating, False), db) =
     (case heartbeat_beat R render net server_now unix_now tunnel interval h db of
        (Inl _, db') \<Rightarrow> Some ((Reconnecting, False), db')
      | (Inr _, db') \<Rightarrow> Some ((Beating, True), db'))"
| "heartbeat_step R render tunnel interval h IntervalOver ((Beating, True), db) =
     Some ((Beating, False), db)"
| "heartbeat_step R render tunnel interval h (StopSeen net now) ((Beating, True), db) =
     Some ((Stopped_beating, False), heartbeat_stop R net now tunnel db)"
| "heartbeat_step R render tunnel interval h _ _ = None"

text \<open>A beat that was answered leaves the key exactly when an Edge was connected, and a heartbeat
  written at \<open>n\<close> is gone a time-to-live later, at least a minute.\<close>

lemma heartbeat_beat_exact:
  assumes "redis_strings R view"
    and "heartbeat_beat R render Delivered n u tunnel interval h db = (r, db')"
  shows "view db' (heartbeat_key tunnel) =
           (if connected_edges h = [] then None
            else Some (render u (connected_edges h), Some (n + heartbeat_ttl interval * 1000)))"
    and "is_ok r"
    and "k \<noteq> heartbeat_key tunnel \<Longrightarrow> view db' k = view db k"
  using assms(2) redis_stringsD(2,4) [OF assms(1)]
  by (auto simp: heartbeat_beat_def invoke_def Let_def is_ok_def split: if_splits)

lemma heartbeat_ttl_bounds: "60 \<le> heartbeat_ttl i" "heartbeat_ttl i < 2 ^ 64"
  by (auto simp: heartbeat_ttl_def)

lemma heartbeat_stop_deletes:
  "redis_strings R view \<Longrightarrow> view (heartbeat_stop R Delivered n tunnel db) (heartbeat_key tunnel) = None"
  by (simp add: heartbeat_stop_def invoke_def redis_stringsD(4))

end
