(* ===== verification/Std_Net.thy ===== *)
theory Std_Net
  imports Prelude
begin

text \<open>
  The part of Rust's \<open>std::net\<close> the sources rely on: IP and socket addresses, their textual
  syntax (the recursive descent parser of the standard library: at most three decimal
  digits without a leading zero per IPv4 group, at most four hexadecimal digits per IPv6
  group, one \<open>::\<close>, an embedded IPv4 tail) and \<open>IpAddr::to_canonical\<close>. A reader takes the
  remaining input and returns the value and the rest.
\<close>

datatype ip_addr = V4 "32 word" | V6 "128 word"

datatype socket_addr =
    SocketV4 (sa_v4: "32 word") (sa_port4: "16 word")
  | SocketV6 (sa_v6: "128 word") (sa_port6: "16 word") (sa_flowinfo: "32 word") (sa_scope: "32 word")

fun sa_ip :: "socket_addr \<Rightarrow> ip_addr" where
  "sa_ip (SocketV4 a _) = V4 a"
| "sa_ip (SocketV6 a _ _ _) = V6 a"

fun sa_port :: "socket_addr \<Rightarrow> 16 word" where
  "sa_port (SocketV4 _ p) = p"
| "sa_port (SocketV6 _ p _ _) = p"

definition new_socket_addr :: "ip_addr \<Rightarrow> 16 word \<Rightarrow> socket_addr" where
  "new_socket_addr ip p = (case ip of V4 a \<Rightarrow> SocketV4 a p | V6 a \<Rightarrow> SocketV6 a p 0 0)"

text \<open>\<open>to_canonical\<close> turns an IPv4-mapped IPv6 address (\<open>::ffff:a.b.c.d\<close>) into the IPv4 one.\<close>

definition to_canonical :: "ip_addr \<Rightarrow> ip_addr" where
  "to_canonical ip =
     (case ip of V4 a \<Rightarrow> V4 a
      | V6 a \<Rightarrow> if unat a div 2 ^ 32 = 0xFFFF then V4 (word_of_nat (unat a mod 2 ^ 32)) else V6 a)"

subsection \<open>Readers\<close>

type_synonym 'a reader = "string \<Rightarrow> ('a \<times> string) option"

definition to_digit :: "nat \<Rightarrow> char \<Rightarrow> nat option" where
  "to_digit radix c =
     (let b = byte_of c;
          d = (if is_ascii_digit c then Some (b - 48)
               else if 97 \<le> b \<and> b \<le> 122 then Some (b - 87)
               else if 65 \<le> b \<and> b \<le> 90 then Some (b - 55)
               else None)
      in case d of None \<Rightarrow> None | Some n \<Rightarrow> if n < radix then Some n else None)"

fun read_digits :: "nat \<Rightarrow> string \<Rightarrow> nat list \<times> string" where
  "read_digits radix [] = ([], [])"
| "read_digits radix (c # cs) =
     (case to_digit radix c of
        None \<Rightarrow> ([], c # cs)
      | Some d \<Rightarrow> let (ds, rest) = read_digits radix cs in (d # ds, rest))"

definition digits_value :: "nat \<Rightarrow> nat list \<Rightarrow> nat" where
  "digits_value radix ds = foldl (\<lambda>n d. n * radix + d) 0 ds"

definition read_number :: "nat \<Rightarrow> nat option \<Rightarrow> bool \<Rightarrow> nat \<Rightarrow> nat reader" where
  "read_number radix max_digits allow_zero_prefix bits s =
     (let (ds, rest) = read_digits radix s; n = digits_value radix ds
      in if ds = [] then None
         else if (case max_digits of None \<Rightarrow> False | Some k \<Rightarrow> length ds > k) then None
         else if \<not> allow_zero_prefix \<and> hd ds = 0 \<and> length ds > 1 then None
         else if n < 2 ^ bits then Some (n, rest) else None)"

definition read_given_char :: "char \<Rightarrow> string \<Rightarrow> string option" where
  "read_given_char c s = (case s of [] \<Rightarrow> None | x # xs \<Rightarrow> if x = c then Some xs else None)"

definition read_separator :: "char \<Rightarrow> nat \<Rightarrow> 'a reader \<Rightarrow> 'a reader" where
  "read_separator sep i f s =
     (if i > 0 then case read_given_char sep s of None \<Rightarrow> None | Some t \<Rightarrow> f t else f s)"

fun read_octets :: "nat \<Rightarrow> nat \<Rightarrow> nat list reader" where
  "read_octets 0 i s = Some ([], s)"
| "read_octets (Suc k) i s =
     (case read_separator (CHR ''.'') i (read_number 10 (Some 3) False 8) s of
        None \<Rightarrow> None
      | Some (o1, t) \<Rightarrow>
          (case read_octets k (Suc i) t of None \<Rightarrow> None | Some (os, u) \<Rightarrow> Some (o1 # os, u)))"

definition read_ipv4_octets :: "nat list reader" where
  "read_ipv4_octets s = read_octets 4 0 s"

definition read_ipv4_addr :: "32 word reader" where
  "read_ipv4_addr s =
     map_option (\<lambda>(os, t). (word_of_nat (digits_value 256 os), t)) (read_ipv4_octets s)"

fun read_groups :: "nat \<Rightarrow> nat \<Rightarrow> string \<Rightarrow> nat list \<times> bool \<times> string" where
  "read_groups 0 i s = ([], False, s)"
| "read_groups (Suc k) i s =
     (case (if k > 0 then read_separator (CHR '':'') i read_ipv4_octets s else None) of
        Some (os, t) \<Rightarrow> ([digits_value 256 (take 2 os), digits_value 256 (drop 2 os)], True, t)
      | None \<Rightarrow>
          (case read_separator (CHR '':'') i (read_number 16 (Some 4) True 16) s of
             None \<Rightarrow> ([], False, s)
           | Some (g, t) \<Rightarrow>
               (let (gs, v4, u) = read_groups k (Suc i) t in (g # gs, v4, u))))"

definition ipv6_of_groups :: "nat list \<Rightarrow> 128 word" where
  "ipv6_of_groups gs = word_of_nat (digits_value 65536 gs)"

definition read_ipv6_addr :: "128 word reader" where
  "read_ipv6_addr s =
     (let (head, head_v4, t) = read_groups 8 0 s
      in if length head = 8 then Some (ipv6_of_groups head, t)
         else if head_v4 then None
         else case read_given_char (CHR '':'') t of None \<Rightarrow> None | Some t1 \<Rightarrow>
           (case read_given_char (CHR '':'') t1 of None \<Rightarrow> None | Some t2 \<Rightarrow>
             (let (tail, _, u) = read_groups (8 - (length head + 1)) 0 t2
              in Some (ipv6_of_groups (head @ replicate (8 - length head - length tail) 0 @ tail), u))))"

definition read_ip_addr :: "ip_addr reader" where
  "read_ip_addr s =
     (case read_ipv4_addr s of
        Some (a, t) \<Rightarrow> Some (V4 a, t)
      | None \<Rightarrow> map_option (\<lambda>(a, t). (V6 a, t)) (read_ipv6_addr s))"

definition read_port :: "16 word reader" where
  "read_port s =
     (case read_given_char (CHR '':'') s of None \<Rightarrow> None
      | Some t \<Rightarrow> map_option (\<lambda>(n, u). (word_of_nat n, u)) (read_number 10 None True 16 t))"

definition read_scope_id :: "32 word reader" where
  "read_scope_id s =
     (case read_given_char (CHR ''%'') s of None \<Rightarrow> None
      | Some t \<Rightarrow> map_option (\<lambda>(n, u). (word_of_nat n, u)) (read_number 10 None True 32 t))"

definition read_socket_addr_v4 :: "socket_addr reader" where
  "read_socket_addr_v4 s =
     (case read_ipv4_addr s of None \<Rightarrow> None
      | Some (a, t) \<Rightarrow> map_option (\<lambda>(p, u). (SocketV4 a p, u)) (read_port t))"

definition read_socket_addr_v6 :: "socket_addr reader" where
  "read_socket_addr_v6 s =
     (case read_given_char (CHR ''['') s of None \<Rightarrow> None | Some t1 \<Rightarrow>
      (case read_ipv6_addr t1 of None \<Rightarrow> None | Some (a, t2) \<Rightarrow>
       (let (scope, t3) = (case read_scope_id t2 of Some r \<Rightarrow> r | None \<Rightarrow> (0, t2))
        in case read_given_char (CHR '']'') t3 of None \<Rightarrow> None
           | Some t4 \<Rightarrow> map_option (\<lambda>(p, u). (SocketV6 a p 0 scope, u)) (read_port t4))))"

definition parse_with :: "'a reader \<Rightarrow> string \<Rightarrow> 'a option" where
  "parse_with f s = (case f s of Some (x, []) \<Rightarrow> Some x | _ \<Rightarrow> None)"

definition parse_ip_addr :: "string \<Rightarrow> ip_addr option" where
  "parse_ip_addr s = parse_with read_ip_addr s"

definition parse_socket_addr :: "string \<Rightarrow> socket_addr option" where
  "parse_socket_addr s =
     parse_with (\<lambda>s. case read_socket_addr_v4 s of Some r \<Rightarrow> Some r | None \<Rightarrow> read_socket_addr_v6 s) s"

subsection \<open>Printing IPv4 addresses\<close>

definition ipv4_octets :: "32 word \<Rightarrow> nat list" where
  "ipv4_octets a = map (\<lambda>i. unat a div 256 ^ i mod 256) [3, 2, 1, 0]"

definition show_ipv4 :: "32 word \<Rightarrow> string" where
  "show_ipv4 a = join_with (CHR ''.'') (map show_nat (ipv4_octets a))"

definition show_socket_v4 :: "32 word \<Rightarrow> 16 word \<Rightarrow> string" where
  "show_socket_v4 a p = show_ipv4 a @ CHR '':'' # show_nat (unat p)"

subsection \<open>An IPv4 socket address is read back\<close>

lemma to_digit_decimal: "is_ascii_digit c \<Longrightarrow> to_digit 10 c = Some (digit_val c)"
  by (auto simp: to_digit_def digit_val_def is_ascii_digit_def Let_def)

lemma to_digit_None: "byte_of c < 48 \<or> byte_of c = 58 \<Longrightarrow> to_digit 10 c = None"
  by (auto simp: to_digit_def is_ascii_digit_def Let_def)

text \<open>The input left after a number: empty, or a character that ends it.\<close>

definition ends_number :: "string \<Rightarrow> bool" where
  "ends_number s \<longleftrightarrow> (s = [] \<or> byte_of (hd s) < 48 \<or> byte_of (hd s) = 58)"

lemma ends_number_simps [simp]:
  "ends_number []" "ends_number (CHR ''.'' # s)" "ends_number (CHR '':'' # s)"
  by (simp_all add: ends_number_def byte_of_def)

lemma read_digits_decimal:
  "list_all is_ascii_digit s \<Longrightarrow> ends_number rest
   \<Longrightarrow> read_digits 10 (s @ rest) = (map digit_val s, rest)"
proof (induction s)
  case Nil
  then show ?case by (cases rest) (auto simp: ends_number_def to_digit_None)
qed (simp add: to_digit_decimal)

lemma digits_value_decimal: "digits_value 10 (map digit_val s) = dec_value s"
  by (simp add: digits_value_def dec_value_def foldl_map mult.commute)

lemma length_show_nat: "n < 10 ^ Suc k \<Longrightarrow> length (show_nat n) \<le> Suc k"
proof (induction k arbitrary: n)
  case 0
  then show ?case by (simp add: show_nat.simps [of n])
next
  case (Suc k)
  then have "n div 10 < 10 ^ Suc k" by (simp add: less_mult_imp_div_less mult.commute)
  then have "length (show_nat (n div 10)) \<le> Suc k" by (rule Suc.IH)
  then show ?case by (simp add: show_nat.simps [of n])
qed

lemma hd_show_nat: "10 \<le> n \<Longrightarrow> digit_val (hd (show_nat n)) \<noteq> 0"
proof (induction n rule: show_nat.induct)
  case (1 n)
  then have split: "show_nat n = show_nat (n div 10) @ [char_of (48 + n mod 10)]"
    by (simp add: show_nat.simps [of n])
  show ?case
  proof (cases "n div 10 < 10")
    case True
    then have "show_nat (n div 10) = [char_of (48 + n div 10)]"
      by (simp add: show_nat.simps [of "n div 10"])
    moreover have "n div 10 \<noteq> 0" using 1(2) by simp
    ultimately show ?thesis using True split by (simp add: digit_val_char)
  next
    case False
    with 1 have "digit_val (hd (show_nat (n div 10))) \<noteq> 0" by simp
    with split show ?thesis by simp
  qed
qed

lemma show_nat_small: "n < 10 \<Longrightarrow> length (show_nat n) = 1"
  by (simp add: show_nat.simps [of n])

lemma read_number_show_nat:
  assumes "n < 2 ^ bits" "ends_number rest"
    and "\<And>k. max_digits = Some k \<Longrightarrow> length (show_nat n) \<le> k"
  shows "read_number 10 max_digits allow bits (show_nat n @ rest) = Some (n, rest)"
proof -
  have zero: "\<not> (hd (map digit_val (show_nat n)) = 0 \<and> length (show_nat n) > 1)"
    using hd_show_nat [of n] show_nat_small [of n] by (cases "n < 10") (auto simp: hd_map)
  show ?thesis
    using assms zero read_digits_decimal [OF show_nat_digits assms(2), of n]
      digits_value_decimal [of "show_nat n"]
    by (cases max_digits) (auto simp: read_number_def)
qed

lemma read_octet: "n < 256 \<Longrightarrow> ends_number rest
    \<Longrightarrow> read_number 10 (Some 3) False 8 (show_nat n @ rest) = Some (n, rest)"
  using length_show_nat [of n 2] by (intro read_number_show_nat) auto

lemma base_256: "((n div 16777216 * 256 + n div 65536 mod 256) * 256 + n div 256 mod 256) * 256
    + n mod 256 = (n :: nat)"
proof -
  have "n div 16777216 = n div 65536 div 256" "n div 65536 = n div 256 div 256"
    by (simp_all add: div_mult2_eq [symmetric])
  then show ?thesis by (metis div_mult_mod_eq)
qed

lemma digits_value_octets: "digits_value 256 (ipv4_octets a) = unat a"
proof -
  have "unat a < 4294967296" using unat_lt [of a] by simp
  then have "unat a div 16777216 mod 256 = unat a div 16777216" by simp
  then show ?thesis
    using base_256 [of "unat a"] by (simp add: digits_value_def ipv4_octets_def)
qed

lemma read_ipv4_show:
  assumes "ends_number rest"
  shows "read_ipv4_addr (show_ipv4 a @ rest) = Some (a, rest)"
proof -
  obtain w x y z where o4: "ipv4_octets a = [w, x, y, z]"
    by (simp add: ipv4_octets_def)
  have "w < 256" "x < 256" "y < 256" "z < 256"
    using o4 by (auto simp: ipv4_octets_def)
  then have "read_octets (Suc (Suc (Suc (Suc 0)))) 0 (show_ipv4 a @ rest)
             = Some ([w, x, y, z], rest)"
    using assms
    by (simp add: show_ipv4_def o4 read_separator_def read_given_char_def read_octet)
  then have "read_octets 4 0 (show_ipv4 a @ rest) = Some ([w, x, y, z], rest)"
    by (simp add: eval_nat_numeral)
  then show ?thesis
    using digits_value_octets [of a] o4
    by (simp add: read_ipv4_addr_def read_ipv4_octets_def)
qed

lemma parse_socket_v4_show: "parse_socket_addr (show_socket_v4 a p) = Some (SocketV4 a p)"
proof -
  have "read_number 10 None True 16 (show_nat (unat p) @ []) = Some (unat p, [])"
    using unat_lt [of p] by (intro read_number_show_nat) auto
  then have "read_port (CHR '':'' # show_nat (unat p)) = Some (p, [])"
    by (simp add: read_port_def read_given_char_def)
  then show ?thesis
    using read_ipv4_show [of "CHR '':'' # show_nat (unat p)" a]
    by (simp add: parse_socket_addr_def parse_with_def read_socket_addr_v4_def show_socket_v4_def)
qed

end
