(* ===== verification/Common.thy ===== *)
theory Common
  imports Std_Net
begin

text \<open>
  Types every part of the system shares (\<open>sievetube-common/src/config.rs\<close> and \<open>error.rs\<close>):
  the forwarded protocols, ingress rules and their targets.
\<close>

datatype protocol = Http | Tcp | Udp

fun protocol_to_string :: "protocol \<Rightarrow> string" where
  "protocol_to_string Http = ''http''"
| "protocol_to_string Tcp = ''tcp''"
| "protocol_to_string Udp = ''udp''"

text \<open>\<open>Protocol::from_str\<close>. No character outside ASCII has one of the letters of the three
  names as its lower case, so lower-casing the ASCII letters decides the same strings.\<close>

definition protocol_from_str :: "string \<Rightarrow> protocol option" where
  "protocol_from_str s =
     (let l = to_ascii_lowercase s
      in if l = ''http'' then Some Http
         else if l = ''tcp'' then Some Tcp
         else if l = ''udp'' then Some Udp
         else None)"

record ingress_rule =
  ir_hostname :: "string option"
  ir_protocol :: "protocol option"
  ir_target :: string

datatype target = Address socket_addr | HttpStatus "16 word"

datatype target_error = InvalidStatusCode | InvalidSocketAddress

definition target_parse :: "string \<Rightarrow> (target_error, target) result" where
  "target_parse s =
     (case strip_prefix ''http_status:'' s of
        Some code_str \<Rightarrow>
          (case parse_uint 16 code_str of
             Some n \<Rightarrow> Inr (HttpStatus (word_of_nat n))
           | None \<Rightarrow> Inl InvalidStatusCode)
      | None \<Rightarrow>
          (case parse_socket_addr s of
             Some a \<Rightarrow> Inr (Address a)
           | None \<Rightarrow> Inl InvalidSocketAddress))"

text \<open>QUIC application error codes.\<close>

definition AUTH_FAILED :: "32 word" where "AUTH_FAILED = 1"
definition NO_ROUTE :: "32 word" where "NO_ROUTE = 2"
definition INTERNAL :: "32 word" where "INTERNAL = 3"
definition GOING_AWAY :: "32 word" where "GOING_AWAY = 4"
definition REPLACED :: "32 word" where "REPLACED = 5"

lemmas app_error_defs = AUTH_FAILED_def NO_ROUTE_def INTERNAL_def GOING_AWAY_def REPLACED_def

lemma protocol_from_to [simp]: "protocol_from_str (protocol_to_string p) = Some p"
  by (cases p) (simp_all add: protocol_from_str_def to_ascii_lowercase_def ascii_lower_def ascii_defs)

lemma show_ipv4_no_status: "strip_prefix ''http_status:'' (show_socket_v4 a p) = None"
proof -
  obtain c cs where c: "show_nat (hd (ipv4_octets a)) = c # cs"
    by (cases "show_nat (hd (ipv4_octets a))") auto
  then have "is_ascii_digit c" using show_nat_digits [of "hd (ipv4_octets a)"] by simp
  then have "c \<noteq> CHR ''h''" by (auto simp: ascii_defs)
  moreover have "\<exists>t. show_socket_v4 a p = c # t"
    using c by (simp add: show_socket_v4_def show_ipv4_def ipv4_octets_def)
  ultimately show ?thesis by auto
qed

end
