(* ===== verification/Connector_Registry.thy ===== *)
theory Connector_Registry
  imports Table Common
begin

text \<open>
  The registry of connected Connectors (\<open>sievetube-edge/src/connector_registry.rs\<close>): two
  indexes, by hostname and by tenant, that registration and removal keep together under a
  write lock, so each operation is one step. The QUIC connection of a handle is an opaque
  value and \<open>ch_udp_reply_map\<close> names the table of pending UDP requests the handle shares with
  its reader. The abstract specification is the map from tenants to their current handle;
  \<open>reg_inv\<close> says that the hostname index is exactly what that map determines.
\<close>

subsection \<open>State and operations\<close>

record 'c connector_handle =
  ch_tenant_id :: string
  ch_hostnames :: "string list"
  ch_services :: "(string, protocol list) table option"
  ch_connection :: 'c
  ch_connected_at :: nat
  ch_udp_reply_map :: nat
  ch_generation :: "64 word"

definition supports :: "'c connector_handle \<Rightarrow> string \<Rightarrow> protocol \<Rightarrow> bool" where
  "supports h hostname protocol =
     (case ch_services h of
        None \<Rightarrow> list_ex (\<lambda>x. x = hostname) (ch_hostnames h)
      | Some services \<Rightarrow>
          (case map_of services hostname of
             None \<Rightarrow> False
           | Some protocols \<Rightarrow> protocol \<in> set protocols))"

record 'c registered =
  rd_handle :: "'c connector_handle"
  rd_replaced :: "'c connector_handle option"

record 'c registration =
  rg_tenant_id :: string
  rg_hostnames :: "string list"
  rg_services :: "(string, protocol list) table option"
  rg_connection :: 'c
  rg_udp_reply_map :: nat

record 'c registry =
  by_hostname :: "(string, 'c connector_handle) table"
  by_tenant :: "(string, 'c connector_handle) table"
  next_generation :: "64 word"
  active_quic_connections :: int

definition new_registry :: "'c registry" where
  "new_registry = \<lparr>by_hostname = [], by_tenant = [], next_generation = 0, active_quic_connections = 0\<rparr>"

text \<open>The first hostname served by another tenant, if any.\<close>

definition taken_hostname :: "'c registration \<Rightarrow> 'c registry \<Rightarrow> string option" where
  "taken_hostname rg r =
     find (\<lambda>x. case map_of (by_hostname r) x of
                 None \<Rightarrow> False | Some e \<Rightarrow> ch_tenant_id e \<noteq> rg_tenant_id rg)
       (rg_hostnames rg)"

definition new_handle :: "nat \<Rightarrow> 64 word \<Rightarrow> 'c registration \<Rightarrow> 'c connector_handle" where
  "new_handle now generation rg =
     \<lparr>ch_tenant_id = rg_tenant_id rg, ch_hostnames = rg_hostnames rg, ch_services = rg_services rg,
      ch_connection = rg_connection rg, ch_connected_at = now,
      ch_udp_reply_map = rg_udp_reply_map rg, ch_generation = generation\<rparr>"

definition register ::
  "nat \<Rightarrow> 'c registration \<Rightarrow> 'c registry \<Rightarrow> (string, 'c registered) result \<times> 'c registry" where
  "register now rg r =
     (case taken_hostname rg r of
        Some x \<Rightarrow> (Inl x, r)
      | None \<Rightarrow>
          (let generation = next_generation r + 1;
               handle = new_handle now generation rg;
               replaced = map_of (by_tenant r) (ch_tenant_id handle);
               hostnames1 = (case replaced of
                  Some previous \<Rightarrow>
                    remove_all_if (ch_hostnames previous)
                      (\<lambda>h. ch_generation h = ch_generation previous) (by_hostname r)
                | None \<Rightarrow> by_hostname r);
               active = (case replaced of
                  Some _ \<Rightarrow> active_quic_connections r
                | None \<Rightarrow> active_quic_connections r + 1)
           in (Inr \<lparr>rd_handle = handle, rd_replaced = replaced\<rparr>,
               \<lparr>by_hostname = insert_all (ch_hostnames handle) handle hostnames1,
                by_tenant = t_insert (ch_tenant_id handle) handle (by_tenant r),
                next_generation = generation,
                active_quic_connections = active\<rparr>)))"

definition remove :: "string \<Rightarrow> 64 word \<Rightarrow> 'c registry \<Rightarrow> bool \<times> 'c registry" where
  "remove tenant_id generation r =
     (case map_of (by_tenant r) tenant_id of
        None \<Rightarrow> (False, r)
      | Some handle \<Rightarrow>
          if ch_generation handle \<noteq> generation then (False, r)
          else (True,
                r\<lparr>by_tenant := t_remove_if tenant_id (\<lambda>h. ch_generation h = generation) (by_tenant r),
                  by_hostname := remove_all_if (ch_hostnames handle)
                    (\<lambda>h. ch_generation h = generation) (by_hostname r),
                  active_quic_connections := active_quic_connections r - 1\<rparr>))"

definition get_by_hostname :: "'c registry \<Rightarrow> string \<Rightarrow> 'c connector_handle option" where
  "get_by_hostname r hostname = map_of (by_hostname r) hostname"

definition reg_len :: "'c registry \<Rightarrow> nat" where
  "reg_len r = t_len (by_tenant r)"

definition snapshot :: "'c registry \<Rightarrow> 'c connector_handle list" where
  "snapshot r = t_values (by_tenant r)"

subsection \<open>Specification\<close>

text \<open>The abstract state: the current handle of every connected tenant. A hostname is served
  by the tenant whose current handle lists it.\<close>

definition reg_abs :: "'c registry \<Rightarrow> string \<Rightarrow> 'c connector_handle option" where
  "reg_abs r = map_of (by_tenant r)"

definition conflicts ::
  "'c registration \<Rightarrow> (string \<Rightarrow> 'c connector_handle option) \<Rightarrow> bool" where
  "conflicts rg a \<longleftrightarrow>
     (\<exists>t h x. a t = Some h \<and> t \<noteq> rg_tenant_id rg
        \<and> x \<in> set (ch_hostnames h) \<and> x \<in> set (rg_hostnames rg))"

definition reg_inv :: "'c registry \<Rightarrow> bool" where
  "reg_inv r \<longleftrightarrow>
     wf_table (by_hostname r) \<and> wf_table (by_tenant r)
     \<and> (\<forall>t h. map_of (by_tenant r) t = Some h \<longrightarrow> ch_tenant_id h = t)
     \<and> (\<forall>x h. map_of (by_hostname r) x = Some h \<longleftrightarrow>
            (\<exists>t. map_of (by_tenant r) t = Some h) \<and> x \<in> set (ch_hostnames h))
     \<and> active_quic_connections r = int (t_len (by_tenant r))"

subsection \<open>Facts on the invariant\<close>

lemma reg_invD:
  assumes "reg_inv r"
  shows "wf_table (by_hostname r)" "wf_table (by_tenant r)"
    and "map_of (by_tenant r) t = Some h \<Longrightarrow> ch_tenant_id h = t"
    and "map_of (by_hostname r) x = Some h \<longleftrightarrow>
           map_of (by_tenant r) (ch_tenant_id h) = Some h \<and> x \<in> set (ch_hostnames h)"
    and "active_quic_connections r = int (t_len (by_tenant r))"
  using assms unfolding reg_inv_def by blast+

lemma reg_invI:
  assumes "wf_table (by_hostname r)" "wf_table (by_tenant r)"
    and "\<And>t h. map_of (by_tenant r) t = Some h \<Longrightarrow> ch_tenant_id h = t"
    and "\<And>x h. map_of (by_hostname r) x = Some h \<longleftrightarrow>
           map_of (by_tenant r) (ch_tenant_id h) = Some h \<and> x \<in> set (ch_hostnames h)"
    and "active_quic_connections r = int (t_len (by_tenant r))"
  shows "reg_inv r"
proof -
  have "(\<exists>t. map_of (by_tenant r) t = Some h) \<longleftrightarrow> map_of (by_tenant r) (ch_tenant_id h) = Some h" for h
    using assms(3) by blast
  then show ?thesis
    unfolding reg_inv_def assms(4) using assms(1,2,3,5) by blast
qed

lemma new_registry_inv [simp]: "reg_inv new_registry"
  by (simp add: reg_inv_def new_registry_def t_len_def)

lemma taken_hostname_None:
  "taken_hostname rg r = None \<longleftrightarrow>
     (\<forall>x \<in> set (rg_hostnames rg). \<forall>e. map_of (by_hostname r) x = Some e
        \<longrightarrow> ch_tenant_id e = rg_tenant_id rg)"
  unfolding taken_hostname_def find_None_iff by (auto split: option.splits)

lemma taken_hostname_Some:
  "taken_hostname rg r = Some x \<Longrightarrow>
     x \<in> set (rg_hostnames rg)
     \<and> (\<exists>e. map_of (by_hostname r) x = Some e \<and> ch_tenant_id e \<noteq> rg_tenant_id rg)"
  unfolding taken_hostname_def find_Some_iff by (auto split: option.splits)

lemma taken_hostname_conflicts:
  assumes "reg_inv r"
  shows "taken_hostname rg r = None \<longleftrightarrow> \<not> conflicts rg (reg_abs r)"
proof
  assume "taken_hostname rg r = None"
  then have free: "ch_tenant_id h = rg_tenant_id rg"
    if "x \<in> set (rg_hostnames rg)" "map_of (by_hostname r) x = Some h" for x h
    using that unfolding taken_hostname_None by blast
  have "t = rg_tenant_id rg"
    if "map_of (by_tenant r) t = Some h" "x \<in> set (ch_hostnames h)" "x \<in> set (rg_hostnames rg)"
    for t h x
    using free [OF that(3), of h] reg_invD(3) [OF assms that(1)] reg_invD(4) [OF assms, of x h] that
    by simp
  then show "\<not> conflicts rg (reg_abs r)" unfolding conflicts_def reg_abs_def by blast
next
  assume "\<not> conflicts rg (reg_abs r)"
  then show "taken_hostname rg r = None"
    unfolding conflicts_def reg_abs_def taken_hostname_None reg_invD(4) [OF assms] by blast
qed

text \<open>Dropping the hostnames of a tenant's current handle leaves the other tenants' entries.\<close>

lemma drop_current:
  assumes inv: "reg_inv r" and cur: "map_of (by_tenant r) t = Some p"
  shows "map_of (remove_all_if (ch_hostnames p) (\<lambda>h. ch_generation h = ch_generation p)
           (by_hostname r)) x = Some h
         \<longleftrightarrow> ch_tenant_id h \<noteq> t \<and> map_of (by_tenant r) (ch_tenant_id h) = Some h
             \<and> x \<in> set (ch_hostnames h)"
proof -
  note look = reg_invD(4) [OF inv]
  have t: "ch_tenant_id p = t" using reg_invD(3) [OF inv cur] .
  have "h = p" if "map_of (by_hostname r) x = Some h" "x \<in> set (ch_hostnames p)"
    using look [of x p] that cur t by simp
  moreover have "h = p" if "map_of (by_hostname r) x = Some h" "ch_tenant_id h = t"
    using look [of x h] that cur by simp
  ultimately show ?thesis
    using look [of x h] t reg_invD(1) [OF inv]
    by (auto simp: t_get_remove_all_if split: option.splits)
qed

lemma keep_others:
  assumes inv: "reg_inv r" and cur: "map_of (by_tenant r) t = None"
  shows "map_of (by_hostname r) x = Some h
         \<longleftrightarrow> ch_tenant_id h \<noteq> t \<and> map_of (by_tenant r) (ch_tenant_id h) = Some h
             \<and> x \<in> set (ch_hostnames h)"
  using reg_invD(4) [OF inv, of x h] cur by auto

lemma register_state:
  assumes "register now rg r = (Inr d, r')"
  shows "taken_hostname rg r = None"
    and "rd_handle d = new_handle now (next_generation r + 1) rg"
    and "rd_replaced d = map_of (by_tenant r) (rg_tenant_id rg)"
    and "by_tenant r' = t_insert (rg_tenant_id rg) (rd_handle d) (by_tenant r)"
    and "next_generation r' = next_generation r + 1"
    and "by_hostname r' = insert_all (rg_hostnames rg) (rd_handle d)
           (case map_of (by_tenant r) (rg_tenant_id rg) of
              Some p \<Rightarrow> remove_all_if (ch_hostnames p) (\<lambda>h. ch_generation h = ch_generation p) (by_hostname r)
            | None \<Rightarrow> by_hostname r)"
    and "active_quic_connections r' =
           (case map_of (by_tenant r) (rg_tenant_id rg) of
              Some _ \<Rightarrow> active_quic_connections r | None \<Rightarrow> active_quic_connections r + 1)"
  using assms
  by (auto simp: register_def new_handle_def Let_def split: option.splits)

lemma register_inv:
  assumes inv: "reg_inv r" and reg: "register now rg r = (Inr d, r')"
  shows "reg_inv r'"
proof (rule reg_invI)
  note st = register_state [OF reg]
  let ?t = "rg_tenant_id rg" and ?h = "rd_handle d"
  have h: "ch_tenant_id ?h = ?t" "ch_hostnames ?h = rg_hostnames rg"
    by (simp_all add: st(2) new_handle_def)
  show "wf_table (by_hostname r')"
    using reg_invD(1) [OF inv] by (simp add: st(6) split: option.splits)
  show "wf_table (by_tenant r')"
    using reg_invD(2) [OF inv] by (simp add: st(4))
  show "ch_tenant_id g = t" if "map_of (by_tenant r') t = Some g" for t g
    using that h reg_invD(3) [OF inv] by (auto simp: st(4) tab_simps split: if_splits)
  show "active_quic_connections r' = int (t_len (by_tenant r'))"
    using reg_invD(2,5) [OF inv] by (auto simp: st(4,7) t_len_insert split: option.splits)
  fix x g
  have others: "map_of (case map_of (by_tenant r) ?t of
         Some p \<Rightarrow> remove_all_if (ch_hostnames p) (\<lambda>h. ch_generation h = ch_generation p) (by_hostname r)
       | None \<Rightarrow> by_hostname r) x = Some g
       \<longleftrightarrow> ch_tenant_id g \<noteq> ?t \<and> map_of (by_tenant r) (ch_tenant_id g) = Some g \<and> x \<in> set (ch_hostnames g)"
    using drop_current [OF inv] keep_others [OF inv] by (simp split: option.split)
  have free: "ch_tenant_id g = ?t"
    if "x \<in> set (rg_hostnames rg)" "map_of (by_tenant r) (ch_tenant_id g) = Some g" "x \<in> set (ch_hostnames g)"
    using that reg_invD(4) [OF inv, of x g] st(1) unfolding taken_hostname_None by blast
  show "map_of (by_hostname r') x = Some g \<longleftrightarrow>
        map_of (by_tenant r') (ch_tenant_id g) = Some g \<and> x \<in> set (ch_hostnames g)"
    using others free h by (auto simp: st(4,6) tab_simps)
qed

lemma remove_inv:
  assumes inv: "reg_inv r" and rem: "remove t g r = (b, r')"
  shows "reg_inv r'"
proof (cases b)
  case False
  with rem have "r' = r" by (auto simp: remove_def split: option.splits if_splits)
  with inv show ?thesis by simp
next
  case True
  with rem obtain p where p: "map_of (by_tenant r) t = Some p" "ch_generation p = g"
    and r': "r' = r\<lparr>by_tenant := t_remove_if t (\<lambda>h. ch_generation h = g) (by_tenant r),
                    by_hostname := remove_all_if (ch_hostnames p) (\<lambda>h. ch_generation h = g) (by_hostname r),
                    active_quic_connections := active_quic_connections r - 1\<rparr>"
    by (auto simp: remove_def split: option.splits if_splits)
  have bt: "map_of (by_tenant r') k = (if k = t then None else map_of (by_tenant r) k)" for k
    using reg_invD(2) [OF inv] p by (auto simp: r' tab_simps split: option.splits)
  show ?thesis
  proof (rule reg_invI)
    show "wf_table (by_hostname r')" "wf_table (by_tenant r')"
      using reg_invD(1,2) [OF inv] by (simp_all add: r')
    show "ch_tenant_id h = k" if "map_of (by_tenant r') k = Some h" for k h
      using that reg_invD(3) [OF inv] bt by (auto split: if_splits)
    show "active_quic_connections r' = int (t_len (by_tenant r'))"
      using reg_invD(2,5) [OF inv] t_len_remove_if [OF reg_invD(2) [OF inv] p(1), of "\<lambda>h. ch_generation h = g"] p(2)
      by (simp add: r')
    show "map_of (by_hostname r') x = Some h \<longleftrightarrow>
          map_of (by_tenant r') (ch_tenant_id h) = Some h \<and> x \<in> set (ch_hostnames h)" for x h
      using drop_current [OF inv p(1), of x h] p(2) bt by (auto simp: r')
  qed
qed

subsection \<open>The directory contract\<close>

text \<open>What the router and the route advertisements rely on: a lookup finds exactly the current
  handle that lists the hostname, and an owner has one current handle. So no hostname is
  ever shared between owners.\<close>

locale hostname_directory =
  fixes inv :: "'s \<Rightarrow> bool"
    and lookup :: "'s \<Rightarrow> string \<Rightarrow> 'h option"
    and current :: "'s \<Rightarrow> 'h \<Rightarrow> bool"
    and names :: "'h \<Rightarrow> string set"
    and owner :: "'h \<Rightarrow> string"
  assumes lookup_iff: "inv s \<Longrightarrow> lookup s x = Some h \<longleftrightarrow> current s h \<and> x \<in> names h"
    and one_per_owner: "inv s \<Longrightarrow> current s h \<Longrightarrow> current s h' \<Longrightarrow> owner h = owner h' \<Longrightarrow> h = h'"
begin

lemma exclusive:
  assumes "inv s" "current s h" "current s h'" "x \<in> names h" "x \<in> names h'"
  shows "h = h'"
proof -
  have "lookup s x = Some h" "lookup s x = Some h'"
    using assms by (simp_all add: lookup_iff)
  then show ?thesis by simp
qed

lemma lookup_None: "inv s \<Longrightarrow> lookup s x = None \<longleftrightarrow> (\<forall>h. current s h \<longrightarrow> x \<notin> names h)"
  using lookup_iff [of s x] by (metis not_None_eq)

lemma lookup_determined:
  assumes "inv s" "inv s'" "\<And>h. x \<in> names h \<Longrightarrow> current s h \<longleftrightarrow> current s' h"
  shows "lookup s x = lookup s' x"
  using lookup_iff [OF assms(1), of x] lookup_iff [OF assms(2), of x] assms(3)
  by (metis not_None_eq)

end

interpretation rd: hostname_directory
  reg_inv get_by_hostname "\<lambda>r h. h \<in> set (snapshot r)" "\<lambda>h. set (ch_hostnames h)" ch_tenant_id
proof
  fix r :: "'c registry" and x h h'
  assume inv: "reg_inv r"
  have snap: "g \<in> set (snapshot r) \<longleftrightarrow> map_of (by_tenant r) (ch_tenant_id g) = Some g" for g
    using reg_invD(2,3) [OF inv] unfolding snapshot_def by (auto simp: t_values_iff)
  show "get_by_hostname r x = Some h \<longleftrightarrow> h \<in> set (snapshot r) \<and> x \<in> set (ch_hostnames h)"
    using reg_invD(4) [OF inv] snap by (simp add: get_by_hostname_def)
  show "h = h'" if "h \<in> set (snapshot r)" "h' \<in> set (snapshot r)" "ch_tenant_id h = ch_tenant_id h'"
    using that snap by simp
qed

lemma snapshot_iff: "reg_inv r \<Longrightarrow> h \<in> set (snapshot r) \<longleftrightarrow> (\<exists>t. reg_abs r t = Some h)"
  by (simp add: snapshot_def reg_abs_def t_values_iff reg_invD(2))

subsection \<open>Runs\<close>

text \<open>A run of the registry with the handles it has issued, newest first. Generations are
  64-bit; a run is followed as long as the counter has not wrapped around.\<close>

inductive reg_run :: "'c registry \<Rightarrow> 'c connector_handle list \<Rightarrow> bool" where
  start: "reg_run new_registry []"
| registers: "reg_run r hs \<Longrightarrow> length hs < 2 ^ 64 - 1 \<Longrightarrow> register now rg r = (Inr d, r')
    \<Longrightarrow> reg_run r' (rd_handle d # hs)"
| refuses: "reg_run r hs \<Longrightarrow> register now rg r = (Inl e, r') \<Longrightarrow> reg_run r' hs"
| removes: "reg_run r hs \<Longrightarrow> remove t g r = (b, r') \<Longrightarrow> reg_run r' hs"

lemma register_refused: "register now rg r = (Inl e, r') \<Longrightarrow> r' = r"
  by (auto simp: register_def Let_def split: option.splits)

lemma remove_keeps:
  assumes "remove t g r = (b, r')"
  shows "next_generation r' = next_generation r"
    and "reg_inv r \<Longrightarrow> map_of (by_tenant r') k = Some h \<Longrightarrow> map_of (by_tenant r) k = Some h"
  using assms reg_invD(2) [of r]
  by (auto simp: remove_def tab_simps split: option.splits if_splits)

definition issued_ok :: "'c registry \<Rightarrow> 'c connector_handle list \<Rightarrow> bool" where
  "issued_ok r hs \<longleftrightarrow>
     length hs < 2 ^ 64 \<and> unat (next_generation r) = length hs
     \<and> (\<forall>h \<in> set hs. unat (ch_generation h) \<le> length hs)
     \<and> distinct (map ch_generation hs)
     \<and> (\<forall>t h. map_of (by_tenant r) t = Some h \<longrightarrow> h \<in> set hs)"

lemma issued_ok_register:
  assumes "issued_ok r hs" "length hs < 2 ^ 64 - 1" "register now rg r = (Inr d, r')"
  shows "issued_ok r' (rd_handle d # hs)"
proof -
  note st = register_state [OF assms(3)]
  have "unat (next_generation r + 1) = Suc (length hs)"
    using assms(1,2) by (simp add: issued_ok_def unat_word_ariths)
  moreover have "ch_generation (rd_handle d) = next_generation r + 1"
    by (simp add: st(2) new_handle_def)
  moreover have "ch_generation (rd_handle d) \<noteq> ch_generation h" if "h \<in> set hs" for h
    using that assms(1) calculation unfolding issued_ok_def by (metis Suc_n_not_le_n)
  ultimately show ?thesis
    using assms(1,2) by (auto simp: issued_ok_def st(4,5) tab_simps split: if_splits)
qed

lemma reg_run_ok: "reg_run r hs \<Longrightarrow> reg_inv r \<and> issued_ok r hs"
proof (induction rule: reg_run.induct)
  case start
  then show ?case by (simp add: issued_ok_def new_registry_def reg_inv_def t_len_def)
next
  case (registers r hs now rg d r')
  then show ?case using register_inv issued_ok_register by blast
next
  case (refuses r hs now rg e r')
  then show ?case using register_refused by blast
next
  case (removes r hs t g b r')
  then have "issued_ok r' hs"
    using remove_keeps [OF removes.hyps(2)] unfolding issued_ok_def by metis
  with removes show ?case using remove_inv by blast
qed

subsection \<open>Properties\<close>

definition sample_registration :: "string \<Rightarrow> string list \<Rightarrow> unit registration" where
  "sample_registration t hs =
     \<lparr>rg_tenant_id = t, rg_hostnames = hs, rg_services = None, rg_connection = (),
      rg_udp_reply_map = 0\<rparr>"

definition sample_registry :: "unit registry" where
  "sample_registry = snd (register 5 (sample_registration ''t'' [''a.example.com'']) new_registry)"

definition sample_registry2 :: "unit registry" where
  "sample_registry2 = snd (register 2 (sample_registration ''t'' [''b.example.com'']) sample_registry)"

lemma rg_tenant_sample: "rg_tenant_id (sample_registration t hs) = t"
  by (simp add: sample_registration_def)

lemma sample_registers:
  "register 5 (sample_registration ''t'' [''a.example.com'']) new_registry
     = (Inr \<lparr>rd_handle = new_handle 5 1 (sample_registration ''t'' [''a.example.com'']),
             rd_replaced = None\<rparr>, sample_registry)"
  "register 2 (sample_registration ''t'' [''b.example.com'']) sample_registry
     = (Inr \<lparr>rd_handle = new_handle 2 2 (sample_registration ''t'' [''b.example.com'']),
             rd_replaced = Some (new_handle 5 1 (sample_registration ''t'' [''a.example.com'']))\<rparr>,
        sample_registry2)"
  by (simp_all add: sample_registry_def sample_registry2_def register_def taken_hostname_def
      sample_registration_def new_registry_def new_handle_def t_insert_def insert_all_def
      remove_all_if_def t_remove_if_def t_retain_def Let_def)

lemma sample_run:
  "reg_run sample_registry2
     [new_handle 2 2 (sample_registration ''t'' [''b.example.com'']),
      new_handle 5 1 (sample_registration ''t'' [''a.example.com''])]"
  using reg_run.registers [OF reg_run.registers [OF reg_run.start _ sample_registers(1)] _
      sample_registers(2)]
  by simp

lemma sample_tenant:
  "map_of (by_tenant sample_registry2) ''t''
     = Some (new_handle 2 2 (sample_registration ''t'' [''b.example.com'']))"
  by (simp add: sample_registry_def sample_registry2_def register_def taken_hostname_def
      sample_registration_def new_registry_def new_handle_def t_insert_def insert_all_def
      remove_all_if_def t_remove_if_def t_retain_def Let_def)

text \<open>C1. The registry implements its specification, the map from tenants to their current
  handle: registration succeeds exactly when no hostname is listed by another tenant's
  current handle, and then makes the new handle current and returns the one it replaced;
  a refused registration changes nothing; removal drops the tenant's handle exactly when
  its generation is the given one; a lookup finds exactly the current handle that lists the
  hostname; and both operations keep the two indexes coherent.\<close>

theorem registry_refines_spec:
  assumes inv: "reg_inv r"
  shows "(case register now rg r of
            (Inl x, r') \<Rightarrow> conflicts rg (reg_abs r) \<and> r' = r
          | (Inr d, r') \<Rightarrow> \<not> conflicts rg (reg_abs r) \<and> reg_inv r'
              \<and> rd_replaced d = reg_abs r (rg_tenant_id rg)
              \<and> reg_abs r' = (reg_abs r)(rg_tenant_id rg \<mapsto> rd_handle d))
         \<and> (case remove t g r of (b, r') \<Rightarrow>
              reg_inv r' \<and> (b \<longleftrightarrow> (\<exists>h. reg_abs r t = Some h \<and> ch_generation h = g))
              \<and> reg_abs r' = (if b then (reg_abs r)(t := None) else reg_abs r))
         \<and> (get_by_hostname r x = Some h \<longleftrightarrow>
              (\<exists>k. reg_abs r k = Some h) \<and> x \<in> set (ch_hostnames h))"
proof (intro conjI)
  obtain res r' where reg: "register now rg r = (res, r')" by fastforce
  show "case register now rg r of
            (Inl x, r') \<Rightarrow> conflicts rg (reg_abs r) \<and> r' = r
          | (Inr d, r') \<Rightarrow> \<not> conflicts rg (reg_abs r) \<and> reg_inv r'
              \<and> rd_replaced d = reg_abs r (rg_tenant_id rg)
              \<and> reg_abs r' = (reg_abs r)(rg_tenant_id rg \<mapsto> rd_handle d)"
  proof (cases res)
    case (Inl e)
    then have "taken_hostname rg r \<noteq> None"
      using reg by (auto simp: register_def Let_def split: option.splits)
    then show ?thesis
      using reg Inl register_refused taken_hostname_conflicts [OF inv] by auto
  next
    case (Inr d)
    then have reg: "register now rg r = (Inr d, r')" using reg by simp
    note st = register_state [OF this]
    show ?thesis
      using reg Inr st(1,3) register_inv [OF inv reg] taken_hostname_conflicts [OF inv]
      by (simp add: reg_abs_def st(4) tab_simps)
  qed
  obtain b r' where rem: "remove t g r = (b, r')" by fastforce
  have "(b \<longleftrightarrow> (\<exists>h. reg_abs r t = Some h \<and> ch_generation h = g))
        \<and> reg_abs r' = (if b then (reg_abs r)(t := None) else reg_abs r)"
    using rem reg_invD(2) [OF inv]
    by (auto simp: remove_def reg_abs_def tab_simps fun_eq_iff split: option.splits if_splits)
  then show "case remove t g r of (b, r') \<Rightarrow>
              reg_inv r' \<and> (b \<longleftrightarrow> (\<exists>h. reg_abs r t = Some h \<and> ch_generation h = g))
              \<and> reg_abs r' = (if b then (reg_abs r)(t := None) else reg_abs r)"
    using rem remove_inv [OF inv rem] by simp
  show "get_by_hostname r x = Some h \<longleftrightarrow>
        (\<exists>k. reg_abs r k = Some h) \<and> x \<in> set (ch_hostnames h)"
    using rd.lookup_iff [OF inv] snapshot_iff [OF inv] by blast
qed

theorem registry_refines_spec_witness:
  "reg_inv new_registry
   \<and> (case register 5 (sample_registration ''t'' [''a.example.com'']) new_registry of
        (Inl x, r') \<Rightarrow> False
      | (Inr d, r') \<Rightarrow> reg_inv r' \<and> reg_abs r' ''t'' = Some (rd_handle d))"
  using registry_refines_spec 
      [OF new_registry_inv, where now = 5 and rg = "sample_registration ''t'' [''a.example.com'']"]
  by (simp add: sample_registers(1) rg_tenant_sample)

text \<open>C2. A stale disconnect cannot remove a newer connection: in every run with fewer than
  2^64 registrations, removing with the generation of any handle the registry ever issued,
  other than the tenant's current one, changes nothing and says so.\<close>

theorem stale_disconnect_is_harmless:
  assumes "reg_run r hs" "map_of (by_tenant r) t = Some h" "h' \<in> set hs" "h' \<noteq> h"
  shows "remove t (ch_generation h') r = (False, r)"
proof -
  have "issued_ok r hs" using reg_run_ok [OF assms(1)] by simp
  then have "distinct (map ch_generation hs)" "h \<in> set hs"
    using assms(2) by (auto simp: issued_ok_def)
  then have "ch_generation h \<noteq> ch_generation h'"
    using assms(3,4) by (auto simp: distinct_map inj_on_def)
  with assms(2) show ?thesis by (simp add: remove_def)
qed

theorem stale_disconnect_is_harmless_witness:
  "remove ''t'' 1 sample_registry2 = (False, sample_registry2)"
proof -
  let ?old = "new_handle 5 1 (sample_registration ''t'' [''a.example.com''])"
  have "remove ''t'' (ch_generation ?old) sample_registry2 = (False, sample_registry2)"
    by (rule stale_disconnect_is_harmless [OF sample_run sample_tenant])
      (simp_all add: new_handle_def)
  then show ?thesis by (simp add: new_handle_def)
qed

text \<open>C12. Tenants are isolated: a registration, accepted or refused, and a removal never change
  what a hostname of another tenant resolves to.\<close>

theorem tenants_are_isolated:
  assumes "reg_inv r" "get_by_hostname r x = Some h"
  shows "(ch_tenant_id h \<noteq> rg_tenant_id rg \<longrightarrow>
            get_by_hostname (snd (register now rg r)) x = Some h)
         \<and> (ch_tenant_id h \<noteq> t \<longrightarrow> get_by_hostname (snd (remove t g r)) x = Some h)"
proof -
  have cur: "map_of (by_tenant r) (ch_tenant_id h) = Some h" "x \<in> set (ch_hostnames h)"
    using assms reg_invD(4) [OF assms(1), of x h] by (simp_all add: get_by_hostname_def)
  have A: "get_by_hostname (snd (register now rg r)) x = Some h"
    if "ch_tenant_id h \<noteq> rg_tenant_id rg"
  proof (cases "fst (register now rg r)")
    case (Inl e)
    then show ?thesis using register_refused [of now rg r e] assms(2) by (metis prod.collapse)
  next
    case (Inr d)
    then have reg: "register now rg r = (Inr d, snd (register now rg r))"
      by (metis prod.collapse)
    show ?thesis
      using reg_invD(4) [OF register_inv [OF assms(1) reg], of x h] cur that
      by (simp add: get_by_hostname_def register_state(4) [OF reg] tab_simps)
  qed
  have B: "get_by_hostname (snd (remove t g r)) x = Some h" if "ch_tenant_id h \<noteq> t"
  proof -
    have "map_of (by_tenant (snd (remove t g r))) (ch_tenant_id h) = Some h"
      using that cur reg_invD(2) [OF assms(1)]
      by (auto simp: remove_def tab_simps split: option.splits)
    then show ?thesis
      using reg_invD(4) [OF remove_inv [OF assms(1) prod.collapse [symmetric]], of t g x h] cur
      by (simp add: get_by_hostname_def)
  qed
  from A B show ?thesis by blast
qed

theorem tenants_are_isolated_witness:
  "get_by_hostname (snd (register 3 (sample_registration ''u'' [''b.example.com'']) sample_registry2))
     ''b.example.com''
   = Some (new_handle 2 2 (sample_registration ''t'' [''b.example.com'']))"
proof -
  let ?h = "new_handle 2 2 (sample_registration ''t'' [''b.example.com''])"
  have inv: "reg_inv sample_registry2" using reg_run_ok [OF sample_run] by simp
  have "get_by_hostname sample_registry2 ''b.example.com'' = Some ?h"
    using reg_invD(4) [OF inv, of "''b.example.com''" ?h] sample_tenant
    by (simp add: get_by_hostname_def new_handle_def sample_registration_def)
  from tenants_are_isolated [OF inv this, THEN conjunct1] show ?thesis
    by (simp add: new_handle_def sample_registration_def)
qed

end
