(* ===== verification/Bytes.thy ===== *)
theory Bytes
  imports Prelude
begin

text \<open>
  Byte level foundations: the bytes of a Rust string, big-endian integers
  (\<open>to_be_bytes\<close>, \<open>from_be_bytes\<close>, \<open>write_u32\<close>, \<open>read_u32\<close>) and the UTF-8 validation of
  \<open>std::str::from_utf8\<close>. The codecs of \<open>Wire\<close> and \<open>Mesh_Protocol\<close> are built on them.
\<close>

type_synonym byte = "8 word"
type_synonym bytes = "8 word list"

subsection \<open>Strings and bytes\<close>

definition char_byte :: "char \<Rightarrow> byte" where
  "char_byte c = word_of_nat (of_char c)"

definition byte_char :: "byte \<Rightarrow> char" where
  "byte_char b = char_of (unat b)"

definition as_bytes :: "string \<Rightarrow> bytes" where
  "as_bytes s = map char_byte s"

definition of_bytes :: "bytes \<Rightarrow> string" where
  "of_bytes bs = map byte_char bs"

lemma unat_byte_lt [simp]: "unat (b :: byte) < 256"
  using unat_lt [of b] by simp

lemma of_char_lt_256 [simp]: "(of_char c :: nat) < 256"
  using of_char_mod_256 [of c, where 'a = nat] by (metis mod_less_divisor zero_less_numeral)

lemma unat_char_byte [simp]: "unat (char_byte c) = of_char c"
  by (simp add: char_byte_def unat_of_nat)

lemma byte_char_char_byte [simp]: "byte_char (char_byte c) = c"
  by (simp add: byte_char_def)

lemma char_byte_byte_char [simp]: "char_byte (byte_char b) = b"
proof -
  have "unat b < 256" by simp
  then show ?thesis by (simp add: char_byte_def byte_char_def)
qed

lemma of_bytes_as_bytes [simp]: "of_bytes (as_bytes s) = s"
  by (simp add: of_bytes_def as_bytes_def comp_def)

lemma as_bytes_of_bytes [simp]: "as_bytes (of_bytes bs) = bs"
  by (simp add: of_bytes_def as_bytes_def comp_def)

lemma length_as_bytes [simp]: "length (as_bytes s) = length s"
  by (simp add: as_bytes_def)

lemma length_of_bytes [simp]: "length (of_bytes bs) = length bs"
  by (simp add: of_bytes_def)

lemma as_bytes_inject [simp]: "as_bytes s = as_bytes t \<longleftrightarrow> s = t"
  by (metis of_bytes_as_bytes)

subsection \<open>Big-endian integers\<close>

primrec be_nat :: "nat \<Rightarrow> nat \<Rightarrow> bytes" where
  "be_nat 0 v = []"
| "be_nat (Suc n) v = be_nat n (v div 256) @ [word_of_nat v]"

definition be_value :: "bytes \<Rightarrow> nat" where
  "be_value bs = foldl (\<lambda>a b. 256 * a + unat b) 0 bs"

definition be_u16 :: "16 word \<Rightarrow> bytes" where
  "be_u16 w = be_nat 2 (unat w)"

definition be_u32 :: "32 word \<Rightarrow> bytes" where
  "be_u32 w = be_nat 4 (unat w)"

definition be_u64 :: "64 word \<Rightarrow> bytes" where
  "be_u64 w = be_nat 8 (unat w)"

definition from_be :: "bytes \<Rightarrow> 'a::len word" where
  "from_be bs = word_of_nat (be_value bs)"

lemma length_be_nat [simp]: "length (be_nat n v) = n"
  by (induction n arbitrary: v) auto

lemma be_value_snoc [simp]: "be_value (bs @ [b]) = 256 * be_value bs + unat b"
  by (simp add: be_value_def)

lemma be_value_Nil [simp]: "be_value [] = 0"
  by (simp add: be_value_def)

lemma be_value_be_nat: "be_value (be_nat n v) = v mod 256 ^ n"
proof (induction n arbitrary: v)
  case (Suc n)
  have "v mod 256 ^ Suc n = 256 * (v div 256 mod 256 ^ n) + v mod 256"
    by (simp add: mod_mult2_eq)
  with Suc show ?case by (simp add: unat_of_nat)
qed simp

lemma be_value_bound: "be_value bs < 256 ^ length bs"
proof (induction bs rule: rev_induct)
  case (snoc b bs)
  then have "256 * be_value bs + 256 \<le> 256 * 256 ^ length bs" by simp
  moreover have "256 * be_value bs + unat b < 256 * be_value bs + 256" by simp
  ultimately have "256 * be_value bs + unat b < 256 * 256 ^ length bs"
    by (rule order.strict_trans2 [rotated])
  then show ?case by simp
qed simp

lemma be_nat_be_value: "be_nat (length bs) (be_value bs) = bs"
proof (induction bs rule: rev_induct)
  case (snoc b bs)
  have "(256 * be_value bs + unat b) div 256 = be_value bs" by simp
  moreover have "word_of_nat (256 * be_value bs) = (0 :: byte)"
    by (simp add: word_of_nat_eq_0_iff del: of_nat_mult)
  then have "word_of_nat (256 * be_value bs + unat b) = b"
    by (simp del: of_nat_mult)
  ultimately show ?case using snoc by simp
qed simp

lemma length_be [simp]:
  "length (be_u16 a) = 2" "length (be_u32 b) = 4" "length (be_u64 c) = 8"
  by (simp_all add: be_u16_def be_u32_def be_u64_def)

lemma from_be_u16 [wire_simps]: "from_be (be_u16 w) = w"
  using unat_lt [of w] by (simp add: be_u16_def from_be_def be_value_be_nat)

lemma from_be_u32 [wire_simps]: "from_be (be_u32 w) = w"
  using unat_lt [of w] by (simp add: be_u32_def from_be_def be_value_be_nat)

lemma from_be_u64 [wire_simps]: "from_be (be_u64 w) = w"
  using unat_lt [of w] by (simp add: be_u64_def from_be_def be_value_be_nat)

lemma be_u16_from_be: "length bs = 2 \<Longrightarrow> be_u16 (from_be bs) = bs"
  using be_value_bound [of bs] be_nat_be_value [of bs]
  by (simp add: be_u16_def from_be_def unat_of_nat)

lemma be_u32_from_be: "length bs = 4 \<Longrightarrow> be_u32 (from_be bs) = bs"
  using be_value_bound [of bs] be_nat_be_value [of bs]
  by (simp add: be_u32_def from_be_def unat_of_nat)

lemma be_u64_from_be: "length bs = 8 \<Longrightarrow> be_u64 (from_be bs) = bs"
  using be_value_bound [of bs] be_nat_be_value [of bs]
  by (simp add: be_u64_def from_be_def unat_of_nat)

lemma unat_u16_of_nat: "n < 65536 \<Longrightarrow> unat (word_of_nat n :: 16 word) = n"
  by (simp add: unat_of_nat)

lemma unat_u32_of_nat: "n < 4294967296 \<Longrightarrow> unat (word_of_nat n :: 32 word) = n"
  by (simp add: unat_of_nat)

subsection \<open>UTF-8\<close>

text \<open>\<open>utf8_len\<close> is the length of the first encoded character, by the table of well-formed
  UTF-8 byte sequences; \<open>utf8_valid\<close> is \<open>from_utf8(..).is_ok()\<close>.\<close>

definition in_range :: "nat \<Rightarrow> nat \<Rightarrow> byte \<Rightarrow> bool" where
  "in_range lo hi b \<longleftrightarrow> lo \<le> unat b \<and> unat b \<le> hi"

definition utf8_tails :: "byte \<Rightarrow> (nat \<times> nat) list option" where
  "utf8_tails b =
     (if in_range 0x00 0x7F b then Some []
      else if in_range 0xC2 0xDF b then Some [(0x80, 0xBF)]
      else if in_range 0xE0 0xE0 b then Some [(0xA0, 0xBF), (0x80, 0xBF)]
      else if in_range 0xED 0xED b then Some [(0x80, 0x9F), (0x80, 0xBF)]
      else if in_range 0xE1 0xEF b then Some [(0x80, 0xBF), (0x80, 0xBF)]
      else if in_range 0xF0 0xF0 b then Some [(0x90, 0xBF), (0x80, 0xBF), (0x80, 0xBF)]
      else if in_range 0xF1 0xF3 b then Some [(0x80, 0xBF), (0x80, 0xBF), (0x80, 0xBF)]
      else if in_range 0xF4 0xF4 b then Some [(0x80, 0x8F), (0x80, 0xBF), (0x80, 0xBF)]
      else None)"

fun tails_rest :: "(nat \<times> nat) list \<Rightarrow> bytes \<Rightarrow> bytes option" where
  "tails_rest [] bs = Some bs"
| "tails_rest (_ # _) [] = None"
| "tails_rest ((lo, hi) # rs) (b # bs) = (if in_range lo hi b then tails_rest rs bs else None)"

definition utf8_rest :: "bytes \<Rightarrow> bytes option" where
  "utf8_rest bs =
     (case bs of [] \<Rightarrow> None
      | b # bs' \<Rightarrow> (case utf8_tails b of None \<Rightarrow> None | Some rs \<Rightarrow> tails_rest rs bs'))"

lemma tails_rest_length: "tails_rest rs bs = Some r \<Longrightarrow> length r \<le> length bs"
  by (induction rs bs rule: tails_rest.induct) (auto split: if_splits)

lemma utf8_rest_shorter: "utf8_rest bs = Some r \<Longrightarrow> length r < length bs"
  by (fastforce simp: utf8_rest_def split: list.splits option.splits dest: tails_rest_length)

function utf8_valid :: "bytes \<Rightarrow> bool" where
  "utf8_valid bs \<longleftrightarrow>
     bs = [] \<or> (case utf8_rest bs of None \<Rightarrow> False | Some r \<Rightarrow> utf8_valid r)"
  by pat_completeness auto
termination
  by (relation "measure length") (auto dest: utf8_rest_shorter)

declare utf8_valid.simps [simp del]

definition from_utf8 :: "bytes \<Rightarrow> string option" where
  "from_utf8 bs = (if utf8_valid bs then Some (of_bytes bs) else None)"

abbreviation wf_string :: "string \<Rightarrow> bool" where
  "wf_string s \<equiv> utf8_valid (as_bytes s)"

lemma utf8_valid_Nil [simp]: "utf8_valid []"
  by (simp add: utf8_valid.simps)

lemma utf8_valid_ascii_Cons: "unat b < 128 \<Longrightarrow> utf8_valid (b # bs) \<longleftrightarrow> utf8_valid bs"
  by (subst utf8_valid.simps) (simp add: utf8_rest_def utf8_tails_def in_range_def)

lemma utf8_valid_ascii: "\<forall>b \<in> set bs. unat b < 128 \<Longrightarrow> utf8_valid bs"
  by (induction bs) (auto simp: utf8_valid_ascii_Cons)

lemma wf_string_ascii: "list_all is_ascii_char s \<Longrightarrow> wf_string s"
  by (rule utf8_valid_ascii)
    (auto simp: as_bytes_def list_all_iff is_ascii_char_def byte_of_def)

lemma from_utf8_as_bytes [wire_simps]: "wf_string s \<Longrightarrow> from_utf8 (as_bytes s) = Some s"
  by (simp add: from_utf8_def)

lemma from_utf8_Some: "from_utf8 bs = Some s \<longleftrightarrow> utf8_valid bs \<and> bs = as_bytes s"
  by (auto simp: from_utf8_def)

end
