(* ===== verification/Wire.thy ===== *)
theory Wire
  imports Bytes Common
begin

text \<open>
  The Edge-Connector wire protocol (\<open>sievetube-common/src/protocol.rs\<close>): length-prefixed
  control frames and the header of forwarded UDP datagrams. A reader is the list of the
  bytes still to come; reading past its end is the I/O error \<open>UnexpectedEof\<close>. The JSON
  encoding of the payloads (serde_json) is a parameter, the record \<open>json\<close>; what the round
  trip needs of it, that it reads back what it wrote for the message at hand, is the
  hypothesis \<open>json_reads_back\<close>.
\<close>

subsection \<open>Messages\<close>

record service_advertisement =
  sv_hostname :: string
  sv_protocols :: "protocol list"

record auth_request =
  ar_jwt :: string
  ar_services :: "service_advertisement list option"

record auth_response =
  as_ok :: bool
  as_reason :: "string option"

record connect_request =
  cr_request_id :: "64 word"
  cr_hostname :: string
  cr_protocol :: protocol
  cr_client_addr :: socket_addr

datatype message =
    AuthRequest auth_request
  | AuthResponse auth_response
  | ConnectRequest connect_request
  | GoingAway

record json =
  ser_auth_request :: "auth_request \<Rightarrow> bytes"
  ser_auth_response :: "auth_response \<Rightarrow> bytes"
  ser_connect_request :: "connect_request \<Rightarrow> bytes"
  de_auth_request :: "bytes \<Rightarrow> auth_request option"
  de_auth_response :: "bytes \<Rightarrow> auth_response option"
  de_connect_request :: "bytes \<Rightarrow> connect_request option"

fun json_reads_back :: "json \<Rightarrow> message \<Rightarrow> bool" where
  "json_reads_back J (AuthRequest m) \<longleftrightarrow> de_auth_request J (ser_auth_request J m) = Some m"
| "json_reads_back J (AuthResponse m) \<longleftrightarrow> de_auth_response J (ser_auth_response J m) = Some m"
| "json_reads_back J (ConnectRequest m) \<longleftrightarrow> de_connect_request J (ser_connect_request J m) = Some m"
| "json_reads_back J GoingAway \<longleftrightarrow> True"

datatype wire_error = UnexpectedEof | FrameTooLarge | EmptyFrame | UnexpectedTag byte | BadPayload

definition MAX_FRAME_SIZE :: nat where "MAX_FRAME_SIZE = 65536"

definition TAG_AUTH_REQUEST :: byte where "TAG_AUTH_REQUEST = 0x01"
definition TAG_AUTH_RESPONSE :: byte where "TAG_AUTH_RESPONSE = 0x02"
definition TAG_CONNECT_REQUEST :: byte where "TAG_CONNECT_REQUEST = 0x03"
definition TAG_GOING_AWAY :: byte where "TAG_GOING_AWAY = 0x04"

lemmas tag_defs =
  TAG_AUTH_REQUEST_def TAG_AUTH_RESPONSE_def TAG_CONNECT_REQUEST_def TAG_GOING_AWAY_def

subsection \<open>Reading from a stream\<close>

definition read_exact :: "nat \<Rightarrow> bytes \<Rightarrow> (wire_error, bytes \<times> bytes) result" where
  "read_exact n s = (if length s < n then Inl UnexpectedEof else Inr (take n s, drop n s))"

definition read_u32 :: "bytes \<Rightarrow> (wire_error, 32 word \<times> bytes) result" where
  "read_u32 s = and_then (read_exact 4 s) (\<lambda>(b, r). Inr (from_be b, r))"

definition read_u8 :: "bytes \<Rightarrow> (wire_error, byte \<times> bytes) result" where
  "read_u8 s = (case s of [] \<Rightarrow> Inl UnexpectedEof | b # r \<Rightarrow> Inr (b, r))"

lemma read_exact_append [wire_simps]: "length a = n \<Longrightarrow> read_exact n (a @ r) = Inr (a, r)"
  by (simp add: read_exact_def)

lemma read_exact_Inr [wire_simps]: "read_exact n s = Inr (a, r) \<longleftrightarrow> s = a @ r \<and> length a = n"
  by (auto simp: read_exact_def)

lemma read_u32_append [wire_simps]: "read_u32 (be_u32 w @ r) = Inr (w, r)"
  by (simp add: read_u32_def wire_simps)

lemma read_u32_Inr: "read_u32 s = Inr (w, r) \<longleftrightarrow> s = be_u32 w @ r"
  by (auto simp: read_u32_def wire_simps be_u32_from_be)

lemma read_u8_Inr [wire_simps]: "read_u8 s = Inr (b, r) \<longleftrightarrow> s = b # r"
  by (auto simp: read_u8_def split: list.splits)

subsection \<open>Control frames\<close>

fun message_parts :: "json \<Rightarrow> message \<Rightarrow> byte \<times> bytes" where
  "message_parts J (AuthRequest m) = (TAG_AUTH_REQUEST, ser_auth_request J m)"
| "message_parts J (AuthResponse m) = (TAG_AUTH_RESPONSE, ser_auth_response J m)"
| "message_parts J (ConnectRequest m) = (TAG_CONNECT_REQUEST, ser_connect_request J m)"
| "message_parts J GoingAway = (TAG_GOING_AWAY, as_bytes ''{}'')"

definition write_message :: "json \<Rightarrow> message \<Rightarrow> (wire_error, bytes) result" where
  "write_message J msg =
     (let (tag, payload) = message_parts J msg; total_len = 1 + length payload
      in if total_len > MAX_FRAME_SIZE then Inl FrameTooLarge
         else Inr (be_u32 (word_of_nat total_len) @ [tag] @ payload))"

definition parse_json :: "('a \<Rightarrow> message) \<Rightarrow> 'a option \<Rightarrow> (wire_error, message) result" where
  "parse_json f r = (case r of None \<Rightarrow> Inl BadPayload | Some m \<Rightarrow> Inr (f m))"

definition decode_message :: "json \<Rightarrow> byte \<Rightarrow> bytes \<Rightarrow> (wire_error, message) result" where
  "decode_message J tag payload =
     (if tag = TAG_AUTH_REQUEST then parse_json AuthRequest (de_auth_request J payload)
      else if tag = TAG_AUTH_RESPONSE then parse_json AuthResponse (de_auth_response J payload)
      else if tag = TAG_CONNECT_REQUEST then parse_json ConnectRequest (de_connect_request J payload)
      else if tag = TAG_GOING_AWAY then Inr GoingAway
      else Inl (UnexpectedTag tag))"

definition read_message :: "json \<Rightarrow> bytes \<Rightarrow> (wire_error, message \<times> bytes) result" where
  "read_message J s =
     and_then (read_u32 s) (\<lambda>(len, s1).
       if unat len > MAX_FRAME_SIZE then Inl FrameTooLarge
       else if unat len < 1 then Inl EmptyFrame
       else and_then (read_u8 s1) (\<lambda>(tag, s2).
            and_then (read_exact (unat len - 1) s2) (\<lambda>(payload, s3).
            and_then (decode_message J tag payload) (\<lambda>m. Inr (m, s3)))))"

lemma decode_message_parts:
  "json_reads_back J m \<Longrightarrow> message_parts J m = (tag, payload) \<Longrightarrow> decode_message J tag payload = Inr m"
  by (cases m) (auto simp: decode_message_def parse_json_def tag_defs)

lemma read_message_frame:
  assumes "1 + length payload \<le> MAX_FRAME_SIZE"
  shows "read_message J (be_u32 (word_of_nat (1 + length payload)) @ [tag] @ payload @ rest)
         = and_then (decode_message J tag payload) (\<lambda>m. Inr (m, rest))"
proof -
  have "unat (word_of_nat (1 + length payload) :: 32 word) = 1 + length payload"
    using assms by (intro unat_u32_of_nat) (simp add: MAX_FRAME_SIZE_def)
  then show ?thesis
    using assms by (simp add: read_message_def wire_simps read_u8_def)
qed

subsection \<open>UDP datagrams\<close>

record datagram_header =
  dh_request_id :: "64 word"
  dh_hostname :: string

definition datagram_encode :: "datagram_header \<Rightarrow> bytes \<Rightarrow> bytes" where
  "datagram_encode h payload =
     be_u64 (dh_request_id h)
     @ be_u16 (word_of_nat (length (as_bytes (dh_hostname h))))
     @ as_bytes (dh_hostname h) @ payload"

definition datagram_decode :: "bytes \<Rightarrow> (datagram_header \<times> bytes) option" where
  "datagram_decode data =
     (if length data < 10 then None
      else let request_id = from_be (take 8 data);
               hostname_len = unat (from_be (take 2 (drop 8 data)) :: 16 word)
           in if length data < 10 + hostname_len then None
              else case from_utf8 (take hostname_len (drop 10 data)) of
                     None \<Rightarrow> None
                   | Some hostname \<Rightarrow>
                       Some (\<lparr>dh_request_id = request_id, dh_hostname = hostname\<rparr>,
                             drop (10 + hostname_len) data))"

text \<open>
  The contract of a datagram codec: on the headers that fit, decoding reads back what
  encoding wrote, with the payload untouched, and whatever decodes is the encoding of its
  result. So a datagram has one reading, and forwarding it after decoding and encoding it
  again does not change it.
\<close>

locale datagram_codec =
  fixes enc :: "'h \<Rightarrow> bytes \<Rightarrow> bytes option"
    and dec :: "bytes \<Rightarrow> ('h \<times> bytes) option"
    and fits :: "'h \<Rightarrow> bool"
  assumes reads_back: "fits h \<Longrightarrow> enc h p = Some b \<Longrightarrow> dec b = Some (h, p)"
    and canonical: "dec b = Some (h, p) \<Longrightarrow> fits h \<and> enc h p = Some b"
begin

lemma dec_iff: "dec b = Some (h, p) \<longleftrightarrow> fits h \<and> enc h p = Some b"
  using reads_back canonical by blast

lemma enc_inject:
  assumes "fits h" "fits h'" "enc h p = Some b" "enc h' p' = Some b"
  shows "h = h' \<and> p = p'"
  using reads_back [OF assms(1,3)] reads_back [OF assms(2,4)] by simp

lemma dec_unambiguous: "dec b = Some x \<Longrightarrow> dec b' = Some x \<Longrightarrow> b = b'"
  using canonical by (cases x) (metis option.inject)

end

definition datagram_fits :: "datagram_header \<Rightarrow> bool" where
  "datagram_fits h \<longleftrightarrow> length (dh_hostname h) < 65536 \<and> wf_string (dh_hostname h)"

lemma datagram_decode_encode:
  assumes "datagram_fits h"
  shows "datagram_decode (datagram_encode h p) = Some (h, p)"
proof -
  have "unat (word_of_nat (length (dh_hostname h)) :: 16 word) = length (dh_hostname h)"
    using assms by (intro unat_u16_of_nat) (simp add: datagram_fits_def)
  then show ?thesis
    using assms
    by (simp add: datagram_decode_def datagram_encode_def datagram_fits_def wire_simps Let_def)
qed

lemma datagram_encode_decode:
  assumes "datagram_decode b = Some (h, p)"
  shows "datagram_fits h \<and> datagram_encode h p = b"
proof -
  let ?n = "unat (from_be (take 2 (drop 8 b)) :: 16 word)"
  from assms have len: "10 + ?n \<le> length b"
    and host: "from_utf8 (take ?n (drop 10 b)) = Some (dh_hostname h)"
    and id: "dh_request_id h = from_be (take 8 b)" and p: "p = drop (10 + ?n) b"
    by (auto simp: datagram_decode_def Let_def split: if_splits option.splits)
  from host have u: "utf8_valid (take ?n (drop 10 b))"
    and hb: "as_bytes (dh_hostname h) = take ?n (drop 10 b)"
    by (metis from_utf8_Some)+
  have n: "length (dh_hostname h) = ?n"
    using arg_cong [OF hb, of length] len by simp
  have "?n < 65536" using unat_lt [of "from_be (take 2 (drop 8 b)) :: 16 word"] by simp
  then have "datagram_fits h" using u hb n by (simp add: datagram_fits_def)
  moreover have "datagram_encode h p
      = take 8 b @ take 2 (drop 8 b) @ take ?n (drop 10 b) @ drop (10 + ?n) b"
    using len by (simp add: datagram_encode_def id hb p be_u64_from_be be_u16_from_be)
  moreover have "\<dots> = b"
    using take_add [of 8 2 b] take_add [of 10 ?n b] append_take_drop_id [of "10 + ?n" b] by simp
  ultimately show ?thesis by simp
qed

interpretation dg: datagram_codec
  "\<lambda>h p. Some (datagram_encode h p)" datagram_decode datagram_fits
  by unfold_locales (use datagram_decode_encode datagram_encode_decode in auto)

subsection \<open>Properties\<close>

text \<open>C26. Control frames survive the stream: a message that was written is read back from the
  front of any stream that starts with its frame, and the bytes after the frame, which are
  the raw byte pipe, are left untouched.\<close>

theorem message_round_trip:
  assumes "json_reads_back J m" "write_message J m = Inr frame"
  shows "read_message J (frame @ rest) = Inr (m, rest)"
proof -
  obtain tag payload where tp: "message_parts J m = (tag, payload)" by fastforce
  with assms(2) have small: "1 + length payload \<le> MAX_FRAME_SIZE"
    and frame: "frame = be_u32 (word_of_nat (1 + length payload)) @ [tag] @ payload"
    by (auto simp: write_message_def split: if_splits)
  have "read_message J (frame @ rest)
        = and_then (decode_message J tag payload) (\<lambda>m. Inr (m, rest))"
    using read_message_frame [OF small, of J tag rest] by (simp only: frame append_assoc)
  with decode_message_parts [OF assms(1) tp] show ?thesis by simp
qed

definition sample_json :: json where
  "sample_json =
     \<lparr>ser_auth_request = (\<lambda>m. as_bytes (ar_jwt m)), ser_auth_response = (\<lambda>_. []),
      ser_connect_request = (\<lambda>_. []),
      de_auth_request = (\<lambda>b. Some \<lparr>ar_jwt = of_bytes b, ar_services = None\<rparr>),
      de_auth_response = (\<lambda>_. None), de_connect_request = (\<lambda>_. None)\<rparr>"

theorem message_round_trip_witness:
  "read_message sample_json
     (be_u32 4 @ [1] @ as_bytes ''jwt'' @ [7, 9])
   = Inr (AuthRequest \<lparr>ar_jwt = ''jwt'', ar_services = None\<rparr>, [7, 9])"
proof -
  let ?m = "AuthRequest \<lparr>ar_jwt = ''jwt'', ar_services = None\<rparr>"
  have "json_reads_back sample_json ?m" by (simp add: sample_json_def)
  moreover have "write_message sample_json ?m = Inr (be_u32 4 @ [1] @ as_bytes ''jwt'')"
    by (simp add: write_message_def sample_json_def MAX_FRAME_SIZE_def tag_defs)
  ultimately have "read_message sample_json ((be_u32 4 @ [1] @ as_bytes ''jwt'') @ [7, 9])
      = Inr (?m, [7, 9])"
    by (rule message_round_trip)
  then show ?thesis by (simp only: append_assoc)
qed

text \<open>Reading is bounded and accepts nothing but frames: whatever \<open>read_message\<close> accepts is
  a length field of at most 64 KiB, a tag byte and a payload of exactly that length that
  decodes to the returned message, and exactly those bytes are consumed. No more than the
  announced payload is ever buffered.\<close>

theorem read_message_sound:
  assumes "read_message J s = Inr (m, rest)"
  shows "\<exists>tag payload. s = be_u32 (word_of_nat (1 + length payload)) @ [tag] @ payload @ rest
           \<and> 1 + length payload \<le> MAX_FRAME_SIZE \<and> decode_message J tag payload = Inr m"
proof -
  from assms obtain len s1 tag s2 payload where
    r: "read_u32 s = Inr (len, s1)" "unat len \<le> MAX_FRAME_SIZE" "1 \<le> unat len"
    "read_u8 s1 = Inr (tag, s2)" "read_exact (unat len - 1) s2 = Inr (payload, rest)"
    "decode_message J tag payload = Inr m"
    by (auto simp: read_message_def split: if_splits)
  then have "unat len = 1 + length payload" by (auto simp: read_exact_Inr)
  moreover have "len = word_of_nat (unat len)" by simp
  then have "len = word_of_nat (1 + length payload)" using calculation by argo
  ultimately show ?thesis
    using r by (auto simp: read_u32_Inr read_u8_Inr read_exact_Inr)
qed

theorem read_message_sound_witness:
  "\<exists>tag payload. be_u32 4 @ [1] @ as_bytes ''jwt'' @ [7, 9]
       = be_u32 (word_of_nat (1 + length payload)) @ [tag] @ payload @ [7, 9]
     \<and> 1 + length payload \<le> MAX_FRAME_SIZE
     \<and> decode_message sample_json tag payload
       = Inr (AuthRequest \<lparr>ar_jwt = ''jwt'', ar_services = None\<rparr>)"
proof (rule read_message_sound)
  have "4 = (word_of_nat (1 + length (as_bytes ''jwt'')) :: 32 word)" by simp
  then show "read_message sample_json (be_u32 4 @ [1] @ as_bytes ''jwt'' @ [7, 9])
      = Inr (AuthRequest \<lparr>ar_jwt = ''jwt'', ar_services = None\<rparr>, [7, 9])"
    using read_message_frame [of "as_bytes ''jwt''" sample_json 1 "[7, 9]"]
    by (simp add: MAX_FRAME_SIZE_def decode_message_def sample_json_def parse_json_def tag_defs)
qed

text \<open>UDP datagrams are framed without loss or ambiguity: for a hostname that fits the
  16-bit length field, decoding returns the header and the payload that were encoded, and
  every byte string that decodes is the encoding of what it decodes to.\<close>

theorem datagram_codec_exact:
  "datagram_decode b = Some (h, p) \<longleftrightarrow> datagram_fits h \<and> datagram_encode h p = b"
  using dg.dec_iff [of b h p] by simp

end
