(* ===== verification/Hostname.thy ===== *)
theory Hostname
  imports Prelude
begin

text \<open>
  Hostname normalisation (\<open>sievetube-common/src/hostname.rs\<close>): the three normalisers, the
  split of an HTTP authority, wildcard patterns and zone membership. Every lookup key of the
  system (registry, ownership keys, certificates, policies, DNS) is a normalised name, so
  the central facts are that normalisation lands in an explicitly described set of names
  (\<open>valid_name\<close>), that it is the identity there, and that a name has one key whatever its
  letter case and trailing dot. The locale \<open>normalizer\<close> states that contract; its three
  interpretations are the code's three normalisers.
\<close>

subsection \<open>Normalisation\<close>

datatype hostname_error =
    EmptyHostname | NameTooLong | NotAscii | EmptyLabel | LabelTooLong | WildcardNotAllowed
  | HyphenAtEdge | InvalidCharacter | UserinfoNotAllowed | InvalidPort | UnterminatedIpv6
  | DataAfterIpv6 | UnbracketedIpv6

definition MAX_NAME_LEN :: nat where "MAX_NAME_LEN = 253"

definition MAX_LABEL_LEN :: nat where "MAX_LABEL_LEN = 63"

definition label_byte :: "bool \<Rightarrow> char \<Rightarrow> bool" where
  "label_byte allow_underscore b \<longleftrightarrow>
     is_ascii_alphanumeric b \<or> b = CHR ''-'' \<or> (allow_underscore \<and> b = CHR ''_'')"

text \<open>One iteration of the label loop: \<open>None\<close> when the loop goes on.\<close>

definition check_label ::
  "bool \<Rightarrow> bool \<Rightarrow> nat \<Rightarrow> nat \<Rightarrow> string \<Rightarrow> hostname_error option" where
  "check_label allow_wildcard allow_underscore label_count index label =
     (if label = [] then Some EmptyLabel
      else if length label > MAX_LABEL_LEN then Some LabelTooLong
      else if label = ''*'' then
        (if allow_wildcard \<and> index = 0 \<and> label_count > 1 then None else Some WildcardNotAllowed)
      else if starts_with ''-'' label \<or> ends_with ''-'' label then Some HyphenAtEdge
      else if \<not> list_all (label_byte allow_underscore) label then Some InvalidCharacter
      else None)"

fun check_labels ::
  "bool \<Rightarrow> bool \<Rightarrow> nat \<Rightarrow> nat \<Rightarrow> string list \<Rightarrow> hostname_error option" where
  "check_labels aw au label_count index [] = None"
| "check_labels aw au label_count index (label # rest) =
     (case check_label aw au label_count index label of
        Some e \<Rightarrow> Some e
      | None \<Rightarrow> check_labels aw au label_count (Suc index) rest)"

definition normalize :: "string \<Rightarrow> bool \<Rightarrow> bool \<Rightarrow> (hostname_error, string) result" where
  "normalize input allow_wildcard allow_underscore =
     (let trimmed = trim input;
          name = (case strip_suffix ''.'' trimmed of Some n \<Rightarrow> n | None \<Rightarrow> trimmed)
      in if name = [] then Inl EmptyHostname
         else if length name > MAX_NAME_LEN then Inl NameTooLong
         else if \<not> list_all is_ascii_char name then Inl NotAscii
         else
           let lower = to_ascii_lowercase name; labels = split_on (CHR ''.'') lower
           in case check_labels allow_wildcard allow_underscore (length labels) 0 labels of
                Some e \<Rightarrow> Inl e
              | None \<Rightarrow> Inr lower)"

definition normalize_hostname :: "string \<Rightarrow> (hostname_error, string) result" where
  "normalize_hostname input = normalize input False False"

definition normalize_hostname_pattern :: "string \<Rightarrow> (hostname_error, string) result" where
  "normalize_hostname_pattern input = normalize input True False"

definition normalize_dns_name :: "string \<Rightarrow> (hostname_error, string) result" where
  "normalize_dns_name input = normalize input True True"

subsection \<open>Authorities\<close>

definition parse_port :: "string \<Rightarrow> (hostname_error, nat option) result" where
  "parse_port port =
     (if port = [] then Inr None
      else case parse_uint 16 port of Some n \<Rightarrow> Inr (Some n) | None \<Rightarrow> Inl InvalidPort)"

definition split_authority ::
  "string \<Rightarrow> (hostname_error, string \<times> nat option) result" where
  "split_authority authority =
     (if CHR ''@'' \<in> set authority then Inl UserinfoNotAllowed
      else case strip_prefix ''['' authority of
        Some rest \<Rightarrow>
          (case split_once (CHR '']'') rest of
             None \<Rightarrow> Inl UnterminatedIpv6
           | Some (host, after) \<Rightarrow>
               (case strip_prefix '':'' after of
                  Some port \<Rightarrow> and_then (parse_port port) (\<lambda>p. Inr (host, p))
                | None \<Rightarrow> if after = [] then Inr (host, None) else Inl DataAfterIpv6))
      | None \<Rightarrow>
          (case rsplit_once (CHR '':'') authority of
             Some (host, port) \<Rightarrow>
               if CHR '':'' \<in> set host then Inl UnbracketedIpv6
               else and_then (parse_port port) (\<lambda>p. Inr (host, p))
           | None \<Rightarrow> Inr (authority, None)))"

subsection \<open>Patterns and zones\<close>

definition matches_pattern :: "string \<Rightarrow> string \<Rightarrow> bool" where
  "matches_pattern pattern hostname =
     (if pattern = hostname then True
      else case (strip_prefix ''*.'' pattern, split_once (CHR ''.'') hostname) of
        (Some sfx, Some (first, rest)) \<Rightarrow> first \<noteq> [] \<and> first \<noteq> ''*'' \<and> rest = sfx
      | _ \<Rightarrow> False)"

definition wildcard_for :: "string \<Rightarrow> string option" where
  "wildcard_for hostname =
     (case split_once (CHR ''.'') hostname of
        None \<Rightarrow> None
      | Some (_, rest) \<Rightarrow> if CHR ''.'' \<in> set rest then Some (''*.'' @ rest) else None)"

definition is_within_zone :: "string \<Rightarrow> string \<Rightarrow> bool" where
  "is_within_zone name zone =
     (let name = (case strip_prefix ''*.'' name of Some n \<Rightarrow> n | None \<Rightarrow> name)
      in name = zone
         \<or> (case strip_suffix zone name of None \<Rightarrow> False | Some pre \<Rightarrow> ends_with ''.'' pre))"

subsection \<open>Normal names\<close>

text \<open>The names normalisation produces, written without the code's loop.\<close>

definition valid_label :: "bool \<Rightarrow> string \<Rightarrow> bool" where
  "valid_label allow_underscore l \<longleftrightarrow>
     l \<noteq> [] \<and> length l \<le> 63 \<and> hd l \<noteq> CHR ''-'' \<and> last l \<noteq> CHR ''-''
     \<and> (\<forall>c \<in> set l. is_ascii_lowercase c \<or> is_ascii_digit c \<or> c = CHR ''-''
            \<or> (allow_underscore \<and> c = CHR ''_''))"

definition valid_name :: "bool \<Rightarrow> bool \<Rightarrow> string \<Rightarrow> bool" where
  "valid_name allow_wildcard allow_underscore n \<longleftrightarrow>
     length n \<le> 253
     \<and> (case split_on (CHR ''.'') n of
          [] \<Rightarrow> False
        | l # ls \<Rightarrow>
            (valid_label allow_underscore l \<or> (allow_wildcard \<and> l = ''*'' \<and> ls \<noteq> []))
            \<and> (\<forall>m \<in> set ls. valid_label allow_underscore m))"

definition name_labels :: "string \<Rightarrow> string list" where
  "name_labels n = split_on (CHR ''.'') n"

subsection \<open>Facts on normalisation\<close>

lemma set_split_on: "c \<in> set s \<longleftrightarrow> c = d \<and> d \<in> set s \<or> (\<exists>w \<in> set (split_on d s). c \<in> set w)"
proof (induction s)
  case (Cons x s)
  then show ?case by (cases "split_on d s") auto
qed simp

lemma starts_with_char: "starts_with [c] s \<longleftrightarrow> s \<noteq> [] \<and> hd s = c"
  by (cases s) (auto simp: starts_with_def)

lemma ends_with_char: "ends_with [c] s \<longleftrightarrow> s \<noteq> [] \<and> last s = c"
  by (cases s rule: rev_cases) (auto simp: ends_with_iff)

lemma ascii_lower_not_upper [simp]: "\<not> is_ascii_uppercase (ascii_lower c)"
  by (simp add: ascii_lower_def ascii_defs)

lemma to_ascii_lowercase_not_upper:
  "c \<in> set (to_ascii_lowercase s) \<Longrightarrow> \<not> is_ascii_uppercase c"
  by (auto simp: to_ascii_lowercase_def)

lemma to_ascii_lowercase_id:
  "(\<And>c. c \<in> set s \<Longrightarrow> \<not> is_ascii_uppercase c) \<Longrightarrow> to_ascii_lowercase s = s"
  by (simp add: to_ascii_lowercase_def ascii_lower_id map_idI)

lemma star_not_valid_label [simp]: "\<not> valid_label au ''*''"
  by (simp add: valid_label_def ascii_defs)

lemma valid_label_check:
  assumes "\<And>c. c \<in> set l \<Longrightarrow> \<not> is_ascii_uppercase c"
  shows "check_label aw au cnt i l = None
         \<longleftrightarrow> valid_label au l \<or> (aw \<and> i = 0 \<and> cnt > 1 \<and> l = ''*'')"
  using assms
  by (auto simp: check_label_def valid_label_def starts_with_char ends_with_char list_all_iff
      label_byte_def is_ascii_alphanumeric_def MAX_LABEL_LEN_def ascii_defs)

lemma check_labels_Suc:
  assumes "\<And>l c. l \<in> set ls \<Longrightarrow> c \<in> set l \<Longrightarrow> \<not> is_ascii_uppercase c"
  shows "check_labels aw au cnt (Suc i) ls = None \<longleftrightarrow> (\<forall>m \<in> set ls. valid_label au m)"
  using assms
proof (induction ls arbitrary: i)
  case (Cons l ls)
  then have "check_label aw au cnt (Suc i) l = None \<longleftrightarrow> valid_label au l"
    by (subst valid_label_check) auto
  with Cons show ?case by (auto split: option.splits)
qed simp

lemma check_labels_valid:
  assumes "\<And>c. c \<in> set n \<Longrightarrow> \<not> is_ascii_uppercase c" and "length n \<le> 253"
  shows "check_labels aw au (length (split_on (CHR ''.'') n)) 0 (split_on (CHR ''.'') n) = None
         \<longleftrightarrow> valid_name aw au n"
proof (cases "split_on (CHR ''.'') n")
  case (Cons l ls)
  have low: "\<not> is_ascii_uppercase c" if "m \<in> set (l # ls)" "c \<in> set m" for m c
    using assms(1) set_split_on [of c n "CHR ''.''"] that Cons by auto
  have "check_label aw au (length (l # ls)) 0 l = None
        \<longleftrightarrow> valid_label au l \<or> (aw \<and> l = ''*'' \<and> ls \<noteq> [])"
    using low by (subst valid_label_check) auto
  moreover have "check_labels aw au (length (l # ls)) (Suc 0) ls = None
        \<longleftrightarrow> (\<forall>m \<in> set ls. valid_label au m)"
    using low by (intro check_labels_Suc) auto
  ultimately show ?thesis
    using assms(2) Cons by (auto simp: valid_name_def split: option.splits)
qed simp

text \<open>The name the code works on after trimming and dropping one trailing dot.\<close>

definition bare_name :: "string \<Rightarrow> string" where
  "bare_name input =
     (case strip_suffix ''.'' (trim input) of Some n \<Rightarrow> n | None \<Rightarrow> trim input)"

lemma valid_name_not_Nil: "valid_name aw au n \<Longrightarrow> n \<noteq> []"
  by (auto simp: valid_name_def valid_label_def)

lemma normalize_Inr:
  "normalize s aw au = Inr n \<longleftrightarrow>
     n = to_ascii_lowercase (bare_name s) \<and> list_all is_ascii_char (bare_name s)
     \<and> valid_name aw au n"
proof -
  let ?n = "to_ascii_lowercase (bare_name s)"
  have "check_labels aw au (length (split_on (CHR ''.'') ?n)) 0 (split_on (CHR ''.'') ?n) = None
        \<longleftrightarrow> valid_name aw au ?n" if "length (bare_name s) \<le> 253"
    using that to_ascii_lowercase_not_upper by (intro check_labels_valid) auto
  then show ?thesis
    using valid_name_not_Nil [of aw au ?n]
    by (auto simp: normalize_def bare_name_def [symmetric] Let_def MAX_NAME_LEN_def
        valid_name_def split: option.splits)
qed

lemma valid_name_labels:
  assumes "valid_name aw au n" "l \<in> set (split_on (CHR ''.'') n)"
  shows "valid_label au l \<or> l = ''*''"
  using assms by (cases "split_on (CHR ''.'') n") (auto simp: valid_name_def)

lemma valid_name_chars:
  assumes "valid_name aw au n" "c \<in> set n"
  shows "is_ascii_lowercase c \<or> is_ascii_digit c \<or> c \<in> set ''-_.*''"
proof -
  have "c = CHR ''.'' \<or> (\<exists>l \<in> set (split_on (CHR ''.'') n). c \<in> set l)"
    using assms(2) set_split_on by metis
  then consider "c = CHR ''.''" | l where "l \<in> set (split_on (CHR ''.'') n)" "c \<in> set l"
    by blast
  then show ?thesis
  proof cases
    case (2 l)
    with valid_name_labels [OF assms(1)] have "valid_label au l \<or> l = ''*''" by blast
    with \<open>c \<in> set l\<close> show ?thesis by (auto simp: valid_label_def)
  qed simp
qed

lemma valid_name_plain:
  assumes "valid_name aw au n" "c \<in> set n"
  shows "non_ws_char c" "is_ascii_char c" "\<not> is_ascii_uppercase c"
  using valid_name_chars [OF assms] by (auto simp: non_ws_char_def ascii_defs)

lemma valid_name_label_not_Nil:
  assumes "valid_name aw au n"
  shows "[] \<notin> set (split_on (CHR ''.'') n)"
  using valid_name_labels [OF assms] by (force simp: valid_label_def)

lemma valid_name_no_trailing_dot:
  assumes "valid_name aw au n"
  shows "n \<noteq> m @ ''.''"
proof
  assume "n = m @ ''.''"
  then have "[] \<in> set (split_on (CHR ''.'') n)"
    by (simp add: split_on_append)
  with valid_name_label_not_Nil [OF assms] show False by contradiction
qed

lemma valid_name_lower: "valid_name aw au n \<Longrightarrow> to_ascii_lowercase n = n"
  by (rule to_ascii_lowercase_id) (rule valid_name_plain(3))

text \<open>A spelling of a normal name differs in letter case only.\<close>

lemma ascii_lower_non_ws [simp]: "non_ws_char (ascii_lower c) \<longleftrightarrow> non_ws_char c"
  by (auto simp: ascii_lower_def non_ws_char_def ascii_defs)

lemma ascii_lower_eq_dot [simp]: "ascii_lower c = CHR ''.'' \<longleftrightarrow> c = CHR ''.''"
proof -
  have "byte_of (ascii_lower c) \<noteq> 46" if "is_ascii_uppercase c"
    using that by (simp add: ascii_lower_def ascii_defs)
  then show ?thesis
    by (cases "is_ascii_uppercase c") (auto simp: ascii_lower_id byte_of_def is_ascii_uppercase_def)
qed

lemma spelling_plain:
  assumes "valid_name aw au (to_ascii_lowercase s)"
  shows "\<forall>c \<in> set s. non_ws_char c \<and> is_ascii_char c"
proof
  fix c assume "c \<in> set s"
  then have "ascii_lower c \<in> set (to_ascii_lowercase s)"
    by (simp add: to_ascii_lowercase_def)
  from valid_name_plain [OF assms this] show "non_ws_char c \<and> is_ascii_char c"
    by simp
qed

lemma trim_spelling:
  assumes "valid_name aw au (to_ascii_lowercase s)"
  shows "trim s = s" "trim (s @ ''.'') = s @ ''.''"
proof -
  have "s \<noteq> []" using valid_name_not_Nil [OF assms] by simp
  then have "hd s \<in> set s" "last s \<in> set s" by simp_all
  moreover have "non_ws_char (CHR ''.'')" by (simp add: non_ws_char_def byte_of_def)
  ultimately show "trim s = s" "trim (s @ ''.'') = s @ ''.''"
    using \<open>s \<noteq> []\<close> spelling_plain [OF assms] by (auto intro!: trim_non_ws)
qed

lemma bare_name_spelling:
  assumes "valid_name aw au (to_ascii_lowercase s)"
  shows "bare_name s = s" "bare_name (s @ ''.'') = s"
proof -
  have "s \<noteq> t @ ''.''" for t
    using valid_name_no_trailing_dot [OF assms, of "to_ascii_lowercase t"]
    by (auto simp: to_ascii_lowercase_def)
  then have "strip_suffix ''.'' s = None" by simp
  then show "bare_name s = s" "bare_name (s @ ''.'') = s"
    unfolding bare_name_def trim_spelling [OF assms]
    by (simp_all del: strip_suffix_None split: option.split)
qed

lemma normalize_spelling:
  assumes "valid_name aw au (to_ascii_lowercase s)"
  shows "normalize s aw au = Inr (to_ascii_lowercase s)"
    and "normalize (s @ ''.'') aw au = Inr (to_ascii_lowercase s)"
  using assms spelling_plain [OF assms]
  by (auto simp: normalize_Inr bare_name_spelling [OF assms] list_all_iff)

lemma normalize_valid: "normalize s aw au = Inr n \<Longrightarrow> valid_name aw au n"
  using normalize_Inr by blast

lemma normalize_fixed: "normalize n aw au = Inr n \<longleftrightarrow> valid_name aw au n"
  using normalize_spelling(1) [of aw au n] by (auto simp: valid_name_lower normalize_valid)

lemma normalize_stable: "normalize s aw au = Inr n \<Longrightarrow> normalize n aw au = Inr n"
  by (simp add: normalize_fixed normalize_valid)

subsection \<open>The contract of a normaliser\<close>

text \<open>What the components that use names as keys rely on: a normalised name is its own key
  (\<open>stable\<close>), and neither letter case nor a trailing dot changes the key (\<open>spelling\<close>).\<close>

locale normalizer =
  fixes norm :: "string \<Rightarrow> (hostname_error, string) result"
  assumes stable: "norm s = Inr n \<Longrightarrow> norm n = Inr n"
    and spelling: "norm n = Inr n \<Longrightarrow> to_ascii_lowercase s = n
                   \<Longrightarrow> norm s = Inr n \<and> norm (s @ ''.'') = Inr n"
begin

lemma keys_fixed: "(\<exists>s. norm s = Inr n) \<longleftrightarrow> norm n = Inr n"
  using stable by blast

lemma same_key:
  assumes "norm s = Inr n" "to_ascii_lowercase t = n"
  shows "norm t = norm s \<and> norm (t @ ''.'') = norm s"
  using spelling [OF stable [OF assms(1)] assms(2)] assms(1) by simp

lemma collect_stable: "collect_results norm xs = Inr ys \<Longrightarrow> collect_results norm ys = Inr ys"
  unfolding collect_results_Inr by (induction rule: list_all2_induct) (use stable in blast)+

lemma collect_keys: "collect_results norm xs = Inr ys \<Longrightarrow> y \<in> set ys \<Longrightarrow> norm y = Inr y"
  using collect_results_set [of norm xs ys] stable by blast

end

lemma normalizer_normalize: "normalizer (\<lambda>s. normalize s aw au)"
  by unfold_locales
    (use normalize_spelling in \<open>auto simp: normalize_stable normalize_fixed\<close>)

interpretation hn: normalizer normalize_hostname
  unfolding normalize_hostname_def [abs_def] by (rule normalizer_normalize)

interpretation hp: normalizer normalize_hostname_pattern
  unfolding normalize_hostname_pattern_def [abs_def] by (rule normalizer_normalize)

interpretation dn: normalizer normalize_dns_name
  unfolding normalize_dns_name_def [abs_def] by (rule normalizer_normalize)

lemma normalize_hostname_iff: "normalize_hostname n = Inr n \<longleftrightarrow> valid_name False False n"
  by (simp add: normalize_hostname_def normalize_fixed)

lemma normalize_pattern_iff: "normalize_hostname_pattern n = Inr n \<longleftrightarrow> valid_name True False n"
  by (simp add: normalize_hostname_pattern_def normalize_fixed)

lemma normalize_dns_name_iff: "normalize_dns_name n = Inr n \<longleftrightarrow> valid_name True True n"
  by (simp add: normalize_dns_name_def normalize_fixed)

lemma valid_label_mono: "valid_label au l \<Longrightarrow> au \<le> au' \<Longrightarrow> valid_label au' l"
  by (auto simp: valid_label_def)

lemma valid_name_mono:
  "valid_name aw au n \<Longrightarrow> aw \<le> aw' \<Longrightarrow> au \<le> au' \<Longrightarrow> valid_name aw' au' n"
  using valid_label_mono [of au _ au'] by (cases "split_on (CHR ''.'') n") (auto simp: valid_name_def)

subsection \<open>Facts on patterns and zones\<close>

lemma strip_star: "strip_prefix ''*.'' p = Some s \<longleftrightarrow> p = CHR ''*'' # CHR ''.'' # s"
  by simp

lemma matches_pattern_iff:
  "matches_pattern p h \<longleftrightarrow>
     p = h \<or> (\<exists>first rest. h = first @ CHR ''.'' # rest \<and> CHR ''.'' \<notin> set first
               \<and> first \<noteq> [] \<and> first \<noteq> ''*'' \<and> p = ''*.'' @ rest)"
proof (cases "split_once (CHR ''.'') h")
  case None
  then have "CHR ''.'' \<notin> set h" by (simp add: split_once_None)
  then show ?thesis
    by (auto simp: matches_pattern_def None split: option.splits)
next
  case (Some fr)
  then obtain first rest where fr: "split_once (CHR ''.'') h = Some (first, rest)"
    by (cases fr) auto
  have "matches_pattern p h \<longleftrightarrow>
          p = h \<or> (first \<noteq> [] \<and> first \<noteq> ''*'' \<and> p = ''*.'' @ rest)"
    by (auto simp: matches_pattern_def fr split: option.split)
  moreover have "h = f @ CHR ''.'' # r \<and> CHR ''.'' \<notin> set f \<longleftrightarrow> f = first \<and> r = rest" for f r
    using fr split_once_Some [of "CHR ''.''" h f r] by auto
  ultimately show ?thesis by metis
qed

lemma wildcard_for_iff:
  "wildcard_for h = Some p \<longleftrightarrow>
     (\<exists>first rest. h = first @ CHR ''.'' # rest \<and> CHR ''.'' \<notin> set first
        \<and> CHR ''.'' \<in> set rest \<and> p = ''*.'' @ rest)"
proof (cases "split_once (CHR ''.'') h")
  case None
  then have "CHR ''.'' \<notin> set h" by (simp add: split_once_None)
  then show ?thesis by (auto simp: wildcard_for_def None)
next
  case (Some fr)
  then obtain first rest where fr: "split_once (CHR ''.'') h = Some (first, rest)"
    by (cases fr) auto
  have "wildcard_for h = Some p \<longleftrightarrow> CHR ''.'' \<in> set rest \<and> p = ''*.'' @ rest"
    by (auto simp: wildcard_for_def fr)
  moreover have "h = f @ CHR ''.'' # r \<and> CHR ''.'' \<notin> set f \<longleftrightarrow> f = first \<and> r = rest" for f r
    using fr split_once_Some [of "CHR ''.''" h f r] by auto
  ultimately show ?thesis by metis
qed

lemma name_labels_append: "name_labels (a @ CHR ''.'' # b) = name_labels a @ name_labels b"
  by (simp add: name_labels_def split_on_append)

lemma join_name_labels: "join_with (CHR ''.'') (name_labels n) = n"
  by (simp add: name_labels_def)

lemma name_labels_inject: "name_labels a = name_labels b \<longleftrightarrow> a = b"
  by (metis join_name_labels)

lemma join_with_append:
  "us \<noteq> [] \<Longrightarrow> vs \<noteq> [] \<Longrightarrow> join_with d (us @ vs) = join_with d us @ d # join_with d vs"
proof (induction us)
  case (Cons u us)
  then show ?case by (cases "us = []") (auto simp: join_with_Cons)
qed simp

lemma suffix_name_labels:
  "suffix (name_labels z) (name_labels n) \<longleftrightarrow> n = z \<or> (\<exists>p. n = p @ CHR ''.'' # z)"
proof
  assume "suffix (name_labels z) (name_labels n)"
  then obtain us where us: "name_labels n = us @ name_labels z" by (auto simp: suffix_def)
  have "name_labels z \<noteq> []" by (simp add: name_labels_def)
  with us show "n = z \<or> (\<exists>p. n = p @ CHR ''.'' # z)"
    by (metis append_Nil join_name_labels join_with_append)
qed (auto simp: suffix_def name_labels_append)

lemma is_within_zone_iff:
  "is_within_zone n z \<longleftrightarrow>
     (let m = (if starts_with ''*.'' n then drop 2 n else n)
      in m = z \<or> (\<exists>p. m = p @ CHR ''.'' # z))"
proof -
  have "(case strip_prefix ''*.'' n of Some m \<Rightarrow> m | None \<Rightarrow> n)
        = (if starts_with ''*.'' n then drop 2 n else n)"
    by (simp add: strip_prefix_def starts_with_def numeral_2_eq_2)
  moreover have "(case strip_suffix z m of None \<Rightarrow> False | Some pre \<Rightarrow> ends_with ''.'' pre)
        \<longleftrightarrow> (\<exists>p. m = p @ CHR ''.'' # z)" for m
    by (auto simp: ends_with_iff split: option.split)
  ultimately show ?thesis
    by (simp only: is_within_zone_def Let_def)
qed

lemma three_labels: "3 \<le> length (name_labels (''*.'' @ rest)) \<longleftrightarrow> CHR ''.'' \<in> set rest"
proof -
  have "name_labels (''*.'' @ rest) = ''*'' # name_labels rest"
    by (simp add: name_labels_def split: list.split)
  moreover have "2 \<le> length (split_on d s) \<longleftrightarrow> d \<in> set s" for d s
    by (induction s) (auto split: list.splits simp: split_on_atom Suc_le_eq)
  ultimately show ?thesis by (simp add: name_labels_def)
qed

lemma hostname_first_label:
  assumes "valid_name False False h" "h = first @ CHR ''.'' # rest" "CHR ''.'' \<notin> set first"
  shows "first \<noteq> [] \<and> first \<noteq> ''*'' \<and> h \<noteq> ''*.'' @ r"
proof -
  have "split_on (CHR ''.'') h = first # split_on (CHR ''.'') rest"
    using assms by (simp add: split_on_append_atom)
  then have "valid_label False first"
    using assms(1) by (simp add: valid_name_def)
  moreover have "first = ''*''" if "h = ''*.'' @ r"
    using that assms(2,3) split_at_unique [of "CHR ''.''" "''*''" first r rest] by simp
  ultimately show ?thesis by (auto simp: valid_label_def ascii_defs)
qed

subsection \<open>Facts on authorities\<close>

lemma parse_port_show: "n < 65536 \<Longrightarrow> parse_port (show_nat n) = Inr (Some n)"
  using parse_uint_show_nat [of n 16] by (simp add: parse_port_def)

lemma parse_port_bound: "parse_port s = Inr (Some n) \<Longrightarrow> n < 65536"
  using parse_uint_bound [of 16 s n]
  by (simp add: parse_port_def split: if_splits option.splits)

text \<open>The grammar of the accepted authorities: \<open>host\<close>, \<open>host:port\<close>, \<open>[v6]\<close> and
  \<open>[v6]:port\<close>, where an empty port is no port.\<close>

definition plain_authority :: "string \<Rightarrow> string \<Rightarrow> nat option \<Rightarrow> bool" where
  "plain_authority a h p \<longleftrightarrow>
     CHR '':'' \<notin> set h \<and> \<not> starts_with ''['' a
     \<and> (a = h \<and> p = None
        \<or> (\<exists>port. a = h @ CHR '':'' # port \<and> CHR '':'' \<notin> set port \<and> parse_port port = Inr p))"

definition bracket_authority :: "string \<Rightarrow> string \<Rightarrow> nat option \<Rightarrow> bool" where
  "bracket_authority a h p \<longleftrightarrow>
     CHR '']'' \<notin> set h
     \<and> (a = ''['' @ h @ '']'' \<and> p = None
        \<or> (\<exists>port. a = ''['' @ h @ '']:'' @ port \<and> parse_port port = Inr p))"

lemma split_bracket:
  "(case split_once (CHR '']'') rest of
      None \<Rightarrow> Inl UnterminatedIpv6
    | Some (host, after) \<Rightarrow>
        (case strip_prefix '':'' after of
           Some port \<Rightarrow> and_then (parse_port port) (\<lambda>p. Inr (host, p))
         | None \<Rightarrow> if after = [] then Inr (host, None) else Inl DataAfterIpv6)) = Inr (h, p)
   \<longleftrightarrow> bracket_authority (CHR ''['' # rest) h p"
proof (cases "split_once (CHR '']'') rest")
  case None
  then have "CHR '']'' \<notin> set rest" by (simp add: split_once_None)
  then show ?thesis by (auto simp: None bracket_authority_def)
next
  case (Some ha)
  then obtain host after where ha: "split_once (CHR '']'') rest = Some (host, after)"
    by (cases ha) auto
  have uniq: "rest = h @ CHR '']'' # a \<and> CHR '']'' \<notin> set h \<longleftrightarrow> h = host \<and> a = after" for a
    using ha split_once_Some [of "CHR '']''" rest h a] by auto
  have "bracket_authority (CHR ''['' # rest) h p
        \<longleftrightarrow> h = host \<and> (after = [] \<and> p = None
             \<or> (\<exists>port. after = CHR '':'' # port \<and> parse_port port = Inr p))"
    using uniq [of "[]"] uniq by (simp add: bracket_authority_def) metis
  moreover have "(case strip_prefix '':'' after of
           Some port \<Rightarrow> and_then (parse_port port) (\<lambda>p. Inr (host, p))
         | None \<Rightarrow> if after = [] then Inr (host, None) else Inl DataAfterIpv6) = Inr (h, p)
        \<longleftrightarrow> h = host \<and> (after = [] \<and> p = None
             \<or> (\<exists>port. after = CHR '':'' # port \<and> parse_port port = Inr p))"
    by (auto split: option.split)
  ultimately show ?thesis by (simp add: ha)
qed

lemma split_plain:
  assumes "\<not> starts_with ''['' a"
  shows "(case rsplit_once (CHR '':'') a of
            Some (host, port) \<Rightarrow>
              if CHR '':'' \<in> set host then Inl UnbracketedIpv6
              else and_then (parse_port port) (\<lambda>p. Inr (host, p))
          | None \<Rightarrow> Inr (a, None)) = Inr (h, p)
         \<longleftrightarrow> plain_authority a h p"
proof (cases "rsplit_once (CHR '':'') a")
  case None
  then have "CHR '':'' \<notin> set a" by (simp add: rsplit_once_None)
  then show ?thesis using assms by (auto simp: None plain_authority_def)
next
  case (Some hp)
  then obtain host port where hp: "rsplit_once (CHR '':'') a = Some (host, port)"
    by (cases hp) auto
  then have a: "a = host @ CHR '':'' # port" by (simp add: rsplit_once_Some)
  have "a = h @ CHR '':'' # q \<and> CHR '':'' \<notin> set q \<longleftrightarrow> h = host \<and> q = port" for q
    using hp rsplit_once_Some [of "CHR '':''" a h q] by auto
  then have "plain_authority a h p
        \<longleftrightarrow> h = host \<and> CHR '':'' \<notin> set host \<and> parse_port port = Inr p"
    using assms a unfolding plain_authority_def by (metis in_set_conv_decomp)
  then show ?thesis by (auto simp: hp)
qed

lemma starts_with_strip: "starts_with q a \<longleftrightarrow> strip_prefix q a \<noteq> None"
  by (simp add: starts_with_iff)

lemma split_authority_Inr:
  "split_authority a = Inr (h, p) \<longleftrightarrow>
     CHR ''@'' \<notin> set a \<and> (bracket_authority a h p \<or> plain_authority a h p)"
proof (cases "strip_prefix ''['' a")
  case None
  then have n: "\<not> starts_with ''['' a" by (simp only: starts_with_strip) simp
  then have "\<not> bracket_authority a h p"
    by (auto simp: bracket_authority_def starts_with_def)
  then show ?thesis
    using split_plain [OF n] by (simp add: split_authority_def None)
next
  case (Some rest)
  then have a: "a = CHR ''['' # rest" by simp
  then have "\<not> plain_authority a h p" by (simp add: plain_authority_def starts_with_def)
  then show ?thesis
    using split_bracket [of rest h p] by (simp add: split_authority_def Some) (simp add: a)
qed

subsection \<open>Properties\<close>

text \<open>C19. Normal form: the results of normalisation are exactly the valid names, a valid name
  is its own normal form, and every spelling of it in another letter case, with or without
  a trailing dot, is normalised to it.\<close>

theorem normalize_normal_form:
  "((\<exists>s. normalize s aw au = Inr n) \<longleftrightarrow> valid_name aw au n)
   \<and> (valid_name aw au n \<longrightarrow>
        normalize n aw au = Inr n
        \<and> (\<forall>s. to_ascii_lowercase s = n \<longrightarrow>
              normalize s aw au = Inr n \<and> normalize (s @ ''.'') aw au = Inr n))"
  using normalize_valid normalize_fixed normalize_spelling by blast

theorem normalize_normal_form_witness:
  "valid_name True False ''*.example.com''
   \<and> normalize ''*.Example.COM'' True False = Inr ''*.example.com''
   \<and> normalize ''*.Example.COM.'' True False = Inr ''*.example.com''"
proof -
  have v: "valid_name True False ''*.example.com''" by code_simp
  have l: "to_ascii_lowercase ''*.Example.COM'' = ''*.example.com''" by code_simp
  have "normalize ''*.Example.COM'' True False = Inr ''*.example.com''
      \<and> normalize (''*.Example.COM'' @ ''.'') True False = Inr ''*.example.com''"
    using normalize_normal_form [of True False "''*.example.com''"] v l by blast
  with v show ?thesis by (simp only: append.simps)
qed

text \<open>A wildcard certificate or route is found under the key computed from the hostname
  exactly when the pattern covers the hostname: for a normalised hostname, \<open>wildcard_for\<close>
  returns the pattern that covers it without being the name itself and that has at least
  three labels, and there is no other one.\<close>

theorem wildcard_for_covers:
  assumes "normalize_hostname h = Inr h"
  shows "wildcard_for h = Some p \<longleftrightarrow>
           matches_pattern p h \<and> p \<noteq> h \<and> 3 \<le> length (name_labels p)"
proof -
  have v: "valid_name False False h" using assms by (simp add: normalize_hostname_iff)
  have two: "3 \<le> length (name_labels (''*.'' @ rest)) \<longleftrightarrow> CHR ''.'' \<in> set rest" for rest
    by (rule three_labels)
  have first: "first \<noteq> [] \<and> first \<noteq> ''*''" "h \<noteq> ''*.'' @ rest"
    if "h = first @ CHR ''.'' # rest" "CHR ''.'' \<notin> set first" for first rest
    using hostname_first_label [OF v that] by auto
  show ?thesis
    unfolding wildcard_for_iff matches_pattern_iff using first two by metis
qed

theorem wildcard_for_covers_witness:
  "normalize_hostname ''a.example.com'' = Inr ''a.example.com''
   \<and> wildcard_for ''a.example.com'' = Some ''*.example.com''"
proof -
  have n: "normalize_hostname ''a.example.com'' = Inr ''a.example.com''" by code_simp
  have m: "matches_pattern ''*.example.com'' ''a.example.com''"
    "''*.example.com'' \<noteq> ''a.example.com''" "3 \<le> length (name_labels ''*.example.com'')"
    by code_simp+
  show ?thesis using wildcard_for_covers [OF n, of "''*.example.com''"] n m by blast
qed

text \<open>Zone membership is membership of label sequences: a name is within a zone iff the
  labels of the zone are a suffix of the labels of the name, a leading wildcard label not
  counting. So \<open>evilexample.com\<close> is not within \<open>example.com\<close>.\<close>

theorem is_within_zone_labels:
  "is_within_zone n z \<longleftrightarrow>
     suffix (name_labels z)
       (if starts_with ''*.'' n then tl (name_labels n) else name_labels n)"
proof (cases "starts_with ''*.'' n")
  case True
  then obtain m where n: "n = CHR ''*'' # CHR ''.'' # m" by (auto simp: starts_with_iff)
  then have "tl (name_labels n) = name_labels m"
    by (simp add: name_labels_def split: list.split)
  with True n show ?thesis
    by (simp add: is_within_zone_iff suffix_name_labels)
qed (simp add: is_within_zone_iff suffix_name_labels)

text \<open>The grammar of authorities: \<open>split_authority\<close> accepts exactly the authorities
  without user information that are a host, a bracketed literal, or one of them followed by
  a colon and a port, and returns the host and the port that were written; a missing port
  and an empty port are \<open>None\<close>, and a port is below 65536.\<close>

theorem split_authority_grammar:
  "(split_authority a = Inr (h, p) \<longleftrightarrow>
      CHR ''@'' \<notin> set a \<and> (bracket_authority a h p \<or> plain_authority a h p))
   \<and> (\<forall>n. split_authority a = Inr (h, Some n) \<longrightarrow> n < 65536)"
proof -
  have "n < 65536" if "split_authority a = Inr (h, Some n)" for n
    using that parse_port_bound
    by (auto simp: split_authority_Inr bracket_authority_def plain_authority_def)
  then show ?thesis using split_authority_Inr by blast
qed

theorem split_authority_grammar_witness:
  "split_authority ''[::1]:8443'' = Inr (''::1'', Some 8443) \<and> (8443 :: nat) < 65536"
proof -
  have "split_authority ''[::1]:8443'' = Inr (''::1'', Some 8443)" by code_simp
  then show ?thesis using split_authority_grammar [of "''[::1]:8443''" "''::1''"] by blast
qed

end
