(* ===== verification/Mesh_Protocol.thy ===== *)
theory Mesh_Protocol
  imports Wire Hostname
begin

text \<open>
  The Edge-to-Edge forwarding protocol (\<open>sievetube-common/src/mesh_protocol.rs\<close>): forward
  requests and responses, their structural validation, the framing, and the header of UDP
  payloads forwarded between Edges. The JSON encoding of the payloads is a pair of
  functions given to the frame operations.
\<close>

subsection \<open>Messages\<close>

definition MESH_VERSION :: "16 word" where "MESH_VERSION = 1"
definition MAX_MESH_FRAME :: nat where "MAX_MESH_FRAME = 8192"
definition MAX_ID_LEN :: nat where "MAX_ID_LEN = 256"
definition TAG_FORWARD_REQUEST :: byte where "TAG_FORWARD_REQUEST = 0x10"
definition TAG_FORWARD_RESPONSE :: byte where "TAG_FORWARD_RESPONSE = 0x11"

record forward_request =
  fr_version :: "16 word"
  fr_ingress_edge_id :: string
  fr_tenant_id :: string
  fr_hostname :: string
  fr_protocol :: protocol
  fr_client_addr :: socket_addr
  fr_request_id :: "64 word"
  fr_hops_remaining :: "8 word"
  fr_connection_generation :: "64 word"
  fr_response_budget_ms :: "64 word option"

datatype reject_reason = UnsupportedVersion | HopLimit | NotAuthorized | NoRoute | Overloaded | Invalid

definition retryable :: "reject_reason \<Rightarrow> bool" where
  "retryable r \<longleftrightarrow> r = NoRoute \<or> r = Overloaded"

record forward_response =
  fw_accepted :: bool
  fw_reject :: "reject_reason option"

definition accept_response :: forward_response where
  "accept_response = \<lparr>fw_accepted = True, fw_reject = None\<rparr>"

definition reject_response :: "reject_reason \<Rightarrow> forward_response" where
  "reject_response r = \<lparr>fw_accepted = False, fw_reject = Some r\<rparr>"

definition id_ok :: "string \<Rightarrow> bool" where
  "id_ok s \<longleftrightarrow> s \<noteq> [] \<and> length s \<le> MAX_ID_LEN"

definition validate_request :: "forward_request \<Rightarrow> (reject_reason, unit) result" where
  "validate_request r =
     (if fr_version r \<noteq> MESH_VERSION then Inl UnsupportedVersion
      else if fr_hops_remaining r = 0 then Inl HopLimit
      else let ids_ok = list_all id_ok [fr_ingress_edge_id r, fr_tenant_id r, fr_hostname r];
               hostname_ok = (case normalize_hostname (fr_hostname r) of
                                Inl _ \<Rightarrow> False | Inr h \<Rightarrow> h = fr_hostname r)
           in if \<not> ids_ok \<or> \<not> hostname_ok then Inl Invalid else Inr ())"

subsection \<open>Frames\<close>

definition write_frame :: "('m \<Rightarrow> bytes) \<Rightarrow> byte \<Rightarrow> 'm \<Rightarrow> (wire_error, bytes) result" where
  "write_frame ser tag msg =
     (let payload = ser msg; len = length payload + 1
      in if len > MAX_MESH_FRAME then Inl FrameTooLarge
         else Inr (be_u32 (word_of_nat len) @ [tag] @ payload))"

definition read_frame ::
  "(bytes \<Rightarrow> 'm option) \<Rightarrow> byte \<Rightarrow> bytes \<Rightarrow> (wire_error, 'm \<times> bytes) result" where
  "read_frame de expected_tag s =
     and_then (read_u32 s) (\<lambda>(len, s1).
       if len = 0 \<or> unat len > MAX_MESH_FRAME then Inl FrameTooLarge
       else and_then (read_u8 s1) (\<lambda>(tag, s2).
         if tag \<noteq> expected_tag then Inl (UnexpectedTag tag)
         else and_then (read_exact (unat len - 1) s2) (\<lambda>(payload, s3).
           case de payload of None \<Rightarrow> Inl BadPayload | Some m \<Rightarrow> Inr (m, s3))))"

definition write_forward_request ::
  "(forward_request \<Rightarrow> bytes) \<Rightarrow> forward_request \<Rightarrow> (wire_error, bytes) result" where
  "write_forward_request ser m = write_frame ser TAG_FORWARD_REQUEST m"

definition read_forward_request ::
  "(bytes \<Rightarrow> forward_request option) \<Rightarrow> bytes \<Rightarrow> (wire_error, forward_request \<times> bytes) result" where
  "read_forward_request de s = read_frame de TAG_FORWARD_REQUEST s"

definition write_forward_response ::
  "(forward_response \<Rightarrow> bytes) \<Rightarrow> forward_response \<Rightarrow> (wire_error, bytes) result" where
  "write_forward_response ser m = write_frame ser TAG_FORWARD_RESPONSE m"

definition read_forward_response ::
  "(bytes \<Rightarrow> forward_response option) \<Rightarrow> bytes \<Rightarrow> (wire_error, forward_response \<times> bytes) result" where
  "read_forward_response de s = read_frame de TAG_FORWARD_RESPONSE s"

subsection \<open>Datagrams\<close>

definition DATAGRAM_VERSION :: byte where "DATAGRAM_VERSION = 1"

datatype mesh_datagram_kind = Request | Reply

fun kind_byte :: "mesh_datagram_kind \<Rightarrow> byte" where
  "kind_byte Request = 1"
| "kind_byte Reply = 2"

record mesh_datagram_header =
  md_kind :: mesh_datagram_kind
  md_request_id :: "64 word"
  md_connection_generation :: "64 word"
  md_ingress_edge_id :: string
  md_tenant_id :: string
  md_hostname :: string

definition encoded_len :: "mesh_datagram_header \<Rightarrow> nat" where
  "encoded_len h =
     1 + 1 + 8 + 8 + 6 + length (md_ingress_edge_id h) + length (md_tenant_id h)
     + length (md_hostname h)"

datatype datagram_error =
    FieldTooLong | TruncatedHeader | BadDatagramVersion | UnknownKind | TruncatedField
  | FieldLength | FieldEncoding

definition put_field :: "string \<Rightarrow> bytes" where
  "put_field f = be_u16 (word_of_nat (length (as_bytes f))) @ as_bytes f"

definition mesh_encode :: "mesh_datagram_header \<Rightarrow> bytes \<Rightarrow> (datagram_error, bytes) result" where
  "mesh_encode h payload =
     (if list_ex (\<lambda>f. length f > MAX_ID_LEN) [md_ingress_edge_id h, md_tenant_id h, md_hostname h]
      then Inl FieldTooLong
      else Inr ([DATAGRAM_VERSION, kind_byte (md_kind h)]
                @ be_u64 (md_request_id h) @ be_u64 (md_connection_generation h)
                @ concat (map put_field [md_ingress_edge_id h, md_tenant_id h, md_hostname h])
                @ payload))"

definition take_field :: "bytes \<Rightarrow> (datagram_error, string \<times> bytes) result" where
  "take_field rest =
     (if length rest < 2 then Inl TruncatedField
      else let len = unat (from_be (take 2 rest) :: 16 word)
           in if len > MAX_ID_LEN \<or> length rest < 2 + len then Inl FieldLength
              else case from_utf8 (take len (drop 2 rest)) of
                     None \<Rightarrow> Inl FieldEncoding
                   | Some value \<Rightarrow> Inr (value, drop (2 + len) rest))"

primrec take_fields :: "nat \<Rightarrow> bytes \<Rightarrow> (datagram_error, string list \<times> bytes) result" where
  "take_fields 0 rest = Inr ([], rest)"
| "take_fields (Suc n) rest =
     and_then (take_field rest) (\<lambda>(v, r).
     and_then (take_fields n r) (\<lambda>(vs, r'). Inr (v # vs, r')))"

definition decode_kind :: "byte \<Rightarrow> (datagram_error, mesh_datagram_kind) result" where
  "decode_kind b = (if b = 1 then Inr Request else if b = 2 then Inr Reply else Inl UnknownKind)"

definition mesh_decode :: "bytes \<Rightarrow> (datagram_error, mesh_datagram_header \<times> bytes) result" where
  "mesh_decode data =
     (if length data < 18 then Inl TruncatedHeader
      else if data ! 0 \<noteq> DATAGRAM_VERSION then Inl BadDatagramVersion
      else and_then (decode_kind (data ! 1)) (\<lambda>kind.
           and_then (take_fields 3 (drop 18 data)) (\<lambda>(fields, rest).
             Inr (\<lparr>md_kind = kind,
                   md_request_id = from_be (take 8 (drop 2 data)),
                   md_connection_generation = from_be (take 8 (drop 10 data)),
                   md_ingress_edge_id = fields ! 0, md_tenant_id = fields ! 1,
                   md_hostname = fields ! 2\<rparr>, rest))))"

subsection \<open>Facts on validation and frames\<close>

lemma validate_request_Inr:
  "validate_request r = Inr () \<longleftrightarrow>
     fr_version r = MESH_VERSION \<and> fr_hops_remaining r \<noteq> 0
     \<and> id_ok (fr_ingress_edge_id r) \<and> id_ok (fr_tenant_id r) \<and> id_ok (fr_hostname r)
     \<and> normalize_hostname (fr_hostname r) = Inr (fr_hostname r)"
  by (auto simp: validate_request_def Let_def split: sum.splits)

lemma read_frame_write_frame:
  assumes "write_frame ser tag m = Inr frame"
  shows "read_frame de expected (frame @ rest) =
           (if tag \<noteq> expected then Inl (UnexpectedTag tag)
            else case de (ser m) of None \<Rightarrow> Inl BadPayload | Some m' \<Rightarrow> Inr (m', rest))"
proof -
  let ?n = "length (ser m) + 1"
  from assms have small: "?n \<le> MAX_MESH_FRAME"
    and frame: "frame @ rest = be_u32 (word_of_nat ?n) @ (tag # ser m @ rest)"
    by (auto simp: write_frame_def Let_def split: if_splits)
  have n: "unat (word_of_nat ?n :: 32 word) = ?n"
    using small by (intro unat_u32_of_nat) (simp add: MAX_MESH_FRAME_def)
  then have "(word_of_nat ?n :: 32 word) \<noteq> 0" by (metis Suc_eq_plus1 nat.distinct(1) unat_0)
  then show ?thesis
    unfolding frame using small n
    by (simp add: read_frame_def read_u32_append read_u8_def read_exact_append del: of_nat_add)
qed

subsection \<open>Facts on datagrams\<close>

lemma take_field_Inr:
  "take_field b = Inr (v, r) \<longleftrightarrow> length v \<le> MAX_ID_LEN \<and> wf_string v \<and> b = put_field v @ r"
proof
  assume L: "take_field b = Inr (v, r)"
  let ?n = "unat (from_be (take 2 b) :: 16 word)"
  from L have len: "2 + ?n \<le> length b" "?n \<le> MAX_ID_LEN"
    and u: "from_utf8 (take ?n (drop 2 b)) = Some v" and r: "r = drop (2 + ?n) b"
    by (auto simp: take_field_def Let_def split: if_splits option.splits)
  from u have v: "utf8_valid (take ?n (drop 2 b))" "as_bytes v = take ?n (drop 2 b)"
    by (metis from_utf8_Some)+
  have n: "length v = ?n" using arg_cong [OF v(2), of length] len by simp
  have "put_field v @ r = take 2 b @ take ?n (drop 2 b) @ drop (2 + ?n) b"
    using len by (simp add: put_field_def v(2) r be_u16_from_be)
  also have "\<dots> = b"
    using take_add [of 2 ?n b] append_take_drop_id [of "2 + ?n" b] by simp
  finally show "length v \<le> MAX_ID_LEN \<and> wf_string v \<and> b = put_field v @ r"
    using v n len by simp
next
  assume R: "length v \<le> MAX_ID_LEN \<and> wf_string v \<and> b = put_field v @ r"
  then have "unat (word_of_nat (length v) :: 16 word) = length v"
    by (intro unat_u16_of_nat) (simp add: MAX_ID_LEN_def)
  with R show "take_field b = Inr (v, r)"
    by (simp add: take_field_def put_field_def wire_simps Let_def)
qed

lemma take_fields_Inr:
  "take_fields n b = Inr (vs, r) \<longleftrightarrow>
     length vs = n \<and> (\<forall>v \<in> set vs. length v \<le> MAX_ID_LEN \<and> wf_string v)
     \<and> b = concat (map put_field vs) @ r"
proof (induction n arbitrary: b vs)
  case (Suc n)
  then show ?case by (cases vs) (auto simp: take_field_Inr)
qed auto

lemma decode_kind_Inr: "decode_kind b = Inr k \<longleftrightarrow> b = kind_byte k"
  by (cases k) (auto simp: decode_kind_def)

definition mesh_fits :: "mesh_datagram_header \<Rightarrow> bool" where
  "mesh_fits h \<longleftrightarrow>
     wf_string (md_ingress_edge_id h) \<and> wf_string (md_tenant_id h) \<and> wf_string (md_hostname h)"

lemma mesh_decode_encode:
  assumes "mesh_fits h" "mesh_encode h p = Inr b"
  shows "mesh_decode b = Inr (h, p)"
proof -
  let ?vs = "[md_ingress_edge_id h, md_tenant_id h, md_hostname h]"
  let ?rest = "concat (map put_field ?vs) @ p"
  from assms(2) have b: "b = [DATAGRAM_VERSION, kind_byte (md_kind h)]
      @ be_u64 (md_request_id h) @ be_u64 (md_connection_generation h) @ ?rest"
    and short: "\<forall>v \<in> set ?vs. length v \<le> MAX_ID_LEN"
    by (auto simp: mesh_encode_def split: if_splits)
  have "take_fields 3 ?rest = Inr (?vs, p)"
    using assms(1) short by (subst take_fields_Inr) (auto simp: mesh_fits_def)
  moreover have "drop 18 b = ?rest" "take 8 (drop 2 b) = be_u64 (md_request_id h)"
    "take 8 (drop 10 b) = be_u64 (md_connection_generation h)" "\<not> length b < 18"
    "b ! 0 = DATAGRAM_VERSION" "b ! 1 = kind_byte (md_kind h)"
    unfolding b by simp_all
  moreover have "decode_kind (kind_byte (md_kind h)) = Inr (md_kind h)"
    by (simp add: decode_kind_Inr)
  ultimately show ?thesis by (simp add: mesh_decode_def wire_simps)
qed

lemma split_header:
  assumes "18 \<le> length data"
  shows "data = [data ! 0, data ! 1] @ take 8 (drop 2 data) @ take 8 (drop 10 data) @ drop 18 data"
proof -
  obtain x y r where d: "data = x # y # r"
    using assms by (cases data; cases "tl data") auto
  have "r = take 8 r @ take 8 (drop 8 r) @ drop 16 r"
    using take_add [of 8 8 r] append_take_drop_id [of 16 r] by simp
  then show ?thesis by (simp add: d)
qed

lemma mesh_encode_decode:
  assumes "mesh_decode b = Inr (h, p)"
  shows "mesh_fits h \<and> mesh_encode h p = Inr b"
proof -
  from assms obtain kind fields where len: "18 \<le> length b" and v: "b ! 0 = DATAGRAM_VERSION"
    and k: "decode_kind (b ! 1) = Inr kind" and f: "take_fields 3 (drop 18 b) = Inr (fields, p)"
    and h: "h = \<lparr>md_kind = kind, md_request_id = from_be (take 8 (drop 2 b)),
                 md_connection_generation = from_be (take 8 (drop 10 b)),
                 md_ingress_edge_id = fields ! 0, md_tenant_id = fields ! 1,
                 md_hostname = fields ! 2\<rparr>"
    by (auto simp: mesh_decode_def split: if_splits)
  from f have "length fields = 3" by (simp add: take_fields_Inr)
  then obtain x y z where xyz: "fields = [x, y, z]"
    by (auto simp: numeral_3_eq_3 length_Suc_conv)
  from f have f': "\<forall>v \<in> set [x, y, z]. length v \<le> MAX_ID_LEN \<and> wf_string v"
    "drop 18 b = concat (map put_field [x, y, z]) @ p"
    by (simp_all add: take_fields_Inr xyz)
  have "mesh_encode h p = Inr ([b ! 0, b ! 1] @ take 8 (drop 2 b) @ take 8 (drop 10 b) @ drop 18 b)"
    using f' len v k
    by (auto simp: mesh_encode_def h xyz be_u64_from_be decode_kind_Inr)
  then show ?thesis
    using split_header [OF len] f' by (simp add: mesh_fits_def h xyz)
qed

interpretation md: datagram_codec
  "\<lambda>h p. ok_option (mesh_encode h p)" "\<lambda>b. ok_option (mesh_decode b)" mesh_fits
  unfolding datagram_codec_def ok_option_eq_Some
  using mesh_decode_encode mesh_encode_decode by blast

subsection \<open>Properties\<close>

text \<open>C29. The mesh datagram codec is exact: a byte string decodes to a header and a payload iff
  it is the encoding of them, for headers whose fields are well-formed strings; fields
  longer than 256 bytes are refused by both directions, and an accepted encoding has the
  announced length.\<close>

theorem mesh_codec_exact:
  "(mesh_decode b = Inr (h, p) \<longleftrightarrow> mesh_fits h \<and> mesh_encode h p = Inr b)
   \<and> (mesh_encode h p = Inr b \<longrightarrow> length b = encoded_len h + length p)"
proof -
  have "length (put_field f) = 2 + length f" for f by (simp add: put_field_def)
  then have "mesh_encode h p = Inr b \<longrightarrow> length b = encoded_len h + length p"
    by (auto simp: mesh_encode_def encoded_len_def split: if_splits)
  then show ?thesis using md.dec_iff [of b h p] by simp
qed

definition sample_mesh_header :: mesh_datagram_header where
  "sample_mesh_header =
     \<lparr>md_kind = Reply, md_request_id = 7, md_connection_generation = 3,
      md_ingress_edge_id = ''e1'', md_tenant_id = ''t'', md_hostname = ''a.example.com''\<rparr>"

theorem mesh_codec_exact_witness:
  "\<exists>b. mesh_encode sample_mesh_header [1, 2] = Inr b \<and> length b = 42"
proof -
  obtain b where b: "mesh_encode sample_mesh_header [1, 2] = Inr b"
    by (simp add: mesh_encode_def sample_mesh_header_def MAX_ID_LEN_def)
  moreover have "encoded_len sample_mesh_header + length [1, 2 :: byte] = 42"
    by (simp add: encoded_len_def sample_mesh_header_def)
  ultimately show ?thesis
    using mesh_codec_exact [of b sample_mesh_header "[1, 2]"] by auto
qed

text \<open>Mesh frames survive the stream and are never confused: a request frame is read back
  as the request with the rest of the stream untouched, and the reader of the other
  message kind rejects it by its tag without reading the payload.\<close>

theorem forward_frames:
  assumes "write_forward_request ser m = Inr frame" "de (ser m) = Some m"
  shows "read_forward_request de (frame @ rest) = Inr (m, rest)
         \<and> read_forward_response de' (frame @ rest) = Inl (UnexpectedTag TAG_FORWARD_REQUEST)"
  using assms(2)
    read_frame_write_frame
      [OF assms(1) [unfolded write_forward_request_def], of de TAG_FORWARD_REQUEST rest]
    read_frame_write_frame
      [OF assms(1) [unfolded write_forward_request_def], of de' TAG_FORWARD_RESPONSE rest]
  by (simp add: read_forward_request_def read_forward_response_def TAG_FORWARD_REQUEST_def
      TAG_FORWARD_RESPONSE_def)

definition sample_forward_request :: forward_request where
  "sample_forward_request =
     \<lparr>fr_version = 1, fr_ingress_edge_id = ''e1'', fr_tenant_id = ''t'',
      fr_hostname = ''a.example.com'', fr_protocol = Http,
      fr_client_addr = SocketV4 0x7F000001 4000, fr_request_id = 7, fr_hops_remaining = 1,
      fr_connection_generation = 3, fr_response_budget_ms = None\<rparr>"

theorem forward_frames_witness:
  "read_forward_request (\<lambda>b. if b = [7] then Some sample_forward_request else None)
     ((be_u32 2 @ [0x10] @ [7]) @ [5]) = Inr (sample_forward_request, [5])"
proof -
  have "write_forward_request (\<lambda>_. [7]) sample_forward_request = Inr (be_u32 2 @ [0x10] @ [7])"
    by (simp add: write_forward_request_def write_frame_def MAX_MESH_FRAME_def
        TAG_FORWARD_REQUEST_def)
  moreover have "(\<lambda>b. if b = [7] then Some sample_forward_request else None) [7]
      = Some sample_forward_request" by simp
  ultimately show ?thesis by (rule forward_frames [THEN conjunct1])
qed

end
