(* ===== verification/Tunnel.thy ===== *)
theory Tunnel
  imports Connector_Registry Mesh_Protocol
begin

text \<open>
  The Edge side of a tunnel (\<open>sievetube-edge/src/tunnel.rs\<close>): the table of UDP requests that
  await a reply, request ids, opening a stream, forwarding a datagram and routing replies.
  Time is a natural number of nanoseconds. Sockets and QUIC connections are opaque; what
  the network answers (the datagram size limit, whether a send succeeds) is an argument.
\<close>

subsection \<open>Pending UDP replies\<close>

datatype ('s, 'c) udp_reply_destination =
    Client socket_addr 's
  | Peer 'c string "64 word" string

record ('s, 'c) udp_reply_entry =
  ue_destination :: "('s, 'c) udp_reply_destination"
  ue_expect_peer :: "string option"
  ue_created :: nat

definition entry_client :: "nat \<Rightarrow> socket_addr \<Rightarrow> 's \<Rightarrow> ('s, 'c) udp_reply_entry" where
  "entry_client now addr socket =
     \<lparr>ue_destination = Client addr socket, ue_expect_peer = None, ue_created = now\<rparr>"

definition entry_client_via_peer ::
  "nat \<Rightarrow> socket_addr \<Rightarrow> 's \<Rightarrow> string \<Rightarrow> ('s, 'c) udp_reply_entry" where
  "entry_client_via_peer now addr socket peer =
     \<lparr>ue_destination = Client addr socket, ue_expect_peer = Some peer, ue_created = now\<rparr>"

definition entry_peer ::
  "nat \<Rightarrow> 'c \<Rightarrow> string \<Rightarrow> 64 word \<Rightarrow> string \<Rightarrow> ('s, 'c) udp_reply_entry" where
  "entry_peer now connection ingress_edge_id request_id hostname =
     \<lparr>ue_destination = Peer connection ingress_edge_id request_id hostname,
      ue_expect_peer = None, ue_created = now\<rparr>"

record ('s, 'c) udp_reply_table =
  ut_entries :: "(64 word, ('s, 'c) udp_reply_entry) table"
  ut_max_entries :: nat
  ut_ttl :: nat

definition new_udp_table :: "nat \<Rightarrow> nat \<Rightarrow> ('s, 'c) udp_reply_table" where
  "new_udp_table max_entries ttl = \<lparr>ut_entries = [], ut_max_entries = max_entries, ut_ttl = ttl\<rparr>"

definition udp_fresh :: "nat \<Rightarrow> nat \<Rightarrow> ('s, 'c) udp_reply_entry \<Rightarrow> bool" where
  "udp_fresh now ttl e \<longleftrightarrow> now - ue_created e < ttl"

definition udp_insert ::
  "nat \<Rightarrow> 64 word \<Rightarrow> ('s, 'c) udp_reply_entry \<Rightarrow> ('s, 'c) udp_reply_table
   \<Rightarrow> bool \<times> ('s, 'c) udp_reply_table" where
  "udp_insert now request_id entry t =
     (if t_len (ut_entries t) \<ge> ut_max_entries t then
        let kept = t_retain (\<lambda>_ e. udp_fresh now (ut_ttl t) e) (ut_entries t)
        in if t_len kept \<ge> ut_max_entries t then (False, t\<lparr>ut_entries := kept\<rparr>)
           else (True, t\<lparr>ut_entries := t_insert request_id entry kept\<rparr>)
      else (True, t\<lparr>ut_entries := t_insert request_id entry (ut_entries t)\<rparr>))"

definition udp_take ::
  "nat \<Rightarrow> 64 word \<Rightarrow> ('s, 'c) udp_reply_table
   \<Rightarrow> ('s, 'c) udp_reply_entry option \<times> ('s, 'c) udp_reply_table" where
  "udp_take now request_id t =
     ((case map_of (ut_entries t) request_id of
         None \<Rightarrow> None
       | Some e \<Rightarrow> if udp_fresh now (ut_ttl t) e then Some e else None),
      t\<lparr>ut_entries := t_remove request_id (ut_entries t)\<rparr>)"

definition udp_take_if ::
  "nat \<Rightarrow> 64 word \<Rightarrow> (('s, 'c) udp_reply_entry \<Rightarrow> bool) \<Rightarrow> ('s, 'c) udp_reply_table
   \<Rightarrow> ('s, 'c) udp_reply_entry option \<times> ('s, 'c) udp_reply_table" where
  "udp_take_if now request_id acceptable t =
     (case map_of (ut_entries t) request_id of
        None \<Rightarrow> (None, t)
      | Some e \<Rightarrow>
          if \<not> acceptable e then (None, t)
          else (if udp_fresh now (ut_ttl t) e then Some e else None,
                t\<lparr>ut_entries := t_remove request_id (ut_entries t)\<rparr>))"

definition udp_remove :: "64 word \<Rightarrow> ('s, 'c) udp_reply_table \<Rightarrow> ('s, 'c) udp_reply_table" where
  "udp_remove request_id t = t\<lparr>ut_entries := t_remove request_id (ut_entries t)\<rparr>"

definition udp_contains :: "64 word \<Rightarrow> ('s, 'c) udp_reply_table \<Rightarrow> bool" where
  "udp_contains request_id t \<longleftrightarrow> map_of (ut_entries t) request_id \<noteq> None"

definition udp_purge_expired ::
  "nat \<Rightarrow> ('s, 'c) udp_reply_table \<Rightarrow> nat \<times> ('s, 'c) udp_reply_table" where
  "udp_purge_expired now t =
     (let kept = t_retain (\<lambda>_ e. udp_fresh now (ut_ttl t) e) (ut_entries t)
      in (t_len (ut_entries t) - t_len kept, t\<lparr>ut_entries := kept\<rparr>))"

definition udp_len :: "('s, 'c) udp_reply_table \<Rightarrow> nat" where
  "udp_len t = t_len (ut_entries t)"

text \<open>\<open>REQUEST_COUNTER\<close> starts at 1; \<open>fetch_add\<close> returns the old value and wraps around.\<close>

definition next_request_id :: "64 word \<Rightarrow> 64 word \<times> 64 word" where
  "next_request_id counter = (counter, counter + 1)"

subsection \<open>Streams and datagrams\<close>

datatype open_stream_error = OpenBiFailed | WriteFailed wire_error

text \<open>\<open>open_local_stream\<close>: the bytes written to the new stream. \<open>opened\<close> says whether the
  connection could open a stream.\<close>

definition open_local_stream ::
  "json \<Rightarrow> bool \<Rightarrow> 64 word \<Rightarrow> string \<Rightarrow> protocol \<Rightarrow> socket_addr
   \<Rightarrow> (open_stream_error, bytes) result \<times> 64 word" where
  "open_local_stream J opened counter hostname protocol client_addr =
     (let (request_id, counter') = next_request_id counter
      in (if \<not> opened then Inl OpenBiFailed
          else map_err WriteFailed
                 (write_message J (ConnectRequest
                    \<lparr>cr_request_id = request_id, cr_hostname = hostname, cr_protocol = protocol,
                     cr_client_addr = client_addr\<rparr>)), counter'))"

datatype udp_drop = Oversize | ReplyTableFull | SendFailed | EncodeFailed

definition too_large :: "nat option \<Rightarrow> bytes \<Rightarrow> bool" where
  "too_large max_size datagram =
     (case max_size of None \<Rightarrow> False | Some m \<Rightarrow> length datagram > m)"

definition forward_udp_datagram ::
  "nat \<Rightarrow> nat option \<Rightarrow> bool \<Rightarrow> 64 word \<Rightarrow> bytes \<Rightarrow> string \<Rightarrow> socket_addr \<Rightarrow> 's
   \<Rightarrow> ('s, 'c) udp_reply_table
   \<Rightarrow> (udp_drop, bytes) result \<times> 64 word \<times> ('s, 'c) udp_reply_table" where
  "forward_udp_datagram now max_size send_ok counter payload hostname client_addr socket t =
     (let (request_id, counter') = next_request_id counter;
          datagram = datagram_encode \<lparr>dh_request_id = request_id, dh_hostname = hostname\<rparr> payload
      in if too_large max_size datagram then (Inl Oversize, counter', t)
         else case udp_insert now request_id (entry_client now client_addr socket) t of
           (False, t1) \<Rightarrow> (Inl ReplyTableFull, counter', t1)
         | (True, t1) \<Rightarrow>
             if \<not> send_ok then (Inl SendFailed, counter', udp_remove request_id t1)
             else (Inr datagram, counter', t1))"

text \<open>One datagram in \<open>udp_reply_loop\<close>: where the reply goes, if anywhere.\<close>

datatype ('s, 'c) udp_delivery =
    ToClient 's socket_addr bytes
  | ToPeer 'c bytes
  | Malformed
  | NoMapping
  | Dropped udp_drop

definition mesh_reply :: "string \<Rightarrow> 64 word \<Rightarrow> string \<Rightarrow> mesh_datagram_header" where
  "mesh_reply ingress_edge_id request_id hostname =
     \<lparr>md_kind = Reply, md_request_id = request_id, md_connection_generation = 0,
      md_ingress_edge_id = ingress_edge_id, md_tenant_id = [], md_hostname = hostname\<rparr>"

definition route_reply ::
  "('c \<Rightarrow> nat option) \<Rightarrow> ('c \<Rightarrow> bytes \<Rightarrow> bool) \<Rightarrow> ('s, 'c) udp_reply_destination \<Rightarrow> bytes
   \<Rightarrow> ('s, 'c) udp_delivery" where
  "route_reply max_size send_ok destination payload =
     (case destination of
        Client addr socket \<Rightarrow> ToClient socket addr payload
      | Peer connection ingress_edge_id request_id hostname \<Rightarrow>
          (case mesh_encode (mesh_reply ingress_edge_id request_id hostname) payload of
             Inl _ \<Rightarrow> Dropped EncodeFailed
           | Inr reply \<Rightarrow>
               if too_large (max_size connection) reply then Dropped Oversize
               else if \<not> send_ok connection reply then Dropped SendFailed
               else ToPeer connection reply))"

definition udp_reply ::
  "('c \<Rightarrow> nat option) \<Rightarrow> ('c \<Rightarrow> bytes \<Rightarrow> bool) \<Rightarrow> nat \<Rightarrow> bytes \<Rightarrow> ('s, 'c) udp_reply_table
   \<Rightarrow> ('s, 'c) udp_delivery \<times> ('s, 'c) udp_reply_table" where
  "udp_reply max_size send_ok now datagram t =
     (case datagram_decode datagram of
        None \<Rightarrow> (Malformed, t)
      | Some (header, payload) \<Rightarrow>
          (case udp_take now (dh_request_id header) t of
             (None, t1) \<Rightarrow> (NoMapping, t1)
           | (Some entry, t1) \<Rightarrow> (route_reply max_size send_ok (ue_destination entry) payload, t1)))"

datatype udp_event = PurgeTick | Datagram bytes

definition udp_reply_iter ::
  "('c \<Rightarrow> nat option) \<Rightarrow> ('c \<Rightarrow> bytes \<Rightarrow> bool) \<Rightarrow> nat \<Rightarrow> udp_event \<Rightarrow> ('s, 'c) udp_reply_table
   \<Rightarrow> ('s, 'c) udp_delivery option \<times> ('s, 'c) udp_reply_table" where
  "udp_reply_iter max_size send_ok now ev t =
     (case ev of
        PurgeTick \<Rightarrow> (None, snd (udp_purge_expired now t))
      | Datagram d \<Rightarrow> (case udp_reply max_size send_ok now d t of (r, t1) \<Rightarrow> (Some r, t1)))"

subsection \<open>Facts on the reply table\<close>

abbreviation pending :: "('s, 'c) udp_reply_table \<Rightarrow> 64 word \<Rightarrow> ('s, 'c) udp_reply_entry option" where
  "pending t \<equiv> map_of (ut_entries t)"

definition udp_inv :: "('s, 'c) udp_reply_table \<Rightarrow> bool" where
  "udp_inv t \<longleftrightarrow> wf_table (ut_entries t) \<and> t_len (ut_entries t) \<le> ut_max_entries t"

lemma new_udp_table_inv [simp]: "udp_inv (new_udp_table m ttl)"
  by (simp add: udp_inv_def new_udp_table_def t_len_def)

lemma t_insert_len_le:
  "wf_table t \<Longrightarrow> t_len t < n \<Longrightarrow> t_len (t_insert k v t) \<le> n"
  by (simp add: t_len_insert)

lemma udp_insert_inv: "udp_inv t \<Longrightarrow> udp_insert now i e t = (b, t') \<Longrightarrow> udp_inv t'"
  by (auto simp: udp_inv_def udp_insert_def Let_def not_le intro!: t_insert_len_le
      intro: order_trans [OF t_len_retain] split: if_splits)

lemma udp_insert_pending:
  assumes "wf_table (ut_entries t)" "udp_insert now i e t = (b, t')"
  shows "pending t' i = (if b then Some e else pending t' i)"
    and "j \<noteq> i \<or> \<not> b \<Longrightarrow> pending t' j = Some f \<Longrightarrow> pending t j = Some f"
    and "\<not> b \<Longrightarrow> pending t' j = Some f \<Longrightarrow> udp_fresh now (ut_ttl t) f"
  using assms
  by (auto simp: udp_insert_def Let_def tab_simps split: if_splits option.splits)

lemma udp_take_if_inv: "udp_inv t \<Longrightarrow> udp_take_if now i P t = (r, t') \<Longrightarrow> udp_inv t'"
  using t_len_remove [of i "ut_entries t"]
  by (auto simp: udp_inv_def udp_take_if_def split: option.splits if_splits)

lemma udp_take_inv: "udp_inv t \<Longrightarrow> udp_inv (snd (udp_take now i t))"
  using t_len_remove [of i "ut_entries t"] by (auto simp: udp_inv_def udp_take_def)

lemma udp_remove_inv: "udp_inv t \<Longrightarrow> udp_inv (udp_remove i t)"
  using t_len_remove [of i "ut_entries t"] by (auto simp: udp_inv_def udp_remove_def)

lemma udp_purge_inv: "udp_inv t \<Longrightarrow> udp_inv (snd (udp_purge_expired now t))"
  by (auto simp: udp_inv_def udp_purge_expired_def Let_def intro: order_trans [OF t_len_retain])

lemma udp_take_pending: "pending (snd (udp_take now i t)) = (pending t)(i := None)"
  by (simp add: udp_take_def tab_simps)

lemma udp_remove_pending: "pending (udp_remove i t) = (pending t)(i := None)"
  by (simp add: udp_remove_def tab_simps)

lemma udp_purge_pending:
  "udp_inv t \<Longrightarrow> pending (snd (udp_purge_expired now t)) i = Some e \<longleftrightarrow>
     pending t i = Some e \<and> udp_fresh now (ut_ttl t) e"
  by (auto simp: udp_inv_def udp_purge_expired_def Let_def tab_simps split: option.splits if_splits)

text \<open>
  The contract of a store of pending replies: a claim returns only an entry that is pending
  and acceptable and uses it up; a claim that is not acceptable changes nothing, so a
  forged reply cannot take the place of the genuine one.
\<close>

locale reply_store =
  fixes inv :: "'t \<Rightarrow> bool"
    and waiting :: "'t \<Rightarrow> 64 word \<Rightarrow> 'e option"
    and claim :: "nat \<Rightarrow> 64 word \<Rightarrow> ('e \<Rightarrow> bool) \<Rightarrow> 't \<Rightarrow> 'e option \<times> 't"
  assumes claim_inv: "inv t \<Longrightarrow> claim now i P t = (r, t') \<Longrightarrow> inv t'"
    and claim_takes: "inv t \<Longrightarrow> claim now i P t = (Some e, t')
                      \<Longrightarrow> waiting t i = Some e \<and> P e \<and> waiting t' = (waiting t)(i := None)"
    and claim_refuses: "inv t \<Longrightarrow> waiting t i = Some e \<Longrightarrow> \<not> P e \<Longrightarrow> claim now i P t = (None, t)"
    and claim_unknown: "inv t \<Longrightarrow> waiting t i = None \<Longrightarrow> claim now i P t = (None, t)"
begin

lemma claimed_once:
  assumes "inv t" "claim now i P t = (Some e, t')"
  shows "claim now' i Q t' = (None, t')"
  using claim_unknown [OF claim_inv [OF assms]] claim_takes [OF assms] by simp

text \<open>Any number of unacceptable claims before the genuine one make no difference.\<close>

lemma forgeries_harmless:
  assumes "inv t" "waiting t i = Some e" "\<forall>(now, P) \<in> set attempts. \<not> P e"
  shows "fold (\<lambda>(now, P) t. snd (claim now i P t)) attempts t = t"
  using assms(3)
proof (induction attempts)
  case (Cons a attempts)
  obtain now P where a: "a = (now, P)" by (cases a)
  with Cons have "\<not> P e" by simp
  then have "claim now i P t = (None, t)" using claim_refuses assms(1,2) by blast
  with Cons a show ?case by simp
qed simp

end

interpretation ur: reply_store udp_inv pending udp_take_if
proof
  fix t t' :: "('s, 'c) udp_reply_table" and now i P r e
  show "udp_inv t'" if "udp_inv t" "udp_take_if now i P t = (r, t')"
    using udp_take_if_inv that .
  show "pending t i = Some e \<and> P e \<and> pending t' = (pending t)(i := None)"
    if "udp_inv t" "udp_take_if now i P t = (Some e, t')"
    using that by (auto simp: udp_take_if_def tab_simps split: option.splits if_splits)
  show "udp_take_if now i P t = (None, t)" if "udp_inv t" "pending t i = Some e" "\<not> P e"
    using that by (simp add: udp_take_if_def)
  show "udp_take_if now i P t = (None, t)" if "udp_inv t" "pending t i = None"
    using that by (simp add: udp_take_if_def)
qed

subsection \<open>Runs of the reply table\<close>

text \<open>
  A run with the requests accepted so far and the replies routed so far: datagrams forwarded
  for clients, requests entered for mesh peers (\<open>Mesh_Forward\<close>), request ids used elsewhere
  in the process, replies from the Connector and purges, in any order. What the network
  answers may differ at every step. The run is followed until the id counter wraps around.
\<close>

type_synonym ('s, 'c) udp_log = "(64 word \<times> ('s, 'c) udp_delivery) list"

inductive udp_run ::
  "64 word \<Rightarrow> ('s, 'c) udp_reply_table \<Rightarrow> (64 word \<times> ('s, 'c) udp_reply_entry) list
   \<Rightarrow> ('s, 'c) udp_log \<Rightarrow> bool" where
  start: "udp_run 1 (new_udp_table m ttl) [] []"
| skip_id: "udp_run c t reqs log \<Longrightarrow> unat c < 2 ^ 64 - 1 \<Longrightarrow> udp_run (c + 1) t reqs log"
| forward: "udp_run c t reqs log \<Longrightarrow> unat c < 2 ^ 64 - 1
    \<Longrightarrow> forward_udp_datagram now max_size send_ok c payload hostname addr socket t = (Inr d, c', t')
    \<Longrightarrow> udp_run c' t' ((c, entry_client now addr socket) # reqs) log"
| forward_fails: "udp_run c t reqs log \<Longrightarrow> unat c < 2 ^ 64 - 1
    \<Longrightarrow> forward_udp_datagram now max_size send_ok c payload hostname addr socket t = (Inl e, c', t')
    \<Longrightarrow> udp_run c' t' reqs log"
| peer_request: "udp_run c t reqs log \<Longrightarrow> unat c < 2 ^ 64 - 1
    \<Longrightarrow> udp_insert now c (entry_peer now conn edge rid hostname) t = (True, t')
    \<Longrightarrow> udp_run (c + 1) t' ((c, entry_peer now conn edge rid hostname) # reqs) log"
| peer_send_fails: "udp_run c t reqs log \<Longrightarrow> udp_run c (udp_remove i t) reqs log"
| purge: "udp_run c t reqs log \<Longrightarrow> udp_run c (snd (udp_purge_expired now t)) reqs log"
| reply: "udp_run c t reqs log \<Longrightarrow> datagram_decode d = Some (h, p)
    \<Longrightarrow> udp_reply mx so now d t = (r, t') \<Longrightarrow> r \<noteq> NoMapping
    \<Longrightarrow> udp_run c t' reqs ((dh_request_id h, r) # log)"
| no_reply: "udp_run c t reqs log \<Longrightarrow> udp_reply mx so now d t = (r, t')
    \<Longrightarrow> r = NoMapping \<or> r = Malformed \<Longrightarrow> udp_run c t' reqs log"

definition udp_run_ok ::
  "64 word \<Rightarrow> ('s, 'c) udp_reply_table \<Rightarrow> (64 word \<times> ('s, 'c) udp_reply_entry) list
   \<Rightarrow> ('s, 'c) udp_log \<Rightarrow> bool" where
  "udp_run_ok c t reqs log \<longleftrightarrow>
     udp_inv t \<and> (\<forall>(i, e) \<in> set reqs. i < c) \<and> distinct (map fst reqs)
     \<and> (\<forall>i e. pending t i = Some e \<longrightarrow> (i, e) \<in> set reqs)
     \<and> distinct (map fst log)
     \<and> (\<forall>(i, r) \<in> set log. pending t i = None
          \<and> (\<exists>e mx so p. (i, e) \<in> set reqs \<and> r = route_reply mx so (ue_destination e) p))"

lemma word_suc_greater: "unat (c :: 64 word) < 2 ^ 64 - 1 \<Longrightarrow> c < c + 1"
  by (simp add: word_less_nat_alt unat_word_ariths)

text \<open>Losing pending entries and using up ids keeps a run well-formed.\<close>

lemma udp_run_ok_shrink:
  assumes "udp_run_ok c t reqs log" "udp_inv t'" "c \<le> c'"
    and "\<And>i e. pending t' i = Some e \<Longrightarrow> pending t i = Some e"
  shows "udp_run_ok c' t' reqs log"
proof -
  have "pending t' i = None" if "pending t i = None" for i
    using assms(4) [of i] that by (metis not_None_eq)
  then show ?thesis
    using assms unfolding udp_run_ok_def by (fastforce intro: order.strict_trans2)
qed

lemma udp_run_ok_add:
  assumes ok: "udp_run_ok c t reqs log" and c: "unat c < 2 ^ 64 - 1"
    and ins: "udp_insert now c e t = (True, t')"
  shows "udp_run_ok (c + 1) t' ((c, e) # reqs) log"
proof -
  have inv: "udp_inv t" and low: "\<And>i f. (i, f) \<in> set reqs \<Longrightarrow> i < c"
    using ok by (auto simp: udp_run_ok_def)
  have fresh: "c \<notin> fst ` set reqs" using low by fastforce
  have wf: "wf_table (ut_entries t)" using inv by (simp add: udp_inv_def)
  have p: "pending t' i = Some f \<Longrightarrow> i = c \<and> f = e \<or> pending t i = Some f" for i f
    using udp_insert_pending(1,2) [OF wf ins] by (metis option.inject)
  have n: "pending t' i = None" if "pending t i = None" "i \<noteq> c" for i
    using udp_insert_pending(2) [OF wf ins, of i] that by (metis not_None_eq)
  have "i < c + 1" if "i < c" for i using that word_suc_greater [OF c] by simp
  moreover have "c < c + 1" by (rule word_suc_greater [OF c])
  moreover have "i \<noteq> c" if "(i, r) \<in> set log" for i r
    using that ok low unfolding udp_run_ok_def by fastforce
  ultimately show ?thesis
    using ok p n fresh udp_insert_inv [OF inv ins] low unfolding udp_run_ok_def by fastforce
qed

lemma forward_Inr:
  assumes "forward_udp_datagram now mx so c payload hostname addr socket t = (Inr d, c', t')"
  shows "c' = c + 1 \<and> udp_insert now c (entry_client now addr socket) t = (True, t')
         \<and> d = datagram_encode \<lparr>dh_request_id = c, dh_hostname = hostname\<rparr> payload"
  using assms
  by (auto simp: forward_udp_datagram_def next_request_id_def Let_def
      split: if_splits prod.splits bool.splits)

lemma forward_Inl:
  assumes "udp_inv t" "forward_udp_datagram now mx so c payload hostname addr socket t = (Inl e, c', t')"
  shows "c' = c + 1 \<and> udp_inv t' \<and> (\<forall>i f. pending t' i = Some f \<longrightarrow> pending t i = Some f)"
proof -
  obtain b t1 where ins: "udp_insert now c (entry_client now addr socket) t = (b, t1)"
    by fastforce
  have wf: "wf_table (ut_entries t)" using assms(1) by (simp add: udp_inv_def)
  note p = udp_insert_pending(2) [OF wf ins]
  have "c' = c + 1 \<and> (t' = t \<or> \<not> b \<and> t' = t1 \<or> b \<and> t' = udp_remove c t1)"
    using assms(2) ins
    by (auto simp: forward_udp_datagram_def next_request_id_def Let_def
        split: if_splits bool.splits)
  then show ?thesis
    using assms(1) p udp_insert_inv [OF assms(1) ins] udp_remove_inv [of t1 c]
    by (auto simp: udp_remove_pending split: if_splits)
qed

lemma route_reply_real: "route_reply mx so d p \<noteq> NoMapping \<and> route_reply mx so d p \<noteq> Malformed"
  by (auto simp: route_reply_def split: udp_reply_destination.splits sum.splits)

lemma udp_reply_cases:
  assumes "udp_reply mx so now d t = (r, t')"
  obtains (malformed) "datagram_decode d = None" "r = Malformed" "t' = t"
  | (unknown) h p where "datagram_decode d = Some (h, p)" "r = NoMapping"
      "t' = snd (udp_take now (dh_request_id h) t)"
  | (found) h p e where "datagram_decode d = Some (h, p)" "pending t (dh_request_id h) = Some e"
      "r = route_reply mx so (ue_destination e) p" "t' = snd (udp_take now (dh_request_id h) t)"
  using assms
  by (auto simp: udp_reply_def udp_take_def split: option.splits if_splits)

lemma udp_run_sound: "udp_run c t reqs log \<Longrightarrow> udp_run_ok c t reqs log"
proof (induction rule: udp_run.induct)
  case (start m ttl)
  show ?case by (simp add: udp_run_ok_def) (simp add: new_udp_table_def)
next
  case (skip_id c t reqs log)
  show ?case
    by (rule udp_run_ok_shrink [OF skip_id.IH])
      (use skip_id.IH word_suc_greater [OF skip_id.hyps(2)] in \<open>auto simp: udp_run_ok_def\<close>)
next
  case (forward c t reqs log now max_size send_ok payload hostname addr socket d c' t')
  note f = forward_Inr [OF forward.hyps(3)]
  then have "udp_insert now c (entry_client now addr socket) t = (True, t')" by blast
  from udp_run_ok_add [OF forward.IH forward.hyps(2) this] f show ?case by simp
next
  case (forward_fails c t reqs log now max_size send_ok payload hostname addr socket e c' t')
  then have "udp_inv t" by (simp add: udp_run_ok_def)
  note f = forward_Inl [OF this forward_fails.hyps(3)]
  show ?case
    by (rule udp_run_ok_shrink [OF forward_fails.IH])
      (use f word_suc_greater [OF forward_fails.hyps(2)] in auto)
next
  case (peer_request c t reqs log now conn edge rid hostname t')
  then show ?case using udp_run_ok_add by blast
next
  case (peer_send_fails c t reqs log i)
  show ?case
    by (rule udp_run_ok_shrink [OF peer_send_fails.IH])
      (use peer_send_fails.IH udp_remove_inv in
        \<open>auto simp: udp_run_ok_def udp_remove_pending split: if_splits\<close>)
next
  case (purge c t reqs log now)
  then have "udp_inv t" by (simp add: udp_run_ok_def)
  then show ?case
    by (intro udp_run_ok_shrink [OF purge.IH]) (auto simp: udp_purge_inv udp_purge_pending)
next
  case (reply c t reqs log d h p mx so now r t')
  from reply.hyps(3) obtain e where e: "pending t (dh_request_id h) = Some e"
    "r = route_reply mx so (ue_destination e) p" "t' = snd (udp_take now (dh_request_id h) t)"
    using reply.hyps(2,4) by (cases rule: udp_reply_cases) auto
  have "udp_run_ok c t' reqs log"
    by (rule udp_run_ok_shrink [OF reply.IH])
      (use reply.IH udp_take_inv in \<open>auto simp: udp_run_ok_def e(3) udp_take_pending split: if_splits\<close>)
  moreover have "dh_request_id h \<notin> fst ` set log"
    using reply.IH e(1) by (auto simp: udp_run_ok_def)
  moreover have "(dh_request_id h, e) \<in> set reqs" using reply.IH e(1) by (simp add: udp_run_ok_def)
  ultimately show ?case
    by (auto simp: udp_run_ok_def e udp_take_pending)
next
  case (no_reply c t reqs log mx so now d r t')
  then have inv: "udp_inv t" by (simp add: udp_run_ok_def)
  have "udp_inv t' \<and> (\<forall>i e. pending t' i = Some e \<longrightarrow> pending t i = Some e)"
    using no_reply.hyps(2)
    by (cases rule: udp_reply_cases) (auto simp: inv udp_take_inv udp_take_pending split: if_splits)
  then show ?case by (intro udp_run_ok_shrink [OF no_reply.IH]) auto
qed

subsection \<open>Properties\<close>

text \<open>C10. UDP replies are routed at most once and to the right place: in every run, no request
  id is answered twice, and every reply that goes out is routed to the destination that was
  recorded when the request with that id was accepted; in particular a client receives only
  replies to its own requests.\<close>

theorem udp_replies_routed_once:
  assumes "udp_run c t reqs log"
  shows "distinct (map fst log)
         \<and> (\<forall>(i, r) \<in> set log. \<exists>e mx so p. (i, e) \<in> set reqs \<and> r = route_reply mx so (ue_destination e) p)
         \<and> (\<forall>i s a p. (i, ToClient s a p) \<in> set log \<longrightarrow>
              (\<exists>e. (i, e) \<in> set reqs \<and> ue_destination e = Client a s))"
proof -
  have ok: "distinct (map fst log)"
    "\<forall>(i, r) \<in> set log. \<exists>e mx so p. (i, e) \<in> set reqs \<and> r = route_reply mx so (ue_destination e) p"
    using udp_run_sound [OF assms] unfolding udp_run_ok_def by blast+
  have "ue_destination e = Client a s" if "ToClient s a p = route_reply mx so (ue_destination e) q"
    for e :: "('a, 'b) udp_reply_entry" and s a p mx so q
    using that by (auto simp: route_reply_def split: udp_reply_destination.splits sum.splits if_splits)
  with ok show ?thesis by fastforce
qed

definition sample_addr :: socket_addr where
  "sample_addr = SocketV4 0x7F000001 4000"

definition sample_table :: "(unit, unit) udp_reply_table" where
  "sample_table = \<lparr>ut_entries = [(1, entry_client 5 sample_addr ())], ut_max_entries = 2, ut_ttl = 10\<rparr>"

lemma sample_udp_run:
  "udp_run 2 (snd (udp_take 6 1 sample_table)) [(1, entry_client 5 sample_addr ())]
     [(1, ToClient () sample_addr [9])]"
proof -
  have start: "udp_run 1 (new_udp_table 2 10 :: (unit, unit) udp_reply_table) [] []"
    by (rule udp_run.start)
  have "forward_udp_datagram 5 None True 1 [7] ''a'' sample_addr () (new_udp_table 2 10)
      = (Inr (datagram_encode \<lparr>dh_request_id = 1, dh_hostname = ''a''\<rparr> [7]), 2, sample_table)"
    by (simp add: forward_udp_datagram_def next_request_id_def too_large_def udp_insert_def
        new_udp_table_def t_len_def t_insert_def sample_table_def)
  from udp_run.forward [OF start _ this]
  have run: "udp_run 2 sample_table [(1, entry_client 5 sample_addr ())] []" by simp
  let ?d = "datagram_encode \<lparr>dh_request_id = 1, dh_hostname = ''a''\<rparr> [9]"
  have "datagram_fits \<lparr>dh_request_id = 1, dh_hostname = ''a''\<rparr>"
    using wf_string_ascii [of "''a''"] by (simp add: datagram_fits_def is_ascii_char_def byte_of_def)
  then have dec: "datagram_decode ?d = Some (\<lparr>dh_request_id = 1, dh_hostname = ''a''\<rparr>, [9])"
    by (rule datagram_decode_encode)
  have "udp_reply (\<lambda>_. None) (\<lambda>_ _. True) 6 ?d sample_table
      = (ToClient () sample_addr [9], snd (udp_take 6 1 sample_table))"
    by (simp add: udp_reply_def dec udp_take_def sample_table_def udp_fresh_def entry_client_def
        route_reply_def)
  from udp_run.reply [OF run dec this] show ?thesis by simp
qed

theorem udp_replies_routed_once_witness:
  "\<exists>e. (1, e) \<in> set [(1 :: 64 word, entry_client 5 sample_addr () :: (unit, unit) udp_reply_entry)]
       \<and> ue_destination e = Client sample_addr ()"
  using udp_replies_routed_once [OF sample_udp_run, THEN conjunct2, THEN conjunct2] by simp

text \<open>Requests without replies cannot accumulate: the table never holds more than its
  maximum, an accepted request is pending afterwards, a request is refused only when the
  table is full of unexpired ones, and after a purge exactly the unexpired ones remain.\<close>

theorem udp_table_bounded:
  assumes "udp_inv t" "udp_insert now i e t = (b, t')"
  shows "udp_inv t' \<and> udp_len t' \<le> ut_max_entries t
         \<and> (b \<longrightarrow> pending t' i = Some e)
         \<and> (\<not> b \<longrightarrow> udp_len t' = ut_max_entries t
               \<and> (\<forall>j f. pending t' j = Some f \<longrightarrow> udp_fresh now (ut_ttl t) f))
         \<and> (\<forall>j f. pending (snd (udp_purge_expired now t)) j = Some f \<longleftrightarrow>
               pending t j = Some f \<and> udp_fresh now (ut_ttl t) f)"
proof -
  have inv: "udp_inv t'" using udp_insert_inv [OF assms] .
  have mx: "ut_max_entries t' = ut_max_entries t"
    using assms(2) by (auto simp: udp_insert_def Let_def split: if_splits)
  have wf: "wf_table (ut_entries t)" using assms(1) by (simp add: udp_inv_def)
  have "udp_len t' = ut_max_entries t" if "\<not> b"
    using that assms inv mx
    by (auto simp: udp_insert_def Let_def udp_len_def udp_inv_def intro: antisym split: if_splits)
  then show ?thesis
    using inv mx udp_insert_pending [OF wf assms(2)] udp_purge_pending [OF assms(1)]
    by (auto simp: udp_inv_def udp_len_def)
qed

theorem udp_table_bounded_witness:
  "\<exists>t'. udp_insert 6 2 (entry_client 6 sample_addr ()) sample_table = (True, t') \<and> udp_len t' \<le> 2"
proof -
  have inv: "udp_inv sample_table"
    by (simp add: udp_inv_def sample_table_def wf_table_def t_len_def)
  obtain t' where ins: "udp_insert 6 2 (entry_client 6 sample_addr ()) sample_table = (True, t')"
    by (simp add: udp_insert_def sample_table_def t_len_def)
  with udp_table_bounded [OF inv ins] show ?thesis by (simp add: sample_table_def)
qed

end
