(* ===== verification/Auth.thy ===== *)
theory Auth
  imports Bytes
begin

text \<open>
  Connector tokens (\<open>sievetube-common/src/auth.rs\<close>): the check of a signing secret, signing,
  and verification under the active and the retained secrets. The JWT library is a
  parameter: \<open>jwt_encode\<close> signs claims under a secret, \<open>jwt_decode\<close> checks the signature and
  the expiry (no leeway) under a secret and returns the claims.
\<close>

record tunnel_claims =
  tc_sub :: string
  tc_hostnames :: "string list"
  tc_exp :: "64 word"
  tc_iat :: "64 word"

datatype 'j auth_error = SecretTooShort | SecretPlaceholder | JwtError 'j | NoSecrets

definition MIN_JWT_SECRET_LEN :: nat where "MIN_JWT_SECRET_LEN = 32"

definition PLACEHOLDERS :: "bytes list" where
  "PLACEHOLDERS = map as_bytes
     [''change-me-to-a-long-random-secret'', ''replace-with-at-least-32-random-bytes'',
      ''this-is-not-a-secure-production-secret'']"

definition validate_jwt_secret :: "bytes \<Rightarrow> ('j auth_error, unit) result" where
  "validate_jwt_secret secret =
     (if length secret < MIN_JWT_SECRET_LEN then Inl SecretTooShort
      else if secret \<in> set PLACEHOLDERS \<or> list_all (\<lambda>b. b = secret ! 0) secret
           then Inl SecretPlaceholder
      else Inr ())"

definition sign_jwt ::
  "(bytes \<Rightarrow> tunnel_claims \<Rightarrow> ('j, string) result) \<Rightarrow> tunnel_claims \<Rightarrow> bytes
   \<Rightarrow> ('j auth_error, string) result" where
  "sign_jwt jwt_encode claims secret =
     and_then (validate_jwt_secret secret) (\<lambda>_. map_err JwtError (jwt_encode secret claims))"

definition verify_jwt ::
  "(bytes \<Rightarrow> string \<Rightarrow> ('j, tunnel_claims) result) \<Rightarrow> string \<Rightarrow> bytes
   \<Rightarrow> ('j auth_error, tunnel_claims) result" where
  "verify_jwt jwt_decode token secret =
     and_then (validate_jwt_secret secret) (\<lambda>_. map_err JwtError (jwt_decode secret token))"

fun verify_loop ::
  "(bytes \<Rightarrow> string \<Rightarrow> ('j, tunnel_claims) result) \<Rightarrow> string \<Rightarrow> 'j auth_error option
   \<Rightarrow> bytes list \<Rightarrow> ('j auth_error, tunnel_claims) result" where
  "verify_loop jwt_decode token first_error [] =
     Inl (case first_error of None \<Rightarrow> NoSecrets | Some e \<Rightarrow> e)"
| "verify_loop jwt_decode token first_error (secret # rest) =
     (case verify_jwt jwt_decode token secret of
        Inr data \<Rightarrow> Inr data
      | Inl e \<Rightarrow>
          verify_loop jwt_decode token (if first_error = None then Some e else first_error) rest)"

definition verify_jwt_any ::
  "(bytes \<Rightarrow> string \<Rightarrow> ('j, tunnel_claims) result) \<Rightarrow> string \<Rightarrow> bytes list
   \<Rightarrow> ('j auth_error, tunnel_claims) result" where
  "verify_jwt_any jwt_decode token secrets = verify_loop jwt_decode token None secrets"

subsection \<open>Facts\<close>

lemma verify_loop_Inr:
  "verify_loop D t fe ss = Inr c \<longleftrightarrow>
     (\<exists>as s bs. ss = as @ s # bs \<and> verify_jwt D t s = Inr c
        \<and> (\<forall>a \<in> set as. \<not> is_ok (verify_jwt D t a)))"
proof (induction ss arbitrary: fe)
  case (Cons s ss)
  show ?case
  proof (cases "verify_jwt D t s")
    case (Inl e)
    with Cons show ?thesis
      by (auto simp: Cons_eq_append_conv) (metis is_ok_simps(1) set_ConsD)+
  next
    case (Inr d)
    then have "\<exists>as x bs. s # ss = as @ x # bs \<and> verify_jwt D t x = Inr d
        \<and> (\<forall>a \<in> set as. \<not> is_ok (verify_jwt D t a))"
      by (intro exI [of _ "[]"] exI [of _ s] exI [of _ ss]) simp
    with Inr show ?thesis
      by (auto simp: Cons_eq_append_conv)
  qed
qed simp

lemma verify_loop_Inl:
  "(\<forall>s \<in> set ss. \<not> is_ok (verify_jwt D t s)) \<Longrightarrow>
   verify_loop D t fe ss =
     Inl (case fe of Some e \<Rightarrow> e
          | None \<Rightarrow> (case ss of [] \<Rightarrow> NoSecrets
                     | s # _ \<Rightarrow> (case verify_jwt D t s of Inl e \<Rightarrow> e)))"
  by (induction ss arbitrary: fe) (auto simp: is_ok_def split: sum.splits option.splits)

lemma verify_jwt_Inr:
  "verify_jwt D t s = Inr c \<longleftrightarrow>
     (validate_jwt_secret s :: ('j auth_error, unit) result) = Inr () \<and> D s t = (Inr c :: ('j, _) result)"
  by (auto simp: verify_jwt_def)

lemma validate_jwt_secret_Inr:
  "validate_jwt_secret s = Inr () \<longleftrightarrow>
     32 \<le> length s \<and> s \<notin> set PLACEHOLDERS \<and> (\<exists>b \<in> set s. b \<noteq> s ! 0)"
  by (auto simp: validate_jwt_secret_def MIN_JWT_SECRET_LEN_def list_all_iff)

subsection \<open>Properties\<close>

text \<open>Key rotation: verification under a list of secrets returns the claims found under the
  first secret that accepts the token, whatever secrets were added or dropped around it;
  only a secret of at least 32 bytes that is neither a documented placeholder nor one
  repeated byte can accept; and when none accepts, the error is the one of the newest
  secret.\<close>

theorem verify_jwt_any_rotation:
  fixes D :: "bytes \<Rightarrow> string \<Rightarrow> ('j, tunnel_claims) result"
  shows "(verify_jwt_any D t ss = Inr c \<longleftrightarrow>
            (\<exists>newer s older. ss = newer @ s # older
               \<and> (32 \<le> length s \<and> s \<notin> set PLACEHOLDERS \<and> (\<exists>b \<in> set s. b \<noteq> s ! 0))
               \<and> D s t = Inr c \<and> (\<forall>a \<in> set newer. \<not> is_ok (verify_jwt D t a))))
         \<and> ((\<forall>s \<in> set ss. \<not> is_ok (verify_jwt D t s)) \<longrightarrow>
              verify_jwt_any D t ss =
                (case ss of [] \<Rightarrow> Inl NoSecrets | s # _ \<Rightarrow> verify_jwt D t s))"
proof -
  have "verify_jwt_any D t ss = (case ss of [] \<Rightarrow> Inl NoSecrets | s # _ \<Rightarrow> verify_jwt D t s)"
    if "\<forall>s \<in> set ss. \<not> is_ok (verify_jwt D t s)"
    using that verify_loop_Inl [OF that, of None]
    by (auto simp: verify_jwt_any_def is_ok_def split: list.splits sum.splits)
  then show ?thesis
    unfolding verify_jwt_any_def verify_loop_Inr verify_jwt_Inr validate_jwt_secret_Inr
    by (simp only: conj_assoc) blast
qed

definition sample_secret :: "byte \<Rightarrow> bytes" where
  "sample_secret b = b # replicate 31 0"

definition sample_decode :: "bytes \<Rightarrow> string \<Rightarrow> (unit, tunnel_claims) result" where
  "sample_decode s t =
     (if s = sample_secret 2 \<and> t = ''tok''
      then Inr \<lparr>tc_sub = ''t'', tc_hostnames = [''a.example.com''], tc_exp = 9, tc_iat = 1\<rparr>
      else Inl ())"

theorem verify_jwt_any_rotation_witness:
  "verify_jwt_any sample_decode ''tok'' [sample_secret 1, sample_secret 2]
     = Inr \<lparr>tc_sub = ''t'', tc_hostnames = [''a.example.com''], tc_exp = 9, tc_iat = 1\<rparr>
   \<and> verify_jwt_any sample_decode ''tok'' [sample_secret 1] = verify_jwt sample_decode ''tok'' (sample_secret 1)"
proof -
  let ?c = "\<lparr>tc_sub = ''t'', tc_hostnames = [''a.example.com''], tc_exp = 9, tc_iat = 1\<rparr>"
  have no1: "\<not> is_ok (verify_jwt sample_decode ''tok'' (sample_secret 1))"
    by code_simp
  have s2: "32 \<le> length (sample_secret 2) \<and> sample_secret 2 \<notin> set PLACEHOLDERS
      \<and> (\<exists>b \<in> set (sample_secret 2). b \<noteq> sample_secret 2 ! 0)"
    by code_simp
  have d: "sample_decode (sample_secret 2) ''tok'' = Inr ?c" by code_simp
  have "verify_jwt_any sample_decode ''tok'' [sample_secret 1, sample_secret 2] = Inr ?c"
    unfolding verify_jwt_any_rotation [THEN conjunct1]
    using no1 s2 d by (intro exI [of _ "[sample_secret 1]"] exI [of _ "sample_secret 2"] exI [of _ "[]"]) simp
  moreover have "verify_jwt_any sample_decode ''tok'' [sample_secret 1]
      = verify_jwt sample_decode ''tok'' (sample_secret 1)"
    using verify_jwt_any_rotation [THEN conjunct2, of "[sample_secret 1]" sample_decode "''tok''"]
      no1 by simp
  ultimately show ?thesis by simp
qed

end
