(* ===== verification/Quic_Server.thy ===== *)
theory Quic_Server
  imports Tunnel Auth Valkey
begin

text \<open>
  Admission of Connectors (\<open>sievetube-edge/src/quic_server.rs\<close>): from the first stream of a
  new QUIC connection to its registration, and the end of the connection. The handler is
  one function from the Edge's state, what arrives on the wire and what the network and the
  control plane answer, to the new state and the effects in the order the code performs
  them. Token verification and the JSON codec are parameters.
\<close>

subsection \<open>Operations\<close>

datatype conn_close_reason =
    InvalidAuthRequest | AuthTimeout | AuthFailed | HostnameConflict | ControlPlaneUnavailable
  | RegistrationFailed | ReplacedByNewer

datatype 'c effect =
    SendAuthResponse bool
  | CloseConnection 'c "32 word" conn_close_reason
  | SpawnUdpReplyLoop 'c
  | RegisterPresence string
  | DeregisterPresence string
  | AdvertiseNow
  | WithdrawRegistration "'c connector_handle"

definition check_mesh_tenant_id :: "string \<Rightarrow> bool" where
  "check_mesh_tenant_id tenant_id \<longleftrightarrow> \<not> (tenant_id = [] \<or> length tenant_id > MAX_ID_LEN)"

fun normalize_claimed ::
  "string list \<Rightarrow> string list \<Rightarrow> (hostname_error, string list) result" where
  "normalize_claimed hostnames [] = Inr hostnames"
| "normalize_claimed hostnames (h # rest) =
     (case normalize_hostname h of
        Inl e \<Rightarrow> Inl e
      | Inr n \<Rightarrow>
          normalize_claimed (if n \<in> set hostnames then hostnames else hostnames @ [n]) rest)"

definition normalize_claimed_hostnames ::
  "string list \<Rightarrow> (hostname_error, string list) result" where
  "normalize_claimed_hostnames raw = normalize_claimed [] raw"

definition push_protocols :: "protocol list \<Rightarrow> protocol list \<Rightarrow> protocol list" where
  "push_protocols new ps = fold (\<lambda>p ps. if p \<in> set ps then ps else ps @ [p]) new ps"

definition services_step ::
  "string list \<Rightarrow> service_advertisement \<Rightarrow> (string, protocol list) table
   \<Rightarrow> (string, protocol list) table" where
  "services_step hostnames ad services =
     (case normalize_hostname (sv_hostname ad) of
        Inl _ \<Rightarrow> services
      | Inr hostname \<Rightarrow>
          if hostname \<notin> set hostnames then services
          else let protocols = (case map_of services hostname of None \<Rightarrow> [] | Some ps \<Rightarrow> ps)
               in t_insert hostname (push_protocols (sv_protocols ad) protocols) services)"

definition services_for ::
  "string list \<Rightarrow> service_advertisement list \<Rightarrow> (string, protocol list) table" where
  "services_for hostnames advertised = fold (services_step hostnames) advertised []"

definition read_auth_request :: "json \<Rightarrow> bytes option \<Rightarrow> auth_request option" where
  "read_auth_request J uni_stream =
     (case uni_stream of
        None \<Rightarrow> None
      | Some s \<Rightarrow> (case read_message J s of Inr (AuthRequest r, _) \<Rightarrow> Some r | _ \<Rightarrow> None))"

record ('c, 'db) edge_state =
  es_registry :: "'c registry"
  es_valkey :: "valkey_handle option"
  es_db :: 'db

record ('c, 'j, 'db) quic_context =
  qc_json :: json
  qc_jwt_decode :: "bytes \<Rightarrow> string \<Rightarrow> ('j, tunnel_claims) result"
  qc_jwt_secrets :: "bytes list"
  qc_has_advertiser :: bool
  qc_redis :: "'db redis"
  qc_stable_id :: "'c \<Rightarrow> nat"

text \<open>What happens around one connection: \<open>ev_auth\<close> is \<open>None\<close> when authentication times out,
  otherwise the bytes of the first stream, if one was opened.\<close>

record arrival =
  ev_now :: nat
  ev_server_now :: nat
  ev_auth :: "bytes option option"
  ev_net :: round_trip
  ev_udp_table :: nat

definition reject :: "'c \<Rightarrow> conn_close_reason \<Rightarrow> 'c effect list" where
  "reject connection why = [SendAuthResponse False, CloseConnection connection AUTH_FAILED why]"

datatype ownership = Owned | NotOwned conn_close_reason

definition claim_ownership ::
  "('c, 'j, 'db) quic_context \<Rightarrow> arrival \<Rightarrow> string \<Rightarrow> string list \<Rightarrow> ('c, 'db) edge_state
   \<Rightarrow> ownership \<times> ('c, 'db) edge_state" where
  "claim_ownership ctx ev tenant_id hostnames es =
     (case es_valkey es of
        None \<Rightarrow> (Owned, es)
      | Some vh \<Rightarrow>
          (case claim_hostnames (qc_redis ctx) (ev_net ev) (ev_server_now ev) (ev_now ev)
                  tenant_id hostnames vh (es_db es) of
             (Inr Claimed, vh', db') \<Rightarrow> (Owned, es\<lparr>es_valkey := Some vh', es_db := db'\<rparr>)
           | (Inr (Conflict _), vh', db') \<Rightarrow>
               (NotOwned HostnameConflict, es\<lparr>es_valkey := Some vh', es_db := db'\<rparr>)
           | (Inl _, vh', db') \<Rightarrow>
               (case previously_confirmed (ev_now ev) tenant_id hostnames vh' of
                  (confirmed, vh'') \<Rightarrow>
                    (if confirmed then Owned else NotOwned ControlPlaneUnavailable,
                     es\<lparr>es_valkey := Some vh'', es_db := db'\<rparr>))))"

definition register_connector ::
  "('c, 'j, 'db) quic_context \<Rightarrow> arrival \<Rightarrow> 'c \<Rightarrow> string \<Rightarrow> string list
   \<Rightarrow> (string, protocol list) table option \<Rightarrow> ('c, 'db) edge_state
   \<Rightarrow> 'c connector_handle option \<times> 'c effect list \<times> ('c, 'db) edge_state" where
  "register_connector ctx ev connection tenant_id hostnames services es =
     (case register (ev_now ev)
             \<lparr>rg_tenant_id = tenant_id, rg_hostnames = hostnames, rg_services = services,
              rg_connection = connection, rg_udp_reply_map = ev_udp_table ev\<rparr> (es_registry es) of
        (Inl _, _) \<Rightarrow> (None, reject connection RegistrationFailed, es)
      | (Inr d, r') \<Rightarrow>
          (Some (rd_handle d),
           [SpawnUdpReplyLoop connection]
           @ (case rd_replaced d of
                Some previous \<Rightarrow>
                  if qc_stable_id ctx (ch_connection previous) \<noteq> qc_stable_id ctx connection
                  then [CloseConnection (ch_connection previous) REPLACED ReplacedByNewer] else []
              | None \<Rightarrow> [])
           @ (if es_valkey es = None then [] else [RegisterPresence tenant_id])
           @ [SendAuthResponse True]
           @ (if qc_has_advertiser ctx then [AdvertiseNow] else []),
           es\<lparr>es_registry := r'\<rparr>))"

definition admit_connector ::
  "('c, 'j, 'db) quic_context \<Rightarrow> arrival \<Rightarrow> 'c \<Rightarrow> ('c, 'db) edge_state
   \<Rightarrow> 'c connector_handle option \<times> 'c effect list \<times> ('c, 'db) edge_state" where
  "admit_connector ctx ev connection es =
     (case ev_auth ev of
        None \<Rightarrow> (None, [CloseConnection connection AUTH_FAILED AuthTimeout], es)
      | Some stream \<Rightarrow>
     (case read_auth_request (qc_json ctx) stream of
        None \<Rightarrow> (None, [CloseConnection connection AUTH_FAILED InvalidAuthRequest], es)
      | Some auth_req \<Rightarrow>
     (case verify_jwt_any (qc_jwt_decode ctx) (ar_jwt auth_req) (qc_jwt_secrets ctx) of
        Inl _ \<Rightarrow> (None, reject connection AuthFailed, es)
      | Inr claims \<Rightarrow>
     (if qc_has_advertiser ctx \<and> \<not> check_mesh_tenant_id (tc_sub claims)
      then (None, reject connection AuthFailed, es)
      else case normalize_claimed_hostnames (tc_hostnames claims) of
        Inl _ \<Rightarrow> (None, reject connection AuthFailed, es)
      | Inr hostnames \<Rightarrow>
     (case claim_ownership ctx ev (tc_sub claims) hostnames es of
        (NotOwned why, es1) \<Rightarrow> (None, reject connection why, es1)
      | (Owned, es1) \<Rightarrow>
          register_connector ctx ev connection (tc_sub claims) hostnames
            (map_option (services_for hostnames) (ar_services auth_req)) es1)))))"

text \<open>The connection ends, or the Connector announces that it goes away.\<close>

definition connector_gone ::
  "('c, 'j, 'db) quic_context \<Rightarrow> 'c connector_handle \<Rightarrow> ('c, 'db) edge_state
   \<Rightarrow> 'c effect list \<times> ('c, 'db) edge_state" where
  "connector_gone ctx handle es =
     (case remove (ch_tenant_id handle) (ch_generation handle) (es_registry es) of
        (False, _) \<Rightarrow> ([], es)
      | (True, r') \<Rightarrow>
          ((if qc_has_advertiser ctx then [WithdrawRegistration handle] else [])
           @ (if es_valkey es = None then [] else [DeregisterPresence (ch_tenant_id handle)]),
           es\<lparr>es_registry := r'\<rparr>))"

text \<open>\<open>wait_for_going_away\<close> over the streams the Connector opens, \<open>None\<close> for one that times out;
  it never resolves when no stream carries the message.\<close>

definition wait_for_going_away :: "json \<Rightarrow> bytes option list \<Rightarrow> bool" where
  "wait_for_going_away J streams =
     list_ex (\<lambda>s. case s of
                    None \<Rightarrow> False
                  | Some b \<Rightarrow> (case read_message J b of Inr (GoingAway, _) \<Rightarrow> True | _ \<Rightarrow> False)) streams"

subsection \<open>Facts on names and services\<close>

lemma normalize_claimed_Inr:
  "normalize_claimed acc raw = Inr hs \<Longrightarrow> distinct acc \<Longrightarrow>
     distinct hs \<and> set hs = set acc \<union> {n. \<exists>x \<in> set raw. normalize_hostname x = Inr n}
     \<and> (\<forall>x \<in> set raw. is_ok (normalize_hostname x))"
proof (induction raw arbitrary: acc)
  case (Cons x raw)
  then obtain n where n: "normalize_hostname x = Inr n"
    by (auto split: sum.splits)
  let ?acc = "if n \<in> set acc then acc else acc @ [n]"
  have "distinct hs \<and> set hs = set ?acc \<union> {n. \<exists>x \<in> set raw. normalize_hostname x = Inr n}
     \<and> (\<forall>x \<in> set raw. is_ok (normalize_hostname x))"
    by (rule Cons.IH) (use Cons.prems n in auto)
  with n show ?case by auto
qed auto

lemma claimed_hostnames:
  assumes "normalize_claimed_hostnames raw = Inr hs"
  shows "distinct hs" "set hs = {n. \<exists>x \<in> set raw. normalize_hostname x = Inr n}"
    "x \<in> set hs \<Longrightarrow> normalize_hostname x = Inr x"
  using normalize_claimed_Inr [of "[]" raw hs] assms hn.keys_fixed
  by (auto simp: normalize_claimed_hostnames_def)

lemma set_push_protocols [simp]: "set (push_protocols new ps) = set new \<union> set ps"
  unfolding push_protocols_def by (induction new arbitrary: ps) auto

text \<open>The protocols offered for a hostname, as a relation.\<close>

definition offers :: "(string, protocol list) table \<Rightarrow> string \<Rightarrow> protocol \<Rightarrow> bool" where
  "offers t x p \<longleftrightarrow> (\<exists>ps. map_of t x = Some ps \<and> p \<in> set ps)"

lemma offers_services_step:
  "offers (services_step hs ad t) x p \<longleftrightarrow>
     offers t x p \<or> (x \<in> set hs \<and> normalize_hostname (sv_hostname ad) = Inr x \<and> p \<in> set (sv_protocols ad))"
  by (cases "normalize_hostname (sv_hostname ad)")
    (auto simp: offers_def services_step_def Let_def tab_simps split: option.splits if_splits, metis)

lemma offers_services_for:
  "offers (services_for hs ads) x p \<longleftrightarrow>
     (\<exists>ad \<in> set ads. x \<in> set hs \<and> normalize_hostname (sv_hostname ad) = Inr x \<and> p \<in> set (sv_protocols ad))"
proof -
  have "offers (fold (services_step hs) ads t) x p \<longleftrightarrow> offers t x p \<or>
     (\<exists>ad \<in> set ads. x \<in> set hs \<and> normalize_hostname (sv_hostname ad) = Inr x \<and> p \<in> set (sv_protocols ad))" for t
    by (induction ads arbitrary: t) (auto simp: offers_services_step)
  from this [of "[]"] show ?thesis by (simp add: services_for_def offers_def)
qed

lemma supports_iff:
  "supports h x p \<longleftrightarrow>
     (case ch_services h of None \<Rightarrow> x \<in> set (ch_hostnames h) | Some t \<Rightarrow> offers t x p)"
  by (auto simp: supports_def offers_def list_ex_iff split: option.splits)

subsection \<open>Facts on admission\<close>

definition es_inv :: "('c, 'db) edge_state \<Rightarrow> bool" where
  "es_inv es \<longleftrightarrow> reg_inv (es_registry es)
     \<and> (\<forall>vh. es_valkey es = Some vh \<longrightarrow> wf_table (vh_confirmed vh))"

text \<open>Ownership is backed by the server now, or by a confirmation at most a minute old when
  the server did not answer.\<close>

definition backed ::
  "('db \<Rightarrow> keyspace) \<Rightarrow> arrival \<Rightarrow> string \<Rightarrow> string list \<Rightarrow> ('c, 'db) edge_state
   \<Rightarrow> ('c, 'db) edge_state \<Rightarrow> bool" where
  "backed view ev tenant hs es es' \<longleftrightarrow>
     (case es_valkey es of
        None \<Rightarrow> True
      | Some vh \<Rightarrow>
          (\<forall>x \<in> set hs. live_value (ev_server_now ev) (view (es_db es')) (owner_key x) = Some tenant)
          \<or> (ev_net ev \<noteq> Delivered \<and>
             (\<forall>x \<in> set hs. \<exists>o1. map_of (vh_confirmed vh) x = Some o1 \<and> co_tenant_id o1 = tenant
                 \<and> ev_now ev - co_confirmed_at o1 \<le> OWNERSHIP_CACHE_TTL)))"

lemma claim_hostnames_Inl:
  "claim_hostnames R net sn now t hs vh db = (Inl e, vh', db') \<Longrightarrow> vh' = vh \<and> net \<noteq> Delivered"
  by (cases net) (auto simp: claim_hostnames_def invoke_def split: if_splits prod.splits)

lemma claim_ownership_facts:
  assumes R: "redis_strings (qc_redis ctx) view" and inv: "es_inv es"
    and run: "claim_ownership ctx ev t hs es = (own, es')"
  shows "es_registry es' = es_registry es" "(es_valkey es' = None) = (es_valkey es = None)"
    "es_inv es'" "own = Owned \<Longrightarrow> backed view ev t hs es es'"
proof -
  have "es_registry es' = es_registry es \<and> (es_valkey es' = None) = (es_valkey es = None)
        \<and> es_inv es' \<and> (own = Owned \<longrightarrow> backed view ev t hs es es')"
  proof (cases "es_valkey es")
    case None
    with run inv show ?thesis by (simp add: claim_ownership_def backed_def)
  next
    case (Some vh)
    obtain res vh' db' where c: "claim_hostnames (qc_redis ctx) (ev_net ev) (ev_server_now ev)
        (ev_now ev) t hs vh (es_db es) = (res, vh', db')"
      by (metis surj_pair)
    have wf: "wf_table (vh_confirmed vh)" using inv Some by (simp add: es_inv_def)
    then have wf': "wf_table (vh_confirmed vh')"
      using c by (auto simp: claim_hostnames_def invoke_def split: if_splits prod.splits sum.splits)
    note atomic = claim_hostnames_effect [OF R c]
    show ?thesis
    proof (cases res)
      case (Inl e)
      with c have vh': "vh' = vh" "ev_net ev \<noteq> Delivered" by (auto dest!: claim_hostnames_Inl)
      with run Inl c Some inv wf show ?thesis
        by (auto simp: claim_ownership_def previously_confirmed_def es_inv_def backed_def Let_def
            list_all_iff t_get_retain split: if_splits option.splits)
    next
      case (Inr outcome)
      with run c Some inv wf' atomic show ?thesis
        by (cases outcome) (auto simp: claim_ownership_def es_inv_def backed_def)
    qed
  qed
  then show "es_registry es' = es_registry es" "(es_valkey es' = None) = (es_valkey es = None)"
    "es_inv es'" "own = Owned \<Longrightarrow> backed view ev t hs es es'"
    by blast+
qed

lemma admit_cases:
  assumes "admit_connector ctx ev c es = (res, eff, es')"
  obtains (refused) es1 where "res = None" "es' = es1" "es_registry es1 = es_registry es"
      "SendAuthResponse True \<notin> set eff" "\<exists>why. CloseConnection c AUTH_FAILED why \<in> set eff"
  | (admitted) stream req claims hs es1 d where
      "ev_auth ev = Some stream" "read_auth_request (qc_json ctx) stream = Some req"
      "verify_jwt_any (qc_jwt_decode ctx) (ar_jwt req) (qc_jwt_secrets ctx) = Inr claims"
      "qc_has_advertiser ctx \<longrightarrow> check_mesh_tenant_id (tc_sub claims)"
      "normalize_claimed_hostnames (tc_hostnames claims) = Inr hs"
      "claim_ownership ctx ev (tc_sub claims) hs es = (Owned, es1)"
      "register (ev_now ev)
         \<lparr>rg_tenant_id = tc_sub claims, rg_hostnames = hs,
          rg_services = map_option (services_for hs) (ar_services req),
          rg_connection = c, rg_udp_reply_map = ev_udp_table ev\<rparr> (es_registry es1)
        = (Inr d, es_registry es')"
      "res = Some (rd_handle d)" "SendAuthResponse True \<in> set eff"
      "es_valkey es' = es_valkey es1" "es_db es' = es_db es1"
proof -
  have own: "es_registry es1 = es_registry es" if "claim_ownership ctx ev t hs es = (w, es1)" for t hs w es1
    using that by (auto simp: claim_ownership_def split: option.splits prod.splits sum.splits claim_outcome.splits)
  show thesis
  proof (cases "\<exists>req claims hs es1 stream. ev_auth ev = Some stream
      \<and> read_auth_request (qc_json ctx) stream = Some req
      \<and> verify_jwt_any (qc_jwt_decode ctx) (ar_jwt req) (qc_jwt_secrets ctx) = Inr claims
      \<and> (qc_has_advertiser ctx \<longrightarrow> check_mesh_tenant_id (tc_sub claims))
      \<and> normalize_claimed_hostnames (tc_hostnames claims) = Inr hs
      \<and> claim_ownership ctx ev (tc_sub claims) hs es = (Owned, es1)")
    case False
    then have "res = None \<and> es_registry es' = es_registry es \<and> SendAuthResponse True \<notin> set eff
        \<and> (\<exists>why. CloseConnection c AUTH_FAILED why \<in> set eff)"
      using assms own
      by (auto simp: admit_connector_def reject_def
          split: option.splits sum.splits if_splits prod.splits ownership.splits)
    then show thesis using refused by blast
  next
    case True
    then obtain req claims hs es1 stream where adm: "ev_auth ev = Some stream"
      "read_auth_request (qc_json ctx) stream = Some req"
      "verify_jwt_any (qc_jwt_decode ctx) (ar_jwt req) (qc_jwt_secrets ctx) = Inr claims"
      "qc_has_advertiser ctx \<longrightarrow> check_mesh_tenant_id (tc_sub claims)"
      "normalize_claimed_hostnames (tc_hostnames claims) = Inr hs"
      "claim_ownership ctx ev (tc_sub claims) hs es = (Owned, es1)"
      by blast
    let ?rg = "\<lparr>rg_tenant_id = tc_sub claims, rg_hostnames = hs,
          rg_services = map_option (services_for hs) (ar_services req),
          rg_connection = c, rg_udp_reply_map = ev_udp_table ev\<rparr>"
    have eq: "register_connector ctx ev c (tc_sub claims) hs
        (map_option (services_for hs) (ar_services req)) es1 = (res, eff, es')"
      using assms adm by (simp add: admit_connector_def split: if_splits)
    obtain r r' where reg: "register (ev_now ev) ?rg (es_registry es1) = (r, r')" by fastforce
    show thesis
    proof (cases r)
      case (Inl e)
      with eq reg have "res = None \<and> es' = es1 \<and> SendAuthResponse True \<notin> set eff
          \<and> (\<exists>why. CloseConnection c AUTH_FAILED why \<in> set eff)"
        by (auto simp: register_connector_def reject_def)
      then show thesis using refused [of es1] own [OF adm(6)] by blast
    next
      case (Inr d)
      with eq reg have e: "es' = es1\<lparr>es_registry := r'\<rparr>" "res = Some (rd_handle d)"
        "SendAuthResponse True \<in> set eff"
        by (auto simp: register_connector_def)
      with reg Inr have "register (ev_now ev) ?rg (es_registry es1) = (Inr d, es_registry es')" by simp
      from admitted [OF adm this e(2,3)] e(1) show thesis by simp
    qed
  qed
qed

subsection \<open>Properties\<close>


text \<open>C40. A refused Connector leaves no trace in the registry: when admission fails for any
  reason (timeout, malformed request, bad token, bad hostname, conflict, control plane
  unavailable), the registry is unchanged, no positive answer is sent and the connection
  is closed with the code for failed authentication.\<close>

theorem admit_connector_refused:
  assumes "admit_connector ctx ev c es = (None, eff, es')"
  shows "es_registry es' = es_registry es \<and> SendAuthResponse True \<notin> set eff
         \<and> (\<exists>why. CloseConnection c AUTH_FAILED why \<in> set eff)"
  using assms by (cases rule: admit_cases) auto

definition sample_ctx :: "(unit, unit, keyspace) quic_context" where
  "sample_ctx =
     \<lparr>qc_json = sample_json, qc_jwt_decode = (\<lambda>s _. sample_decode s ''tok''), qc_jwt_secrets = [sample_secret 2],
      qc_has_advertiser = True, qc_redis = map_redis, qc_stable_id = (\<lambda>_. 0)\<rparr>"

definition sample_arrival :: "bytes option option \<Rightarrow> arrival" where
  "sample_arrival s =
     \<lparr>ev_now = 7, ev_server_now = 9, ev_auth = s, ev_net = Delivered, ev_udp_table = 0\<rparr>"

definition sample_es :: "(unit, keyspace) edge_state" where
  "sample_es = \<lparr>es_registry = new_registry, es_valkey = Some sample_vh, es_db = Map.empty\<rparr>"

definition sample_stream :: bytes where
  "sample_stream = [0, 0, 0, 4, 1] @ as_bytes ''jwt''"

lemma sample_admission:
  "(case admit_connector sample_ctx (sample_arrival (Some (Some sample_stream))) () sample_es of
      (Some h, _, _) \<Rightarrow> ch_hostnames h = [''a.example.com''] | _ \<Rightarrow> False)"
  by code_simp


theorem admit_connector_refused_witness:
  "\<exists>why. CloseConnection () AUTH_FAILED why
     \<in> set (fst (snd (admit_connector sample_ctx (sample_arrival None) () sample_es)))"
proof -
  have "admit_connector sample_ctx (sample_arrival None) () sample_es
      = (None, [CloseConnection () AUTH_FAILED AuthTimeout], sample_es)"
    by (simp add: admit_connector_def sample_arrival_def)
  from admit_connector_refused [OF this] this show ?thesis by simp
qed

end
