(* ===== verification/Ingress.thy ===== *)
theory Ingress
  imports Quic_Server
begin

text \<open>
  The Connector's ingress rules and configuration (\<open>sievetube-connector/src/ingress.rs\<close>,
  \<open>config.rs\<close>) and the dispatch of an accepted stream to its target (\<open>forwarder.rs\<close>). Parsing
  TOML, the file system and rustls' check of a server name are parameters.
\<close>

subsection \<open>Matching\<close>

datatype ingress_error = BadTarget target_error | NoIngressMatch string protocol

definition rule_matches :: "ingress_rule \<Rightarrow> string \<Rightarrow> protocol \<Rightarrow> bool" where
  "rule_matches rule hostname protocol \<longleftrightarrow>
     (case ir_hostname rule of None \<Rightarrow> True | Some h \<Rightarrow> eq_ignore_ascii_case h hostname)
     \<and> (case ir_protocol rule of None \<Rightarrow> True | Some p \<Rightarrow> p = protocol)"

fun match_request ::
  "ingress_rule list \<Rightarrow> string \<Rightarrow> protocol \<Rightarrow> (ingress_error, target) result" where
  "match_request [] hostname protocol = Inl (NoIngressMatch hostname protocol)"
| "match_request (rule # rules) hostname protocol =
     (if rule_matches rule hostname protocol then map_err BadTarget (target_parse (ir_target rule))
      else match_request rules hostname protocol)"

definition usable_for :: "ingress_rule list \<Rightarrow> string \<Rightarrow> protocol \<Rightarrow> bool" where
  "usable_for rules hostname protocol =
     (case match_request rules hostname protocol of
        Inr (Address _) \<Rightarrow> True
      | Inr (HttpStatus _) \<Rightarrow> protocol = Http
      | Inl _ \<Rightarrow> False)"

definition ingress_services :: "ingress_rule list \<Rightarrow> string list \<Rightarrow> service_advertisement list" where
  "ingress_services rules hostnames =
     map (\<lambda>hostname. \<lparr>sv_hostname = hostname,
                      sv_protocols = filter (usable_for rules hostname) [Http, Tcp, Udp]\<rparr>) hostnames"

subsection \<open>Configuration\<close>

record network_config =
  nc_public_servers :: "string list"
  nc_edge_ca_cert :: "string option"
  nc_edge_server_name :: "string option"
  nc_edge_cert_sha256 :: "string list"
  nc_insecure_skip_verify :: bool
  nc_drain_timeout_secs :: nat
  nc_max_concurrent_streams :: nat
  nc_target_connect_timeout_secs :: nat

record connector_valkey_config =
  vc_url :: string
  vc_heartbeat_interval_secs :: nat

record connector_config =
  cc_token :: string
  cc_network :: network_config
  cc_ingress :: "ingress_rule list"
  cc_valkey :: "connector_valkey_config option"

datatype rule_error = RuleTarget target_error | NotAStatusCode | StatusForStream protocol

datatype config_error =
    EmptyToken | NoIngressRule | NoServers | BadStreamLimit | BadConnectTimeout
  | EmptyValkeyUrl | BadHeartbeat | BadRule nat rule_error | NotOneVerification
  | BadPin | MissingCa | EmptyServerName | BadServerName

definition MAX_INCOMING_STREAMS :: nat where "MAX_INCOMING_STREAMS = 10000"

definition validate_rule :: "ingress_rule \<Rightarrow> (rule_error, unit) result" where
  "validate_rule rule =
     (case target_parse (ir_target rule) of
        Inl e \<Rightarrow> Inl (RuleTarget e)
      | Inr (Address _) \<Rightarrow> Inr ()
      | Inr (HttpStatus code) \<Rightarrow>
          if \<not> (100 \<le> code \<and> code \<le> 599) then Inl NotAStatusCode
          else case ir_protocol rule of
                 Some Tcp \<Rightarrow> Inl (StatusForStream Tcp)
               | Some Udp \<Rightarrow> Inl (StatusForStream Udp)
               | _ \<Rightarrow> Inr ())"

fun validate_rules :: "nat \<Rightarrow> ingress_rule list \<Rightarrow> (config_error, unit) result" where
  "validate_rules index [] = Inr ()"
| "validate_rules index (rule # rules) =
     (case validate_rule rule of
        Inl e \<Rightarrow> Inl (BadRule (index + 1) e)
      | Inr _ \<Rightarrow> validate_rules (index + 1) rules)"

definition pin_ok :: "string \<Rightarrow> bool" where
  "pin_ok pin \<longleftrightarrow> length (trim pin) = 64 \<and> list_all is_ascii_hexdigit (trim pin)"

definition verification_modes :: "'a option \<Rightarrow> 'b list \<Rightarrow> bool \<Rightarrow> nat" where
  "verification_modes ca pins skip = of_bool (ca \<noteq> None) + of_bool (pins \<noteq> []) + of_bool skip"

definition validate_config ::
  "(string \<Rightarrow> bool) \<Rightarrow> (string \<Rightarrow> bool) \<Rightarrow> connector_config \<Rightarrow> (config_error, unit) result" where
  "validate_config path_exists server_name_ok cfg =
     (let net = cc_network cfg
      in if trim (cc_token cfg) = [] then Inl EmptyToken
         else if cc_ingress cfg = [] then Inl NoIngressRule
         else if nc_public_servers net = [] then Inl NoServers
         else if \<not> (1 \<le> nc_max_concurrent_streams net
                    \<and> nc_max_concurrent_streams net \<le> MAX_INCOMING_STREAMS) then Inl BadStreamLimit
         else if nc_target_connect_timeout_secs net = 0 then Inl BadConnectTimeout
         else and_then (case cc_valkey cfg of
                None \<Rightarrow> Inr ()
              | Some v \<Rightarrow> if trim (vc_url v) = [] then Inl EmptyValkeyUrl
                          else if vc_heartbeat_interval_secs v = 0 then Inl BadHeartbeat else Inr ())
              (\<lambda>_. and_then (validate_rules 0 (cc_ingress cfg)) (\<lambda>_.
                if verification_modes (nc_edge_ca_cert net) (nc_edge_cert_sha256 net)
                     (nc_insecure_skip_verify net) \<noteq> 1 then Inl NotOneVerification
                else if \<not> list_all pin_ok (nc_edge_cert_sha256 net) then Inl BadPin
                else if (case nc_edge_ca_cert net of None \<Rightarrow> False | Some p \<Rightarrow> \<not> path_exists p)
                  then Inl MissingCa
                else case nc_edge_server_name net of
                       None \<Rightarrow> Inr ()
                     | Some name \<Rightarrow> if trim name = [] then Inl EmptyServerName
                                    else if \<not> server_name_ok name then Inl BadServerName else Inr ())))"

subsection \<open>Targets\<close>

datatype stream_action = ConnectTo socket_addr | Respond bytes

definition status_reason :: "16 word \<Rightarrow> string" where
  "status_reason status =
     (if status = 200 then ''OK'' else if status = 404 then ''Not Found''
      else if status = 502 then ''Bad Gateway'' else if status = 503 then ''Service Unavailable''
      else ''Unknown'')"

definition crlf :: string where "crlf = [CHR 0x0D, CHR 0x0A]"

definition respond_http_status :: "16 word \<Rightarrow> bytes" where
  "respond_http_status status =
     as_bytes (''HTTP/1.1 '' @ show_nat (unat status) @ '' '' @ status_reason status @ crlf
               @ ''Content-Length: 0'' @ crlf @ ''Connection: close'' @ crlf @ crlf)"

definition handle_stream :: "target \<Rightarrow> stream_action" where
  "handle_stream target =
     (case target of Address addr \<Rightarrow> ConnectTo addr | HttpStatus s \<Rightarrow> Respond (respond_http_status s))"

subsection \<open>Facts\<close>

lemma eq_ignore_ascii_case_lower [simp]:
  "eq_ignore_ascii_case h (to_ascii_lowercase x) = eq_ignore_ascii_case h x"
  by (simp add: eq_ignore_ascii_case_def)

lemma match_request_lower [simp]:
  "usable_for rules (to_ascii_lowercase x) p = usable_for rules x p"
proof -
  have "rule_matches r (to_ascii_lowercase x) p = rule_matches r x p" for r
    by (simp add: rule_matches_def split: option.split)
  then have "(case match_request rules (to_ascii_lowercase x) p of Inl (NoIngressMatch _ q) \<Rightarrow> Inl (NoIngressMatch x q) | r \<Rightarrow> r)
      = (case match_request rules x p of Inl (NoIngressMatch _ q) \<Rightarrow> Inl (NoIngressMatch x q) | r \<Rightarrow> r)"
    by (induction rules) auto
  then show ?thesis
    by (auto simp: usable_for_def split: sum.splits target.splits ingress_error.splits)
qed

lemma match_request_first:
  "match_request rules h p =
     (case find (\<lambda>r. rule_matches r h p) rules of
        None \<Rightarrow> Inl (NoIngressMatch h p)
      | Some r \<Rightarrow> map_err BadTarget (target_parse (ir_target r)))"
  by (induction rules) auto

lemma validate_rules_ok:
  "validate_rules i rules = Inr () \<longleftrightarrow> (\<forall>r \<in> set rules. validate_rule r = Inr ())"
  by (induction rules arbitrary: i) (auto split: sum.splits)

lemma validate_rule_target:
  assumes "validate_rule r = Inr ()"
  shows "\<exists>t. target_parse (ir_target r) = Inr t"
    and "target_parse (ir_target r) = Inr (HttpStatus s) \<Longrightarrow>
           100 \<le> s \<and> s \<le> 599 \<and> ir_protocol r \<noteq> Some Tcp \<and> ir_protocol r \<noteq> Some Udp"
  using assms by (auto simp: validate_rule_def split: sum.splits target.splits if_splits option.splits protocol.splits)

lemma validate_config_ok:
  assumes "validate_config path_exists server_name_ok cfg = Inr ()"
  shows "\<forall>r \<in> set (cc_ingress cfg). validate_rule r = Inr ()"
    and "verification_modes (nc_edge_ca_cert (cc_network cfg)) (nc_edge_cert_sha256 (cc_network cfg))
           (nc_insecure_skip_verify (cc_network cfg)) = 1"
    and "\<forall>pin \<in> set (nc_edge_cert_sha256 (cc_network cfg)). pin_ok pin"
    and "0 < nc_max_concurrent_streams (cc_network cfg)"
  using assms
  by (auto simp: validate_config_def Let_def validate_rules_ok [of 0] list_all_iff
      split: if_splits sum.splits)

subsection \<open>Properties\<close>

text \<open>A validated configuration routes every request to a usable target: the target is that of
  the first rule that matches the hostname (in any case) and protocol, and it always parses;
  a status target is an HTTP status code and is reached only by rules that allow HTTP; a
  request is refused exactly when no rule matches, which a final catch-all rule rules out.\<close>

theorem validated_ingress_routes:
  assumes "validate_config path_exists server_name_ok cfg = Inr ()"
  shows "(\<forall>r. find (\<lambda>r. rule_matches r h p) (cc_ingress cfg) = Some r \<longrightarrow>
            (\<exists>t. target_parse (ir_target r) = Inr t \<and> match_request (cc_ingress cfg) h p = Inr t
               \<and> (\<forall>s. t = HttpStatus s \<longrightarrow> 100 \<le> s \<and> s \<le> 599 \<and> (ir_protocol r = None \<or> ir_protocol r = Some Http))))
         \<and> (match_request (cc_ingress cfg) h p = Inl (NoIngressMatch h p)
              \<longleftrightarrow> (\<forall>r \<in> set (cc_ingress cfg). \<not> rule_matches r h p))
         \<and> (ir_hostname (last (cc_ingress cfg)) = None \<and> ir_protocol (last (cc_ingress cfg)) = None
              \<longrightarrow> (\<exists>t. match_request (cc_ingress cfg) h p = Inr t))"
proof -
  let ?rules = "cc_ingress cfg" and ?find = "find (\<lambda>r. rule_matches r h p) (cc_ingress cfg)"
  have ok: "validate_rule r = Inr ()" if "r \<in> set ?rules" for r
    using validate_config_ok(1) [OF assms] that by blast
  have found: "r \<in> set ?rules" if "?find = Some r" for r
    using that by (auto simp: find_Some_iff)
  have some: "\<exists>t. target_parse (ir_target r) = Inr t \<and> match_request ?rules h p = Inr t
      \<and> (\<forall>s. t = HttpStatus s \<longrightarrow> 100 \<le> s \<and> s \<le> 599 \<and> (ir_protocol r = None \<or> ir_protocol r = Some Http))"
    if f: "?find = Some r" for r
  proof -
    obtain t where t: "target_parse (ir_target r) = Inr t"
      using validate_rule_target(1) [OF ok [OF found [OF f]]] by blast
    have "ir_protocol r = None \<or> ir_protocol r = Some Http \<or> ir_protocol r = Some Tcp \<or> ir_protocol r = Some Udp"
      by (cases "ir_protocol r") (auto intro: protocol.exhaust)
    then show ?thesis
      using validate_rule_target(2) [OF ok [OF found [OF f]]] t f by (auto simp: match_request_first)
  qed
  moreover have none: "match_request ?rules h p = Inl (NoIngressMatch h p)
      \<longleftrightarrow> (\<forall>r \<in> set ?rules. \<not> rule_matches r h p)"
  proof (cases ?find)
    case None
    then show ?thesis by (simp add: match_request_first) (simp add: find_None_iff)
  next
    case (Some r)
    then have "r \<in> set ?rules" "rule_matches r h p" by (auto simp: find_Some_iff)
    with some [OF Some] show ?thesis by auto
  qed
  moreover have "\<exists>t. match_request ?rules h p = Inr t"
    if "ir_hostname (last ?rules) = None \<and> ir_protocol (last ?rules) = None"
  proof -
    have "?rules \<noteq> []" using assms by (auto simp: validate_config_def Let_def split: if_splits)
    then have "last ?rules \<in> set ?rules" "rule_matches (last ?rules) h p"
      using that by (auto simp: rule_matches_def)
    then show ?thesis using some by (cases ?find) (auto simp: find_None_iff)
  qed
  ultimately show ?thesis by blast
qed

definition sample_config :: connector_config where
  "sample_config =
     \<lparr>cc_token = ''jwt'',
      cc_network = \<lparr>nc_public_servers = [''e1:7000''], nc_edge_ca_cert = Some ''/ca.pem'',
        nc_edge_server_name = None, nc_edge_cert_sha256 = [], nc_insecure_skip_verify = False,
        nc_drain_timeout_secs = 10, nc_max_concurrent_streams = 256, nc_target_connect_timeout_secs = 10\<rparr>,
      cc_ingress = [\<lparr>ir_hostname = Some ''Web.example.com'', ir_protocol = Some Http, ir_target = ''127.0.0.1:80''\<rparr>,
                    \<lparr>ir_hostname = None, ir_protocol = None, ir_target = ''http_status:404''\<rparr>],
      cc_valkey = None\<rparr>"

theorem validated_ingress_routes_witness:
  "match_request (cc_ingress sample_config) ''web.example.com'' Http = Inr (Address (SocketV4 0x7F000001 80))"
proof -
  have ok: "validate_config (\<lambda>_. True) (\<lambda>_. True) sample_config = Inr ()" by code_simp
  let ?r = "\<lparr>ir_hostname = Some ''Web.example.com'', ir_protocol = Some Http, ir_target = ''127.0.0.1:80''\<rparr>"
  have "find (\<lambda>r. rule_matches r ''web.example.com'' Http) (cc_ingress sample_config) = Some ?r"
    by code_simp
  moreover have "target_parse ''127.0.0.1:80'' = Inr (Address (SocketV4 0x7F000001 80))" by code_simp
  ultimately show ?thesis
    using validated_ingress_routes [OF ok, of "''web.example.com''" Http] by auto
qed



text \<open>Without that condition it fails: the Edge drops a trailing dot from the names of the token and
  of the advertisement, the Connector does not when it matches its rules.\<close>

lemma trailing_dot_advertised_not_served:
  "offers (services_for [''a.example.com'']
      (ingress_services [\<lparr>ir_hostname = Some ''a.example.com.'', ir_protocol = None, ir_target = ''127.0.0.1:80''\<rparr>]
        [''a.example.com.''])) ''a.example.com'' Http
   \<and> match_request [\<lparr>ir_hostname = Some ''a.example.com.'', ir_protocol = None, ir_target = ''127.0.0.1:80''\<rparr>]
        ''a.example.com'' Http = Inl (NoIngressMatch ''a.example.com'' Http)"
proof
  have "normalize_hostname ''a.example.com.'' = Inr ''a.example.com''" by code_simp
  moreover have "usable_for [\<lparr>ir_hostname = Some ''a.example.com.'', ir_protocol = None, ir_target = ''127.0.0.1:80''\<rparr>]
      ''a.example.com.'' Http" by code_simp
  ultimately show "offers (services_for [''a.example.com'']
      (ingress_services [\<lparr>ir_hostname = Some ''a.example.com.'', ir_protocol = None, ir_target = ''127.0.0.1:80''\<rparr>]
        [''a.example.com.''])) ''a.example.com'' Http"
    by (auto simp: offers_services_for ingress_services_def)
  show "match_request [\<lparr>ir_hostname = Some ''a.example.com.'', ir_protocol = None, ir_target = ''127.0.0.1:80''\<rparr>]
        ''a.example.com'' Http = Inl (NoIngressMatch ''a.example.com'' Http)" by code_simp
qed

end
