(* ===== verification/Rate_Limit.thy ===== *)
theory Rate_Limit
  imports Table Complex_Main
begin

text \<open>
  Token buckets (\<open>Bucket\<close> and \<open>BucketTable\<close> in \<open>sievetube-edge/src/policy.rs\<close>). The f64 values of
  the code are real numbers with the rounding function \<open>fl\<close> applied after every operation that
  rounds; a value beyond the largest f64 is only ever compared and capped, so \<open>fl\<close> may saturate
  there. Durations are natural numbers of nanoseconds. A take on a table is one step: the
  check of the table's size and the insertion are not interleaved with other takes.
\<close>

subsection \<open>Numbers\<close>

abbreviation nanos_per_sec :: nat where "nanos_per_sec \<equiv> 1000000000"

definition as_secs_f64 :: "(real \<Rightarrow> real) \<Rightarrow> nat \<Rightarrow> real" where
  "as_secs_f64 fl d = fl (real (d div nanos_per_sec) + fl (real (d mod nanos_per_sec) / real nanos_per_sec))"

definition round_half_even :: "real \<Rightarrow> int" where
  "round_half_even x =
     (let q = \<lfloor>x\<rfloor>; r = x - of_int q
      in if r < 1 / 2 \<or> r = 1 / 2 \<and> even q then q else q + 1)"

text \<open>\<open>Duration::from_secs_f64\<close> panics when the value does not fit.\<close>

definition from_secs_f64 :: "real \<Rightarrow> nat option" where
  "from_secs_f64 x =
     (if x < 0 \<or> x \<ge> 2 ^ 64 then None else Some (nat (round_half_even (x * real nanos_per_sec))))"

subsection \<open>Buckets\<close>

record rate_limit =
  rl_per_second :: real
  rl_burst :: real

record bucket =
  bk_tokens :: real
  bk_updated :: nat
  bk_full_after :: nat

datatype take_error = Limited real | Capacity | TakePanic

definition bucket_take ::
  "(real \<Rightarrow> real) \<Rightarrow> rate_limit \<Rightarrow> real \<Rightarrow> nat \<Rightarrow> bucket \<Rightarrow> (take_error, unit) result \<times> bucket" where
  "bucket_take fl limit amount now b =
     (let elapsed = as_secs_f64 fl (now - bk_updated b);
          tokens = min (fl (bk_tokens b + fl (elapsed * rl_per_second limit))) (rl_burst limit);
          b1 = b\<lparr>bk_tokens := tokens, bk_updated := now\<rparr>
      in case from_secs_f64 (fl (rl_burst limit / rl_per_second limit)) of
           None \<Rightarrow> (Inl TakePanic, b1)
         | Some full_after \<Rightarrow>
             (let b2 = b1\<lparr>bk_full_after := full_after\<rparr>
              in if tokens \<ge> amount then (Inr (), b2\<lparr>bk_tokens := fl (tokens - amount)\<rparr>)
                 else (Inl (Limited (fl (fl (amount - tokens) / rl_per_second limit))), b2)))"

definition new_bucket :: "rate_limit \<Rightarrow> nat \<Rightarrow> bucket" where
  "new_bucket limit now = \<lparr>bk_tokens = rl_burst limit, bk_updated = now, bk_full_after = 0\<rparr>"

definition bucket_live :: "nat \<Rightarrow> nat \<Rightarrow> bucket \<Rightarrow> bool" where
  "bucket_live now idle_ttl b \<longleftrightarrow> now - bk_updated b < max (bk_full_after b) idle_ttl"

subsection \<open>Tables\<close>

record bucket_table =
  bt_buckets :: "(64 word, bucket) table"
  bt_next_full_sweep_ms :: nat

definition new_bucket_table :: bucket_table where
  "new_bucket_table = \<lparr>bt_buckets = [], bt_next_full_sweep_ms = 0\<rparr>"

definition FULL_SWEEP_INTERVAL_ms :: nat where "FULL_SWEEP_INTERVAL_ms = 1000"

text \<open>\<open>cas_ok\<close>: no other caller claimed the sweep between the load and the exchange.\<close>

definition claim_full_sweep :: "bool \<Rightarrow> nat \<Rightarrow> bucket_table \<Rightarrow> bool \<times> bucket_table" where
  "claim_full_sweep cas_ok now t =
     (let now_ms = min (now div 1000000) (2 ^ 64 - 1);
          after = min (now_ms + FULL_SWEEP_INTERVAL_ms) (2 ^ 64 - 1)
      in if now_ms \<ge> bt_next_full_sweep_ms t \<and> cas_ok
         then (True, t\<lparr>bt_next_full_sweep_ms := after\<rparr>) else (False, t))"

definition sweep_table :: "nat \<Rightarrow> nat \<Rightarrow> bucket_table \<Rightarrow> bucket_table" where
  "sweep_table now idle_ttl t =
     t\<lparr>bt_buckets := t_retain (\<lambda>_ b. bucket_live now idle_ttl b) (bt_buckets t)\<rparr>"

definition table_take ::
  "(real \<Rightarrow> real) \<Rightarrow> bool \<Rightarrow> 64 word \<Rightarrow> rate_limit \<Rightarrow> real \<Rightarrow> nat \<Rightarrow> nat \<Rightarrow> nat \<Rightarrow> bucket_table
   \<Rightarrow> (take_error, unit) result \<times> bucket_table" where
  "table_take fl cas_ok key limit amount now max_entries idle_ttl t =
     (case map_of (bt_buckets t) key of
        Some b \<Rightarrow>
          (case bucket_take fl limit amount now b of
             (r, b') \<Rightarrow> (r, t\<lparr>bt_buckets := t_insert key b' (bt_buckets t)\<rparr>))
      | None \<Rightarrow>
          (let t1 = (if t_len (bt_buckets t) \<ge> max_entries
                     then (case claim_full_sweep cas_ok now t of
                             (True, t') \<Rightarrow> sweep_table now idle_ttl t' | (False, t') \<Rightarrow> t')
                     else t)
           in if t_len (bt_buckets t) \<ge> max_entries \<and> t_len (bt_buckets t1) \<ge> max_entries
              then (Inl Capacity, t1)
              else case bucket_take fl limit amount now (new_bucket limit now) of
                     (r, b') \<Rightarrow> (r, t1\<lparr>bt_buckets := t_insert key b' (bt_buckets t1)\<rparr>)))"

subsection \<open>Rounding\<close>

text \<open>
  What the code relies on of f64 arithmetic: rounding is monotone, keeps zero, and its relative
  error is at most \<open>u\<close> up to the absolute error \<open>tiny\<close> of subnormal numbers (\<open>2\<^sup>-\<^sup>5\<^sup>3\<close> and
  \<open>2\<^sup>-\<^sup>1\<^sup>0\<^sup>7\<^sup>4\<close>). Above \<open>2\<^sup>3\<^sup>4\<close> only the upper bound is needed.
\<close>

definition rounding :: "(real \<Rightarrow> real) \<Rightarrow> real \<Rightarrow> real \<Rightarrow> bool" where
  "rounding fl u tiny \<longleftrightarrow>
     mono fl \<and> fl 0 = 0 \<and> 0 \<le> u \<and> u \<le> 1 \<and> 0 \<le> tiny \<and> tiny \<le> 1
     \<and> (\<forall>x. x \<ge> 0 \<longrightarrow> fl x \<le> x * (1 + u) + tiny)
     \<and> (\<forall>x. 0 \<le> x \<and> x \<le> 2 ^ 34 \<longrightarrow> x * (1 - u) - tiny \<le> fl x)"

lemma roundingD:
  assumes "rounding fl u tiny"
  shows "0 \<le> u" "u \<le> 1" "0 \<le> tiny" "tiny \<le> 1"
    and "0 \<le> x \<Longrightarrow> 0 \<le> fl x"
    and "0 \<le> x \<Longrightarrow> fl x \<le> x * (1 + u) + tiny"
    and "0 \<le> x \<Longrightarrow> x \<le> 2 ^ 34 \<Longrightarrow> x * (1 - u) - tiny \<le> fl x"
  using assms monoD [of fl 0 x] by (auto simp: rounding_def)

lemma rounding_id: "rounding (\<lambda>x. x) 0 0"
  by (auto simp: rounding_def mono_def)

lemma round_half_even_le: "x - 1 / 2 \<le> of_int (round_half_even x)"
  unfolding round_half_even_def Let_def by (auto, linarith+)

lemma round_half_even_ge: "of_int (round_half_even x) \<le> x + 1 / 2"
  unfolding round_half_even_def Let_def by (auto, linarith+)

text \<open>The elapsed time in seconds, exactly.\<close>

definition secs :: "nat \<Rightarrow> real" where "secs d = real d / real nanos_per_sec"

lemma secs_split: "secs d = real (d div nanos_per_sec) + real (d mod nanos_per_sec) / real nanos_per_sec"
proof -
  have "real d = real nanos_per_sec * real (d div nanos_per_sec) + real (d mod nanos_per_sec)"
    by (metis mult_div_mod_eq of_nat_add of_nat_mult)
  then show ?thesis by (simp add: secs_def add_divide_distrib)
qed

lemma secs_nonneg [simp]: "0 \<le> secs d" by (simp add: secs_def)

lemma secs_0 [simp]: "secs 0 = 0" by (simp add: secs_def)

lemma as_secs_f64_bounds:
  assumes "rounding fl u tiny"
  shows "0 \<le> as_secs_f64 fl d" "as_secs_f64 fl d \<le> secs d * (1 + u)\<^sup>2 + tiny * (2 + u)"
proof -
  note r = roundingD [OF assms]
  let ?s = "real (d div nanos_per_sec)" and ?n = "real (d mod nanos_per_sec) / real nanos_per_sec"
  have n: "0 \<le> fl ?n" "fl ?n \<le> ?n * (1 + u) + tiny" using r(5,6) [of ?n] by auto
  then show "0 \<le> as_secs_f64 fl d" unfolding as_secs_f64_def by (intro r(5)) simp
  have "as_secs_f64 fl d \<le> (?s + fl ?n) * (1 + u) + tiny"
    unfolding as_secs_f64_def using n(1) by (intro r(6)) simp
  also have "\<dots> \<le> (?s * (1 + u) + ?n * (1 + u) + tiny) * (1 + u) + tiny"
  proof -
    have "?s * 1 \<le> ?s * (1 + u)" using r(1) by (intro mult_left_mono) auto
    then have "?s + fl ?n \<le> ?s * (1 + u) + ?n * (1 + u) + tiny" using n(2) by linarith
    then show ?thesis using r(1) by (intro add_right_mono mult_right_mono) auto
  qed
  also have "\<dots> = secs d * (1 + u)\<^sup>2 + tiny * (2 + u)"
    by (simp add: secs_split power2_eq_square algebra_simps)
  finally show "as_secs_f64 fl d \<le> secs d * (1 + u)\<^sup>2 + tiny * (2 + u)" .
qed

subsection \<open>One bucket\<close>

text \<open>The rate the clock can refill at most, and what one step may lose to rounding.\<close>

definition max_rate :: "real \<Rightarrow> rate_limit \<Rightarrow> real" where
  "max_rate u limit = rl_per_second limit * (1 + u) ^ 4"

definition step_slack :: "real \<Rightarrow> real \<Rightarrow> rate_limit \<Rightarrow> real" where
  "step_slack u tiny limit =
     2 * u * rl_burst limit
     + tiny * ((2 + u) * rl_per_second limit * (1 + u)\<^sup>2 + (1 + u) + 2 + rl_per_second limit)
     + rl_per_second limit / (2 * real nanos_per_sec)"

text \<open>A limit whose numbers stay in the range where f64 is accurate.\<close>

definition sane_limit :: "(real \<Rightarrow> real) \<Rightarrow> rate_limit \<Rightarrow> bool" where
  "sane_limit fl limit \<longleftrightarrow>
     0 < rl_per_second limit \<and> 1 \<le> rl_burst limit \<and> rl_burst limit \<le> 2 ^ 32
     \<and> fl (rl_burst limit) = rl_burst limit \<and> rl_burst limit / rl_per_second limit \<le> 2 ^ 33"

lemma limit_range:
  assumes lim: "sane_limit fl limit"
  shows "0 < rl_per_second limit" "1 \<le> rl_burst limit" "rl_burst limit \<le> 2 ^ 32"
  "fl (rl_burst limit) = rl_burst limit" "rl_burst limit / rl_per_second limit \<le> 2 ^ 33"
  using lim by (auto simp: sane_limit_def)

lemma refill_le:
  assumes fl: "rounding fl u tiny" and lim: "sane_limit fl limit"
  shows "0 \<le> fl (as_secs_f64 fl d * rl_per_second limit)"
  "fl (as_secs_f64 fl d * rl_per_second limit)
     \<le> (secs d * (1 + u)\<^sup>2 + tiny * (2 + u)) * rl_per_second limit * (1 + u) + tiny"
proof -
  note r = roundingD [OF fl] and s = as_secs_f64_bounds [OF fl, of d]
  have p: "0 \<le> as_secs_f64 fl d * rl_per_second limit" using s(1) limit_range(1) [OF lim] by simp
  then show "0 \<le> fl (as_secs_f64 fl d * rl_per_second limit)" by (rule r(5))
  have "fl (as_secs_f64 fl d * rl_per_second limit)
      \<le> as_secs_f64 fl d * rl_per_second limit * (1 + u) + tiny" by (rule r(6) [OF p])
  also have "\<dots> \<le> (secs d * (1 + u)\<^sup>2 + tiny * (2 + u)) * rl_per_second limit * (1 + u) + tiny"
    using s(2) limit_range(1) [OF lim] r(1) by (intro add_right_mono mult_right_mono) auto
  finally show "fl (as_secs_f64 fl d * rl_per_second limit)
     \<le> (secs d * (1 + u)\<^sup>2 + tiny * (2 + u)) * rl_per_second limit * (1 + u) + tiny" .
qed

lemma refilled_le:
  assumes fl: "rounding fl u tiny" and lim: "sane_limit fl limit"
    and "0 \<le> t" "t \<le> rl_burst limit"
  shows "fl (t + fl (as_secs_f64 fl d * rl_per_second limit))
           \<le> t + max_rate u limit * secs d + u * rl_burst limit
             + tiny * ((2 + u) * rl_per_second limit * (1 + u)\<^sup>2 + (1 + u) + 1)"
proof -
  note r = roundingD [OF fl]
  let ?f = "fl (as_secs_f64 fl d * rl_per_second limit)"
  have "fl (t + ?f) \<le> (t + ?f) * (1 + u) + tiny" using refill_le(1) [OF fl lim] assms(3,4) by (intro r(6)) simp
  also have "\<dots> = t + u * t + ?f * (1 + u) + tiny" by (simp add: algebra_simps)
  also have "\<dots> \<le> t + u * rl_burst limit
      + ((secs d * (1 + u)\<^sup>2 + tiny * (2 + u)) * rl_per_second limit * (1 + u) + tiny) * (1 + u) + tiny"
    using refill_le(2) [OF fl lim] r(1) assms(3,4) by (intro add_mono order_refl mult_left_mono mult_right_mono) auto
  also have "\<dots> = t + max_rate u limit * secs d + u * rl_burst limit
             + tiny * ((2 + u) * rl_per_second limit * (1 + u)\<^sup>2 + (1 + u) + 1)"
    by (simp add: max_rate_def power2_eq_square power4_eq_xxxx algebra_simps)
  finally show ?thesis .
qed

text \<open>The time after which a bucket is full again, as the bucket stores it.\<close>

lemma full_after_ge:
  assumes fl: "rounding fl u tiny" and lim: "sane_limit fl limit"
  obtains f where "from_secs_f64 (fl (rl_burst limit / rl_per_second limit)) = Some f"
    "rl_burst limit * (1 - u) - rl_per_second limit * tiny - rl_per_second limit / (2 * real nanos_per_sec)
       \<le> rl_per_second limit * secs f"
proof -
  note r = roundingD [OF fl]
  let ?r = "rl_per_second limit" and ?N = "real nanos_per_sec"
  let ?q = "rl_burst limit / ?r"
  have q: "0 \<le> ?q" "?q \<le> 2 ^ 33" "?q \<le> 2 ^ 34" using limit_range [OF lim] by auto
  have "?q * (1 + u) \<le> 2 ^ 33 * 2" using q r(1,2) by (intro mult_mono) auto
  then have "fl ?q < 2 ^ 64" using r(6) [OF q(1)] r(4) by simp
  then have some: "from_secs_f64 (fl ?q) = Some (nat (round_half_even (fl ?q * ?N)))"
    using r(5) [OF q(1)] by (simp add: from_secs_f64_def)
  let ?f = "nat (round_half_even (fl ?q * ?N))"
  have "fl ?q * ?N - 1 / 2 \<le> real ?f"
    using round_half_even_le [of "fl ?q * ?N"] by linarith
  then have "fl ?q - 1 / (2 * ?N) \<le> secs ?f"
    by (simp add: secs_def field_simps)
  then have "?q * (1 - u) - tiny - 1 / (2 * ?N) \<le> secs ?f" using r(7) [OF q(1,3)] by linarith
  then have "?r * (?q * (1 - u) - tiny - 1 / (2 * ?N)) \<le> ?r * secs ?f"
    using limit_range(1) [OF lim] by (intro mult_left_mono) auto
  moreover have "?r * (?q * (1 - u) - tiny - 1 / (2 * ?N))
      = rl_burst limit * (1 - u) - ?r * tiny - ?r / (2 * ?N)"
    using limit_range(1) [OF lim] by (simp add: right_diff_distrib)
  ultimately show thesis using that [OF some] by simp
qed

text \<open>The invariant of a bucket under one limit: its tokens never exceed the burst, and it is not
  kept as idle before it would be full again.\<close>

definition bucket_inv :: "real \<Rightarrow> real \<Rightarrow> rate_limit \<Rightarrow> bucket \<Rightarrow> bool" where
  "bucket_inv u tiny limit b \<longleftrightarrow>
     0 \<le> bk_tokens b \<and> bk_tokens b \<le> rl_burst limit
     \<and> rl_burst limit * (1 - u) - rl_per_second limit * tiny - rl_per_second limit / (2 * real nanos_per_sec)
         \<le> rl_per_second limit * secs (bk_full_after b)"

lemma bucket_take_step:
  assumes fl: "rounding fl u tiny" and lim: "sane_limit fl limit"
    and t: "0 \<le> bk_tokens b" "bk_tokens b \<le> rl_burst limit" and a: "0 \<le> amount"
    and run: "bucket_take fl limit amount now b = (r, b')"
  shows "bucket_inv u tiny limit b' \<and> bk_updated b' = now
         \<and> (if is_ok r then amount else 0) + bk_tokens b'
            \<le> bk_tokens b + max_rate u limit * secs (now - bk_updated b) + step_slack u tiny limit"
proof -
  note rd = roundingD [OF fl] and lr = limit_range [OF lim]
  let ?B = "rl_burst limit" and ?R = "max_rate u limit * secs (now - bk_updated b)"
  let ?m = "min (fl (bk_tokens b + fl (as_secs_f64 fl (now - bk_updated b) * rl_per_second limit))) ?B"
  let ?s1 = "u * ?B + tiny * ((2 + u) * rl_per_second limit * (1 + u)\<^sup>2 + (1 + u) + 1)"
  obtain f where f: "from_secs_f64 (fl (?B / rl_per_second limit)) = Some f"
    "?B * (1 - u) - rl_per_second limit * tiny - rl_per_second limit / (2 * real nanos_per_sec)
       \<le> rl_per_second limit * secs f"
    using full_after_ge [OF fl lim] .
  have m0: "0 \<le> ?m" using rd(5) refill_le(1) [OF fl lim] t lr(2) by simp
  have mB: "?m \<le> ?B" by simp
  have m: "?m \<le> bk_tokens b + ?R + ?s1"
    using refilled_le [OF fl lim t, of "now - bk_updated b"] by linarith
  have slack: "?s1 + (u * ?B + tiny) \<le> step_slack u tiny limit"
  proof -
    have "0 \<le> tiny * rl_per_second limit" "0 \<le> rl_per_second limit / (2 * real nanos_per_sec)"
      using rd(3) lr(1) by auto
    then show ?thesis by (simp add: step_slack_def algebra_simps)
  qed
  have pos: "0 \<le> u * ?B + tiny" using rd(1,3) lr(2) by simp
  show ?thesis
  proof (cases "amount \<le> ?m")
    case False
    then have "\<not> is_ok r \<and> b' = \<lparr>bk_tokens = ?m, bk_updated = now, bk_full_after = f\<rparr>"
      using run f(1) by (auto simp: bucket_take_def Let_def)
    then show ?thesis using m0 mB m f(2) slack pos by (simp add: bucket_inv_def)
  next
    case True
    then have r: "r = Inr ()" "b' = \<lparr>bk_tokens = fl (?m - amount), bk_updated = now, bk_full_after = f\<rparr>"
      using run f(1) by (auto simp: bucket_take_def Let_def)
    have d: "0 \<le> ?m - amount" "?m - amount \<le> ?B" "?m - amount \<le> 2 ^ 34"
      using True a mB lr(3) by auto
    have up: "fl (?m - amount) \<le> ?B"
      using fl d(2) lr(4) unfolding rounding_def mono_def by metis
    have "fl (?m - amount) \<le> (?m - amount) * (1 + u) + tiny" by (rule rd(6) [OF d(1)])
    also have "\<dots> \<le> ?m - amount + (u * ?B + tiny)"
      using mult_left_mono [OF d(2) rd(1)] by (simp add: algebra_simps)
    finally have "amount + fl (?m - amount) \<le> ?m + (u * ?B + tiny)" by simp
    then show ?thesis
      using up rd(5) [OF d(1)] m f(2) slack by (simp add: bucket_inv_def r)
  qed
qed

lemma sweep_refills:
  assumes fl: "rounding fl u tiny" and lim: "sane_limit fl limit" and inv: "bucket_inv u tiny limit b"
    and dead: "\<not> bucket_live now idle_ttl b"
  shows "rl_burst limit \<le> max_rate u limit * secs (now - bk_updated b) + step_slack u tiny limit"
proof -
  note rd = roundingD [OF fl] and lr = limit_range [OF lim]
  let ?B = "rl_burst limit" and ?r = "rl_per_second limit"
  have "secs (bk_full_after b) \<le> secs (now - bk_updated b)"
    using dead by (simp add: bucket_live_def secs_def divide_right_mono)
  then have "?r * secs (bk_full_after b) \<le> ?r * secs (now - bk_updated b)"
    using lr(1) by (intro mult_left_mono) auto
  also have "\<dots> \<le> max_rate u limit * secs (now - bk_updated b)"
  proof (rule mult_right_mono)
    have "1 \<le> (1 + u) ^ 4" using rd(1) by (simp add: one_le_power)
    then show "?r \<le> max_rate u limit" using lr(1) by (simp add: max_rate_def)
  qed simp
  finally have "?B * (1 - u) - ?r * tiny - ?r / (2 * real nanos_per_sec)
      \<le> max_rate u limit * secs (now - bk_updated b)"
    using inv by (simp add: bucket_inv_def)
  moreover have "u * ?B + ?r * tiny + ?r / (2 * real nanos_per_sec) \<le> step_slack u tiny limit"
  proof -
    have "0 \<le> u * ?B" "0 \<le> tiny * ((2 + u) * ?r * (1 + u)\<^sup>2 + (1 + u) + 2)"
      using rd(1,3) lr(1,2) by auto
    then show ?thesis by (simp add: step_slack_def algebra_simps)
  qed
  ultimately show ?thesis by (simp add: algebra_simps)
qed

subsection \<open>Runs of a table\<close>

text \<open>
  A run of a table seen from one key: what was admitted for it, when the run started, the time of
  the last operation and the number of operations. Between the takes for the key there are
  takes for other keys (under any limits) and sweeps. Times do not go back.
\<close>

inductive table_run ::
  "(real \<Rightarrow> real) \<Rightarrow> rate_limit \<Rightarrow> 64 word \<Rightarrow> nat \<Rightarrow> bucket_table \<Rightarrow> real \<Rightarrow> nat \<Rightarrow> nat \<Rightarrow> bool"
  for fl limit key t0 where
  start: "table_run fl limit key t0 new_bucket_table 0 t0 0"
| take: "table_run fl limit key t0 t admitted latest n \<Longrightarrow> latest \<le> now \<Longrightarrow> 0 \<le> amount
    \<Longrightarrow> table_take fl cas_ok key limit amount now max_entries idle_ttl t = (r, t')
    \<Longrightarrow> table_run fl limit key t0 t' (admitted + (if is_ok r then amount else 0)) now (n + 1)"
| other: "table_run fl limit key t0 t admitted latest n \<Longrightarrow> latest \<le> now \<Longrightarrow> key' \<noteq> key
    \<Longrightarrow> table_take fl' cas_ok key' limit' amount now max_entries idle_ttl t = (r, t')
    \<Longrightarrow> table_run fl limit key t0 t' admitted now (n + 1)"
| sweep: "table_run fl limit key t0 t admitted latest n \<Longrightarrow> latest \<le> now
    \<Longrightarrow> table_run fl limit key t0 (sweep_table now idle_ttl t) admitted now (n + 1)"

text \<open>What the run keeps: the tokens left and those admitted are paid for by the burst and the time.\<close>

definition run_inv ::
  "real \<Rightarrow> real \<Rightarrow> rate_limit \<Rightarrow> 64 word \<Rightarrow> nat \<Rightarrow> bucket_table \<Rightarrow> real \<Rightarrow> nat \<Rightarrow> nat \<Rightarrow> bool" where
  "run_inv u tiny limit key t0 t admitted latest n \<longleftrightarrow>
     wf_table (bt_buckets t) \<and> t0 \<le> latest
     \<and> (case map_of (bt_buckets t) key of
          None \<Rightarrow> admitted \<le> max_rate u limit * secs (latest - t0) + real n * step_slack u tiny limit
        | Some b \<Rightarrow>
            bucket_inv u tiny limit b \<and> t0 \<le> bk_updated b \<and> bk_updated b \<le> latest
            \<and> admitted + bk_tokens b \<le> rl_burst limit + max_rate u limit * secs (bk_updated b - t0)
                 + real n * step_slack u tiny limit)"

lemma secs_chain: "t0 \<le> a \<Longrightarrow> a \<le> b \<Longrightarrow> secs (b - t0) = secs (a - t0) + secs (b - a)"
  by (simp add: secs_def add_divide_distrib [symmetric] flip: of_nat_add)

lemma secs_mono: "a \<le> b \<Longrightarrow> secs a \<le> secs b"
  by (simp add: secs_def divide_right_mono)

lemma rate_slack_nonneg:
  assumes "rounding fl u tiny" "sane_limit fl limit"
  shows "0 \<le> max_rate u limit" "0 \<le> step_slack u tiny limit"
  using roundingD [OF assms(1)] limit_range [OF assms(2)]
  by (auto simp: max_rate_def step_slack_def intro!: add_nonneg_nonneg mult_nonneg_nonneg)

lemma run_inv_later:
  assumes ok: "rounding fl u tiny" "sane_limit fl limit"
    and inv: "run_inv u tiny limit key t0 t admitted latest n" and "latest \<le> now"
    and wf: "wf_table (bt_buckets t')" and same: "map_of (bt_buckets t') key = map_of (bt_buckets t) key"
  shows "run_inv u tiny limit key t0 t' admitted now (n + 1)"
proof -
  have "max_rate u limit * secs (latest - t0) \<le> max_rate u limit * secs (now - t0)"
    using rate_slack_nonneg [OF ok] assms(4) by (intro mult_left_mono secs_mono) auto
  then show ?thesis
    using inv wf same rate_slack_nonneg(2) [OF ok] assms(4)
    by (auto simp: run_inv_def distrib_right split: option.splits)
qed

lemma run_inv_sweep:
  assumes ok: "rounding fl u tiny" "sane_limit fl limit"
    and inv: "run_inv u tiny limit key t0 t admitted latest n" and now: "latest \<le> now"
  shows "run_inv u tiny limit key t0 (sweep_table now idle_ttl t) admitted now (n + 1)"
proof (cases "\<exists>b. map_of (bt_buckets t) key = Some b \<and> \<not> bucket_live now idle_ttl b")
  case False
  have wf: "wf_table (bt_buckets t)" using inv by (simp add: run_inv_def)
  with False have "map_of (bt_buckets (sweep_table now idle_ttl t)) key = map_of (bt_buckets t) key"
    by (auto simp: sweep_table_def tab_simps split: option.split)
  then show ?thesis using run_inv_later [OF ok inv now] wf by (simp add: sweep_table_def)
next
  case True
  then obtain b where b: "map_of (bt_buckets t) key = Some b" "\<not> bucket_live now idle_ttl b" by blast
  have wf: "wf_table (bt_buckets t)" using inv by (simp add: run_inv_def)
  have bi: "bucket_inv u tiny limit b" "t0 \<le> bk_updated b" "bk_updated b \<le> now" "t0 \<le> now"
    "admitted + bk_tokens b \<le> rl_burst limit + max_rate u limit * secs (bk_updated b - t0)
       + real n * step_slack u tiny limit"
    using inv b(1) now by (auto simp: run_inv_def)
  have "admitted \<le> max_rate u limit * secs (now - t0) + real (n + 1) * step_slack u tiny limit"
    using sweep_refills [OF ok bi(1) b(2)] bi(1,5) secs_chain [OF bi(2,3)]
    by (simp add: bucket_inv_def algebra_simps)
  then show ?thesis using b wf bi(4) by (auto simp: run_inv_def sweep_table_def tab_simps)
qed

lemma run_inv_take:
  assumes ok: "rounding fl u tiny" "sane_limit fl limit"
    and inv: "run_inv u tiny limit key t0 t admitted latest n" and now: "latest \<le> now"
    and a: "0 \<le> amount"
    and b: "b = (case map_of (bt_buckets t) key of None \<Rightarrow> new_bucket limit now | Some b \<Rightarrow> b)"
    and step: "bucket_take fl limit amount now b = (r, b')"
  shows "run_inv u tiny limit key t0 (t\<lparr>bt_buckets := t_insert key b' (bt_buckets t)\<rparr>)
           (admitted + (if is_ok r then amount else 0)) now (n + 1)"
proof -
  have t0: "t0 \<le> latest" and wf: "wf_table (bt_buckets t)" using inv by (auto simp: run_inv_def)
  have before: "0 \<le> bk_tokens b" "bk_tokens b \<le> rl_burst limit"
    "admitted + bk_tokens b + max_rate u limit * secs (now - bk_updated b)
      \<le> rl_burst limit + max_rate u limit * secs (now - t0) + real n * step_slack u tiny limit"
  proof -
    show "0 \<le> bk_tokens b" "bk_tokens b \<le> rl_burst limit"
      using inv b limit_range(2) [OF ok(2)]
      by (auto simp: run_inv_def new_bucket_def bucket_inv_def split: option.splits)
    show "admitted + bk_tokens b + max_rate u limit * secs (now - bk_updated b)
      \<le> rl_burst limit + max_rate u limit * secs (now - t0) + real n * step_slack u tiny limit"
    proof (cases "map_of (bt_buckets t) key")
      case None
      have "max_rate u limit * secs (latest - t0) \<le> max_rate u limit * secs (now - t0)"
        using rate_slack_nonneg(1) [OF ok] now by (intro mult_left_mono secs_mono) auto
      then show ?thesis using inv None b by (simp add: run_inv_def new_bucket_def)
    next
      case (Some x)
      then have "t0 \<le> bk_updated b" "bk_updated b \<le> now" using inv b now by (auto simp: run_inv_def)
      from secs_chain [OF this] show ?thesis using inv Some b by (simp add: run_inv_def algebra_simps)
    qed
  qed
  have "(if is_ok r then amount else 0) + bk_tokens b'
      \<le> bk_tokens b + max_rate u limit * secs (now - bk_updated b) + step_slack u tiny limit"
    "bucket_inv u tiny limit b'" "bk_updated b' = now"
    using bucket_take_step [OF ok before(1,2) a step] by auto
  then show ?thesis
    using before(3) t0 now wf by (auto simp: run_inv_def tab_simps algebra_simps)
qed

lemma table_take_cases:
  assumes "table_take fl cas_ok key limit amount now max_entries idle_ttl t = (r, t')"
  obtains (insert) t1 b b' where
      "t1 = t \<or> map_of (bt_buckets t) key = None \<and> (\<exists>ms. t1 = sweep_table now idle_ttl (t\<lparr>bt_next_full_sweep_ms := ms\<rparr>))"
      "b = (case map_of (bt_buckets t1) key of None \<Rightarrow> new_bucket limit now | Some b \<Rightarrow> b)"
      "bucket_take fl limit amount now b = (r, b')"
      "t' = t1\<lparr>bt_buckets := t_insert key b' (bt_buckets t1)\<rparr>"
    | (full) "r = Inl Capacity"
      "t' = t \<or> (\<exists>ms. t' = sweep_table now idle_ttl (t\<lparr>bt_next_full_sweep_ms := ms\<rparr>))"
proof (cases "map_of (bt_buckets t) key")
  case (Some b)
  obtain x b' where bt: "bucket_take fl limit amount now b = (x, b')" by fastforce
  then have "r = x" "t' = t\<lparr>bt_buckets := t_insert key b' (bt_buckets t)\<rparr>"
    using assms Some by (simp_all add: table_take_def)
  with bt Some show ?thesis by (intro insert [of t b b']) simp_all
next
  case None
  define t1 where "t1 = (if t_len (bt_buckets t) \<ge> max_entries
             then (case claim_full_sweep cas_ok now t of
                     (True, t') \<Rightarrow> sweep_table now idle_ttl t' | (False, t') \<Rightarrow> t') else t)"
  have t1: "t1 = t \<or> (\<exists>ms. t1 = sweep_table now idle_ttl (t\<lparr>bt_next_full_sweep_ms := ms\<rparr>))"
    by (auto simp: t1_def claim_full_sweep_def Let_def)
  obtain x b' where bt: "bucket_take fl limit amount now (new_bucket limit now) = (x, b')" by fastforce
  have run: "(r, t') = (if t_len (bt_buckets t) \<ge> max_entries \<and> t_len (bt_buckets t1) \<ge> max_entries
      then (Inl Capacity, t1) else (x, t1\<lparr>bt_buckets := t_insert key b' (bt_buckets t1)\<rparr>))"
    using assms None bt by (auto simp: table_take_def t1_def [symmetric] Let_def split: if_splits)
  have "map_of (bt_buckets t1) key = None"
    using t1 None by (auto simp: sweep_table_def map_of_eq_None_iff t_retain_def)
  then show ?thesis
    using run t1 None bt insert [of t1 "new_bucket limit now" b'] full
    by (cases "t_len (bt_buckets t) \<ge> max_entries \<and> t_len (bt_buckets t1) \<ge> max_entries") auto
qed

lemma run_inv_same:
  assumes "run_inv u tiny limit key t0 t admitted latest n"
    and "wf_table (bt_buckets t')" "map_of (bt_buckets t') key = map_of (bt_buckets t) key"
  shows "run_inv u tiny limit key t0 t' admitted latest n"
  using assms by (simp add: run_inv_def)

lemma run_inv_swept:
  assumes ok: "rounding fl u tiny" "sane_limit fl limit"
    and inv: "run_inv u tiny limit key t0 t admitted latest n" and now: "latest \<le> now"
    and t': "t' = t \<or> (\<exists>ms. t' = sweep_table now idle_ttl (t\<lparr>bt_next_full_sweep_ms := ms\<rparr>))"
  shows "run_inv u tiny limit key t0 t' admitted now (n + 1)"
proof -
  have "run_inv u tiny limit key t0 (sweep_table now idle_ttl (t\<lparr>bt_next_full_sweep_ms := ms\<rparr>)) admitted now (n + 1)" for ms
    using run_inv_sweep [OF ok inv now, of idle_ttl] by (simp add: sweep_table_def run_inv_def)
  moreover have "run_inv u tiny limit key t0 t admitted now (n + 1)"
    by (rule run_inv_later [OF ok inv now _ refl]) (use inv in \<open>simp add: run_inv_def\<close>)
  ultimately show ?thesis using t' by blast
qed

lemma table_run_inv:
  assumes ok: "rounding fl u tiny" "sane_limit fl limit"
    and "table_run fl limit key t0 t admitted latest n"
  shows "run_inv u tiny limit key t0 t admitted latest n"
  using assms(3)
proof (induction rule: table_run.induct)
  case start
  then show ?case by (simp add: run_inv_def new_bucket_table_def)
next
  case (take t admitted latest n now amount cas_ok max_entries idle_ttl r t')
  from take.hyps(4) show ?case
  proof (cases rule: table_take_cases)
    case (insert t1 b b')
    have "run_inv u tiny limit key t0 t1 admitted latest n"
      using insert(1) run_inv_same [OF take.IH, of t1] take.IH
      by (auto simp: run_inv_def sweep_table_def tab_simps split: option.splits)
    from run_inv_take [OF ok this take.hyps(2,3) insert(2,3)] insert(4) show ?thesis by simp
  next
    case full
    then show ?thesis using run_inv_swept [OF ok take.IH take.hyps(2)] by auto
  qed
next
  case (other t admitted latest n now key' fl' cas_ok limit' amount max_entries idle_ttl r t')
  from other.hyps(4) show ?case
  proof (cases rule: table_take_cases)
    case (insert t1 b b')
    then have "run_inv u tiny limit key t0 t1 admitted now (n + 1)"
      using run_inv_swept [OF ok other.IH other.hyps(2)] by blast
    from run_inv_same [OF this, of t'] this insert(4) other.hyps(3) show ?thesis
      by (simp add: run_inv_def tab_simps)
  next
    case full
    then show ?thesis using run_inv_swept [OF ok other.IH other.hyps(2)] by blast
  qed
next
  case (sweep t admitted latest n now idle_ttl)
  then show ?case using run_inv_sweep [OF ok] by blast
qed

subsection \<open>Properties\<close>

text \<open>C27. The rate limit holds, in floating point and across evictions: whatever the requests of
  other clients and the sweeps in between, what is admitted for one key during a run is at
  most the burst plus the rate times the length of the run, up to the rounding of f64: the
  rate gains at most a factor \<open>(1 + u)\<^sup>4\<close>, and every operation on the table at most a slack
  of the order of \<open>u\<close> times the burst and half a nanosecond's worth of tokens.\<close>

theorem rate_limit_bound:
  assumes "rounding fl u tiny" "sane_limit fl limit"
    and "table_run fl limit key t0 t admitted latest n"
  shows "admitted \<le> rl_burst limit + max_rate u limit * secs (latest - t0)
           + real n * step_slack u tiny limit"
proof -
  note inv = table_run_inv [OF assms] and pos = limit_range(2) [OF assms(2)]
  have "max_rate u limit * secs (b - t0) \<le> max_rate u limit * secs (latest - t0)" if "b \<le> latest" for b
    using rate_slack_nonneg(1) [OF assms(1,2)] that by (intro mult_left_mono secs_mono) auto
  with inv pos show ?thesis
    by (auto simp: run_inv_def bucket_inv_def split: option.splits) fastforce
qed

definition sample_limit :: rate_limit where
  "sample_limit = \<lparr>rl_per_second = 1, rl_burst = 2\<rparr>"

theorem rate_limit_bound_witness:
  "\<exists>t. table_run (\<lambda>x. x) sample_limit 7 0 t 2 0 1 \<and> (2 :: real) \<le> 2 + max_rate 0 sample_limit * secs 0
     + real 1 * step_slack 0 0 sample_limit"
proof -
  have lim: "sane_limit (\<lambda>x. x) sample_limit" by (simp add: sane_limit_def sample_limit_def)
  obtain r t where t: "table_take (\<lambda>x. x) True 7 sample_limit 2 0 10 5 new_bucket_table = (r, t)"
    by fastforce
  have start: "table_run (\<lambda>x. x) sample_limit 7 0 new_bucket_table 0 0 0" by (rule table_run.start)
  from t have "is_ok r"
    by (auto simp: table_take_def new_bucket_table_def bucket_take_def new_bucket_def sample_limit_def
        as_secs_f64_def from_secs_f64_def t_len_def split: if_splits)
  then have "table_run (\<lambda>x. x) sample_limit 7 0 t 2 0 1"
    using table_run.take [OF start _ _ t] by simp
  from rate_limit_bound [OF rounding_id lim this] this show ?thesis
    by (intro exI [of _ t]) (simp add: sample_limit_def)
qed

text \<open>Times that go back are not covered: the caller reads the clock before the entry is locked, so
  two takes may reach a bucket in the other order than they read the clock. The older time is
  then stored, and the interval between the two is credited a second time.\<close>

lemma reordered_takes_credit_twice:
  "let b = \<lparr>bk_tokens = 0, bk_updated = 11 * nanos_per_sec, bk_full_after = 0\<rparr>;
       (r1, b1) = bucket_take (\<lambda>x. x) sample_limit 1 (10 * nanos_per_sec) b;
       (r2, b2) = bucket_take (\<lambda>x. x) sample_limit 1 (11 * nanos_per_sec) b1
   in \<not> is_ok r1 \<and> is_ok r2 \<and> \<not> is_ok (fst (bucket_take (\<lambda>x. x) sample_limit 1 (11 * nanos_per_sec) b))"
  by (simp add: bucket_take_def sample_limit_def as_secs_f64_def from_secs_f64_def)

end
