(* ===== verification/Connector_Client.thy ===== *)
theory Connector_Client
  imports Connector_Health Ingress Rate_Limit
begin

text \<open>
  The Connector's side of a tunnel (\<open>sievetube-connector/src/quic_client.rs\<close> and the wiring in
  \<open>main.rs\<close>): how the Edge's certificate is checked, connecting and authenticating, the loop
  that serves streams and datagrams and drains on shutdown, and the reconnect loop around it.

  The two loops wait with \<open>tokio::select!\<close>, which takes any branch that is ready. Each branch is
  an event with the guard of the code, and a step function gives the state after it; a run is
  any sequence of events that are enabled. One task per configured Edge runs the reconnect
  loop, and all of them share the semaphore of stream slots and the health state, so the state
  of the whole Connector is one record. Durations are nanoseconds, like Rust's \<open>Duration\<close>.
\<close>

subsection \<open>Certificate verification\<close>

datatype 'r edge_verification = Ca 'r | Pinned "string list" | Skip

datatype 'e verification_error = NotOneMode | CannotRead | BadCertificate 'e | NoCertificate | Required

text \<open>\<open>read\<close> is the file system and \<open>load\<close> rustls reading a PEM bundle: the store and how many
  certificates it holds.\<close>

definition from_config ::
  "(string \<Rightarrow> bytes option) \<Rightarrow> (bytes \<Rightarrow> ('e, 'r \<times> nat) result) \<Rightarrow> string option \<Rightarrow> string list \<Rightarrow> bool
   \<Rightarrow> ('e verification_error, 'r edge_verification) result" where
  "from_config read load ca_cert pins insecure_skip_verify =
     (if verification_modes ca_cert pins insecure_skip_verify \<noteq> 1 then Inl NotOneMode
      else case ca_cert of
        Some path \<Rightarrow>
          (case read path of
             None \<Rightarrow> Inl CannotRead
           | Some pem \<Rightarrow>
               (case load pem of
                  Inl e \<Rightarrow> Inl (BadCertificate e)
                | Inr (roots, n) \<Rightarrow> if n = 0 then Inl NoCertificate else Inr (Ca roots)))
      | None \<Rightarrow>
          if pins \<noteq> [] then Inr (Pinned (map (\<lambda>pin. to_ascii_lowercase (trim pin)) pins))
          else if insecure_skip_verify then Inr Skip
          else Inl Required)"

definition hex_digit :: "nat \<Rightarrow> char" where
  "hex_digit n = (if n < 10 then char_of (48 + n) else char_of (87 + n))"

definition hex_byte :: "byte \<Rightarrow> string" where
  "hex_byte b = [hex_digit (unat b div 16), hex_digit (unat b mod 16)]"

definition certificate_sha256 :: "(bytes \<Rightarrow> bytes) \<Rightarrow> bytes \<Rightarrow> string" where
  "certificate_sha256 sha256 der = concat (map hex_byte (sha256 der))"

definition verify_pinned :: "(bytes \<Rightarrow> bytes) \<Rightarrow> string list \<Rightarrow> bytes \<Rightarrow> bool" where
  "verify_pinned sha256 pins der \<longleftrightarrow> list_ex (\<lambda>pin. pin = certificate_sha256 sha256 der) pins"

text \<open>\<open>ca_accepts\<close> is the certificate path validation of rustls.\<close>

definition verify_server_cert ::
  "(bytes \<Rightarrow> bytes) \<Rightarrow> ('r \<Rightarrow> string \<Rightarrow> bytes \<Rightarrow> bool) \<Rightarrow> 'r edge_verification \<Rightarrow> string \<Rightarrow> bytes \<Rightarrow> bool" where
  "verify_server_cert sha256 ca_accepts verification server_name der =
     (case verification of
        Ca roots \<Rightarrow> ca_accepts roots server_name der
      | Pinned pins \<Rightarrow> verify_pinned sha256 pins der
      | Skip \<Rightarrow> True)"

subsection \<open>Connecting and authenticating\<close>

definition tls_server_name :: "string \<Rightarrow> string option \<Rightarrow> (hostname_error, string) result" where
  "tls_server_name server_addr_str configured =
     (case configured of
        Some name \<Rightarrow> Inr name
      | None \<Rightarrow> and_then (split_authority server_addr_str) (\<lambda>(host, _). Inr host))"

text \<open>One endpoint per address family, bound on first use; \<open>bind\<close> is the socket call.\<close>

record 'ep edge_endpoints =
  ee_v4 :: "'ep option"
  ee_v6 :: "'ep option"

datatype family = Ipv4 | Ipv6

fun family_of :: "socket_addr \<Rightarrow> family" where
  "family_of a = (case sa_ip a of V4 _ \<Rightarrow> Ipv4 | V6 _ \<Rightarrow> Ipv6)"

definition for_addr ::
  "(family \<Rightarrow> 'ep option) \<Rightarrow> socket_addr \<Rightarrow> 'ep edge_endpoints \<Rightarrow> 'ep option \<times> 'ep edge_endpoints" where
  "for_addr bind addr es =
     (case family_of addr of
        Ipv4 \<Rightarrow>
          (case ee_v4 es of
             Some ep \<Rightarrow> (Some ep, es)
           | None \<Rightarrow> (case bind Ipv4 of None \<Rightarrow> (None, es) | Some ep \<Rightarrow> (Some ep, es\<lparr>ee_v4 := Some ep\<rparr>)))
      | Ipv6 \<Rightarrow>
          (case ee_v6 es of
             Some ep \<Rightarrow> (Some ep, es)
           | None \<Rightarrow> (case bind Ipv6 of None \<Rightarrow> (None, es) | Some ep \<Rightarrow> (Some ep, es\<lparr>ee_v6 := Some ep\<rparr>))))"

datatype connect_failure = BindFailed | ConnectFailed | ConnectTimedOut

text \<open>\<open>dial\<close> is the QUIC handshake on an endpoint: its outcome and how long it took, which
  the timeout cuts off.\<close>

definition CONNECT_TIMEOUT :: nat where "CONNECT_TIMEOUT = 10 * nanos_per_sec"

definition connect_attempt ::
  "(family \<Rightarrow> 'ep option) \<Rightarrow> ('ep \<Rightarrow> socket_addr \<Rightarrow> string \<Rightarrow> 'c option \<times> nat) \<Rightarrow> string \<Rightarrow> socket_addr
   \<Rightarrow> 'ep edge_endpoints \<Rightarrow> (connect_failure, 'c) result \<times> 'ep edge_endpoints" where
  "connect_attempt bind dial server_name addr es =
     (case for_addr bind addr es of
        (None, es') \<Rightarrow> (Inl BindFailed, es')
      | (Some ep, es') \<Rightarrow>
          (case dial ep addr server_name of
             (outcome, took) \<Rightarrow>
               if took > CONNECT_TIMEOUT then (Inl ConnectTimedOut, es')
               else (case outcome of None \<Rightarrow> (Inl ConnectFailed, es') | Some c \<Rightarrow> (Inr c, es'))))"

fun connect_any ::
  "(family \<Rightarrow> 'ep option) \<Rightarrow> ('ep \<Rightarrow> socket_addr \<Rightarrow> string \<Rightarrow> 'c option \<times> nat) \<Rightarrow> string
   \<Rightarrow> (socket_addr \<times> connect_failure) list \<Rightarrow> socket_addr list \<Rightarrow> 'ep edge_endpoints
   \<Rightarrow> ((socket_addr \<times> connect_failure) list, 'c) result \<times> 'ep edge_endpoints" where
  "connect_any bind dial server_name failures [] es = (Inl failures, es)"
| "connect_any bind dial server_name failures (addr # addrs) es =
     (case connect_attempt bind dial server_name addr es of
        (Inr c, es') \<Rightarrow> (Inr c, es')
      | (Inl e, es') \<Rightarrow> connect_any bind dial server_name (failures @ [(addr, e)]) addrs es')"

datatype client_error =
    LookupFailed | NoAddresses | QuicConnectFailed "(socket_addr \<times> connect_failure) list"
  | StreamFailed | AuthWire wire_error | ExpectedAuthResponse | AuthRejected string

text \<open>The exchange of \<open>connect_and_authenticate\<close> once connected. \<open>edge\<close> is what the peer does with
  the bytes of the client's stream: the content of the stream it opens in return, or nothing
  when a stream cannot be opened or accepted.\<close>

definition authenticate ::
  "json \<Rightarrow> (bytes \<Rightarrow> bytes option) \<Rightarrow> string \<Rightarrow> service_advertisement list option
   \<Rightarrow> (client_error, unit) result" where
  "authenticate J edge jwt services =
     (case write_message J (AuthRequest \<lparr>ar_jwt = jwt, ar_services = services\<rparr>) of
        Inl e \<Rightarrow> Inl (AuthWire e)
      | Inr sent \<Rightarrow>
          (case edge sent of
             None \<Rightarrow> Inl StreamFailed
           | Some received \<Rightarrow>
               (case read_message J received of
                  Inl e \<Rightarrow> Inl (AuthWire e)
                | Inr (AuthResponse r, _) \<Rightarrow>
                    if as_ok r then Inr ()
                    else Inl (AuthRejected (case as_reason r of Some x \<Rightarrow> x | None \<Rightarrow> []))
                | Inr _ \<Rightarrow> Inl ExpectedAuthResponse)))"

definition connect_and_authenticate ::
  "json \<Rightarrow> (string \<Rightarrow> socket_addr list option) \<Rightarrow> (family \<Rightarrow> 'ep option)
   \<Rightarrow> ('ep \<Rightarrow> socket_addr \<Rightarrow> string \<Rightarrow> 'c option \<times> nat) \<Rightarrow> ('c \<Rightarrow> bytes \<Rightarrow> bytes option)
   \<Rightarrow> string \<Rightarrow> string \<Rightarrow> string \<Rightarrow> service_advertisement list option \<Rightarrow> 'ep edge_endpoints
   \<Rightarrow> (client_error, 'c) result \<times> 'ep edge_endpoints" where
  "connect_and_authenticate J lookup bind dial edge server_addr server_name jwt services es =
     (case lookup server_addr of
        None \<Rightarrow> (Inl LookupFailed, es)
      | Some addrs \<Rightarrow>
          if addrs = [] then (Inl NoAddresses, es)
          else case connect_any bind dial server_name [] addrs es of
            (Inl fs, es') \<Rightarrow> (Inl (QuicConnectFailed fs), es')
          | (Inr c, es') \<Rightarrow>
              (case authenticate J (edge c) jwt services of
                 Inl e \<Rightarrow> (Inl e, es')
               | Inr _ \<Rightarrow> (Inr c, es')))"

subsection \<open>Serving\<close>

definition MAX_PENDING_UDP_FORWARDS :: nat where "MAX_PENDING_UDP_FORWARDS = 1024"
definition GOING_AWAY_TIMEOUT :: nat where "GOING_AWAY_TIMEOUT = 2 * nanos_per_sec"

text \<open>\<open>serve_stream\<close>: what the stream carried, \<open>None\<close> when the request did not arrive in time, and
  the action on its target, \<open>None\<close> when the stream is dropped.\<close>

definition serve_stream :: "json \<Rightarrow> ingress_rule list \<Rightarrow> bytes option \<Rightarrow> stream_action option" where
  "serve_stream J rules received =
     (case received of
        None \<Rightarrow> None
      | Some s \<Rightarrow>
          (case read_message J s of
             Inr (ConnectRequest r, _) \<Rightarrow>
               (case match_request rules (cr_hostname r) (cr_protocol r) of
                  Inl _ \<Rightarrow> None
                | Inr target \<Rightarrow> Some (handle_stream target))
           | _ \<Rightarrow> None))"

text \<open>A call of \<open>serve_streams\<close> is a session. Its tasks outlive it, with the permits they hold, so
  they are kept beside the sessions.\<close>

record session =
  ss_id :: nat
  ss_drain_deadline :: "nat option"
  ss_udp_available :: nat

datatype task =
    StreamTask (task_session: nat)
  | UdpTask (task_session: nat) "64 word" string socket_addr bytes

fun is_stream_task :: "task \<Rightarrow> bool" where
  "is_stream_task (StreamTask _) = True"
| "is_stream_task (UdpTask _ _ _ _ _) = False"

datatype accept_error = ApplicationClosed | ConnectionLost

datatype serve_event =
    ShutdownBranch nat nat
  | DrainedBranch
  | DeadlineBranch nat
  | AcceptBi "accept_error option"
  | ReadDatagram "bytes option"

datatype serve_status = Running session | ServeOk | ServeErr

datatype client_effect =
    GoingAwayNotice nat
  | CloseGoingAway nat
  | StreamRefused nat
  | StreamDone nat "stream_action option"
  | SendDatagram nat bytes

definition in_flight :: "nat \<Rightarrow> task list \<Rightarrow> nat" where
  "in_flight sid tasks = length (filter (\<lambda>t. task_session t = sid) tasks)"

text \<open>The datagram branch: decode, match and take a slot, in this order.\<close>

definition serve_datagram ::
  "ingress_rule list \<Rightarrow> bytes \<Rightarrow> session \<Rightarrow> task list \<Rightarrow> session \<times> task list" where
  "serve_datagram rules datagram s tasks =
     (case datagram_decode datagram of
        None \<Rightarrow> (s, tasks)
      | Some (header, payload) \<Rightarrow>
          (case match_request rules (dh_hostname header) Udp of
             Inr (Address addr) \<Rightarrow>
               if ss_udp_available s = 0 then (s, tasks)
               else (s\<lparr>ss_udp_available := ss_udp_available s - 1\<rparr>,
                     tasks @ [UdpTask (ss_id s) (dh_request_id header) (dh_hostname header) addr payload])
           | _ \<Rightarrow> (s, tasks)))"

text \<open>The branches of the loop; \<open>None\<close> when the branch is not ready. The shutdown branch starts at
  \<open>start\<close> and sending the notice takes \<open>took\<close>, cut off by the timeout.\<close>

fun serve_step ::
  "ingress_rule list \<Rightarrow> nat \<Rightarrow> bool \<Rightarrow> serve_event \<Rightarrow> session \<Rightarrow> nat \<Rightarrow> task list
   \<Rightarrow> (serve_status \<times> nat \<times> task list \<times> client_effect list) option" where
  "serve_step rules drain_timeout stop (ShutdownBranch start took) s permits tasks =
     (if stop \<and> ss_drain_deadline s = None
      then Some (Running (s\<lparr>ss_drain_deadline := Some (start + min took GOING_AWAY_TIMEOUT + drain_timeout)\<rparr>),
                 permits, tasks, [GoingAwayNotice (ss_id s)])
      else None)"
| "serve_step rules drain_timeout stop DrainedBranch s permits tasks =
     (if ss_drain_deadline s \<noteq> None \<and> in_flight (ss_id s) tasks = 0
      then Some (ServeOk, permits, tasks, [CloseGoingAway (ss_id s)]) else None)"
| "serve_step rules drain_timeout stop (DeadlineBranch now) s permits tasks =
     (case ss_drain_deadline s of
        Some d \<Rightarrow> if d \<le> now then Some (ServeOk, permits, tasks, [CloseGoingAway (ss_id s)]) else None
      | None \<Rightarrow> None)"
| "serve_step rules drain_timeout stop (AcceptBi outcome) s permits tasks =
     (case outcome of
        Some ApplicationClosed \<Rightarrow> Some (ServeOk, permits, tasks, [])
      | Some ConnectionLost \<Rightarrow> Some (ServeErr, permits, tasks, [])
      | None \<Rightarrow>
          if permits = 0 then Some (Running s, permits, tasks, [StreamRefused (ss_id s)])
          else Some (Running s, permits - 1, tasks @ [StreamTask (ss_id s)], []))"
| "serve_step rules drain_timeout stop (ReadDatagram outcome) s permits tasks =
     (case outcome of
        None \<Rightarrow> Some (ServeOk, permits, tasks, [])
      | Some datagram \<Rightarrow>
          (case serve_datagram rules datagram s tasks of
             (s', tasks') \<Rightarrow> Some (Running s', permits, tasks', [])))"

subsection \<open>Reconnecting\<close>

definition INITIAL_BACKOFF :: nat where "INITIAL_BACKOFF = nanos_per_sec"
definition MAX_BACKOFF :: nat where "MAX_BACKOFF = 30 * nanos_per_sec"
definition STABLE_SESSION :: nat where "STABLE_SESSION = 60 * nanos_per_sec"
definition REPLACED_RETRY_DELAY :: nat where "REPLACED_RETRY_DELAY = 60 * nanos_per_sec"

text \<open>\<open>jittered\<close>; \<open>fl\<close> rounds to the nearest \<open>f64\<close> and the fraction is exact. \<open>None\<close> would be the panic of
  \<open>from_secs_f64\<close>.\<close>

definition jittered :: "(real \<Rightarrow> real) \<Rightarrow> 64 word \<Rightarrow> nat \<Rightarrow> nat option" where
  "jittered fl random backoff =
     (let half = backoff div 2
      in map_option (\<lambda>d. half + d)
           (from_secs_f64 (fl (real (unat (random mod 1024)) / 1024 * as_secs_f64 fl half))))"

definition replaced_by_another_connector :: "32 word option \<Rightarrow> bool" where
  "replaced_by_another_connector close_reason \<longleftrightarrow> close_reason = Some REPLACED"

datatype phase = LoopHead | Connect | Serving session nat | Waiting nat | Returned

record client =
  cl_server :: string
  cl_phase :: phase
  cl_backoff :: nat

record connector =
  cn_permits :: nat
  cn_tasks :: "task list"
  cn_next_session :: nat
  cn_health :: health
  cn_stop :: bool
  cn_clients :: "client list"

text \<open>What a run depends on: the rounding, the JSON codec, the configuration, and the texts of errors.\<close>

record client_params =
  cp_fl :: "real \<Rightarrow> real"
  cp_json :: json
  cp_rules :: "ingress_rule list"
  cp_drain_timeout :: nat
  cp_server_name :: "string option"
  cp_max_streams :: nat
  cp_show_error :: "client_error \<Rightarrow> string"
  cp_show_name_error :: "hostname_error \<Rightarrow> string"
  cp_lost_text :: string

datatype client_event =
    EnterLoop
  | ConnectDone "(client_error, unit) result" "64 word"
  | ShutdownSeen
  | Serve serve_event "32 word option" "64 word"
  | WaitOver

text \<open>The tail of the loop body: the health entry and the delay before the next attempt. \<open>unix\<close> and
  \<open>now\<close> are the wall clock and the monotonic clock; a panic would end the task.\<close>

definition after_attempt ::
  "(real \<Rightarrow> real) \<Rightarrow> nat \<Rightarrow> nat \<Rightarrow> nat option \<Rightarrow> string \<Rightarrow> 64 word \<Rightarrow> client \<Rightarrow> health
   \<Rightarrow> client \<times> health" where
  "after_attempt fl unix now exact_delay error random c h =
     (case (case exact_delay of Some d \<Rightarrow> Some d | None \<Rightarrow> jittered fl random (cl_backoff c)) of
        None \<Rightarrow> (c\<lparr>cl_phase := Returned\<rparr>, set_disconnected unix (cl_server c) error h)
      | Some delay \<Rightarrow>
          (c\<lparr>cl_phase := Waiting (now + delay)\<rparr>, set_disconnected unix (cl_server c) error h))"

text \<open>The end of a session: a long one resets the backoff, a replacement has its own delay.\<close>

definition after_session ::
  "(real \<Rightarrow> real) \<Rightarrow> nat \<Rightarrow> nat \<Rightarrow> nat \<Rightarrow> 32 word option \<Rightarrow> string \<Rightarrow> 64 word \<Rightarrow> client \<Rightarrow> health
   \<Rightarrow> client \<times> health" where
  "after_session fl unix now authenticated_at close_reason error random c h =
     (let c1 = (if now - authenticated_at \<ge> STABLE_SESSION then c\<lparr>cl_backoff := INITIAL_BACKOFF\<rparr> else c)
      in if replaced_by_another_connector close_reason
         then after_attempt fl unix now (Some REPLACED_RETRY_DELAY)
                ''connection replaced by another connector'' random c1 h
         else after_attempt fl unix now None error random c1 h)"

text \<open>The loop of \<open>run_connection\<close>, one event at a time; \<open>None\<close> when the client does not wait for the
  event. The shared fields are those of the connector.\<close>

fun client_step ::
  "client_params \<Rightarrow> nat \<Rightarrow> nat \<Rightarrow> client_event \<Rightarrow> client \<Rightarrow> connector
   \<Rightarrow> (client \<times> connector \<times> client_effect list) option" where
  "client_step P unix now EnterLoop c cn =
     (if cl_phase c \<noteq> LoopHead then None
      else if cn_stop cn then Some (c\<lparr>cl_phase := Returned\<rparr>, cn, [])
      else Some (c\<lparr>cl_phase := Connect\<rparr>,
                 cn\<lparr>cn_health := set_connecting unix (cl_server c) (cn_health cn)\<rparr>, []))"
| "client_step P unix now (ConnectDone outcome random) c cn =
     (if cl_phase c \<noteq> Connect then None
      else case outcome of
        Inr _ \<Rightarrow>
          Some (c\<lparr>cl_phase := Serving \<lparr>ss_id = cn_next_session cn, ss_drain_deadline = None,
                                        ss_udp_available = MAX_PENDING_UDP_FORWARDS\<rparr> now\<rparr>,
                cn\<lparr>cn_health := set_connected unix (cl_server c) (cn_health cn),
                   cn_next_session := cn_next_session cn + 1\<rparr>, [])
      | Inl e \<Rightarrow>
          (case after_attempt (cp_fl P) unix now None (cp_show_error P e) random c (cn_health cn) of
             (c', h) \<Rightarrow> Some (c', cn\<lparr>cn_health := h\<rparr>, [])))"
| "client_step P unix now ShutdownSeen c cn =
     (if cn_stop cn \<and> (case cl_phase c of Connect \<Rightarrow> True | Waiting _ \<Rightarrow> True | _ \<Rightarrow> False)
      then Some (c\<lparr>cl_phase := Returned\<rparr>, cn, []) else None)"
| "client_step P unix now (Serve ev close_reason random) c cn =
     (case cl_phase c of
        Serving s authenticated_at \<Rightarrow>
          (case serve_step (cp_rules P) (cp_drain_timeout P) (cn_stop cn) ev s (cn_permits cn) (cn_tasks cn) of
             None \<Rightarrow> None
           | Some (Running s', permits, tasks, effects) \<Rightarrow>
               Some (c\<lparr>cl_phase := Serving s' authenticated_at\<rparr>,
                     cn\<lparr>cn_permits := permits, cn_tasks := tasks\<rparr>, effects)
           | Some (ServeOk, permits, tasks, effects) \<Rightarrow>
               (case after_session (cp_fl P) unix now authenticated_at close_reason ''connection closed''
                       random c (cn_health cn) of
                  (c', h) \<Rightarrow> Some (c', cn\<lparr>cn_permits := permits, cn_tasks := tasks, cn_health := h\<rparr>, effects))
           | Some (ServeErr, permits, tasks, effects) \<Rightarrow>
               (case after_session (cp_fl P) unix now authenticated_at close_reason (cp_lost_text P)
                       random c (cn_health cn) of
                  (c', h) \<Rightarrow> Some (c', cn\<lparr>cn_permits := permits, cn_tasks := tasks, cn_health := h\<rparr>, effects)))
      | _ \<Rightarrow> None)"
| "client_step P unix now WaitOver c cn =
     (case cl_phase c of
        Waiting wake \<Rightarrow>
          if wake \<le> now
          then Some (c\<lparr>cl_phase := LoopHead, cl_backoff := min (cl_backoff c * 2) MAX_BACKOFF\<rparr>, cn, [])
          else None
      | _ \<Rightarrow> None)"

text \<open>Before the loop: a server name that cannot be determined ends the task. \<open>endpoints\<close> is the
  outcome of building the client configuration: the text of its error, if any.\<close>

definition start_client ::
  "client_params \<Rightarrow> nat \<Rightarrow> string option \<Rightarrow> string \<Rightarrow> health \<Rightarrow> client \<times> health" where
  "start_client P unix endpoints server h =
     (let c = \<lparr>cl_server = server, cl_phase = LoopHead, cl_backoff = INITIAL_BACKOFF\<rparr>
      in case tls_server_name server (cp_server_name P) of
           Inl e \<Rightarrow> (c\<lparr>cl_phase := Returned\<rparr>, set_disconnected unix server (cp_show_name_error P e) h)
         | Inr _ \<Rightarrow>
             (case endpoints of
                Some e \<Rightarrow> (c\<lparr>cl_phase := Returned\<rparr>, set_disconnected unix server e h)
              | None \<Rightarrow> (c, h)))"

fun start_clients ::
  "client_params \<Rightarrow> nat \<Rightarrow> string option \<Rightarrow> string list \<Rightarrow> health \<Rightarrow> client list \<times> health" where
  "start_clients P unix endpoints [] h = ([], h)"
| "start_clients P unix endpoints (server # servers) h =
     (case start_client P unix endpoints server h of
        (c, h1) \<Rightarrow> (case start_clients P unix endpoints servers h1 of (cs, h2) \<Rightarrow> (c # cs, h2)))"

text \<open>\<open>main\<close>: the shared semaphore and health state, and one task per server.\<close>

definition start_connector :: "client_params \<Rightarrow> nat \<Rightarrow> string option \<Rightarrow> string list \<Rightarrow> connector" where
  "start_connector P unix endpoints servers =
     (case start_clients P unix endpoints servers (new_health unix servers) of
        (cs, h) \<Rightarrow> \<lparr>cn_permits = cp_max_streams P, cn_tasks = [], cn_next_session = 0, cn_health = h,
                    cn_stop = False, cn_clients = cs\<rparr>)"

datatype task_outcome = StreamRead "bytes option" | UdpOutcome "bytes option"

text \<open>The end of a task gives its permit back. A UDP task that got a reply sends it with the request's
  id and hostname.\<close>

definition release_udp :: "nat \<Rightarrow> client \<Rightarrow> client" where
  "release_udp sid c =
     (case cl_phase c of
        Serving s t \<Rightarrow>
          if ss_id s = sid
          then c\<lparr>cl_phase := Serving (s\<lparr>ss_udp_available := ss_udp_available s + 1\<rparr>) t\<rparr> else c
      | _ \<Rightarrow> c)"

definition finish_task ::
  "client_params \<Rightarrow> nat \<Rightarrow> task_outcome \<Rightarrow> connector \<Rightarrow> (connector \<times> client_effect list) option" where
  "finish_task P i outcome cn =
     (if i \<ge> length (cn_tasks cn) then None
      else let rest = take i (cn_tasks cn) @ drop (i + 1) (cn_tasks cn)
           in case (cn_tasks cn ! i, outcome) of
                (StreamTask sid, StreamRead received) \<Rightarrow>
                  Some (cn\<lparr>cn_tasks := rest, cn_permits := cn_permits cn + 1\<rparr>,
                        [StreamDone sid (serve_stream (cp_json P) (cp_rules P) received)])
              | (UdpTask sid request_id hostname addr payload, UdpOutcome reply) \<Rightarrow>
                  Some (cn\<lparr>cn_tasks := rest, cn_clients := map (release_udp sid) (cn_clients cn)\<rparr>,
                        case reply of
                          None \<Rightarrow> []
                        | Some r \<Rightarrow> [SendDatagram sid
                            (datagram_encode \<lparr>dh_request_id = request_id, dh_hostname = hostname\<rparr> r)])
              | _ \<Rightarrow> None)"

datatype connector_event =
    ClientEvent nat nat nat client_event
  | TaskDone nat task_outcome
  | SignalReceived

fun connector_step ::
  "client_params \<Rightarrow> connector_event \<Rightarrow> connector \<Rightarrow> (connector \<times> client_effect list) option" where
  "connector_step P (ClientEvent i unix now ev) cn =
     (if i \<ge> length (cn_clients cn) then None
      else case client_step P unix now ev (cn_clients cn ! i) cn of
             None \<Rightarrow> None
           | Some (c, cn', effects) \<Rightarrow> Some (cn'\<lparr>cn_clients := (cn_clients cn)[i := c]\<rparr>, effects))"
| "connector_step P (TaskDone i outcome) cn = finish_task P i outcome cn"
| "connector_step P SignalReceived cn =
     Some (cn\<lparr>cn_health := set_draining (cn_health cn), cn_stop := True\<rparr>, [])"

text \<open>\<open>main\<close> waits this long for the connections after the signal.\<close>

definition shutdown_grace :: "nat \<Rightarrow> nat" where
  "shutdown_grace drain_timeout = drain_timeout + 5 * nanos_per_sec"

text \<open>A run of the Connector, with the log of its effects.\<close>

inductive connector_run ::
  "client_params \<Rightarrow> connector \<Rightarrow> connector \<Rightarrow> client_effect list \<Rightarrow> bool"
  for P :: client_params and cn0 :: connector where
  start: "connector_run P cn0 cn0 []"
| step: "connector_run P cn0 cn out \<Longrightarrow> connector_step P ev cn = Some (cn', effects)
         \<Longrightarrow> connector_run P cn0 cn' (out @ effects)"

subsection \<open>Stream and datagram slots\<close>

text \<open>\<open>streams\<close> and \<open>udp_of\<close> count the tasks that hold a stream slot, and a datagram slot of a session.\<close>

definition streams :: "task list \<Rightarrow> nat" where
  "streams tasks = length (filter is_stream_task tasks)"

definition udp_of :: "nat \<Rightarrow> task list \<Rightarrow> nat" where
  "udp_of sid tasks = length (filter (\<lambda>t. task_session t = sid \<and> \<not> is_stream_task t) tasks)"

lemma streams_simps [simp]:
  "streams [] = 0" "streams (xs @ ys) = streams xs + streams ys"
  "streams [StreamTask sid] = 1" "streams [UdpTask sid r h a p] = 0"
  by (simp_all add: streams_def)

lemma udp_of_simps [simp]:
  "udp_of sid [] = 0" "udp_of sid (xs @ ys) = udp_of sid xs + udp_of sid ys"
  "udp_of sid [StreamTask i] = 0" "udp_of sid [UdpTask i r h a p] = (if i = sid then 1 else 0)"
  by (simp_all add: udp_of_def)

lemma remove_nth_split:
  assumes "i < length xs"
  obtains as bs where "xs = as @ xs ! i # bs" "take i xs @ drop (i + 1) xs = as @ bs"
  using that [of "take i xs" "drop (i + 1) xs"] assms by (simp add: Cons_nth_drop_Suc)

lemma streams_Cons: "streams (t # ts) = (if is_stream_task t then 1 else 0) + streams ts"
  by (simp add: streams_def)

lemma udp_of_Cons: "udp_of sid (t # ts) = (if task_session t = sid \<and> \<not> is_stream_task t then 1 else 0) + udp_of sid ts"
  by (simp add: udp_of_def)

lemma serve_datagram_cases:
  assumes "serve_datagram rules d s tasks = (s', tasks')"
  obtains "s' = s" "tasks' = tasks"
  | r h a p where "ss_udp_available s > 0" "s' = s\<lparr>ss_udp_available := ss_udp_available s - 1\<rparr>"
      "tasks' = tasks @ [UdpTask (ss_id s) r h a p]"
      "\<exists>hdr. datagram_decode d = Some (hdr, p) \<and> r = dh_request_id hdr \<and> h = dh_hostname hdr
             \<and> match_request rules h Udp = Inr (Address a)"
  using assms
  by (auto simp: serve_datagram_def split: option.splits sum.splits target.splits if_splits)

text \<open>What a branch of the serving loop can do to the shared state.\<close>

lemma serve_step_cases:
  assumes "serve_step rules drain stop ev s permits tasks = Some (st, permits', tasks', ef)"
  obtains (notice) start took where "ev = ShutdownBranch start took" "stop" "ss_drain_deadline s = None"
      "st = Running (s\<lparr>ss_drain_deadline := Some (start + min took GOING_AWAY_TIMEOUT + drain)\<rparr>)"
      "permits' = permits" "tasks' = tasks" "ef = [GoingAwayNotice (ss_id s)]"
  | (close) "ss_drain_deadline s \<noteq> None" "st = ServeOk" "permits' = permits" "tasks' = tasks"
      "ef = [CloseGoingAway (ss_id s)]"
      "in_flight (ss_id s) tasks = 0 \<or> (\<exists>d now. ss_drain_deadline s = Some d \<and> ev = DeadlineBranch now \<and> d \<le> now)"
  | (ended) "st = ServeOk \<or> st = ServeErr" "permits' = permits" "tasks' = tasks" "ef = []"
  | (refused) "st = Running s" "permits = 0" "permits' = permits" "tasks' = tasks" "ef = [StreamRefused (ss_id s)]"
  | (stream) "st = Running s" "permits = Suc permits'" "tasks' = tasks @ [StreamTask (ss_id s)]" "ef = []"
  | (ignored) "st = Running s" "permits' = permits" "tasks' = tasks" "ef = []"
  | (udp) r h a p where "st = Running (s\<lparr>ss_udp_available := ss_udp_available s - 1\<rparr>)"
      "ss_udp_available s > 0" "permits' = permits" "tasks' = tasks @ [UdpTask (ss_id s) r h a p]" "ef = []"
proof (cases ev)
  case (ReadDatagram d)
  show ?thesis
  proof (cases d)
    case (Some b)
    obtain s' ts where sd: "serve_datagram rules b s tasks = (s', ts)" by fastforce
    then have "st = Running s'" "permits' = permits" "tasks' = ts" "ef = []"
      using assms ReadDatagram Some by auto
    with sd show ?thesis by (elim serve_datagram_cases) (use ignored udp in auto)
  qed (use assms ReadDatagram ended in auto)
qed (use assms notice close ended refused stream in
      \<open>auto split: if_splits option.splits accept_error.splits\<close>)

lemma serve_step_slots:
  assumes "serve_step rules drain stop ev s permits tasks = Some (st, permits', tasks', ef)"
  shows "permits' + streams tasks' = permits + streams tasks"
  using assms by (elim serve_step_cases) auto

lemma after_attempt_cases:
  assumes "after_attempt fl unix now exact error random c h = (c', h')"
  obtains "h' = set_disconnected unix (cl_server c) error h" "cl_server c' = cl_server c"
    "cl_backoff c' = cl_backoff c" "cl_phase c' = Returned"
    "exact = None" "jittered fl random (cl_backoff c) = None"
  | delay where "h' = set_disconnected unix (cl_server c) error h" "cl_server c' = cl_server c"
    "cl_backoff c' = cl_backoff c" "cl_phase c' = Waiting (now + delay)"
    "exact = Some delay \<or> exact = None \<and> jittered fl random (cl_backoff c) = Some delay"
  using assms by (auto simp: after_attempt_def split: option.splits)

text \<open>An attempt or a session that ended: the client waits, or returned after a panic.\<close>

definition attempt_over :: "client \<Rightarrow> client \<Rightarrow> bool" where
  "attempt_over c c' \<longleftrightarrow> cl_server c' = cl_server c \<and> (cl_phase c' = Returned \<or> (\<exists>w. cl_phase c' = Waiting w))"

lemma after_attempt_over:
  assumes "after_attempt fl unix now exact error random c h = (c', h')"
  shows "attempt_over c c'" "\<exists>e. h' = set_disconnected unix (cl_server c) e h" "cl_backoff c' = cl_backoff c"
  using assms by (elim after_attempt_cases; auto simp: attempt_over_def)+

lemma after_session_attempt:
  assumes "after_session fl unix now t reason error random c h = (c', h')"
  obtains exact e c1 where "after_attempt fl unix now exact e random c1 h = (c', h')"
    "cl_server c1 = cl_server c"
    "cl_backoff c1 = (if now - t \<ge> STABLE_SESSION then INITIAL_BACKOFF else cl_backoff c)"
    "exact = (if replaced_by_another_connector reason then Some REPLACED_RETRY_DELAY else None)"
  using assms by (auto simp: after_session_def Let_def split: if_splits)

lemma after_session_over:
  assumes "after_session fl unix now t reason error random c h = (c', h')"
  shows "attempt_over c c'" "\<exists>e. h' = set_disconnected unix (cl_server c) e h"
    "cl_backoff c' = (if now - t \<ge> STABLE_SESSION then INITIAL_BACKOFF else cl_backoff c)"
proof -
  obtain exact e c1 where a: "after_attempt fl unix now exact e random c1 h = (c', h')"
    and c1: "cl_server c1 = cl_server c"
      "cl_backoff c1 = (if now - t \<ge> STABLE_SESSION then INITIAL_BACKOFF else cl_backoff c)"
    using after_session_attempt [OF assms] by blast
  note after_attempt_over [OF a]
  with c1 show "attempt_over c c'" "\<exists>e. h' = set_disconnected unix (cl_server c) e h"
    "cl_backoff c' = (if now - t \<ge> STABLE_SESSION then INITIAL_BACKOFF else cl_backoff c)"
    by (auto simp: attempt_over_def)
qed

text \<open>What an event of one client can do.\<close>

lemma client_step_cases:
  assumes "client_step P unix now ev c cn = Some (c', cn', ef)"
  obtains (stopped) "ev = EnterLoop" "cl_phase c = LoopHead" "cn_stop cn" "c' = c\<lparr>cl_phase := Returned\<rparr>" "cn' = cn" "ef = []"
  | (enter) "ev = EnterLoop" "cl_phase c = LoopHead" "\<not> cn_stop cn" "c' = c\<lparr>cl_phase := Connect\<rparr>"
      "cn' = cn\<lparr>cn_health := set_connecting unix (cl_server c) (cn_health cn)\<rparr>" "ef = []"
  | (connected) "cl_phase c = Connect"
      "c' = c\<lparr>cl_phase := Serving \<lparr>ss_id = cn_next_session cn, ss_drain_deadline = None,
                                    ss_udp_available = MAX_PENDING_UDP_FORWARDS\<rparr> now\<rparr>"
      "cn' = cn\<lparr>cn_health := set_connected unix (cl_server c) (cn_health cn),
                 cn_next_session := cn_next_session cn + 1\<rparr>" "ef = []"
  | (failed) e random h where "cl_phase c = Connect"
      "after_attempt (cp_fl P) unix now None e random c (cn_health cn) = (c', h)"
      "cn' = cn\<lparr>cn_health := h\<rparr>" "ef = []"
  | (shutdown) "ev = ShutdownSeen" "cn_stop cn" "cl_phase c = Connect \<or> (\<exists>w. cl_phase c = Waiting w)"
      "c' = c\<lparr>cl_phase := Returned\<rparr>" "cn' = cn" "ef = []"
  | (serving) sev s t s' permits tasks where "cl_phase c = Serving s t"
      "serve_step (cp_rules P) (cp_drain_timeout P) (cn_stop cn) sev s (cn_permits cn) (cn_tasks cn)
         = Some (Running s', permits, tasks, ef)"
      "c' = c\<lparr>cl_phase := Serving s' t\<rparr>" "cn' = cn\<lparr>cn_permits := permits, cn_tasks := tasks\<rparr>"
  | (ended) sev s t st permits tasks reason e random h where "cl_phase c = Serving s t"
      "serve_step (cp_rules P) (cp_drain_timeout P) (cn_stop cn) sev s (cn_permits cn) (cn_tasks cn)
         = Some (st, permits, tasks, ef)" "st = ServeOk \<or> st = ServeErr"
      "after_session (cp_fl P) unix now t reason e random c (cn_health cn) = (c', h)"
      "cn' = cn\<lparr>cn_permits := permits, cn_tasks := tasks, cn_health := h\<rparr>"
  | (woken) w where "cl_phase c = Waiting w" "w \<le> now"
      "c' = c\<lparr>cl_phase := LoopHead, cl_backoff := min (cl_backoff c * 2) MAX_BACKOFF\<rparr>" "cn' = cn" "ef = []"
proof (cases ev)
  case (Serve sev reason random)
  then obtain s t where ph: "cl_phase c = Serving s t" using assms by (auto split: phase.splits)
  obtain st permits tasks where
    sv: "serve_step (cp_rules P) (cp_drain_timeout P) (cn_stop cn) sev s (cn_permits cn) (cn_tasks cn)
           = Some (st, permits, tasks, ef)"
    using assms Serve ph by (auto split: option.splits serve_status.splits prod.splits)
  show ?thesis
  proof (cases st)
    case (Running s')
    then show ?thesis using assms Serve ph sv serving by auto
  next
    case ServeOk
    then show ?thesis using assms Serve ph sv by (auto intro: ended [OF ph sv] split: prod.splits)
  next
    case ServeErr
    then show ?thesis using assms Serve ph sv by (auto intro: ended [OF ph sv] split: prod.splits)
  qed
next
  case EnterLoop
  then show ?thesis using assms stopped enter by (auto split: if_splits)
next
  case (ConnectDone outcome random)
  then show ?thesis using assms connected failed by (auto split: if_splits sum.splits prod.splits)
next
  case ShutdownSeen
  then show ?thesis using assms shutdown by (auto split: if_splits phase.splits)
next
  case WaitOver
  then show ?thesis using assms woken by (auto split: if_splits phase.splits)
qed

lemma client_step_slots:
  assumes "client_step P unix now ev c cn = Some (c', cn', ef)"
  shows "cn_permits cn' + streams (cn_tasks cn') = cn_permits cn + streams (cn_tasks cn)"
    and "cn_stop cn' = cn_stop cn" "cl_server c' = cl_server c"
  using assms
  by (elim client_step_cases; auto simp: attempt_over_def dest: serve_step_slots
        dest!: after_attempt_over(1) after_session_over(1))+

text \<open>The invariant of the sessions: ids are fresh and not shared, and the datagram slots of a session are
  those of its tasks.\<close>

definition session_ok :: "connector \<Rightarrow> client \<Rightarrow> bool" where
  "session_ok cn c \<longleftrightarrow>
     (\<forall>s t. cl_phase c = Serving s t \<longrightarrow>
        ss_id s < cn_next_session cn
        \<and> ss_udp_available s + udp_of (ss_id s) (cn_tasks cn) = MAX_PENDING_UDP_FORWARDS)"

definition session_of :: "client \<Rightarrow> nat option" where
  "session_of c = (case cl_phase c of Serving s _ \<Rightarrow> Some (ss_id s) | _ \<Rightarrow> None)"

definition unshared :: "client list \<Rightarrow> bool" where
  "unshared cs \<longleftrightarrow>
     (\<forall>i j. i < length cs \<longrightarrow> j < length cs \<longrightarrow> i \<noteq> j \<longrightarrow> session_of (cs ! i) \<noteq> None
        \<longrightarrow> session_of (cs ! i) \<noteq> session_of (cs ! j))"

definition slots_inv :: "client_params \<Rightarrow> connector \<Rightarrow> bool" where
  "slots_inv P cn \<longleftrightarrow>
     cn_permits cn + streams (cn_tasks cn) = cp_max_streams P
     \<and> (\<forall>c \<in> set (cn_clients cn). session_ok cn c)
     \<and> unshared (cn_clients cn)
     \<and> (\<forall>t \<in> set (cn_tasks cn). task_session t < cn_next_session cn)
     \<and> (\<forall>sid. udp_of sid (cn_tasks cn) \<le> MAX_PENDING_UDP_FORWARDS)"

lemma session_of_Some: "session_of c = Some sid \<longleftrightarrow> (\<exists>s t. cl_phase c = Serving s t \<and> ss_id s = sid)"
  by (auto simp: session_of_def split: phase.splits)

lemma session_ok_free: "session_of c = None \<Longrightarrow> session_ok cn c"
  by (auto simp: session_ok_def session_of_def)

lemma attempt_over_no_session: "attempt_over c c' \<Longrightarrow> session_of c' = None"
  by (auto simp: attempt_over_def session_of_def)

lemma unshared_update:
  assumes "unshared cs" "session_of c' = None \<or> session_of c' = session_of (cs ! i)
             \<or> (\<forall>c \<in> set cs. session_of c \<noteq> session_of c')"
  shows "unshared (cs[i := c'])"
  unfolding unshared_def
proof (intro allI impI)
  fix a b
  assume ab: "a < length (cs[i := c'])" "b < length (cs[i := c'])" "a \<noteq> b" "session_of (cs[i := c'] ! a) \<noteq> None"
  have upd: "cs[i := c'] ! a = (if a = i then c' else cs ! a)" "cs[i := c'] ! b = (if b = i then c' else cs ! b)"
    using ab by (simp_all add: nth_list_update)
  have old: "session_of (cs ! x) \<noteq> session_of (cs ! y)"
    if "x < length cs" "y < length cs" "x \<noteq> y" "session_of (cs ! x) \<noteq> None" for x y
    using assms(1) that unfolding unshared_def by blast
  have "cs ! a \<in> set cs" "cs ! b \<in> set cs" using ab by simp_all
  with ab upd assms(2) old [of a b] old [of b a] show "session_of (cs[i := c'] ! a) \<noteq> session_of (cs[i := c'] ! b)"
    by (cases "a = i"; cases "b = i") auto
qed

lemma session_ok_mono:
  assumes "session_ok cn c" "cn_next_session cn \<le> cn_next_session cn'"
    and "\<And>sid. session_of c = Some sid \<Longrightarrow> udp_of sid (cn_tasks cn') = udp_of sid (cn_tasks cn)"
  shows "session_ok cn' c"
  using assms by (auto simp: session_ok_def session_of_def split: phase.splits)

text \<open>A step of the serving loop keeps the session's own account, and touches no other session's.\<close>

lemma serve_step_session:
  assumes "serve_step rules drain stop ev s permits tasks = Some (st, permits', tasks', ef)"
    and "ss_udp_available s + udp_of (ss_id s) tasks = MAX_PENDING_UDP_FORWARDS"
  shows "st = Running s' \<Longrightarrow> ss_id s' = ss_id s
           \<and> ss_udp_available s' + udp_of (ss_id s) tasks' = MAX_PENDING_UDP_FORWARDS"
    and "sid \<noteq> ss_id s \<Longrightarrow> udp_of sid tasks' = udp_of sid tasks"
    and "udp_of (ss_id s) tasks' \<le> MAX_PENDING_UDP_FORWARDS"
    and "t \<in> set tasks' \<Longrightarrow> t \<in> set tasks \<or> task_session t = ss_id s"
  using assms by (elim serve_step_cases; auto)+

lemma serve_step_account:
  assumes inv: "slots_inv P cn" "c \<in> set (cn_clients cn)" and ph: "cl_phase c = Serving s t"
    and sv: "serve_step rules drain stop sev s (cn_permits cn) (cn_tasks cn) = Some (st, permits, tasks, ef)"
  shows "st = Running s' \<Longrightarrow> ss_id s' = ss_id s
           \<and> ss_udp_available s' + udp_of (ss_id s) tasks = MAX_PENDING_UDP_FORWARDS"
    and "sid \<noteq> ss_id s \<Longrightarrow> udp_of sid tasks = udp_of sid (cn_tasks cn)"
    and "udp_of sid tasks \<le> MAX_PENDING_UDP_FORWARDS"
    and "x \<in> set tasks \<Longrightarrow> task_session x < cn_next_session cn" and "ss_id s < cn_next_session cn"
proof -
  have acc: "ss_udp_available s + udp_of (ss_id s) (cn_tasks cn) = MAX_PENDING_UDP_FORWARDS"
    and id: "ss_id s < cn_next_session cn" using inv ph by (auto simp: slots_inv_def session_ok_def)
  note ss = serve_step_session [OF sv acc]
  show "st = Running s' \<Longrightarrow> ss_id s' = ss_id s
          \<and> ss_udp_available s' + udp_of (ss_id s) tasks = MAX_PENDING_UDP_FORWARDS"
    by (rule ss(1))
  show "sid \<noteq> ss_id s \<Longrightarrow> udp_of sid tasks = udp_of sid (cn_tasks cn)" by (rule ss(2))
  show "udp_of sid tasks \<le> MAX_PENDING_UDP_FORWARDS"
    using ss(2,3) inv(1) by (cases "sid = ss_id s") (auto simp: slots_inv_def)
  show "x \<in> set tasks \<Longrightarrow> task_session x < cn_next_session cn"
    using ss(4) [of x] inv(1) id by (auto simp: slots_inv_def)
  show "ss_id s < cn_next_session cn" by (rule id)
qed

text \<open>Replacing one client keeps the invariant, when the tasks of the other sessions stay.\<close>

lemma slots_inv_update:
  assumes inv: "slots_inv P cn" and i: "i < length (cn_clients cn)"
    and slots: "cn_permits cn' + streams (cn_tasks cn') = cn_permits cn + streams (cn_tasks cn)"
    and new: "session_ok cn' c'" "session_of c' = None \<or> session_of c' = session_of (cn_clients cn ! i)
             \<or> (\<forall>c \<in> set (cn_clients cn). session_of c \<noteq> session_of c')"
    and later: "cn_next_session cn \<le> cn_next_session cn'"
    and same: "\<And>sid. session_of (cn_clients cn ! i) \<noteq> Some sid \<Longrightarrow> udp_of sid (cn_tasks cn') = udp_of sid (cn_tasks cn)"
    and le: "\<And>sid. udp_of sid (cn_tasks cn') \<le> MAX_PENDING_UDP_FORWARDS"
    and fresh: "\<And>t. t \<in> set (cn_tasks cn') \<Longrightarrow> task_session t < cn_next_session cn'"
  shows "slots_inv P (cn'\<lparr>cn_clients := (cn_clients cn)[i := c']\<rparr>)"
proof -
  let ?cs = "(cn_clients cn)[i := c']"
  have un: "unshared (cn_clients cn)" using inv by (simp add: slots_inv_def)
  have "session_ok cn' d" if d: "d \<in> set ?cs" for d
  proof (cases "d = c'")
    case False
    then obtain j where j: "j < length (cn_clients cn)" "j \<noteq> i" "d = cn_clients cn ! j"
      using d by (metis in_set_conv_nth length_list_update nth_list_update_eq nth_list_update_neq)
    then have "session_ok cn d" using inv by (auto simp: slots_inv_def)
    moreover have "session_of (cn_clients cn ! i) \<noteq> Some sid" if "session_of d = Some sid" for sid
      using un i j that unfolding unshared_def by (metis option.distinct(1))
    ultimately show ?thesis using later same by (auto intro: session_ok_mono)
  qed (use new in simp)
  then show ?thesis using inv slots le fresh unshared_update [OF un new(2)]
    by (simp add: slots_inv_def session_ok_def)
qed

lemma slots_inv_client:
  assumes inv: "slots_inv P cn" and i: "i < length (cn_clients cn)"
    and st: "client_step P unix now ev (cn_clients cn ! i) cn = Some (c', cn', ef)"
  shows "slots_inv P (cn'\<lparr>cn_clients := (cn_clients cn)[i := c']\<rparr>)"
proof -
  let ?c = "cn_clients cn ! i"
  have c: "?c \<in> set (cn_clients cn)" using i by simp
  note upd = slots_inv_update [OF inv i client_step_slots(1) [OF st]]
  have old: "udp_of sid (cn_tasks cn) \<le> MAX_PENDING_UDP_FORWARDS"
    "t \<in> set (cn_tasks cn) \<Longrightarrow> task_session t < cn_next_session cn" for sid t
    using inv by (simp_all add: slots_inv_def)
  show ?thesis using st
  proof (cases rule: client_step_cases)
    case connected
    have "udp_of (cn_next_session cn) (cn_tasks cn) = 0"
      using old(2) by (fastforce simp: udp_of_def filter_empty_conv)
    moreover have "session_of d \<noteq> Some (cn_next_session cn)" if "d \<in> set (cn_clients cn)" for d
      using inv that by (auto simp: slots_inv_def session_ok_def session_of_Some)
    ultimately show ?thesis using connected old
      by (intro upd) (auto simp: session_ok_def session_of_def less_Suc_eq)
  next
    case (failed e random h)
    with after_attempt_over(1) have "session_of c' = None" by (blast intro: attempt_over_no_session)
    then show ?thesis using failed old by (intro upd session_ok_free) auto
  next
    case (serving sev s t s' permits tasks)
    note acc = serve_step_account [OF inv c serving(1,2)]
    have "ss_id s' = ss_id s" "session_of c' = Some (ss_id s)" "session_of ?c = Some (ss_id s)"
      using serving acc(1) by (auto simp: session_of_def)
    then show ?thesis using acc(1) [OF refl] acc(2-) serving(3,4)
      by (intro upd) (simp_all add: session_ok_def)
  next
    case (ended sev s t st permits tasks reason e random h)
    note acc = serve_step_account [OF inv c ended(1,2)]
    have "session_of c' = None" using ended(4) after_session_over(1) attempt_over_no_session by blast
    moreover have "session_of ?c = Some (ss_id s)" using ended(1) by (simp add: session_of_def)
    ultimately show ?thesis using acc(2-) ended(5) by (intro upd session_ok_free) simp_all
  qed (use old in \<open>intro upd session_ok_free; simp add: session_of_def\<close>)+
qed

lemma finish_task_cases:
  assumes "finish_task P i outcome cn = Some (cn', ef)"
  obtains (stream) as sid bs received where "cn_tasks cn = as @ StreamTask sid # bs"
      "cn' = cn\<lparr>cn_tasks := as @ bs, cn_permits := cn_permits cn + 1\<rparr>"
      "ef = [StreamDone sid (serve_stream (cp_json P) (cp_rules P) received)]"
  | (udp) as sid r h a p bs reply where "cn_tasks cn = as @ UdpTask sid r h a p # bs"
      "cn' = cn\<lparr>cn_tasks := as @ bs, cn_clients := map (release_udp sid) (cn_clients cn)\<rparr>"
      "ef = (case reply of None \<Rightarrow> []
             | Some x \<Rightarrow> [SendDatagram sid (datagram_encode \<lparr>dh_request_id = r, dh_hostname = h\<rparr> x)])"
proof -
  from assms have i: "i < length (cn_tasks cn)" by (auto simp: finish_task_def split: if_splits)
  obtain as bs where ab: "cn_tasks cn = as @ cn_tasks cn ! i # bs"
    "take i (cn_tasks cn) @ drop (i + 1) (cn_tasks cn) = as @ bs" by (rule remove_nth_split [OF i])
  show thesis
  proof (cases "cn_tasks cn ! i")
    case (StreamTask sid)
    then show thesis using assms i ab stream [of as sid bs]
      by (auto simp: finish_task_def Let_def split: task_outcome.splits)
  next
    case (UdpTask sid r h a p)
    then show thesis using assms i ab udp [of as sid r h a p bs]
      by (auto simp: finish_task_def Let_def split: task_outcome.splits)
  qed
qed

lemma session_of_release [simp]: "session_of (release_udp sid c) = session_of c"
  by (auto simp: release_udp_def session_of_def split: phase.splits)

lemma slots_inv_finish:
  assumes inv: "slots_inv P cn" and st: "finish_task P i outcome cn = Some (cn', ef)"
  shows "slots_inv P cn'"
  using st
proof (cases rule: finish_task_cases)
  case (stream as sid bs received)
  then show ?thesis using inv by (auto simp: slots_inv_def session_ok_def streams_Cons udp_of_Cons)
next
  case (udp as sid r h a p bs reply)
  have "session_ok cn' (release_udp sid c)" if "session_ok cn c" for c
    using that udp by (auto simp: session_ok_def release_udp_def udp_of_Cons split: phase.splits if_splits)
  moreover have "udp_of s (as @ bs) \<le> udp_of s (cn_tasks cn)" for s using udp(1) by (simp add: udp_of_Cons)
  then have "udp_of s (as @ bs) \<le> MAX_PENDING_UDP_FORWARDS" for s
    using inv unfolding slots_inv_def by (meson le_trans)
  moreover have "unshared (map (release_udp sid) cs) = unshared cs" for cs by (simp add: unshared_def)
  ultimately show ?thesis using inv udp(1,2) by (auto simp: slots_inv_def streams_Cons)
qed

lemma slots_inv_step:
  assumes "slots_inv P cn" "connector_step P ev cn = Some (cn', ef)"
  shows "slots_inv P cn'"
proof (cases ev)
  case (ClientEvent i unix now e)
  then show ?thesis using assms slots_inv_client by (auto split: if_splits option.splits)
next
  case (TaskDone i outcome)
  then show ?thesis using assms slots_inv_finish by auto
next
  case SignalReceived
  then show ?thesis using assms by (auto simp: slots_inv_def session_ok_def)
qed

lemma start_clients_no_session:
  "c \<in> set (fst (start_clients P unix ep servers h)) \<Longrightarrow> session_of c = None \<and> cl_backoff c = INITIAL_BACKOFF"
  by (induction servers arbitrary: h)
     (auto simp: start_client_def session_of_def Let_def split: sum.splits option.splits prod.splits,
      (metis fst_conv)+)

lemma slots_inv_start: "slots_inv P (start_connector P unix ep servers)"
proof -
  obtain cs h where eq: "start_clients P unix ep servers (new_health unix servers) = (cs, h)" by fastforce
  then have "c \<in> set cs \<Longrightarrow> session_of c = None" for c using start_clients_no_session by (metis fst_conv)
  then show ?thesis using eq
    by (auto simp: slots_inv_def start_connector_def unshared_def intro: session_ok_free)
qed

lemma slots_inv_run:
  assumes "connector_run P (start_connector P unix ep servers) cn out" shows "slots_inv P cn"
  using assms by induction (use slots_inv_start slots_inv_step in blast)+

lemma refused_when_full:
  assumes "slots_inv P cn" "connector_step P ev cn = Some (cn', ef)" "StreamRefused sid \<in> set ef"
  shows "streams (cn_tasks cn) = cp_max_streams P"
proof -
  have "cn_permits cn = 0"
    using assms(2,3)
  proof (cases ev)
    case (ClientEvent i unix now e)
    then obtain c' cn1 where "client_step P unix now e (cn_clients cn ! i) cn = Some (c', cn1, ef)"
      using assms(2) by (auto split: if_splits option.splits)
    then show ?thesis using assms(3)
      by (cases rule: client_step_cases) (auto elim!: serve_step_cases)
  next
    case (TaskDone i outcome)
    then show ?thesis using assms(2,3) by (auto elim!: finish_task_cases split: option.splits)
  qed auto
  then show ?thesis using assms(1) by (simp add: slots_inv_def)
qed

text \<open>The resources of a Connector are bounded over all its Edge connections, whatever the Edges do:
  in every run the streams being served never exceed \<open>max_concurrent_streams\<close>, and the slots
  left are exactly the others, so none is ever lost; each connection has at most 1024 datagrams
  waiting for a reply, also after it ended; and a stream is refused only while every slot is taken.\<close>

theorem connector_slots_bounded:
  assumes "connector_run P (start_connector P unix ep servers) cn out"
  shows "streams (cn_tasks cn) \<le> cp_max_streams P
     \<and> cn_permits cn = cp_max_streams P - streams (cn_tasks cn)
     \<and> udp_of sid (cn_tasks cn) \<le> MAX_PENDING_UDP_FORWARDS
     \<and> (connector_step P ev cn = Some (cn', ef) \<and> StreamRefused sid' \<in> set ef
        \<longrightarrow> streams (cn_tasks cn) = cp_max_streams P)"
  using slots_inv_run [OF assms] refused_when_full [OF slots_inv_run [OF assms]]
  by (auto simp: slots_inv_def)

text \<open>Runs along a list of events.\<close>

fun connector_exec ::
  "client_params \<Rightarrow> connector_event list \<Rightarrow> connector \<Rightarrow> (connector \<times> client_effect list) option" where
  "connector_exec P [] cn = Some (cn, [])"
| "connector_exec P (ev # evs) cn =
     (case connector_step P ev cn of
        None \<Rightarrow> None
      | Some (cn1, ef) \<Rightarrow> map_option (\<lambda>(cn2, out). (cn2, ef @ out)) (connector_exec P evs cn1))"

lemma connector_exec_run:
  assumes "connector_exec P evs cn = Some (cn', out)" "connector_run P cn0 cn out0"
  shows "connector_run P cn0 cn' (out0 @ out)"
  using assms
proof (induction evs arbitrary: cn out out0)
  case (Cons ev evs)
  from Cons.prems(1) obtain cn1 ef out1 where st: "connector_step P ev cn = Some (cn1, ef)"
    and rest: "connector_exec P evs cn1 = Some (cn', out1)" and "out = ef @ out1"
    by (auto split: option.splits)
  with Cons.IH [OF rest connector_run.step [OF Cons.prems(2) st]] show ?case by simp
qed simp

definition sample_params :: client_params where
  "sample_params =
     \<lparr>cp_fl = (\<lambda>x. x), cp_json = sample_json,
      cp_rules = [\<lparr>ir_hostname = None, ir_protocol = None, ir_target = ''127.0.0.1:80''\<rparr>],
      cp_drain_timeout = 10 * nanos_per_sec, cp_server_name = None, cp_max_streams = 1,
      cp_show_error = (\<lambda>_. []), cp_show_name_error = (\<lambda>_. []), cp_lost_text = []\<rparr>"

definition sample_start :: connector where
  "sample_start = start_connector sample_params 0 None [''edge.example:4433'']"

definition sample_serving :: "connector_event list" where
  "sample_serving =
     [ClientEvent 0 0 0 EnterLoop, ClientEvent 0 0 0 (ConnectDone (Inr ()) 0),
      ClientEvent 0 0 0 (Serve (AcceptBi None) None 0)]"

lemma sample_serving_run:
  "\<exists>cn. connector_run sample_params sample_start cn [] \<and> streams (cn_tasks cn) = 1
        \<and> map cl_phase (cn_clients cn) = [Serving \<lparr>ss_id = 0, ss_drain_deadline = None, ss_udp_available = 1024\<rparr> 0]
        \<and> cn_permits cn = 0 \<and> \<not> cn_stop cn \<and> cn_tasks cn = [StreamTask 0]
        \<and> map cl_server (cn_clients cn) = [''edge.example:4433'']"
proof -
  have "case connector_exec sample_params sample_serving sample_start of
          None \<Rightarrow> False
        | Some (cn, out) \<Rightarrow> out = [] \<and> streams (cn_tasks cn) = 1
            \<and> map cl_phase (cn_clients cn) = [Serving \<lparr>ss_id = 0, ss_drain_deadline = None, ss_udp_available = 1024\<rparr> 0]
            \<and> cn_permits cn = 0 \<and> \<not> cn_stop cn \<and> cn_tasks cn = [StreamTask 0]
            \<and> map cl_server (cn_clients cn) = [''edge.example:4433'']"
    by code_simp
  then obtain cn where "connector_exec sample_params sample_serving sample_start = Some (cn, [])"
    and facts: "streams (cn_tasks cn) = 1"
      "map cl_phase (cn_clients cn) = [Serving \<lparr>ss_id = 0, ss_drain_deadline = None, ss_udp_available = 1024\<rparr> 0]"
      "cn_permits cn = 0" "\<not> cn_stop cn" "cn_tasks cn = [StreamTask 0]"
      "map cl_server (cn_clients cn) = [''edge.example:4433'']"
    by (auto split: option.splits)
  from connector_exec_run [OF this(1) connector_run.start] facts show ?thesis by auto
qed

theorem connector_slots_bounded_witness:
  "\<exists>cn. connector_run sample_params sample_start cn [] \<and> cn_permits cn = 1 - streams (cn_tasks cn)
        \<and> streams (cn_tasks cn) = 1"
proof -
  obtain cn where run: "connector_run sample_params sample_start cn []" "streams (cn_tasks cn) = 1"
    using sample_serving_run by blast
  from connector_slots_bounded [OF run(1) [unfolded sample_start_def]] run show ?thesis
    by (auto simp: sample_params_def)
qed

subsection \<open>Readiness\<close>

definition health_inv :: "connector \<Rightarrow> bool" where
  "health_inv cn \<longleftrightarrow>
     wf_table (hl_edges (cn_health cn)) \<and> hl_draining (cn_health cn) = cn_stop cn
     \<and> distinct (map cl_server (cn_clients cn))
     \<and> (\<forall>s. status_of (cn_health cn) s = Some Connected
           \<longleftrightarrow> (\<exists>c \<in> set (cn_clients cn). cl_server c = s \<and> session_of c \<noteq> None))"

lemma serving_update:
  assumes "distinct (map cl_server cs)" "i < length cs" "cl_server c' = cl_server (cs ! i)"
  shows "(\<exists>c \<in> set (cs[i := c']). cl_server c = s \<and> session_of c \<noteq> None)
    \<longleftrightarrow> (if s = cl_server (cs ! i) then session_of c' \<noteq> None
         else \<exists>c \<in> set cs. cl_server c = s \<and> session_of c \<noteq> None)"
    and "map cl_server (cs[i := c']) = map cl_server cs"
proof -
  have other: "cl_server (cs ! j) \<noteq> cl_server (cs ! i)" if "j < length cs" "j \<noteq> i" for j
    using assms(1,2) that by (metis length_map nth_eq_iff_index_eq nth_map)
  have conv: "(\<exists>c \<in> set xs. Q c) \<longleftrightarrow> (\<exists>j < length xs. Q (xs ! j))" for xs :: "client list" and Q
    by (metis in_set_conv_nth)
  show "(\<exists>c \<in> set (cs[i := c']). cl_server c = s \<and> session_of c \<noteq> None)
    \<longleftrightarrow> (if s = cl_server (cs ! i) then session_of c' \<noteq> None
         else \<exists>c \<in> set cs. cl_server c = s \<and> session_of c \<noteq> None)"
    unfolding conv using assms other by (auto simp: nth_list_update)
  show "map cl_server (cs[i := c']) = map cl_server cs"
    using assms by (simp add: map_update list_update_same_conv)
qed

text \<open>An event of a client leaves its health entry in agreement with its phase.\<close>

lemma client_step_health:
  assumes "client_step P unix now ev c cn = Some (c', cn', ef)"
    and "status_of (cn_health cn) (cl_server c) = Some Connected \<longleftrightarrow> session_of c \<noteq> None"
    and "wf_table (hl_edges (cn_health cn))"
  shows "(status_of (cn_health cn') (cl_server c) = Some Connected \<longleftrightarrow> session_of c' \<noteq> None)
     \<and> (\<forall>s. s \<noteq> cl_server c \<longrightarrow> status_of (cn_health cn') s = status_of (cn_health cn) s)
     \<and> wf_table (hl_edges (cn_health cn'))
     \<and> hl_draining (cn_health cn') = hl_draining (cn_health cn)"
proof -
  note defs = set_connecting_def set_connected_def set_disconnected_def session_of_def
  have drain: "hl_draining (update_edge unix x st err h) = hl_draining h" for x st err h by (simp add: update_edge_def)
  from assms(1) show ?thesis
  proof (cases rule: client_step_cases)
    case (failed e random h)
    with after_attempt_over [OF failed(2)] obtain e' where
      "session_of c' = None" "h = set_disconnected unix (cl_server c) e' (cn_health cn)"
      using attempt_over_no_session by blast
    then show ?thesis using failed assms(3) by (simp add: defs drain)
  next
    case (ended sev s1 t st permits tasks reason e random h)
    with after_session_over [OF ended(4)] obtain e' where
      "session_of c' = None" "h = set_disconnected unix (cl_server c) e' (cn_health cn)"
      using attempt_over_no_session by blast
    then show ?thesis using ended assms(3) by (simp add: defs drain)
  qed (use assms(2,3) in \<open>auto simp: defs drain\<close>)
qed

lemma health_inv_client:
  assumes inv: "health_inv cn" and i: "i < length (cn_clients cn)"
    and st: "client_step P unix now ev (cn_clients cn ! i) cn = Some (c', cn', ef)"
  shows "health_inv (cn'\<lparr>cn_clients := (cn_clients cn)[i := c']\<rparr>)"
proof -
  let ?c = "cn_clients cn ! i"
  have d: "distinct (map cl_server (cn_clients cn))" using inv by (simp add: health_inv_def)
  have "cn_clients cn ! i \<in> set (cn_clients cn)" using i by simp
  moreover have "(\<exists>c \<in> set (cn_clients cn). cl_server c = cl_server ?c \<and> session_of c \<noteq> None) \<longleftrightarrow> session_of ?c \<noteq> None"
    using serving_update(1) [OF d i refl, of "cl_server ?c"] by simp
  ultimately have "status_of (cn_health cn) (cl_server ?c) = Some Connected \<longleftrightarrow> session_of ?c \<noteq> None"
    using inv by (simp add: health_inv_def)
  from client_step_health [OF st this] inv have
    h: "status_of (cn_health cn') (cl_server ?c) = Some Connected \<longleftrightarrow> session_of c' \<noteq> None"
      "\<And>s. s \<noteq> cl_server ?c \<Longrightarrow> status_of (cn_health cn') s = status_of (cn_health cn) s"
      "wf_table (hl_edges (cn_health cn'))" "hl_draining (cn_health cn') = hl_draining (cn_health cn)"
    by (simp_all add: health_inv_def)
  have srv: "cl_server c' = cl_server ?c" "cn_stop cn' = cn_stop cn" using client_step_slots [OF st] by simp_all
  have "status_of (cn_health cn') s = Some Connected
      \<longleftrightarrow> (\<exists>c \<in> set ((cn_clients cn)[i := c']). cl_server c = s \<and> session_of c \<noteq> None)" for s
    using serving_update(1) [OF d i srv(1), of s] h(1) h(2) [of s] inv by (simp add: health_inv_def)
  then show ?thesis
    using h(3,4) srv(2) inv serving_update(2) [OF d i srv(1)] by (simp add: health_inv_def)
qed

lemma server_release [simp]: "cl_server (release_udp sid c) = cl_server c"
  by (auto simp: release_udp_def split: phase.splits)

lemma health_inv_step:
  assumes inv: "health_inv cn" and st: "connector_step P ev cn = Some (cn', ef)"
  shows "health_inv cn'"
proof (cases ev)
  case (ClientEvent i unix now e)
  then show ?thesis using assms health_inv_client by (auto split: if_splits option.splits)
next
  case (TaskDone i outcome)
  with st have "finish_task P i outcome cn = Some (cn', ef)" by simp
  then show ?thesis
  proof (cases rule: finish_task_cases)
    case (udp as sid r h a p bs reply)
    then show ?thesis using inv by (simp add: health_inv_def comp_def)
  qed (use inv in \<open>simp add: health_inv_def\<close>)
next
  case SignalReceived
  then have "cn' = cn\<lparr>cn_health := set_draining (cn_health cn), cn_stop := True\<rparr>" using st by simp
  moreover have "hl_edges (set_draining (cn_health cn)) = hl_edges (cn_health cn)"
    "hl_draining (set_draining (cn_health cn))" by (simp_all add: set_draining_def)
  ultimately show ?thesis using inv by (simp add: health_inv_def)
qed

definition health_idle :: "health \<Rightarrow> bool" where
  "health_idle h \<longleftrightarrow> wf_table (hl_edges h) \<and> \<not> hl_draining h \<and> (\<forall>s. status_of h s \<noteq> Some Connected)"

lemma health_idle_update: "health_idle h \<Longrightarrow> st \<noteq> Connected \<Longrightarrow> health_idle (update_edge now s st err h)"
  by (simp add: health_idle_def) (simp add: update_edge_def)

lemma start_client_health:
  "start_client P unix ep server h = (c, h') \<Longrightarrow> health_idle h \<Longrightarrow> cl_server c = server \<and> health_idle h'"
  by (auto simp: start_client_def Let_def set_disconnected_def health_idle_update
      split: sum.splits option.splits)

lemma start_clients_health:
  "start_clients P unix ep servers h = (cs, h') \<Longrightarrow> health_idle h \<Longrightarrow> map cl_server cs = servers \<and> health_idle h'"
proof (induction servers arbitrary: h cs)
  case (Cons server servers)
  obtain c h1 cs1 where "start_client P unix ep server h = (c, h1)"
    "start_clients P unix ep servers h1 = (cs1, h')" "cs = c # cs1"
    using Cons.prems(1) by (auto split: prod.splits)
  then show ?case using Cons.IH Cons.prems(2) start_client_health by fastforce
qed simp

lemma health_idle_new: "health_idle (new_health unix servers)"
proof -
  have one: "health_idle (h\<lparr>hl_edges := t_insert s (starting_edge unix) (hl_edges h)\<rparr>)" if "health_idle h" for s h
    using health_idle_update [OF that, of Starting unix s None] by (simp add: update_edge_def starting_edge_def)
  have "health_idle h \<Longrightarrow> health_idle (h\<lparr>hl_edges := fold (\<lambda>s. t_insert s (starting_edge unix)) ss (hl_edges h)\<rparr>)"
    for ss h
  proof (induction ss arbitrary: h)
    case (Cons s ss)
    from Cons.IH [OF one [OF Cons.prems, of s]] show ?case by simp
  qed simp
  from this [of "\<lparr>hl_draining = False, hl_edges = []\<rparr>" servers] show ?thesis
    by (simp add: health_idle_def new_health_def status_of_def wf_table_def)
qed

lemma health_inv_start:
  assumes "distinct servers" shows "health_inv (start_connector P unix ep servers)"
proof -
  obtain cs h where eq: "start_clients P unix ep servers (new_health unix servers) = (cs, h)" by fastforce
  have "c \<in> set cs \<Longrightarrow> session_of c = None" for c using eq start_clients_no_session by (metis fst_conv)
  then show ?thesis
    using start_clients_health [OF eq health_idle_new] assms eq
    by (auto simp: health_inv_def health_idle_def start_connector_def)
qed

lemma health_inv_run:
  assumes "distinct servers" "connector_run P (start_connector P unix ep servers) cn out" shows "health_inv cn"
  using assms(2) by induction (use health_inv_start [OF assms(1)] health_inv_step in blast)+

text \<open>What the Connector reports about itself is true at every moment of every run, for distinct server
  addresses: the Edges it lists as connected, also in its heartbeat, are exactly those with an
  authenticated connection being served, and the readiness endpoint answers 200 exactly when
  there is one and no shutdown has begun.\<close>

theorem connector_readiness_exact:
  assumes "distinct servers" "connector_run P (start_connector P unix ep servers) cn out"
  shows "set (connected_edges (cn_health cn)) = cl_server ` {c \<in> set (cn_clients cn). session_of c \<noteq> None}
     \<and> (is_ready (cn_health cn) \<longleftrightarrow> \<not> cn_stop cn \<and> (\<exists>c \<in> set (cn_clients cn). session_of c \<noteq> None))
     \<and> handle_health ''/readyz'' (cn_health cn)
         = HealthJson (if \<not> cn_stop cn \<and> (\<exists>c \<in> set (cn_clients cn). session_of c \<noteq> None) then 200 else 503)
                      (health_status (cn_health cn))"
  using health_inv_run [OF assms]
  by (auto simp: health_inv_def connected_edges_iff is_ready_iff handle_health_def)

theorem connector_readiness_exact_witness:
  "\<exists>cn. connector_run sample_params sample_start cn [] \<and> is_ready (cn_health cn)"
proof -
  obtain cn where run: "connector_run sample_params sample_start cn []" "\<not> cn_stop cn"
    "map cl_phase (cn_clients cn) = [Serving \<lparr>ss_id = 0, ss_drain_deadline = None, ss_udp_available = 1024\<rparr> 0]"
    using sample_serving_run by (elim exE conjE)
  then have "\<exists>c \<in> set (cn_clients cn). session_of c \<noteq> None" by (auto simp: session_of_def)
  with run connector_readiness_exact [OF _ run(1) [unfolded sample_start_def]] show ?thesis by auto
qed

subsection \<open>Shutting down\<close>

text \<open>A session drains only after the signal and its notice.\<close>

definition drain_inv :: "connector \<Rightarrow> client_effect list \<Rightarrow> bool" where
  "drain_inv cn out \<longleftrightarrow>
     (\<forall>c \<in> set (cn_clients cn). \<forall>s t. cl_phase c = Serving s t \<longrightarrow> ss_drain_deadline s \<noteq> None \<longrightarrow>
        cn_stop cn \<and> GoingAwayNotice (ss_id s) \<in> set out)"

lemma drain_inv_client:
  assumes inv: "drain_inv cn out" and i: "i < length (cn_clients cn)"
    and st: "client_step P unix now ev (cn_clients cn ! i) cn = Some (c', cn', ef)"
  shows "drain_inv (cn'\<lparr>cn_clients := (cn_clients cn)[i := c']\<rparr>) (out @ ef)"
proof -
  have c: "cn_clients cn ! i \<in> set (cn_clients cn)" using i by simp
  have new: "cn_stop cn \<and> GoingAwayNotice (ss_id s) \<in> set (out @ ef)"
    if ph: "cl_phase c' = Serving s t" and d: "ss_drain_deadline s \<noteq> None" for s t
    using st
  proof (cases rule: client_step_cases)
    case (failed e random h)
    then show ?thesis using after_attempt_over(1) [OF failed(2)] ph by (auto simp: attempt_over_def)
  next
    case (serving sev s0 t0 s' permits tasks)
    with ph have s': "s' = s" by simp
    have old: "ss_drain_deadline s0 \<noteq> None \<Longrightarrow> cn_stop cn \<and> GoingAwayNotice (ss_id s0) \<in> set out"
      using inv c serving(1) by (auto simp: drain_inv_def)
    from serving(2) show ?thesis using d old unfolding s' by (cases rule: serve_step_cases) auto
  next
    case (ended sev s1 t1 st permits tasks reason e random h)
    then show ?thesis using after_session_over(1) [OF ended(4)] ph by (auto simp: attempt_over_def)
  qed (use ph d in auto)
  have "d = c' \<or> d \<in> set (cn_clients cn)" if "d \<in> set ((cn_clients cn)[i := c'])" for d
    using that set_update_subset_insert by fastforce
  then show ?thesis using inv new client_step_slots(2) [OF st] unfolding drain_inv_def
    by (metis UnCI connector.select_convs(5,6) connector.surjective connector.update_convs(6) set_append)
qed

lemma drain_inv_step:
  assumes inv: "drain_inv cn out" and st: "connector_step P ev cn = Some (cn', ef)"
  shows "drain_inv cn' (out @ ef)"
proof (cases ev)
  case (ClientEvent i unix now e)
  then show ?thesis using assms drain_inv_client by (auto split: if_splits option.splits)
next
  case (TaskDone i outcome)
  with st have "finish_task P i outcome cn = Some (cn', ef)" by simp
  then show ?thesis
  proof (cases rule: finish_task_cases)
    case (udp as sid r h a p bs reply)
    then show ?thesis using inv
      by (auto simp: drain_inv_def release_udp_def split: phase.splits if_splits; metis)
  qed (use inv in \<open>auto simp: drain_inv_def\<close>)
qed (use assms in \<open>auto simp: drain_inv_def\<close>)

lemma drain_inv_run:
  assumes "connector_run P (start_connector P unix ep servers) cn out" shows "drain_inv cn out"
  using assms
proof induction
  case start
  obtain cs h where eq: "start_clients P unix ep servers (new_health unix servers) = (cs, h)" by fastforce
  then have "c \<in> set cs \<Longrightarrow> session_of c = None" for c using start_clients_no_session by (metis fst_conv)
  then show ?case using eq by (fastforce simp: drain_inv_def start_connector_def session_of_def)
qed (use drain_inv_step in blast)

text \<open>C30. A shutdown is graceful: whenever the Connector itself closes a connection, the shutdown signal
  had been received, the going-away notice of that connection had been sent or given up, and
  either no stream or datagram of it is in flight any more, or its drain deadline has passed.\<close>

theorem connector_drain_graceful:
  assumes "connector_run P (start_connector P unix ep servers) cn out"
    and "connector_step P ev cn = Some (cn', ef)" and "CloseGoingAway sid \<in> set ef"
  shows "cn_stop cn \<and> GoingAwayNotice sid \<in> set out
     \<and> (in_flight sid (cn_tasks cn) = 0
        \<or> (\<exists>i unix now clock r x s t d. ev = ClientEvent i unix now (Serve (DeadlineBranch clock) r x)
             \<and> cl_phase (cn_clients cn ! i) = Serving s t \<and> ss_id s = sid
             \<and> ss_drain_deadline s = Some d \<and> d \<le> clock))"
proof -
  note inv = drain_inv_run [OF assms(1)]
  have "\<exists>i unix now e. ev = ClientEvent i unix now e"
    using assms(2,3) by (cases ev) (auto elim!: finish_task_cases split: option.splits)
  then obtain i unix now e c' cn1 where ev: "ev = ClientEvent i unix now e"
    and i: "i < length (cn_clients cn)"
    and st: "client_step P unix now e (cn_clients cn ! i) cn = Some (c', cn1, ef)"
    using assms(2) by (auto split: if_splits option.splits)
  then obtain sev r x s t where e: "e = Serve sev r x" and ph: "cl_phase (cn_clients cn ! i) = Serving s t"
    using assms(3) by (cases e) (auto split: if_splits sum.splits prod.splits phase.splits)
  then obtain sst permits tasks where
    sv: "serve_step (cp_rules P) (cp_drain_timeout P) (cn_stop cn) sev s (cn_permits cn) (cn_tasks cn)
           = Some (sst, permits, tasks, ef)"
    using st by (auto split: option.splits serve_status.splits prod.splits)
  from sv assms(3) have s: "ss_id s = sid" "ss_drain_deadline s \<noteq> None"
    and why: "in_flight sid (cn_tasks cn) = 0 \<or> (\<exists>d clock. ss_drain_deadline s = Some d \<and> sev = DeadlineBranch clock \<and> d \<le> clock)"
    by (cases rule: serve_step_cases; auto)+
  have "cn_stop cn \<and> GoingAwayNotice sid \<in> set out"
    using inv i ph s unfolding drain_inv_def by (metis nth_mem)
  with why ev e ph s show ?thesis by blast
qed

theorem connector_drain_graceful_witness:
  "\<exists>cn out cn'. connector_run sample_params sample_start cn out
     \<and> connector_step sample_params (ClientEvent 0 0 0 (Serve DrainedBranch None 0)) cn = Some (cn', [CloseGoingAway 0])
     \<and> GoingAwayNotice 0 \<in> set out"
proof -
  let ?evs = "sample_serving @ [SignalReceived, ClientEvent 0 0 0 (Serve (ShutdownBranch 5 1) None 0),
                TaskDone 0 (StreamRead None)]"
  let ?close = "ClientEvent 0 0 0 (Serve DrainedBranch None 0)"
  have "case connector_exec sample_params ?evs sample_start of
          None \<Rightarrow> False
        | Some (cn, out) \<Rightarrow> map cl_phase (cn_clients cn)
            = [Serving \<lparr>ss_id = 0, ss_drain_deadline = Some 10000000006, ss_udp_available = 1024\<rparr> 0]
            \<and> cn_tasks cn = []"
    by code_simp
  then obtain cn out c where ex: "connector_exec sample_params ?evs sample_start = Some (cn, out)"
    and cn: "cn_clients cn = [c]" "cl_phase c = Serving \<lparr>ss_id = 0, ss_drain_deadline = Some 10000000006, ss_udp_available = 1024\<rparr> 0"
      "cn_tasks cn = []"
    by (auto split: option.splits)
  have run: "connector_run sample_params sample_start cn out"
    using connector_exec_run [OF ex connector_run.start] by simp
  obtain c' h where "after_session (cp_fl sample_params) 0 0 0 None ''connection closed'' 0 c (cn_health cn) = (c', h)"
    by fastforce
  then obtain cn' where st: "connector_step sample_params ?close cn = Some (cn', [CloseGoingAway 0])"
    using cn by (simp add: in_flight_def)
  have "GoingAwayNotice 0 \<in> set out"
    using connector_drain_graceful [OF run [unfolded sample_start_def] st, of 0] by simp
  with run st show ?thesis by blast
qed

end
