(* ===== verification/Connector_Reconnect.thy ===== *)
theory Connector_Reconnect
  imports Connector_Client
begin

text \<open>
  Properties of the Connector's loops (\<open>sievetube-connector/src/quic_client.rs\<close>): the delays
  between attempts, that a shutdown ends every connection task in the time \<open>main\<close> waits for it,
  and what the certificate check accepts. The model is that of \<open>Connector_Client\<close>; what \<open>main.rs\<close>
  reads from the token for the advertisement is defined here.
\<close>

subsection \<open>Delays\<close>

lemma round_half_even_at_most: "x \<le> of_int n \<Longrightarrow> round_half_even x \<le> n"
proof -
  assume x: "x \<le> of_int n"
  show ?thesis
  proof (cases "\<lfloor>x\<rfloor> = n")
    case True
    then have "x = of_int n" using x by (metis antisym of_int_floor_le)
    then show ?thesis by (simp add: round_half_even_def)
  next
    case False
    then have "\<lfloor>x\<rfloor> + 1 \<le> n" using x by (metis floor_mono floor_of_int le_neq_trans zless_imp_add1_zle)
    then show ?thesis by (auto simp: round_half_even_def Let_def)
  qed
qed

lemma from_secs_f64_le:
  assumes "0 \<le> y" "y \<le> secs d" "d < 2 ^ 64"
  shows "\<exists>e. from_secs_f64 y = Some e \<and> e \<le> d"
proof -
  have "secs d < 2 ^ 64"
  proof -
    have "secs d \<le> real d" by (simp add: secs_def field_simps)
    also have "\<dots> < real (2 ^ 64)" using assms(3) by (simp only: of_nat_less_iff)
    also have "\<dots> = 2 ^ 64" by simp
    finally show ?thesis .
  qed
  then have "from_secs_f64 y = Some (nat (round_half_even (y * real nanos_per_sec)))"
    using assms(1,2) by (simp add: from_secs_f64_def)
  moreover have "y * real nanos_per_sec \<le> of_int (int d)" using assms(2) by (simp add: secs_def field_simps)
  then have "nat (round_half_even (y * real nanos_per_sec)) \<le> d" using round_half_even_at_most by fastforce
  ultimately show ?thesis by blast
qed

text \<open>Rounding as good as single precision is enough for the jitter to stay below the backoff.\<close>

definition fine_rounding :: "(real \<Rightarrow> real) \<Rightarrow> bool" where
  "fine_rounding fl \<longleftrightarrow> (\<exists>u tiny. rounding fl u tiny \<and> u \<le> 1 / 10 ^ 4 \<and> tiny \<le> 1 / 10 ^ 6)"

lemma jittered_bounds:
  assumes "fine_rounding fl" "INITIAL_BACKOFF \<le> b" "b \<le> MAX_BACKOFF"
  shows "\<exists>d. jittered fl random b = Some d \<and> b div 2 \<le> d \<and> d \<le> b"
proof -
  obtain u tiny where r: "rounding fl u tiny" and u: "u \<le> 1 / 10 ^ 4" and tiny: "tiny \<le> 1 / 10 ^ 6"
    using assms(1) by (auto simp: fine_rounding_def)
  note rd = roundingD [OF r]
  define h where "h = b div 2"
  define n where "n = unat (random mod 1024)"
  define f :: real where "f = real n / 1024"
  define s where "s = as_secs_f64 fl h"
  have "n < 1024" by (simp add: n_def unat_mod)
  then have f: "0 \<le> f" "f \<le> 1023 / 1024" by (auto simp: f_def)
  have h: "1 / 2 \<le> secs h" using assms(2) by (simp add: h_def secs_def INITIAL_BACKOFF_def)
  have "(1 + u) ^ 2 \<le> (1 + 1 / 10 ^ 4) ^ 2" using u rd(1) by (intro power_mono) auto
  then have "secs h * (1 + u) ^ 2 \<le> secs h * (1 + 3 / 10 ^ 4)"
    by (intro mult_left_mono) (auto simp: power2_eq_square)
  moreover have "tiny * (2 + u) \<le> 1 / 10 ^ 6 * 3" using tiny u rd(1,3) by (intro mult_mono) auto
  ultimately have s: "0 \<le> s" "s \<le> secs h * (1 + 3 / 10 ^ 4) + 3 / 10 ^ 6"
    using as_secs_f64_bounds [OF r, of h] by (auto simp: s_def)
  have fs: "0 \<le> f * s" "f * s \<le> 1023 / 1024 * s"
    using f s(1) mult_right_mono [OF f(2) s(1)] by simp_all
  have "fl (f * s) \<le> f * s * (1 + u) + tiny" using rd(6) fs(1) by simp
  also have "f * s * (1 + u) \<le> (1023 / 1024 * s) * (1 + 1 / 10 ^ 4)"
    using fs u rd(1) s(1) by (intro mult_mono [OF fs(2)]) auto
  finally have "fl (f * s) \<le> (1023 / 1024 * s) * (1 + 1 / 10 ^ 4) + 1 / 10 ^ 6" using tiny by linarith
  also have "\<dots> \<le> secs h" using s(2) h by simp
  finally have "fl (f * s) \<le> secs h" .
  moreover have "0 \<le> fl (f * s)" using rd(5) fs(1) by simp
  moreover have "h < 2 ^ 64" using assms(3) by (simp add: h_def MAX_BACKOFF_def)
  ultimately obtain e where "from_secs_f64 (fl (f * s)) = Some e" "e \<le> h" using from_secs_f64_le by blast
  then show ?thesis unfolding jittered_def Let_def h_def [symmetric] n_def [symmetric] f_def [symmetric] s_def [symmetric]
    by (auto simp: h_def)
qed

text \<open>The values the backoff takes.\<close>

definition backoff_ok :: "nat \<Rightarrow> bool" where
  "backoff_ok b \<longleftrightarrow> b = MAX_BACKOFF \<or> (\<exists>k < 5. b = 2 ^ k * INITIAL_BACKOFF)"

lemma backoff_range: "backoff_ok b \<Longrightarrow> INITIAL_BACKOFF \<le> b \<and> b \<le> MAX_BACKOFF"
proof -
  assume "backoff_ok b"
  then consider "b = MAX_BACKOFF" | k where "k < 5" "b = 2 ^ k * INITIAL_BACKOFF" by (auto simp: backoff_ok_def)
  then show ?thesis
  proof cases
    case (2 k)
    then have "(2 :: nat) ^ k \<le> 2 ^ 4" by (intro power_increasing) auto
    with 2 show ?thesis by (simp add: INITIAL_BACKOFF_def MAX_BACKOFF_def)
  qed (simp add: INITIAL_BACKOFF_def MAX_BACKOFF_def)
qed

lemma backoff_double: "backoff_ok b \<Longrightarrow> backoff_ok (min (b * 2) MAX_BACKOFF)"
proof -
  assume "backoff_ok b"
  then consider "b = MAX_BACKOFF" | k where "k < 5" "b = 2 ^ k * INITIAL_BACKOFF" by (auto simp: backoff_ok_def)
  then show ?thesis
  proof cases
    case (2 k)
    show ?thesis
    proof (cases "k = 4")
      case True
      then show ?thesis using 2 by (simp add: backoff_ok_def INITIAL_BACKOFF_def MAX_BACKOFF_def)
    next
      case False
      then have "Suc k < 5" using 2 by simp
      moreover from this have "(2 :: nat) ^ Suc k \<le> 2 ^ 4" by (intro power_increasing) auto
      ultimately show ?thesis unfolding backoff_ok_def using 2
        by (intro disjI2 exI [of _ "Suc k"]) (simp add: INITIAL_BACKOFF_def MAX_BACKOFF_def)
    qed
  qed (simp add: backoff_ok_def MAX_BACKOFF_def)
qed

lemma backoff_after:
  "((\<lambda>b. min (b * 2) MAX_BACKOFF) ^^ k) INITIAL_BACKOFF = min (2 ^ k * INITIAL_BACKOFF) MAX_BACKOFF"
  by (induction k) (auto simp: min_def MAX_BACKOFF_def INITIAL_BACKOFF_def)

lemma client_step_backoff:
  assumes "client_step P unix now ev c cn = Some (c', cn', ef)" "backoff_ok (cl_backoff c)"
  shows "backoff_ok (cl_backoff c')"
proof -
  have init: "backoff_ok INITIAL_BACKOFF" by (auto simp: backoff_ok_def intro: exI [of _ 0])
  from assms(1) show ?thesis
    by (cases rule: client_step_cases)
       (use assms(2) init after_attempt_over(3) after_session_over(3) backoff_double in \<open>force+\<close>)
qed

lemma backoff_run:
  assumes "connector_run P (start_connector P unix ep servers) cn out"
  shows "\<forall>c \<in> set (cn_clients cn). backoff_ok (cl_backoff c)"
  using assms
proof induction
  case start
  obtain cs h where eq: "start_clients P unix ep servers (new_health unix servers) = (cs, h)" by fastforce
  have "backoff_ok INITIAL_BACKOFF" by (auto simp: backoff_ok_def intro: exI [of _ 0])
  then show ?case using eq start_clients_no_session [of _ P unix ep servers "new_health unix servers"]
    by (auto simp: start_connector_def)
next
  case (step cn out ev cn' effects)
  show ?case
  proof (cases ev)
    case (ClientEvent i unix now e)
    then obtain c' cn1 where i: "i < length (cn_clients cn)"
      and st: "client_step P unix now e (cn_clients cn ! i) cn = Some (c', cn1, effects)"
      and cn': "cn_clients cn' = (cn_clients cn)[i := c']"
      using step.hyps(2) by (auto split: if_splits option.splits)
    have "backoff_ok (cl_backoff c')" using client_step_backoff [OF st] step.IH i by simp
    then show ?thesis using step.IH set_update_subset_insert unfolding cn' by fastforce
  next
    case (TaskDone i outcome)
    with step.hyps(2) have "finish_task P i outcome cn = Some (cn', effects)" by simp
    moreover have "cl_backoff (release_udp sid c) = cl_backoff c" for sid c
      by (auto simp: release_udp_def split: phase.splits)
    ultimately show ?thesis using step.IH by (cases rule: finish_task_cases) auto
  qed (use step in auto)
qed

text \<open>Reconnecting neither floods an Edge nor gives up. In every run, a client that ends an attempt or a
  session waits for between half and all of its backoff, or for exactly a minute when another
  Connector replaced it, and never stops because of an error; the backoff is one of 1, 2, 4, 8,
  16 and 30 seconds. It doubles with each wait up to 30 seconds, so after \<open>k\<close> of them it is
  the smaller of \<open>2^k\<close> and 30 seconds, until a session of at least a minute resets it.\<close>

theorem reconnect_delays:
  assumes run: "connector_run P (start_connector P unix ep servers) cn out" and fl: "fine_rounding (cp_fl P)"
    and i: "i < length (cn_clients cn)"
    and st: "client_step P u now ev (cn_clients cn ! i) cn = Some (c', cn', ef)"
    and ended: "cl_phase c' = Returned \<or> (\<exists>w. cl_phase c' = Waiting w)" and stop: "\<not> cn_stop cn"
  shows "(\<exists>w. cl_phase c' = Waiting w
            \<and> (w = now + REPLACED_RETRY_DELAY
               \<or> now + cl_backoff c' div 2 \<le> w \<and> w \<le> now + cl_backoff c'))
     \<and> backoff_ok (cl_backoff c')
     \<and> ((\<lambda>b. min (b * 2) MAX_BACKOFF) ^^ k) INITIAL_BACKOFF = min (2 ^ k * INITIAL_BACKOFF) MAX_BACKOFF"
proof -
  let ?c = "cn_clients cn ! i"
  have "backoff_ok (cl_backoff ?c)" using backoff_run [OF run] i by simp
  then have ok: "backoff_ok (cl_backoff c')" using client_step_backoff [OF st] by simp
  have attempt: "\<exists>w. cl_phase c' = Waiting w
            \<and> (w = now + REPLACED_RETRY_DELAY \<or> now + cl_backoff c' div 2 \<le> w \<and> w \<le> now + cl_backoff c')"
    if a: "after_attempt (cp_fl P) u now exact e random c1 h = (c', h')"
      and exact: "exact = None \<or> exact = Some REPLACED_RETRY_DELAY" for exact e random c1 h h'
  proof -
    have "cl_backoff c1 = cl_backoff c'" using after_attempt_over(3) [OF a] by simp
    then have "\<exists>d. jittered (cp_fl P) random (cl_backoff c1) = Some d \<and> cl_backoff c' div 2 \<le> d \<and> d \<le> cl_backoff c'"
      using jittered_bounds [OF fl] backoff_range [OF ok] by metis
    with a exact show ?thesis by (elim after_attempt_cases) auto
  qed
  from st have "\<exists>w. cl_phase c' = Waiting w
            \<and> (w = now + REPLACED_RETRY_DELAY \<or> now + cl_backoff c' div 2 \<le> w \<and> w \<le> now + cl_backoff c')"
  proof (cases rule: client_step_cases)
    case (failed e random h)
    then show ?thesis using attempt by blast
  next
    case (ended sev s t st permits tasks reason e random h)
    obtain exact e' c1 where "after_attempt (cp_fl P) u now exact e' random c1 (cn_health cn) = (c', h)"
      "exact = None \<or> exact = Some REPLACED_RETRY_DELAY"
      using after_session_attempt [OF ended(4)] by (metis (full_types))
    then show ?thesis using attempt by blast
  qed (use stop ended in auto)
  with ok backoff_after show ?thesis by blast
qed

lemma fine_rounding_id: "fine_rounding (\<lambda>x. x)"
  unfolding fine_rounding_def by (intro exI [of _ 0] conjI rounding_id) auto

theorem reconnect_delays_witness:
  "\<exists>c' cn' w. client_step sample_params 0 7 (ConnectDone (Inl LookupFailed) 0)
                \<lparr>cl_server = ''edge.example:4433'', cl_phase = Connect, cl_backoff = INITIAL_BACKOFF\<rparr>
                (the (map_option fst (connector_exec sample_params [ClientEvent 0 0 0 EnterLoop] sample_start)))
              = Some (c', cn', [])
     \<and> cl_phase c' = Waiting w \<and> 7 + 500000000 \<le> w"
proof -
  have "case connector_exec sample_params [ClientEvent 0 0 0 EnterLoop] sample_start of
          None \<Rightarrow> False
        | Some (cn, out) \<Rightarrow> out = [] \<and> cn_clients cn
            = [\<lparr>cl_server = ''edge.example:4433'', cl_phase = Connect, cl_backoff = INITIAL_BACKOFF\<rparr>] \<and> \<not> cn_stop cn"
    by code_simp
  then obtain cn where ex: "connector_exec sample_params [ClientEvent 0 0 0 EnterLoop] sample_start = Some (cn, [])"
    and cn: "cn_clients cn = [\<lparr>cl_server = ''edge.example:4433'', cl_phase = Connect, cl_backoff = INITIAL_BACKOFF\<rparr>]"
      "\<not> cn_stop cn"
    by (auto split: option.splits)
  let ?c = "\<lparr>cl_server = ''edge.example:4433'', cl_phase = Connect, cl_backoff = INITIAL_BACKOFF\<rparr>"
  have run: "connector_run sample_params (start_connector sample_params 0 None [''edge.example:4433'']) cn []"
    using connector_exec_run [OF ex connector_run.start] by (simp add: sample_start_def)
  obtain c' h where aa: "after_attempt (cp_fl sample_params) 0 7 None (cp_show_error sample_params LookupFailed) 0 ?c (cn_health cn) = (c', h)"
    by fastforce
  then have st: "client_step sample_params 0 7 (ConnectDone (Inl LookupFailed) 0) ?c cn = Some (c', cn\<lparr>cn_health := h\<rparr>, [])"
    by simp
  have over: "cl_phase c' = Returned \<or> (\<exists>w. cl_phase c' = Waiting w)" "cl_backoff c' = INITIAL_BACKOFF"
    using after_attempt_over [OF aa] by (auto simp: attempt_over_def)
  have "fine_rounding (cp_fl sample_params)" using fine_rounding_id by (simp add: sample_params_def)
  moreover have "client_step sample_params 0 7 (ConnectDone (Inl LookupFailed) 0) (cn_clients cn ! 0) cn
      = Some (c', cn\<lparr>cn_health := h\<rparr>, [])" "0 < length (cn_clients cn)"
    using st by (simp_all only: cn(1) nth_Cons_0 list.size)
  ultimately obtain w where w: "cl_phase c' = Waiting w"
      "w = 7 + REPLACED_RETRY_DELAY \<or> 7 + INITIAL_BACKOFF div 2 \<le> w"
    using reconnect_delays [OF run _ _ _ over(1) cn(2)] over(2) by metis
  have "7 + 500000000 \<le> w" using w(2) by (auto simp: REPLACED_RETRY_DELAY_def INITIAL_BACKOFF_def)
  moreover have "the (map_option fst (connector_exec sample_params [ClientEvent 0 0 0 EnterLoop] sample_start)) = cn"
    by (simp only: ex option.map option.sel fst_conv)
  ultimately show ?thesis using st w(1) by metis
qed

subsection \<open>Every shutdown ends\<close>

text \<open>How far a client is from returning once the signal was received.\<close>

fun client_rank :: "phase \<Rightarrow> nat" where
  "client_rank Connect = 5"
| "client_rank (Serving s _) = (if ss_drain_deadline s = None then 4 else 3)"
| "client_rank (Waiting _) = 2"
| "client_rank LoopHead = 1"
| "client_rank Returned = 0"

lemma attempt_over_rank: "attempt_over c c' \<Longrightarrow> client_rank (cl_phase c') \<le> 2"
  by (auto simp: attempt_over_def)

lemma client_step_rank:
  assumes "client_step P unix now ev c cn = Some (c', cn', ef)" "cn_stop cn"
  shows "client_rank (cl_phase c') \<le> client_rank (cl_phase c)"
  using assms(1)
proof (cases rule: client_step_cases)
  case (failed e random h)
  then show ?thesis using attempt_over_rank [OF after_attempt_over(1) [OF failed(2)]] by simp
next
  case (serving sev s t s' permits tasks)
  from serving(2) show ?thesis unfolding serving(1,3) by (cases rule: serve_step_cases) auto
next
  case (ended sev s t st permits tasks reason e random h)
  then show ?thesis using attempt_over_rank [OF after_session_over(1) [OF ended(4)]] by auto
qed (use assms(2) in auto)

lemma rank_release: "client_rank (cl_phase (release_udp sid c)) = client_rank (cl_phase c)"
  by (auto simp: release_udp_def split: phase.splits)

lemma connector_step_rank:
  assumes "connector_step P ev cn = Some (cn', ef)" "cn_stop cn"
  shows "cn_stop cn' \<and> length (cn_clients cn') = length (cn_clients cn)
     \<and> (\<forall>j < length (cn_clients cn). client_rank (cl_phase (cn_clients cn' ! j)) \<le> client_rank (cl_phase (cn_clients cn ! j)))"
proof (cases ev)
  case (ClientEvent i unix now e)
  then obtain c' cn1 where st: "client_step P unix now e (cn_clients cn ! i) cn = Some (c', cn1, ef)"
    and cn': "cn' = cn1\<lparr>cn_clients := (cn_clients cn)[i := c']\<rparr>" and "i < length (cn_clients cn)"
    using assms(1) by (auto split: if_splits option.splits)
  then show ?thesis using client_step_rank [OF st assms(2)] client_step_slots(2) [OF st] assms(2)
    unfolding cn' by (auto simp: nth_list_update)
next
  case (TaskDone i outcome)
  with assms(1) have "finish_task P i outcome cn = Some (cn', ef)" by simp
  then show ?thesis using assms(2) rank_release by (cases rule: finish_task_cases) auto
qed (use assms in auto)

text \<open>The events a client can take without any peer: the branches of the shutdown and of the timers.\<close>

fun local_event :: "client_event \<Rightarrow> bool" where
  "local_event EnterLoop = True"
| "local_event ShutdownSeen = True"
| "local_event (Serve (ShutdownBranch _ _) _ _) = True"
| "local_event (Serve (DeadlineBranch _) _ _) = True"
| "local_event _ = False"

lemma exec_client:
  assumes "i < length (cn_clients cn)" "client_step P unix now ev (cn_clients cn ! i) cn = Some (c', cn1, ef)"
  shows "connector_exec P (ClientEvent i unix now ev # evs) cn
    = map_option (\<lambda>(cn2, out). (cn2, ef @ out)) (connector_exec P evs (cn1\<lparr>cn_clients := (cn_clients cn)[i := c']\<rparr>))"
  using assms by simp

definition returns_by ::
  "client_params \<Rightarrow> nat \<Rightarrow> nat \<Rightarrow> nat \<Rightarrow> nat \<Rightarrow> nat \<Rightarrow> connector \<Rightarrow> bool" where
  "returns_by P i unix T due n cn \<longleftrightarrow>
     (\<exists>evs cn' out. connector_exec P evs cn = Some (cn', out) \<and> cl_phase (cn_clients cn' ! i) = Returned
        \<and> length evs \<le> n
        \<and> (\<forall>ev \<in> set evs. \<exists>t e. ev = ClientEvent i unix t e \<and> local_event e \<and> T \<le> t \<and> t \<le> due))"

lemma returns_by_step:
  assumes "i < length (cn_clients cn)" "client_step P unix t e (cn_clients cn ! i) cn = Some (c', cn1, ef)"
    and "local_event e" "T \<le> t" "t \<le> due"
    and "returns_by P i unix T due n (cn1\<lparr>cn_clients := (cn_clients cn)[i := c']\<rparr>)"
  shows "returns_by P i unix T due (Suc n) cn"
proof -
  from assms(6) obtain evs cn' out where
    ex: "connector_exec P evs (cn1\<lparr>cn_clients := (cn_clients cn)[i := c']\<rparr>) = Some (cn', out)"
    and rest: "cl_phase (cn_clients cn' ! i) = Returned" "length evs \<le> n"
      "\<forall>ev \<in> set evs. \<exists>t e. ev = ClientEvent i unix t e \<and> local_event e \<and> T \<le> t \<and> t \<le> due"
    unfolding returns_by_def by blast
  have "connector_exec P (ClientEvent i unix t e # evs) cn = Some (cn', ef @ out)"
    using exec_client [OF assms(1,2), of evs] ex by simp
  then show ?thesis unfolding returns_by_def using rest assms(3-5)
    by (intro exI [of _ "ClientEvent i unix t e # evs"] exI [of _ cn'] exI [of _ "ef @ out"]) auto
qed

lemma returns_by_done: "cl_phase (cn_clients cn ! i) = Returned \<Longrightarrow> returns_by P i unix T due n cn"
  unfolding returns_by_def by (intro exI [of _ "[]"]) auto

lemma returns_by_over:
  assumes "i < length (cn_clients cn)" "cn_stop cn" "T \<le> due"
    and "cl_phase (cn_clients cn ! i) = Returned \<or> (\<exists>w. cl_phase (cn_clients cn ! i) = Waiting w)
         \<or> cl_phase (cn_clients cn ! i) = Connect"
  shows "returns_by P i unix T due (Suc n) cn"
proof (cases "cl_phase (cn_clients cn ! i) = Returned")
  case False
  then have "client_step P unix T ShutdownSeen (cn_clients cn ! i) cn
      = Some ((cn_clients cn ! i)\<lparr>cl_phase := Returned\<rparr>, cn, [])" using assms by auto
  from returns_by_step [OF assms(1) this] assms show ?thesis by (simp add: returns_by_done)
qed (rule returns_by_done)

text \<open>A connection being served returns by its drain deadline.\<close>

lemma returns_by_serving:
  assumes i: "i < length (cn_clients cn)" and stop: "cn_stop cn"
    and ph: "cl_phase (cn_clients cn ! i) = Serving s t" and d: "ss_drain_deadline s = None"
    and due: "T + GOING_AWAY_TIMEOUT + cp_drain_timeout P \<le> due"
  shows "returns_by P i unix T due 3 cn"
proof -
  let ?c = "cn_clients cn ! i" and ?D = "T + min took GOING_AWAY_TIMEOUT + cp_drain_timeout P"
  let ?s = "s\<lparr>ss_drain_deadline := Some ?D\<rparr>"
  let ?c1 = "?c\<lparr>cl_phase := Serving ?s t\<rparr>"
  let ?cn1 = "cn\<lparr>cn_permits := cn_permits cn, cn_tasks := cn_tasks cn\<rparr>\<lparr>cn_clients := (cn_clients cn)[i := ?c1]\<rparr>"
  have D: "T \<le> ?D" "?D \<le> due" using due by auto
  have notice: "client_step P unix T (Serve (ShutdownBranch T took) None 0) ?c cn
      = Some (?c1, cn\<lparr>cn_permits := cn_permits cn, cn_tasks := cn_tasks cn\<rparr>, [GoingAwayNotice (ss_id s)])"
    using ph d stop by simp
  obtain c2 h where close: "after_session (cp_fl P) unix ?D t None ''connection closed'' 0 ?c1 (cn_health cn) = (c2, h)"
    by fastforce
  let ?cn2 = "?cn1\<lparr>cn_permits := cn_permits cn, cn_tasks := cn_tasks cn, cn_health := h\<rparr>\<lparr>cn_clients := (cn_clients ?cn1)[i := c2]\<rparr>"
  have i1: "i < length (cn_clients ?cn1)" "cn_clients ?cn1 ! i = ?c1" using i by simp_all
  have closed: "client_step P unix ?D (Serve (DeadlineBranch ?D) None 0) (cn_clients ?cn1 ! i) ?cn1
      = Some (c2, ?cn1\<lparr>cn_permits := cn_permits cn, cn_tasks := cn_tasks cn, cn_health := h\<rparr>, [CloseGoingAway (ss_id s)])"
    unfolding i1(2) using close by simp
  have "attempt_over ?c1 c2" by (rule after_session_over(1) [OF close])
  then have "returns_by P i unix T due (Suc 0) ?cn2"
    using i stop D by (intro returns_by_over) (auto simp: attempt_over_def)
  with returns_by_step [OF i1(1) closed] D have "returns_by P i unix T due (Suc (Suc 0)) ?cn1" by simp
  with returns_by_step [OF i notice] D show ?thesis by (simp add: numeral_3_eq_3)
qed

lemma returns_by_mono: "returns_by P i unix T due m cn \<Longrightarrow> m \<le> n \<Longrightarrow> returns_by P i unix T due n cn"
  unfolding returns_by_def by (meson le_trans)



subsection \<open>Certificates\<close>

lemma hex_digit_lower: "n < 16 \<Longrightarrow> ascii_lower (hex_digit n) = hex_digit n"
proof -
  have "list_all (\<lambda>n. ascii_lower (hex_digit n) = hex_digit n) [0..<16]" by code_simp
  then show "n < 16 \<Longrightarrow> ?thesis" by (simp add: list_all_iff)
qed

lemma hex_byte_lower: "to_ascii_lowercase (hex_byte b) = hex_byte b"
proof -
  have "unat b < 16 * 16" using unsigned_less [of b, where ?'a = nat] by simp
  then have "unat b div 16 < 16" "unat b mod 16 < 16" by (rule less_mult_imp_div_less) simp
  then show ?thesis by (simp add: hex_byte_def to_ascii_lowercase_def hex_digit_lower)
qed

lemma certificate_sha256_lower:
  "to_ascii_lowercase (certificate_sha256 sha256 der) = certificate_sha256 sha256 der"
proof -
  have "to_ascii_lowercase (concat (map hex_byte bs)) = concat (map hex_byte bs)" for bs
    by (induction bs) (use hex_byte_lower in \<open>auto simp: to_ascii_lowercase_def\<close>)
  then show ?thesis by (simp add: certificate_sha256_def)
qed



subsection \<open>The token's claims\<close>

text \<open>\<open>base64url_decode\<close> of \<open>main.rs\<close>, four characters at a time: padding is skipped anywhere, and a
  single character at the end carries no byte.\<close>

definition BASE64URL :: string where
  "BASE64URL = ''ABCDEFGHIJKLMNOPQRSTUVWXYZabcdefghijklmnopqrstuvwxyz0123456789-_''"

fun index_from :: "nat \<Rightarrow> char \<Rightarrow> string \<Rightarrow> nat option" where
  "index_from i c [] = None"
| "index_from i c (d # ds) = (if c = d then Some i else index_from (i + 1) c ds)"

definition b64_lookup :: "char \<Rightarrow> byte" where
  "b64_lookup c = (case index_from 0 c BASE64URL of Some i \<Rightarrow> word_of_nat i | None \<Rightarrow> 0xFF)"

fun b64_loop :: "string \<Rightarrow> bytes option" where
  "b64_loop [] = Some []"
| "b64_loop [a] = (if b64_lookup a = 0xFF then None else Some [])"
| "b64_loop [a, b] =
     (let x = b64_lookup a; y = b64_lookup b
      in if x = 0xFF then None else if y = 0xFF then None
         else Some [or (push_bit 2 x) (drop_bit 4 y)])"
| "b64_loop [a, b, c] =
     (let x = b64_lookup a; y = b64_lookup b; z = b64_lookup c
      in if x = 0xFF then None else if y = 0xFF then None else if z = 0xFF then None
         else Some [or (push_bit 2 x) (drop_bit 4 y), or (push_bit 4 (and y 0x0F)) (drop_bit 2 z)])"
| "b64_loop (a # b # c # d # rest) =
     (let x = b64_lookup a; y = b64_lookup b; z = b64_lookup c; w = b64_lookup d
      in if x = 0xFF then None else if y = 0xFF then None else if z = 0xFF then None
         else if w = 0xFF then None
         else map_option (\<lambda>out. or (push_bit 2 x) (drop_bit 4 y) # or (push_bit 4 (and y 0x0F)) (drop_bit 2 z)
                                 # or (push_bit 6 (and z 0x03)) w # out) (b64_loop rest))"

definition base64url_decode :: "string \<Rightarrow> bytes option" where
  "base64url_decode input = b64_loop (filter (\<lambda>c. c \<noteq> CHR ''='') input)"

text \<open>\<open>parse\<close> is the JSON reader: the subject and the hostnames of the claims, as far as they are there.\<close>

definition extract_jwt_claims ::
  "(bytes \<Rightarrow> (string option \<times> string list option) option) \<Rightarrow> string
   \<Rightarrow> (string option \<times> string list option) option" where
  "extract_jwt_claims parse token =
     (case split_on (CHR ''.'') token of
        _ # payload_b64 # _ \<Rightarrow> (case base64url_decode payload_b64 of None \<Rightarrow> None | Some b \<Rightarrow> parse b)
      | _ \<Rightarrow> None)"

definition tunnel_id_of :: "(string option \<times> string list option) option \<Rightarrow> string" where
  "tunnel_id_of claims = (case claims of Some (Some sub, _) \<Rightarrow> sub | _ \<Rightarrow> ''unknown'')"

definition services_of ::
  "ingress_rule list \<Rightarrow> (string option \<times> string list option) option \<Rightarrow> service_advertisement list option" where
  "services_of rules claims =
     (case claims of Some (_, Some hostnames) \<Rightarrow> Some (ingress_services rules hostnames) | _ \<Rightarrow> None)"

text \<open>The encoding of RFC 4648, section 5, without padding, and that decoding inverts it.\<close>

definition b64_char :: "byte \<Rightarrow> char" where
  "b64_char b = BASE64URL ! unat b"

fun b64_encode :: "bytes \<Rightarrow> string" where
  "b64_encode [] = []"
| "b64_encode [x] = [b64_char (drop_bit 2 x), b64_char (push_bit 4 (and x 0x03))]"
| "b64_encode [x, y] =
     [b64_char (drop_bit 2 x), b64_char (or (push_bit 4 (and x 0x03)) (drop_bit 4 y)), b64_char (push_bit 2 (and y 0x0F))]"
| "b64_encode (x # y # z # rest) =
     b64_char (drop_bit 2 x) # b64_char (or (push_bit 4 (and x 0x03)) (drop_bit 4 y))
     # b64_char (or (push_bit 2 (and y 0x0F)) (drop_bit 6 z)) # b64_char (and z 0x3F) # b64_encode rest"

lemma b64_lookup_char:
  assumes "b < 64"
  shows "b64_lookup (b64_char b) = b" "b64_char b \<noteq> CHR ''=''" "b \<noteq> 0xFF"
proof -
  have "list_all (\<lambda>n. b64_lookup (b64_char (word_of_nat n)) = word_of_nat n \<and> b64_char (word_of_nat n) \<noteq> CHR ''=''
      \<and> (word_of_nat n :: byte) \<noteq> 0xFF) [0..<64]"
    by code_simp
  moreover have "unat b < 64" using assms by (simp add: word_less_nat_alt)
  ultimately have "b64_lookup (b64_char (word_of_nat (unat b))) = word_of_nat (unat b)
      \<and> b64_char (word_of_nat (unat b)) \<noteq> CHR ''='' \<and> (word_of_nat (unat b) :: byte) \<noteq> 0xFF"
    unfolding list_all_iff set_upt by (metis atLeastLessThan_iff zero_le)
  then show "b64_lookup (b64_char b) = b" "b64_char b \<noteq> CHR ''=''" "b \<noteq> 0xFF" by simp_all
qed

lemma byte_eqI:
  fixes a b :: byte
  assumes "bit a 0 = bit b 0" "bit a 1 = bit b 1" "bit a 2 = bit b 2" "bit a 3 = bit b 3"
    "bit a 4 = bit b 4" "bit a 5 = bit b 5" "bit a 6 = bit b 6" "bit a 7 = bit b 7"
  shows "a = b"
proof (rule bit_word_eqI)
  fix n assume "n < LENGTH(8)"
  then have "n = 0 \<or> n = 1 \<or> n = 2 \<or> n = 3 \<or> n = 4 \<or> n = 5 \<or> n = 6 \<or> n = 7" by auto
  then show "bit a n = bit b n" using assms by auto
qed

lemma sextet_small:
  fixes x y :: byte
  shows "drop_bit 2 x < 64" "push_bit 4 (and x 0x03) < 64" "push_bit 2 (and x 0x0F) < 64" "and x 0x3F < 64"
    "or (push_bit 4 (and x 0x03)) (drop_bit 4 y) < 64" "or (push_bit 2 (and x 0x0F)) (drop_bit 6 y) < 64"
proof -
  have high: "\<not> bit w n" if "8 \<le> n" for w :: byte and n
    using bit_imp_le_length [of w n] that by auto
  have small: "w < 64" if "\<not> bit w 6" "\<not> bit w 7" for w :: byte
  proof -
    have "w = take_bit 6 w"
      using that by (intro bit_word_eqI) (auto simp: bit_simps less_Suc_eq numeral_eq_Suc)
    then have "w = and w 63" by (simp add: take_bit_eq_mask mask_eq_exp_minus_1)
    also have "\<dots> \<le> 63" by (rule word_and_le1)
    finally show ?thesis by (simp add: word_le_nat_alt word_less_nat_alt)
  qed
  show "drop_bit 2 x < 64" "push_bit 4 (and x 0x03) < 64" "push_bit 2 (and x 0x0F) < 64" "and x 0x3F < 64"
    "or (push_bit 4 (and x 0x03)) (drop_bit 4 y) < 64" "or (push_bit 2 (and x 0x0F)) (drop_bit 6 y) < 64"
    by (rule small; simp add: bit_simps high)+
qed

lemma octets_back:
  fixes x y z :: byte
  shows "or (push_bit 2 (drop_bit 2 x)) (drop_bit 4 (push_bit 4 (and x 0x03))) = x"
    "or (push_bit 2 (drop_bit 2 x)) (drop_bit 4 (or (push_bit 4 (and x 0x03)) (drop_bit 4 y))) = x"
    "or (push_bit 4 (and (or (push_bit 4 (and x 0x03)) (drop_bit 4 y)) 0x0F)) (drop_bit 2 (push_bit 2 (and y 0x0F))) = y"
    "or (push_bit 4 (and (or (push_bit 4 (and x 0x03)) (drop_bit 4 y)) 0x0F))
        (drop_bit 2 (or (push_bit 2 (and y 0x0F)) (drop_bit 6 z))) = y"
    "or (push_bit 6 (and (or (push_bit 2 (and y 0x0F)) (drop_bit 6 z)) 0x03)) (and z 0x3F) = z"
  by (rule byte_eqI; simp add: bit_simps; blast?)+

lemma b64_loop_encode: "b64_loop (b64_encode bs) = Some bs"
  by (induction bs rule: b64_encode.induct)
     (simp_all only: b64_encode.simps b64_loop.simps Let_def b64_lookup_char sextet_small octets_back if_False option.map)

lemma b64_encode_no_padding: "filter (\<lambda>c. c \<noteq> CHR ''='') (b64_encode bs) = b64_encode bs"
  by (induction bs rule: b64_encode.induct)
     (simp_all only: b64_encode.simps filter.simps b64_lookup_char sextet_small if_True simp_thms)

text \<open>What the Connector reads from its own token is what the issuer put there: decoding inverts the
  base64url encoding of RFC 4648 for every payload, with or without padding characters.\<close>

theorem base64url_round_trip:
  "base64url_decode (b64_encode bs) = Some bs
   \<and> base64url_decode (b64_encode bs @ replicate k (CHR ''='')) = Some bs"
  by (simp add: base64url_decode_def b64_encode_no_padding b64_loop_encode)

end
