(* ===== verification/Peer_Pool.thy ===== *)
theory Peer_Pool
  imports Table Std_Net
begin

text \<open>
  The pool of outgoing connections to peer Edges (\<open>sievetube-edge/src/mesh/transport.rs\<close>).
  QUIC connections are opaque; whether one is closed, its stable id and the Edge id its
  certificate proves are what the network layer reports (\<open>net\<close>). The endpoint and TLS set-up
  are not part of the model.
\<close>

subsection \<open>State and operations\<close>

record 'c mesh_net =
  mn_closed :: "'c \<Rightarrow> bool"
  mn_stable_id :: "'c \<Rightarrow> nat"
  mn_peer_edge_id :: "'c \<Rightarrow> string option"

record 'c peer_pool =
  pp_allowed :: "string list"
  pp_connections :: "(string, 'c) table"
  pp_cooldown :: "(string, nat) table"
  pp_cooldown_period :: nat

datatype pool_error = NotAllowed | FailedRecently | ConnectFailed | WrongIdentity

definition new_pool :: "string list \<Rightarrow> nat \<Rightarrow> 'c peer_pool" where
  "new_pool allowed period =
     \<lparr>pp_allowed = allowed, pp_connections = [], pp_cooldown = [], pp_cooldown_period = period\<rparr>"

definition is_allowed :: "'c peer_pool \<Rightarrow> string \<Rightarrow> bool" where
  "is_allowed pool edge_id \<longleftrightarrow> edge_id \<in> set (pp_allowed pool)"

definition cooling_down :: "nat \<Rightarrow> 'c peer_pool \<Rightarrow> string \<Rightarrow> bool" where
  "cooling_down now pool edge_id =
     (case map_of (pp_cooldown pool) edge_id of None \<Rightarrow> False | Some until \<Rightarrow> until > now)"

definition start_cooldown :: "nat \<Rightarrow> string \<Rightarrow> 'c peer_pool \<Rightarrow> 'c peer_pool" where
  "start_cooldown now edge_id pool =
     pool\<lparr>pp_cooldown := t_insert edge_id (now + pp_cooldown_period pool) (pp_cooldown pool)\<rparr>"

definition connection_failed ::
  "'c mesh_net \<Rightarrow> nat \<Rightarrow> string \<Rightarrow> 'c \<Rightarrow> 'c peer_pool \<Rightarrow> 'c peer_pool" where
  "connection_failed net now edge_id connection pool =
     (if \<not> mn_closed net connection then pool
      else let same = (\<lambda>c. mn_stable_id net c = mn_stable_id net connection);
               evicted = (case map_of (pp_connections pool) edge_id of
                            None \<Rightarrow> False | Some pooled \<Rightarrow> same pooled);
               pool' = pool\<lparr>pp_connections := t_remove_if edge_id same (pp_connections pool)\<rparr>
           in if evicted \<or> map_of (pp_connections pool') edge_id = None
              then start_cooldown now edge_id pool' else pool')"

text \<open>Closing a connection makes the network report it as closed.\<close>

definition close_in_net :: "'c mesh_net \<Rightarrow> 'c \<Rightarrow> 'c mesh_net" where
  "close_in_net net connection = net\<lparr>mn_closed := (mn_closed net)(connection := True)\<rparr>"

definition connection_unresponsive ::
  "'c mesh_net \<Rightarrow> nat \<Rightarrow> string \<Rightarrow> 'c \<Rightarrow> 'c peer_pool \<Rightarrow> 'c mesh_net \<times> 'c peer_pool" where
  "connection_unresponsive net now edge_id connection pool =
     (let net' = close_in_net net connection
      in (net', connection_failed net' now edge_id connection pool))"

definition usable :: "'c mesh_net \<Rightarrow> string \<Rightarrow> 'c peer_pool \<Rightarrow> 'c option" where
  "usable net edge_id pool =
     (case map_of (pp_connections pool) edge_id of
        None \<Rightarrow> None
      | Some c \<Rightarrow> if mn_closed net c then None else Some c)"

text \<open>\<open>dialled\<close> is what the handshake yields, \<open>None\<close> when it fails or times out.\<close>

definition pool_connect ::
  "'c mesh_net \<Rightarrow> string \<Rightarrow> 'c option \<Rightarrow> 'c peer_pool \<Rightarrow> (pool_error, 'c) result \<times> 'c peer_pool" where
  "pool_connect net edge_id dialled pool =
     (case dialled of
        None \<Rightarrow> (Inl ConnectFailed, pool)
      | Some c \<Rightarrow>
          if mn_peer_edge_id net c \<noteq> Some edge_id then (Inl WrongIdentity, pool)
          else (Inr c, pool\<lparr>pp_cooldown := t_remove edge_id (pp_cooldown pool),
                            pp_connections := t_insert edge_id c (pp_connections pool)\<rparr>))"

text \<open>\<open>connection\<close> checks the pool, waits for the peer's connect lock and checks again; \<open>waited\<close>
  is what other requests did to the pool meanwhile, at which time it is \<open>now2\<close>.\<close>

definition pool_connection ::
  "'c mesh_net \<Rightarrow> nat \<Rightarrow> nat \<Rightarrow> ('c peer_pool \<Rightarrow> 'c peer_pool) \<Rightarrow> string \<Rightarrow> 'c option \<Rightarrow> 'c peer_pool
   \<Rightarrow> (pool_error, 'c) result \<times> 'c peer_pool" where
  "pool_connection net now now2 waited edge_id dialled pool =
     (if \<not> is_allowed pool edge_id then (Inl NotAllowed, pool)
      else case usable net edge_id pool of
        Some existing \<Rightarrow> (Inr existing, pool)
      | None \<Rightarrow>
          if cooling_down now pool edge_id then (Inl FailedRecently, pool)
          else let pool2 = waited pool
               in case usable net edge_id pool2 of
                    Some existing \<Rightarrow> (Inr existing, pool2)
                  | None \<Rightarrow>
                      if cooling_down now2 pool2 edge_id then (Inl FailedRecently, pool2)
                      else case pool_connect net edge_id dialled pool2 of
                             (Inl e, pool3) \<Rightarrow> (Inl e, start_cooldown now2 edge_id pool3)
                           | (Inr c, pool3) \<Rightarrow> (Inr c, pool3))"

definition close_all :: "'c mesh_net \<Rightarrow> 'c peer_pool \<Rightarrow> 'c mesh_net \<times> 'c peer_pool" where
  "close_all net pool =
     (fold (\<lambda>c n. close_in_net n c) (t_values (pp_connections pool)) net,
      pool\<lparr>pp_connections := []\<rparr>)"

subsection \<open>Facts\<close>

text \<open>Every pooled connection is authenticated as the Edge it is pooled for, and that Edge is
  an allowed peer.\<close>

definition pool_inv :: "'c mesh_net \<Rightarrow> 'c peer_pool \<Rightarrow> bool" where
  "pool_inv net pool \<longleftrightarrow>
     wf_table (pp_connections pool)
     \<and> (\<forall>e c. map_of (pp_connections pool) e = Some c \<longrightarrow>
          mn_peer_edge_id net c = Some e \<and> is_allowed pool e)"

lemma new_pool_fields [simp]:
  "pp_allowed (new_pool allowed period) = allowed"
  "pp_cooldown_period (new_pool allowed period) = period"
  by (simp_all add: new_pool_def)

lemma new_pool_inv [simp]: "pool_inv net (new_pool allowed period)"
  by (simp add: pool_inv_def new_pool_def)

lemma start_cooldown_keeps [simp]:
  "pp_connections (start_cooldown now e pool) = pp_connections pool"
  "is_allowed (start_cooldown now e pool) = is_allowed pool"
  "pool_inv net (start_cooldown now e pool) = pool_inv net pool"
  by (auto simp: start_cooldown_def is_allowed_def pool_inv_def fun_eq_iff)

lemma start_cooldown_cools:
  "cooling_down now' (start_cooldown now e pool) e \<longleftrightarrow> now' < now + pp_cooldown_period pool"
  by (simp add: cooling_down_def start_cooldown_def tab_simps)

lemma connection_failed_inv:
  assumes "pool_inv net pool"
  shows "pool_inv net (connection_failed net now e c pool)"
proof -
  let ?same = "\<lambda>x. mn_stable_id net x = mn_stable_id net c"
  let ?pool' = "pool\<lparr>pp_connections := t_remove_if e ?same (pp_connections pool)\<rparr>"
  have "pool_inv net ?pool'"
    using assms by (auto simp: pool_inv_def is_allowed_def tab_simps split: option.splits if_splits)
  then show ?thesis
    using assms by (auto simp: connection_failed_def Let_def)
qed

lemma pool_connect_inv:
  assumes "pool_inv net pool" "is_allowed pool e" "pool_connect net e d pool = (r, pool')"
  shows "pool_inv net pool'"
    and "r = Inr c \<Longrightarrow> mn_peer_edge_id net c = Some e"
  using assms
  by (auto simp: pool_connect_def pool_inv_def is_allowed_def tab_simps split: option.splits if_splits)

lemma usable_pooled:
  assumes "pool_inv net pool" "usable net e pool = Some c"
  shows "mn_peer_edge_id net c = Some e" "\<not> mn_closed net c"
  using assms by (auto simp: usable_def pool_inv_def split: option.splits if_splits)

subsection \<open>Properties\<close>

text \<open>Only authenticated, allowed peers are used: whatever connection the pool returns for
  an Edge is authenticated as that Edge, which is in the allow-list, whatever other
  requests did to the pool meanwhile; and a failed attempt to connect cools the peer down,
  so that until the period ends the pool refuses it without dialling again.\<close>

theorem pool_connection_sound:
  assumes inv: "pool_inv net pool" and w: "pool_inv net (waited pool)"
    and allow: "pp_allowed (waited pool) = pp_allowed pool"
    and run: "pool_connection net now now2 waited e d pool = (r, pool')"
  shows "pool_inv net pool'
         \<and> (\<forall>c. r = Inr c \<longrightarrow> is_allowed pool e \<and> mn_peer_edge_id net c = Some e)
         \<and> (r = Inl ConnectFailed \<or> r = Inl WrongIdentity \<longrightarrow>
              (\<forall>now3 d' waited'. now3 < now2 + pp_cooldown_period (waited pool) \<longrightarrow>
                 pool_connection net now3 now3 waited' e d' pool' = (Inl FailedRecently, pool')))"
proof (cases "is_allowed pool e \<and> usable net e pool = None \<and> \<not> cooling_down now pool e
    \<and> usable net e (waited pool) = None \<and> \<not> cooling_down now2 (waited pool) e")
  case False
  then show ?thesis
    using run inv w usable_pooled [OF inv] usable_pooled [OF w]
    by (auto simp: pool_connection_def Let_def split: option.splits if_splits)
next
  case True
  obtain r1 p1 where c: "pool_connect net e d (waited pool) = (r1, p1)" by fastforce
  have al: "is_allowed (waited pool) e" using True allow by (simp add: is_allowed_def)
  note ci = pool_connect_inv [OF w al c]
  have res: "r = r1 \<and> pool' = (if is_ok r1 then p1 else start_cooldown now2 e p1)"
    using run True c by (auto simp: pool_connection_def Let_def split: sum.splits)
  have "pool_connection net n3 n3 w' e d' pool' = (Inl FailedRecently, pool')"
    if "r = Inl ConnectFailed \<or> r = Inl WrongIdentity" "n3 < now2 + pp_cooldown_period (waited pool)" for n3 d' w'
  proof -
    have p1: "p1 = waited pool" "\<not> is_ok r1"
      using that(1) res c by (auto simp: pool_connect_def split: option.splits if_splits)
    then have p': "pool' = start_cooldown now2 e (waited pool)" using res by simp
    have "usable net e pool' = None" using True by (simp add: p' usable_def)
    then show ?thesis
      using al that(2) by (simp add: pool_connection_def start_cooldown_cools p')
  qed
  then show ?thesis using True res ci by auto
qed

definition sample_net :: "string mesh_net" where
  "sample_net = \<lparr>mn_closed = (\<lambda>_. False), mn_stable_id = length, mn_peer_edge_id = Some\<rparr>"

theorem pool_connection_sound_witness:
  "pool_connection sample_net 5 5 id ''e2'' None (new_pool [''e2''] 30 :: string peer_pool)
     = (Inl ConnectFailed, start_cooldown 5 ''e2'' (new_pool [''e2''] 30))
   \<and> pool_connection sample_net 20 20 id ''e2'' (Some ''e2'') (start_cooldown 5 ''e2'' (new_pool [''e2''] 30))
     = (Inl FailedRecently, start_cooldown 5 ''e2'' (new_pool [''e2''] 30))"
proof -
  have run: "pool_connection sample_net 5 5 id ''e2'' None (new_pool [''e2''] 30 :: string peer_pool)
     = (Inl ConnectFailed, start_cooldown 5 ''e2'' (new_pool [''e2''] 30))"
    by (simp add: pool_connection_def new_pool_def is_allowed_def usable_def cooling_down_def
        pool_connect_def)
  have "pool_connection sample_net 20 20 id ''e2'' (Some ''e2'') (start_cooldown 5 ''e2'' (new_pool [''e2''] 30))
     = (Inl FailedRecently, start_cooldown 5 ''e2'' (new_pool [''e2''] 30))"
    using pool_connection_sound [OF new_pool_inv _ _ run] by simp
  with run show ?thesis by blast
qed

end
