(* ===== verification/Permits.thy ===== *)
theory Permits
  imports Table
begin

text \<open>
  The stream budgets of the mesh (\<open>PermitTable\<close> in \<open>sievetube-edge/src/mesh/forward.rs\<close>):
  a semaphore per peer and per tenant, created on demand and swept when idle. A semaphore
  is its free permits and the number of tasks that share it besides the table, which are
  those that hold a permit and those that wait for one.
\<close>

subsection \<open>Operations\<close>

record semaphore =
  sem_available :: nat
  sem_shared :: nat

type_synonym permits = "(string, semaphore) table"

text \<open>\<open>PermitTable::acquire\<close> in its steps: share the semaphore of the key, then take a permit
  when one is free, or give up when the wait ends.\<close>

definition permit_enter :: "nat \<Rightarrow> string \<Rightarrow> permits \<Rightarrow> permits" where
  "permit_enter limit key t =
     (let s = (case map_of t key of None \<Rightarrow> \<lparr>sem_available = limit, sem_shared = 0\<rparr> | Some s \<Rightarrow> s)
      in t_insert key (s\<lparr>sem_shared := sem_shared s + 1\<rparr>) t)"

definition permit_grant :: "string \<Rightarrow> permits \<Rightarrow> permits option" where
  "permit_grant key t =
     (case map_of t key of
        None \<Rightarrow> None
      | Some s \<Rightarrow> if sem_available s = 0 then None
                  else Some (t_insert key (s\<lparr>sem_available := sem_available s - 1\<rparr>) t))"

definition permit_leave :: "string \<Rightarrow> permits \<Rightarrow> permits" where
  "permit_leave key t =
     (case map_of t key of
        None \<Rightarrow> t
      | Some s \<Rightarrow> t_insert key (s\<lparr>sem_shared := sem_shared s - 1\<rparr>) t)"

definition permit_release :: "string \<Rightarrow> permits \<Rightarrow> permits" where
  "permit_release key t =
     (case map_of t key of
        None \<Rightarrow> t
      | Some s \<Rightarrow> t_insert key \<lparr>sem_available = sem_available s + 1, sem_shared = sem_shared s - 1\<rparr> t)"

text \<open>The steps together; \<open>meanwhile\<close> is what other tasks do during the wait.\<close>

definition permit_acquire ::
  "nat \<Rightarrow> (permits \<Rightarrow> permits) \<Rightarrow> string \<Rightarrow> permits \<Rightarrow> bool \<times> permits" where
  "permit_acquire limit meanwhile key t =
     (let t1 = meanwhile (permit_enter limit key t)
      in case permit_grant key t1 of
           Some t2 \<Rightarrow> (True, t2)
         | None \<Rightarrow> (False, permit_leave key t1))"

definition permit_sweep :: "nat \<Rightarrow> permits \<Rightarrow> permits" where
  "permit_sweep limit t = t_retain (\<lambda>_ s. sem_shared s > 0 \<or> sem_available s < limit) t"

record permit_table =
  pt_peers :: permits
  pt_tenants :: permits

record mesh_limits =
  max_streams_per_peer :: nat
  max_streams_per_tenant :: nat
  stream_wait :: nat
  accept_timeout :: nat

definition empty_permits :: permit_table where
  "empty_permits = \<lparr>pt_peers = [], pt_tenants = []\<rparr>"

datatype no_slot = NoTenantSlot | NoPeerSlot

text \<open>\<open>tenant_and_peer\<close>: a tenant permit, then a peer permit. The tenant permit is dropped when
  there is no peer permit.\<close>

definition tenant_and_peer ::
  "mesh_limits \<Rightarrow> (permits \<Rightarrow> permits) \<Rightarrow> (permits \<Rightarrow> permits) \<Rightarrow> string \<Rightarrow> string \<Rightarrow> permit_table
   \<Rightarrow> (no_slot, unit) result \<times> permit_table" where
  "tenant_and_peer limits meanwhile_t meanwhile_p tenant peer pt =
     (case permit_acquire (max_streams_per_tenant limits) meanwhile_t tenant (pt_tenants pt) of
        (False, ts) \<Rightarrow> (Inl NoTenantSlot, pt\<lparr>pt_tenants := ts\<rparr>)
      | (True, ts) \<Rightarrow>
          (case permit_acquire (max_streams_per_peer limits) meanwhile_p peer (pt_peers pt) of
             (False, ps) \<Rightarrow> (Inl NoPeerSlot, \<lparr>pt_peers = ps, pt_tenants = permit_release tenant ts\<rparr>)
           | (True, ps) \<Rightarrow> (Inr (), \<lparr>pt_peers = ps, pt_tenants = ts\<rparr>)))"

definition drop_permits :: "string \<Rightarrow> string \<Rightarrow> permit_table \<Rightarrow> permit_table" where
  "drop_permits tenant peer pt =
     \<lparr>pt_peers = permit_release peer (pt_peers pt), pt_tenants = permit_release tenant (pt_tenants pt)\<rparr>"

definition sweep_permit_table :: "mesh_limits \<Rightarrow> permit_table \<Rightarrow> permit_table" where
  "sweep_permit_table limits pt =
     \<lparr>pt_peers = permit_sweep (max_streams_per_peer limits) (pt_peers pt),
      pt_tenants = permit_sweep (max_streams_per_tenant limits) (pt_tenants pt)\<rparr>"

subsection \<open>Runs\<close>

text \<open>A run of any number of tasks over one map, with the number of tasks that hold a permit and
  that wait for one, by key. The sweep runs at any time.\<close>

inductive permit_run ::
  "nat \<Rightarrow> permits \<Rightarrow> (string \<Rightarrow> nat) \<Rightarrow> (string \<Rightarrow> nat) \<Rightarrow> bool" for limit where
  start: "permit_run limit [] (\<lambda>_. 0) (\<lambda>_. 0)"
| enter: "permit_run limit t held waiting
          \<Longrightarrow> permit_run limit (permit_enter limit k t) held (waiting(k := waiting k + 1))"
| grant: "permit_run limit t held waiting \<Longrightarrow> waiting k > 0 \<Longrightarrow> permit_grant k t = Some t'
          \<Longrightarrow> permit_run limit t' (held(k := held k + 1)) (waiting(k := waiting k - 1))"
| leave: "permit_run limit t held waiting \<Longrightarrow> waiting k > 0
          \<Longrightarrow> permit_run limit (permit_leave k t) held (waiting(k := waiting k - 1))"
| release: "permit_run limit t held waiting \<Longrightarrow> held k > 0
          \<Longrightarrow> permit_run limit (permit_release k t) (held(k := held k - 1)) waiting"
| sweep: "permit_run limit t held waiting \<Longrightarrow> permit_run limit (permit_sweep limit t) held waiting"

definition permit_inv :: "nat \<Rightarrow> permits \<Rightarrow> (string \<Rightarrow> nat) \<Rightarrow> (string \<Rightarrow> nat) \<Rightarrow> bool" where
  "permit_inv limit t held waiting \<longleftrightarrow>
     wf_table t
     \<and> (\<forall>k. map_of t k = None \<longrightarrow> held k = 0 \<and> waiting k = 0)
     \<and> (\<forall>k s. map_of t k = Some s \<longrightarrow>
            sem_available s + held k = limit \<and> sem_shared s = held k + waiting k)"

lemma permit_invD:
  assumes "permit_inv limit t held waiting"
  shows "wf_table t"
    and "map_of t k = None \<Longrightarrow> held k = 0 \<and> waiting k = 0"
    and "map_of t k = Some s \<Longrightarrow> sem_available s + held k = limit \<and> sem_shared s = held k + waiting k"
  using assms by (auto simp: permit_inv_def)

lemma permit_inv_update:
  assumes "permit_inv limit t held waiting"
    and "\<forall>j. j \<noteq> k \<longrightarrow> held' j = held j \<and> waiting' j = waiting j"
    and "sem_available s + held' k = limit" "sem_shared s = held' k + waiting' k"
  shows "permit_inv limit (t_insert k s t) held' waiting'"
  using assms by (auto simp: permit_inv_def tab_simps)

lemma permit_run_inv: "permit_run limit t held waiting \<Longrightarrow> permit_inv limit t held waiting"
proof (induction rule: permit_run.induct)
  case start
  show ?case by (simp add: permit_inv_def)
next
  case (enter t held waiting k)
  then show ?case
    using permit_invD(2,3) [OF enter.IH, of k]
    by (auto simp: permit_enter_def Let_def split: option.splits intro!: permit_inv_update [OF enter.IH])
next
  case (grant t held waiting k t')
  then obtain s where s: "map_of t k = Some s" "sem_available s > 0"
    "t' = t_insert k (s\<lparr>sem_available := sem_available s - 1\<rparr>) t"
    by (auto simp: permit_grant_def split: option.splits if_splits)
  show ?case
    unfolding s(3) using grant(2) s(2) permit_invD(3) [OF grant.IH s(1)]
    by (intro permit_inv_update [OF grant.IH]) auto
next
  case (leave t held waiting k)
  then show ?case
    using permit_invD(2,3) [OF leave.IH, of k]
    by (auto simp: permit_leave_def split: option.splits intro!: permit_inv_update [OF leave.IH])
next
  case (release t held waiting k)
  then show ?case
    using permit_invD(2,3) [OF release.IH, of k]
    by (auto simp: permit_release_def split: option.splits intro!: permit_inv_update [OF release.IH])
next
  case (sweep t held waiting)
  then show ?case
    using permit_invD(3) [OF sweep.IH]
    by (fastforce simp: permit_inv_def permit_sweep_def tab_simps split: option.splits if_splits)
qed

subsection \<open>Properties\<close>

text \<open>The stream budget holds in every run: no key ever has more permits out than its limit;
  a task that waits gets a permit exactly when fewer than the limit are out, so sweeping
  loses none and mints none; and after a sweep only keys somebody uses are left.\<close>

theorem permits_within_budget:
  assumes "permit_run limit t held waiting"
  shows "held k \<le> limit
         \<and> (waiting k > 0 \<longrightarrow> (permit_grant k t \<noteq> None \<longleftrightarrow> held k < limit))
         \<and> (map_of (permit_sweep limit t) k \<noteq> None \<longleftrightarrow> held k + waiting k > 0)"
proof (cases "map_of t k")
  case None
  with permit_invD [OF permit_run_inv [OF assms]] show ?thesis
    by (simp add: permit_sweep_def tab_simps)
next
  case (Some s)
  with permit_invD(3) [OF permit_run_inv [OF assms] Some] permit_invD(1) [OF permit_run_inv [OF assms]] show ?thesis
    by (auto simp: permit_sweep_def permit_grant_def tab_simps)
qed

theorem permits_within_budget_witness:
  "\<exists>t held waiting. permit_run 1 t held waiting \<and> held ''t'' = 1 \<and> waiting ''t'' = 1
     \<and> permit_grant ''t'' t = None \<and> map_of (permit_sweep 1 t) ''t'' \<noteq> None"
proof -
  let ?t1 = "permit_enter 1 ''t'' []"
  let ?t2 = "the (permit_grant ''t'' ?t1)"
  let ?t3 = "permit_enter 1 ''t'' ?t2"
  have g: "permit_grant ''t'' ?t1 = Some ?t2"
    by (simp add: permit_grant_def permit_enter_def tab_simps)
  have "permit_run 1 ?t1 (\<lambda>_. 0) ((\<lambda>_. 0)(''t'' := 0 + 1))" by (intro permit_run.enter permit_run.start)
  from permit_run.grant [OF this _ g] have "permit_run 1 ?t2 ((\<lambda>_. 0)(''t'' := 1)) (\<lambda>_. 0)"
    by (simp add: fun_upd_idem)
  from permit_run.enter [OF this, of "''t''"]
  have run: "permit_run 1 ?t3 ((\<lambda>_. 0)(''t'' := 1)) ((\<lambda>_. 0)(''t'' := 1))" by simp
  from permits_within_budget [OF run, of "''t''"] run show ?thesis
    by (intro exI [of _ ?t3] exI [of _ "(\<lambda>_. 0)(''t'' := 1)"]) auto
qed

end
