(* ===== verification/Mesh_Routes.thy ===== *)
theory Mesh_Routes
  imports Connector_Registry Bytes Valkey "HOL-Library.Product_Lexorder" "HOL-Library.List_Lexorder"
    "HOL-Library.Char_ord"
begin

unbundle bit_operations_syntax

text \<open>
  Mesh routes (\<open>sievetube-edge/src/mesh/routes.rs\<close> and the route part of \<open>valkey.rs\<close>): what an
  Edge advertises, the route table other Edges build from it, and the publication of routes
  in the control plane. JSON encoding of the advertisements and the sorted-set and set
  commands of the server are parameters.
\<close>

subsection \<open>Routes\<close>

record route_ad =
  ra_hostname :: string
  ra_protocol :: protocol
  ra_tenant_id :: string
  ra_edge_id :: string
  ra_generation :: "64 word"

record edge_info =
  ei_advertise :: string
  ei_udp :: bool

record remote_route =
  rr_edge_id :: string
  rr_tenant_id :: string
  rr_generation :: "64 word"
  rr_addr :: socket_addr
  rr_expires_at :: nat

text \<open>FNV-1a over \<open>hostname|edge_id\<close>.\<close>

definition rank_step :: "64 word \<Rightarrow> byte \<Rightarrow> 64 word" where
  "rank_step hash b = (hash XOR ucast b) * 0x100000001b3"

definition rank :: "string \<Rightarrow> string \<Rightarrow> 64 word" where
  "rank hostname edge_id =
     foldl rank_step 0xcbf29ce484222325 (as_bytes (hostname @ ''|'' @ edge_id))"

type_synonym route_table = "(string, (protocol, remote_route list) table) table"

definition sort_candidates :: "string \<Rightarrow> remote_route list \<Rightarrow> remote_route list" where
  "sort_candidates hostname candidates =
     sort_key (\<lambda>route. (rank hostname (rr_edge_id route), rr_edge_id route)) candidates"

definition replace_step ::
  "(string \<times> protocol) \<times> remote_route list \<Rightarrow> route_table \<Rightarrow> route_table" where
  "replace_step entry table =
     (case entry of ((hostname, protocol), candidates) \<Rightarrow>
        let protocols = (case map_of table hostname of None \<Rightarrow> [] | Some ps \<Rightarrow> ps)
        in t_insert hostname (t_insert protocol (sort_candidates hostname candidates) protocols) table)"

definition replace_routes ::
  "((string \<times> protocol), remote_route list) table \<Rightarrow> route_table" where
  "replace_routes routes = fold replace_step routes []"

definition route_candidates ::
  "route_table \<Rightarrow> string \<Rightarrow> protocol \<Rightarrow> nat \<Rightarrow> remote_route list" where
  "route_candidates table hostname protocol now =
     (case map_of table hostname of
        None \<Rightarrow> []
      | Some protocols \<Rightarrow>
          (case map_of protocols protocol of
             None \<Rightarrow> []
           | Some routes \<Rightarrow> filter (\<lambda>r. rr_expires_at r > now) routes))"

definition ads_for ::
  "string list \<Rightarrow> (string \<Rightarrow> protocol \<Rightarrow> bool) \<Rightarrow> string \<Rightarrow> string \<Rightarrow> 64 word \<Rightarrow> route_ad list" where
  "ads_for hostnames supported tenant_id edge_id generation =
     concat (map (\<lambda>hostname.
       map (\<lambda>p. \<lparr>ra_hostname = hostname, ra_protocol = p, ra_tenant_id = tenant_id,
                 ra_edge_id = edge_id, ra_generation = generation\<rparr>)
         (filter (supported hostname) [Http, Tcp, Udp])) hostnames)"

definition local_ads :: "'c registry \<Rightarrow> string \<Rightarrow> route_ad list" where
  "local_ads registry edge_id =
     concat (map (\<lambda>handle.
       concat (map (\<lambda>hostname.
         map (\<lambda>p. \<lparr>ra_hostname = hostname, ra_protocol = p, ra_tenant_id = ch_tenant_id handle,
                   ra_edge_id = edge_id, ra_generation = ch_generation handle\<rparr>)
           (filter (supports handle hostname) [Http, Tcp, Udp])) (ch_hostnames handle)))
       (snapshot registry))"

subsection \<open>Synchronisation\<close>

record sync_config =
  sc_edge_id :: string
  sc_allowed_peers :: "string list"
  sc_static_addrs :: "(string, socket_addr) table"

definition usable_peers ::
  "sync_config \<Rightarrow> (route_ad \<times> nat) list \<Rightarrow> string list \<Rightarrow> string list" where
  "usable_peers cfg ads live =
     remdups (filter (\<lambda>e. e \<noteq> sc_edge_id cfg \<and> e \<in> set (sc_allowed_peers cfg) \<and> e \<in> set live)
       (map (\<lambda>(ad, _). ra_edge_id ad) ads))"

definition route_addr ::
  "sync_config \<Rightarrow> string \<Rightarrow> edge_info \<Rightarrow> socket_addr option" where
  "route_addr cfg edge info =
     (case map_of (sc_static_addrs cfg) edge of
        Some a \<Rightarrow> Some a
      | None \<Rightarrow> parse_socket_addr (ei_advertise info))"

definition sync_route ::
  "sync_config \<Rightarrow> string list \<Rightarrow> (string, edge_info) table \<Rightarrow> nat \<Rightarrow> nat \<Rightarrow> route_ad \<times> nat
   \<Rightarrow> remote_route option" where
  "sync_route cfg peers infos now now_ms entry =
     (case entry of (ad, expiry_ms) \<Rightarrow>
        if ra_edge_id ad \<notin> set peers then None
        else case map_of infos (ra_edge_id ad) of
          None \<Rightarrow> None
        | Some info \<Rightarrow>
            if ra_protocol ad = Udp \<and> \<not> ei_udp info then None
            else map_option (\<lambda>addr.
              \<lparr>rr_edge_id = ra_edge_id ad, rr_tenant_id = ra_tenant_id ad,
               rr_generation = ra_generation ad, rr_addr = addr,
               rr_expires_at = now + (expiry_ms - now_ms)\<rparr>) (route_addr cfg (ra_edge_id ad) info))"

definition add_route ::
  "string \<times> protocol \<Rightarrow> remote_route \<Rightarrow> ((string \<times> protocol), remote_route list) table
   \<Rightarrow> ((string \<times> protocol), remote_route list) table" where
  "add_route k r routes =
     t_insert k ((case map_of routes k of None \<Rightarrow> [] | Some rs \<Rightarrow> rs) @ [r]) routes"

definition collect_routes ::
  "sync_config \<Rightarrow> string list \<Rightarrow> (string, edge_info) table \<Rightarrow> nat \<Rightarrow> nat \<Rightarrow> (route_ad \<times> nat) list
   \<Rightarrow> ((string \<times> protocol), remote_route list) table" where
  "collect_routes cfg peers infos now now_ms ads =
     fold (\<lambda>entry routes.
             case sync_route cfg peers infos now now_ms entry of
               None \<Rightarrow> routes
             | Some r \<Rightarrow> add_route (ra_hostname (fst entry), ra_protocol (fst entry)) r routes) ads []"

definition sync ::
  "sync_config \<Rightarrow> (control_plane_error, (route_ad \<times> nat) list) result
   \<Rightarrow> (control_plane_error, string list) result
   \<Rightarrow> (string list \<Rightarrow> (control_plane_error, (string, edge_info) table) result)
   \<Rightarrow> nat \<Rightarrow> nat \<Rightarrow> route_table \<Rightarrow> (control_plane_error, unit) result \<times> route_table" where
  "sync cfg fetched live fetch_infos now now_ms table =
     (case fetched of Inl e \<Rightarrow> (Inl e, table) | Inr ads \<Rightarrow>
      (case live of Inl e \<Rightarrow> (Inl e, table) | Inr edges \<Rightarrow>
       (let peers = usable_peers cfg ads edges
        in case fetch_infos peers of Inl e \<Rightarrow> (Inl e, table) | Inr infos \<Rightarrow>
             (Inr (), replace_routes (collect_routes cfg peers infos now now_ms ads)))))"

subsection \<open>Publication\<close>

record 'db redis_sets =
  rz_add :: "string \<Rightarrow> nat \<Rightarrow> string \<Rightarrow> 'db \<Rightarrow> 'db"
  rz_rem :: "string \<Rightarrow> string \<Rightarrow> 'db \<Rightarrow> nat \<times> 'db"
  rz_remrangebyscore :: "string \<Rightarrow> nat \<Rightarrow> 'db \<Rightarrow> 'db"
  rz_rangebyscore :: "string \<Rightarrow> nat \<Rightarrow> 'db \<Rightarrow> (string \<times> nat) list"
  rs_members :: "nat \<Rightarrow> string \<Rightarrow> 'db \<Rightarrow> string list"
  rs_add :: "nat \<Rightarrow> string \<Rightarrow> string \<Rightarrow> 'db \<Rightarrow> 'db"
  rs_rem :: "nat \<Rightarrow> string \<Rightarrow> string \<Rightarrow> 'db \<Rightarrow> 'db"
  rs_pexpire :: "nat \<Rightarrow> string \<Rightarrow> nat \<Rightarrow> 'db \<Rightarrow> 'db"

text \<open>What Valkey documents of these commands, in terms of the score of each member of a sorted
  set (\<open>zv\<close>) and the members of a set at a server time (\<open>sv\<close>).\<close>

definition redis_sets_ok ::
  "'db redis_sets \<Rightarrow> ('db \<Rightarrow> string \<Rightarrow> string \<Rightarrow> nat option) \<Rightarrow> (nat \<Rightarrow> 'db \<Rightarrow> string \<Rightarrow> string set) \<Rightarrow> bool"
  where
  "redis_sets_ok Z zv sv \<longleftrightarrow>
     (\<forall>k s m db. zv (rz_add Z k s m db) = (zv db)(k := (zv db k)(m \<mapsto> s)))
     \<and> (\<forall>k m db. zv (snd (rz_rem Z k m db)) = (zv db)(k := (zv db k)(m := None))
          \<and> fst (rz_rem Z k m db) = (if zv db k m = None then 0 else 1))
     \<and> (\<forall>k s db. zv (rz_remrangebyscore Z k s db) =
          (zv db)(k := (\<lambda>m. case zv db k m of None \<Rightarrow> None | Some x \<Rightarrow> if x \<le> s then None else Some x)))
     \<and> (\<forall>k s db. set (rz_rangebyscore Z k s db) = {(m, x). zv db k m = Some x \<and> s \<le> x})
     \<and> (\<forall>n k db. set (rs_members Z n k db) = sv n db k)
     \<and> (\<forall>n k m db. sv n (rs_add Z n k m db) = (sv n db)(k := insert m (sv n db k)))
     \<and> (\<forall>n k m db. sv n (rs_rem Z n k m db) = (sv n db)(k := sv n db k - {m}))
     \<and> (\<forall>n k t db. 0 < t \<longrightarrow> sv n (rs_pexpire Z n k t db) = sv n db)
     \<and> (\<forall>n k m t s db. sv n (rz_add Z k s m db) = sv n db \<and> sv n (snd (rz_rem Z k m db)) = sv n db
          \<and> sv n (rz_remrangebyscore Z k s db) = sv n db
          \<and> zv (rs_add Z n k m db) = zv db \<and> zv (rs_rem Z n k m db) = zv db
          \<and> zv (rs_pexpire Z n k t db) = zv db)"

definition MESH_ROUTES_KEY :: string where "MESH_ROUTES_KEY = ''sievetube:mesh:routes''"

definition mesh_edge_routes_key :: "string \<Rightarrow> string" where
  "mesh_edge_routes_key edge_id = ''sievetube:mesh:edge:'' @ edge_id @ '':routes''"

definition drop_stale ::
  "'db redis_sets \<Rightarrow> nat \<Rightarrow> string \<Rightarrow> string \<Rightarrow> string list \<Rightarrow> string \<Rightarrow> nat \<times> 'db \<Rightarrow> nat \<times> 'db" where
  "drop_stale Z n zkey skey desired member st =
     (case st of (removed, db) \<Rightarrow>
        if member \<in> set desired then (removed, db)
        else case rz_rem Z zkey member db of (k, db') \<Rightarrow> (removed + k, rs_rem Z n skey member db'))"

definition routes_replace_script ::
  "'db redis_sets \<Rightarrow> nat \<Rightarrow> string \<Rightarrow> string \<Rightarrow> nat \<Rightarrow> nat \<Rightarrow> nat \<Rightarrow> bool \<Rightarrow> string list \<Rightarrow> 'db
   \<Rightarrow> (nat \<times> bool) \<times> 'db" where
  "routes_replace_script Z n zkey skey now expiry ttl changed members db =
     (let (removed, db1) = fold (drop_stale Z n zkey skey members) (rs_members Z n skey db) (0, db);
          db2 = rz_remrangebyscore Z zkey now db1;
          db3 = fold (\<lambda>m db. rs_add Z n skey m (rz_add Z zkey expiry m db)) members db2;
          db4 = (if members \<noteq> [] then rs_pexpire Z n skey ttl db3 else db3)
      in ((removed, removed > 0 \<or> changed), db4))"

text \<open>\<open>digest\<close> stands for the order-independent hash of the member set.\<close>

definition publish_routes ::
  "'db redis_sets \<Rightarrow> (route_ad \<Rightarrow> string) \<Rightarrow> (string list \<Rightarrow> 64 word) \<Rightarrow> round_trip \<Rightarrow> nat \<Rightarrow> nat
   \<Rightarrow> nat \<Rightarrow> route_ad list \<Rightarrow> valkey_handle \<Rightarrow> 'db
   \<Rightarrow> (control_plane_error, bool) result \<times> valkey_handle \<times> 'db" where
  "publish_routes Z ser digest net n now ttl ads vh db =
     (let members = map ser ads; d = digest members;
          changed = (vh_published_routes vh \<noteq> Some d)
      in case invoke net (routes_replace_script Z n MESH_ROUTES_KEY
                (mesh_edge_routes_key (vh_edge_id vh)) now (now + ttl) ttl
                (changed \<and> ads \<noteq> []) members) db of
           (Inl e, db') \<Rightarrow> (Inl e, vh, db')
         | (Inr (_, notified), db') \<Rightarrow>
             (Inr notified, vh\<lparr>vh_published_routes := Some d\<rparr>, db'))"

definition withdraw_script ::
  "'db redis_sets \<Rightarrow> nat \<Rightarrow> string \<Rightarrow> string list \<Rightarrow> 'db \<Rightarrow> unit \<times> 'db" where
  "withdraw_script Z n own members db =
     ((), fold (\<lambda>m db. rs_rem Z n own m (snd (rz_rem Z MESH_ROUTES_KEY m db))) members db)"

definition withdraw_routes ::
  "'db redis_sets \<Rightarrow> (route_ad \<Rightarrow> string) \<Rightarrow> round_trip \<Rightarrow> nat \<Rightarrow> route_ad list \<Rightarrow> valkey_handle \<Rightarrow> 'db
   \<Rightarrow> (control_plane_error, unit) result \<times> valkey_handle \<times> 'db" where
  "withdraw_routes Z ser net n ads vh db =
     (if ads = [] then (Inr (), vh, db)
      else case invoke net (withdraw_script Z n (mesh_edge_routes_key (vh_edge_id vh)) (map ser ads)) db of
             (Inl e, db') \<Rightarrow> (Inl e, vh, db')
           | (Inr _, db') \<Rightarrow> (Inr (), vh\<lparr>vh_published_routes := None\<rparr>, db'))"

definition fetch_routes ::
  "'db redis_sets \<Rightarrow> (string \<Rightarrow> route_ad option) \<Rightarrow> nat \<Rightarrow> 'db \<Rightarrow> (route_ad \<times> nat) list" where
  "fetch_routes Z de now db =
     List.map_filter (\<lambda>(m, expiry). map_option (\<lambda>ad. (ad, expiry)) (de m))
       (rz_rangebyscore Z MESH_ROUTES_KEY now db)"

text \<open>The advertiser. \<open>advertise_request\<close> is the part of \<open>advertise_now\<close> before the publish lock,
  \<open>advertise_locked\<close> the part that holds it; \<open>info_ok\<close> says whether publishing the Edge
  information succeeded.\<close>

record publish_state =
  ps_covered :: nat
  ps_stopped :: bool
  ps_requests :: nat

definition advertise_request :: "publish_state \<Rightarrow> nat \<times> publish_state" where
  "advertise_request ps = (ps_requests ps + 1, ps\<lparr>ps_requests := ps_requests ps + 1\<rparr>)"

definition advertise_locked ::
  "'db redis_sets \<Rightarrow> (route_ad \<Rightarrow> string) \<Rightarrow> (string list \<Rightarrow> 64 word) \<Rightarrow> bool \<Rightarrow> round_trip \<Rightarrow> nat \<Rightarrow> nat
   \<Rightarrow> nat \<Rightarrow> nat \<Rightarrow> 'c registry \<Rightarrow> publish_state \<Rightarrow> valkey_handle \<Rightarrow> 'db
   \<Rightarrow> publish_state \<times> valkey_handle \<times> 'db" where
  "advertise_locked Z ser digest info_ok net n now ttl request registry ps vh db =
     (if ps_stopped ps \<or> ps_covered ps \<ge> request then (ps, vh, db)
      else if \<not> info_ok then (ps, vh, db)
      else case publish_routes Z ser digest net n now ttl (local_ads registry (vh_edge_id vh)) vh db of
             (Inl _, vh', db') \<Rightarrow> (ps, vh', db')
           | (Inr _, vh', db') \<Rightarrow> (ps\<lparr>ps_covered := ps_requests ps\<rparr>, vh', db'))"

definition withdraw_registration ::
  "'db redis_sets \<Rightarrow> (route_ad \<Rightarrow> string) \<Rightarrow> round_trip \<Rightarrow> nat \<Rightarrow> 'c connector_handle \<Rightarrow> valkey_handle
   \<Rightarrow> 'db \<Rightarrow> (control_plane_error, unit) result \<times> valkey_handle \<times> 'db" where
  "withdraw_registration Z ser net n handle vh db =
     withdraw_routes Z ser net n
       (ads_for (ch_hostnames handle) (supports handle) (ch_tenant_id handle) (vh_edge_id vh)
          (ch_generation handle)) vh db"

definition stop_advertiser ::
  "'db redis_sets \<Rightarrow> (route_ad \<Rightarrow> string) \<Rightarrow> round_trip \<Rightarrow> nat \<Rightarrow> 'c registry \<Rightarrow> publish_state
   \<Rightarrow> valkey_handle \<Rightarrow> 'db \<Rightarrow> publish_state \<times> valkey_handle \<times> 'db" where
  "stop_advertiser Z ser net n registry ps vh db =
     (case withdraw_routes Z ser net n (local_ads registry (vh_edge_id vh)) vh db of
        (_, vh', db') \<Rightarrow> (ps\<lparr>ps_stopped := True\<rparr>, vh', db'))"

subsection \<open>Facts on the route table\<close>

definition lookup2 :: "route_table \<Rightarrow> string \<Rightarrow> protocol \<Rightarrow> remote_route list option" where
  "lookup2 t h p = (case map_of t h of None \<Rightarrow> None | Some ps \<Rightarrow> map_of ps p)"

lemma lookup2_replace_step:
  "lookup2 (replace_step ((h', p'), cs) t) h p =
     (if h' = h \<and> p' = p then Some (sort_candidates h cs) else lookup2 t h p)"
  by (auto simp: lookup2_def replace_step_def Let_def tab_simps split: option.splits)

lemma lookup2_replace:
  assumes "wf_table routes"
  shows "lookup2 (fold replace_step routes t) h p =
           (case map_of routes (h, p) of Some cs \<Rightarrow> Some (sort_candidates h cs) | None \<Rightarrow> lookup2 t h p)"
  using assms
proof (induction routes arbitrary: t)
  case (Cons e routes)
  obtain h' p' cs where e: "e = ((h', p'), cs)" by (metis surj_pair)
  from Cons have "wf_table routes" "(h', p') \<notin> fst ` set routes"
    by (auto simp: wf_table_def e)
  moreover from this(2) have "map_of routes (h', p') = None" by (simp add: map_of_eq_None_iff)
  ultimately show ?case
    using Cons.IH by (auto simp: e lookup2_replace_step split: option.split)
qed simp

lemma route_candidates_replace:
  assumes "wf_table routes"
  shows "route_candidates (replace_routes routes) h p now =
           filter (\<lambda>r. rr_expires_at r > now)
             (case map_of routes (h, p) of None \<Rightarrow> [] | Some cs \<Rightarrow> sort_candidates h cs)"
proof -
  have "route_candidates t h p now =
        filter (\<lambda>r. rr_expires_at r > now) (case lookup2 t h p of None \<Rightarrow> [] | Some rs \<Rightarrow> rs)" for t
    by (simp add: route_candidates_def lookup2_def split: option.split)
  then show ?thesis
    using lookup2_replace [OF assms, of "[]" h p]
    by (simp add: replace_routes_def lookup2_def split: option.split)
qed

definition routes_at :: "((string \<times> protocol), remote_route list) table \<Rightarrow> string \<times> protocol \<Rightarrow> remote_route list" where
  "routes_at t k = (case map_of t k of None \<Rightarrow> [] | Some rs \<Rightarrow> rs)"

lemma routes_at_add: "routes_at (add_route k r t) k' = routes_at t k' @ (if k' = k then [r] else [])"
  by (simp add: routes_at_def add_route_def tab_simps)

lemma collect_routes_at:
  "routes_at (collect_routes cfg peers infos now now_ms ads) k =
     List.map_filter (\<lambda>e. if (ra_hostname (fst e), ra_protocol (fst e)) = k
                          then sync_route cfg peers infos now now_ms e else None) ads"
proof -
  let ?f = "\<lambda>entry routes. case sync_route cfg peers infos now now_ms entry of
               None \<Rightarrow> routes
             | Some r \<Rightarrow> add_route (ra_hostname (fst entry), ra_protocol (fst entry)) r routes"
  have "routes_at (fold ?f ads t) k = routes_at t k @
     List.map_filter (\<lambda>e. if (ra_hostname (fst e), ra_protocol (fst e)) = k
                          then sync_route cfg peers infos now now_ms e else None) ads" for t
    by (induction ads arbitrary: t) (auto simp: routes_at_add List.map_filter_simps split: option.split)
  from this [of "[]"] show ?thesis by (simp add: collect_routes_def routes_at_def)
qed

lemma wf_collect_routes [simp]: "wf_table (collect_routes cfg peers infos now now_ms ads)"
proof -
  let ?f = "\<lambda>entry routes. case sync_route cfg peers infos now now_ms entry of
               None \<Rightarrow> routes
             | Some r \<Rightarrow> add_route (ra_hostname (fst entry), ra_protocol (fst entry)) r routes"
  have "wf_table t \<Longrightarrow> wf_table (fold ?f ads t)" for t
    by (induction ads arbitrary: t) (auto simp: add_route_def split: option.split)
  then show ?thesis by (simp add: collect_routes_def)
qed

abbreviation route_key :: "string \<Rightarrow> remote_route \<Rightarrow> 64 word \<times> string" where
  "route_key h r \<equiv> (rank h (rr_edge_id r), rr_edge_id r)"

lemma sort_candidates_sorted [simp]: "sorted (map (route_key h) (sort_candidates h rs))"
  by (simp add: sort_candidates_def)

lemma set_sort_candidates [simp]: "set (sort_candidates h rs) = set rs"
  by (simp add: sort_candidates_def)

lemma sync_candidates:
  "route_candidates (replace_routes (collect_routes cfg peers infos now now_ms ads)) h p now'
   = filter (\<lambda>r. rr_expires_at r > now')
       (sort_candidates h (routes_at (collect_routes cfg peers infos now now_ms ads) (h, p)))"
  by (simp add: route_candidates_replace routes_at_def sort_candidates_def split: option.split)

lemma sync_route_Some:
  "sync_route cfg peers infos now now_ms (ad, e) = Some r \<longleftrightarrow>
     ra_edge_id ad \<in> set peers
     \<and> (\<exists>info addr. map_of infos (ra_edge_id ad) = Some info
          \<and> (ra_protocol ad = Udp \<longrightarrow> ei_udp info) \<and> route_addr cfg (ra_edge_id ad) info = Some addr
          \<and> r = \<lparr>rr_edge_id = ra_edge_id ad, rr_tenant_id = ra_tenant_id ad,
                 rr_generation = ra_generation ad, rr_addr = addr,
                 rr_expires_at = now + (e - now_ms)\<rparr>)"
  by (auto simp: sync_route_def split: option.splits if_splits)

lemma set_usable_peers:
  "e \<in> set (usable_peers cfg ads live) \<longleftrightarrow>
     e \<in> (ra_edge_id \<circ> fst) ` set ads \<and> e \<noteq> sc_edge_id cfg \<and> e \<in> set (sc_allowed_peers cfg) \<and> e \<in> set live"
  by (auto simp: usable_peers_def image_iff) force+

subsection \<open>Facts on advertisements\<close>

lemma local_ads_for:
  "local_ads r edge_id =
     concat (map (\<lambda>h. ads_for (ch_hostnames h) (supports h) (ch_tenant_id h) edge_id (ch_generation h))
       (snapshot r))"
  by (simp add: local_ads_def ads_for_def)

lemma set_ads_for:
  "ad \<in> set (ads_for hs f t e g) \<longleftrightarrow>
     ra_hostname ad \<in> set hs \<and> f (ra_hostname ad) (ra_protocol ad)
     \<and> ra_tenant_id ad = t \<and> ra_edge_id ad = e \<and> ra_generation ad = g"
proof -
  obtain p where p: "ra_protocol ad = p" by blast
  have "p \<in> set [Http, Tcp, Udp]" by (cases p) auto
  then show ?thesis
    using p by (cases ad) (auto simp: ads_for_def image_iff)
qed

lemma set_local_ads:
  assumes "reg_inv r"
  shows "ad \<in> set (local_ads r e) \<longleftrightarrow>
     ra_edge_id ad = e
     \<and> (\<exists>h. get_by_hostname r (ra_hostname ad) = Some h \<and> supports h (ra_hostname ad) (ra_protocol ad)
          \<and> ra_tenant_id ad = ch_tenant_id h \<and> ra_generation ad = ch_generation h)"
  unfolding local_ads_for using rd.lookup_iff [OF assms, of "ra_hostname ad"]
  by (auto simp: set_ads_for)

subsection \<open>Facts on publication\<close>

lemma redis_setsD:
  assumes "redis_sets_ok Z zv sv"
  shows "zv (rz_add Z k s m db) = (zv db)(k := (zv db k)(m \<mapsto> s))"
    and "zv (snd (rz_rem Z k m db)) = (zv db)(k := (zv db k)(m := None))"
    and "zv (rz_remrangebyscore Z k s db) =
          (zv db)(k := (\<lambda>m. case zv db k m of None \<Rightarrow> None | Some x \<Rightarrow> if x \<le> s then None else Some x))"
    and "set (rz_rangebyscore Z k s db) = {(m, x). zv db k m = Some x \<and> s \<le> x}"
    and "set (rs_members Z n k db) = sv n db k"
    and "sv n (rs_add Z n k m db) = (sv n db)(k := insert m (sv n db k))"
    and "sv n (rs_rem Z n k m db) = (sv n db)(k := sv n db k - {m})"
    and "0 < t \<Longrightarrow> sv n (rs_pexpire Z n k t db) = sv n db"
    and "sv n (rz_add Z k s m db) = sv n db" "sv n (snd (rz_rem Z k m db)) = sv n db"
    and "sv n (rz_remrangebyscore Z k s db) = sv n db"
    and "zv (rs_add Z n k m db) = zv db" "zv (rs_rem Z n k m db) = zv db"
    and "zv (rs_pexpire Z n k t db) = zv db"
  using assms unfolding redis_sets_ok_def by (simp_all add: fun_eq_iff)

lemma drop_stale_pair:
  "drop_stale Z n zk sk desired m (c, db) =
     (if m \<in> set desired then (c, db)
      else (c + fst (rz_rem Z zk m db), rs_rem Z n sk m (snd (rz_rem Z zk m db))))"
  by (simp add: drop_stale_def split: prod.split)

lemma drop_stale_all:
  assumes Z: "redis_sets_ok Z zv sv"
    and "fold (drop_stale Z n zk sk desired) ms (c, db) = (c', db')"
  shows "zv db' = (zv db)(zk := (\<lambda>m. if m \<in> set ms - set desired then None else zv db zk m))
         \<and> sv n db' = (sv n db)(sk := sv n db sk - (set ms - set desired))"
  using assms(2)
proof (induction ms arbitrary: c db)
  case (Cons m ms)
  show ?case
  proof (cases "m \<in> set desired")
    case True
    with Cons.prems Cons.IH [of c db] show ?thesis by (auto simp: drop_stale_pair fun_eq_iff)
  next
    case False
    let ?db = "rs_rem Z n sk m (snd (rz_rem Z zk m db))"
    have "fold (drop_stale Z n zk sk desired) ms (c + fst (rz_rem Z zk m db), ?db) = (c', db')"
      using Cons.prems False by (simp add: drop_stale_pair)
    from Cons.IH [OF this] False show ?thesis
      by (auto simp: redis_setsD [OF Z] fun_eq_iff)
  qed
qed auto

lemma add_members:
  assumes Z: "redis_sets_ok Z zv sv"
  shows "zv (fold (\<lambda>m db. rs_add Z n sk m (rz_add Z zk e m db)) ms db) =
           (zv db)(zk := (\<lambda>m. if m \<in> set ms then Some e else zv db zk m))
         \<and> sv n (fold (\<lambda>m db. rs_add Z n sk m (rz_add Z zk e m db)) ms db) =
           (sv n db)(sk := sv n db sk \<union> set ms)"
proof (induction ms arbitrary: db)
  case (Cons m ms)
  show ?case
    using Cons.IH [of "rs_add Z n sk m (rz_add Z zk e m db)"]
    by (auto simp: redis_setsD [OF Z] fun_eq_iff)
qed auto

lemma routes_replace_effect:
  assumes Z: "redis_sets_ok Z zv sv" and ttl: "0 < ttl"
    and run: "routes_replace_script Z n zk sk now e ttl changed ms db = (res, db')"
  shows "zv db' zk m =
           (if m \<in> set ms then Some e
            else if m \<in> sv n db sk then None
            else case zv db zk m of None \<Rightarrow> None | Some x \<Rightarrow> if x \<le> now then None else Some x)"
    and "sv n db' sk = set ms"
proof -
  obtain removed db1 where d: "fold (drop_stale Z n zk sk ms) (rs_members Z n sk db) (0, db) = (removed, db1)"
    by fastforce
  note ds = drop_stale_all [OF Z d]
  let ?db2 = "rz_remrangebyscore Z zk now db1"
  let ?db3 = "fold (\<lambda>m db. rs_add Z n sk m (rz_add Z zk e m db)) ms ?db2"
  have db': "db' = (if ms \<noteq> [] then rs_pexpire Z n sk ttl ?db3 else ?db3)"
    using run d by (simp add: routes_replace_script_def Let_def)
  have z: "zv db' = zv ?db3" "sv n db' = sv n ?db3"
    using ttl by (simp_all add: db' redis_setsD(8,14) [OF Z])
  show "zv db' zk m =
           (if m \<in> set ms then Some e
            else if m \<in> sv n db sk then None
            else case zv db zk m of None \<Rightarrow> None | Some x \<Rightarrow> if x \<le> now then None else Some x)"
    unfolding z using add_members [OF Z, of n sk zk e ms ?db2]
    by (simp add: ds redis_setsD(3,5) [OF Z])
  show "sv n db' sk = set ms"
    unfolding z using add_members [OF Z, of n sk zk e ms ?db2]
    by (auto simp: ds redis_setsD(5,11) [OF Z])
qed

lemma withdraw_script_effect:
  assumes Z: "redis_sets_ok Z zv sv"
  shows "zv (snd (withdraw_script Z n own ms db)) =
           (zv db)(MESH_ROUTES_KEY := (\<lambda>m. if m \<in> set ms then None else zv db MESH_ROUTES_KEY m))"
proof -
  have "zv (fold (\<lambda>m db. rs_rem Z n own m (snd (rz_rem Z MESH_ROUTES_KEY m db))) ms db) =
           (zv db)(MESH_ROUTES_KEY := (\<lambda>m. if m \<in> set ms then None else zv db MESH_ROUTES_KEY m))"
  proof (induction ms arbitrary: db)
    case (Cons m ms)
    show ?case
      using Cons.IH [of "rs_rem Z n own m (snd (rz_rem Z MESH_ROUTES_KEY m db))"]
      by (auto simp: redis_setsD [OF Z] fun_eq_iff)
  qed auto
  then show ?thesis by (simp add: withdraw_script_def)
qed

text \<open>The advertisements a successful sync turns into routes, and the route it makes of one.\<close>

definition usable_ad ::
  "sync_config \<Rightarrow> string list \<Rightarrow> (string, edge_info) table \<Rightarrow> route_ad \<Rightarrow> socket_addr \<Rightarrow> bool" where
  "usable_ad cfg edges infos ad addr \<longleftrightarrow>
     ra_edge_id ad \<noteq> sc_edge_id cfg \<and> ra_edge_id ad \<in> set (sc_allowed_peers cfg)
     \<and> ra_edge_id ad \<in> set edges
     \<and> (\<exists>info. map_of infos (ra_edge_id ad) = Some info \<and> (ra_protocol ad = Udp \<longrightarrow> ei_udp info)
          \<and> route_addr cfg (ra_edge_id ad) info = Some addr)"

definition route_of :: "nat \<Rightarrow> nat \<Rightarrow> route_ad \<Rightarrow> nat \<Rightarrow> socket_addr \<Rightarrow> remote_route" where
  "route_of now now_ms ad expiry addr =
     \<lparr>rr_edge_id = ra_edge_id ad, rr_tenant_id = ra_tenant_id ad, rr_generation = ra_generation ad,
      rr_addr = addr, rr_expires_at = now + (expiry - now_ms)\<rparr>"

lemma sync_route_usable:
  assumes "(ad, e) \<in> set ads"
  shows "sync_route cfg (usable_peers cfg ads edges) infos now now_ms (ad, e) = Some r \<longleftrightarrow>
           (\<exists>addr. usable_ad cfg edges infos ad addr \<and> r = route_of now now_ms ad e addr)"
proof -
  have "ra_edge_id ad \<in> (ra_edge_id \<circ> fst) ` set ads" using assms by force
  then show ?thesis
    by (auto simp: sync_route_Some set_usable_peers usable_ad_def route_of_def)
qed

lemma set_collected:
  "r \<in> set (routes_at (collect_routes cfg (usable_peers cfg ads edges) infos now now_ms ads) (h, p)) \<longleftrightarrow>
     (\<exists>ad e addr. (ad, e) \<in> set ads \<and> ra_hostname ad = h \<and> ra_protocol ad = p
        \<and> usable_ad cfg edges infos ad addr \<and> r = route_of now now_ms ad e addr)"
proof -
  have "r \<in> set (routes_at (collect_routes cfg peers infos now now_ms ads) (h, p)) \<longleftrightarrow>
     (\<exists>ad e. (ad, e) \<in> set ads \<and> ra_hostname ad = h \<and> ra_protocol ad = p
        \<and> sync_route cfg peers infos now now_ms (ad, e) = Some r)" for peers
    unfolding collect_routes_at List.map_filter_def by (force split: if_splits)
  then show ?thesis using sync_route_usable by blast
qed

subsection \<open>Properties\<close>

text \<open>Synchronisation is sound and complete: after a successful sync the candidates for a
  hostname and protocol are exactly the unexpired advertisements for them from live,
  allowed Edges other than this one that published how to reach them (and that they forward
  UDP, for UDP), each with its tenant, generation and address; they are ordered by the rank
  of hostname and Edge, so every Edge tries the same peer first; and a failed sync keeps
  the previous table.\<close>

theorem sync_routes_exact:
  assumes "sync cfg fetched live fetch_infos now now_ms t = (res, t')"
  shows "(\<forall>ads edges infos. fetched = Inr ads \<and> live = Inr edges
             \<and> fetch_infos (usable_peers cfg ads edges) = Inr infos \<longrightarrow>
           res = Inr () \<and> sorted (map (route_key h) (route_candidates t' h p now'))
           \<and> (\<forall>r. r \<in> set (route_candidates t' h p now') \<longleftrightarrow>
                now' < rr_expires_at r
                \<and> (\<exists>ad e addr. (ad, e) \<in> set ads \<and> ra_hostname ad = h \<and> ra_protocol ad = p
                     \<and> usable_ad cfg edges infos ad addr \<and> r = route_of now now_ms ad e addr)))
         \<and> (res \<noteq> Inr () \<longrightarrow> t' = t)"
proof (intro conjI allI impI)
  show "t' = t" if "res \<noteq> Inr ()"
    using that assms by (auto simp: sync_def Let_def split: sum.splits)
next
  fix ads edges infos
  assume ok: "fetched = Inr ads \<and> live = Inr edges
             \<and> fetch_infos (usable_peers cfg ads edges) = Inr infos"
  let ?cs = "routes_at (collect_routes cfg (usable_peers cfg ads edges) infos now now_ms ads) (h, p)"
  have t': "route_candidates t' h p now'
      = filter (\<lambda>r. rr_expires_at r > now') (sort_candidates h ?cs)"
    using ok assms by (auto simp: sync_def Let_def sync_candidates)
  show "sorted (map (route_key h) (route_candidates t' h p now'))"
    unfolding t' using sort_candidates_sorted by (rule sorted_filter)
  show "r \<in> set (route_candidates t' h p now') \<longleftrightarrow>
                now' < rr_expires_at r
                \<and> (\<exists>ad e addr. (ad, e) \<in> set ads \<and> ra_hostname ad = h \<and> ra_protocol ad = p
                     \<and> usable_ad cfg edges infos ad addr \<and> r = route_of now now_ms ad e addr)" for r
    unfolding t' using set_collected [of r] by auto
  show "res = Inr ()" using ok assms by (auto simp: sync_def Let_def)
qed

definition sample_sync_config :: sync_config where
  "sample_sync_config =
     \<lparr>sc_edge_id = ''e1'', sc_allowed_peers = [''e2''], sc_static_addrs = [(''e2'', SocketV4 1 2)]\<rparr>"

definition sample_ad :: route_ad where
  "sample_ad = \<lparr>ra_hostname = ''a'', ra_protocol = Http, ra_tenant_id = ''t'', ra_edge_id = ''e2'',
                ra_generation = 4\<rparr>"

theorem sync_routes_exact_witness:
  "route_of 100 1000 sample_ad 1050 (SocketV4 1 2) \<in> set (route_candidates
     (snd (sync sample_sync_config (Inr [(sample_ad, 1050)]) (Inr [''e2''])
        (\<lambda>_. Inr [(''e2'', \<lparr>ei_advertise = [], ei_udp = False\<rparr>)]) 100 1000 [])) ''a'' Http 120)"
proof -
  let ?infos = "[(''e2'', \<lparr>ei_advertise = [], ei_udp = False\<rparr>)]"
  obtain res t' where run: "sync sample_sync_config (Inr [(sample_ad, 1050)]) (Inr [''e2''])
      (\<lambda>_. Inr ?infos) 100 1000 [] = (res, t')"
    by fastforce
  have "usable_ad sample_sync_config [''e2''] ?infos sample_ad (SocketV4 1 2)"
    by (simp add: usable_ad_def sample_sync_config_def sample_ad_def route_addr_def)
  moreover have "120 < rr_expires_at (route_of 100 1000 sample_ad 1050 (SocketV4 1 2))"
    by (simp add: route_of_def)
  ultimately have "route_of 100 1000 sample_ad 1050 (SocketV4 1 2) \<in> set (route_candidates t' ''a'' Http 120)"
    using sync_routes_exact [OF run, of "''a''" Http 120, THEN conjunct1, rule_format, of "[(sample_ad, 1050)]" "[''e2'']" ?infos]
    by (auto simp: sample_ad_def)
  with run show ?thesis by simp
qed

text \<open>Publishing replaces exactly this Edge's routes: afterwards the advertised members are
  those of the current registry snapshot with the new expiry, the members this Edge had
  published before and no longer serves are gone, the unexpired members of other Edges are
  untouched, and expired members are dropped; withdrawing removes exactly the given
  advertisements, so with an injective encoding a newer generation's route stays.\<close>

theorem publish_replaces_own_routes:
  assumes Z: "redis_sets_ok Z zv sv" and ttl: "0 < ttl"
    and pub: "publish_routes Z ser digest Delivered n now ttl ads vh db = (res, vh', db')"
    and wdr: "withdraw_routes Z ser Delivered n gone vh db = (res2, vh2, db2)"
    and inj: "inj_on ser (insert kept (set gone))"
  shows "(zv db' MESH_ROUTES_KEY m =
            (if m \<in> ser ` set ads then Some (now + ttl)
             else if m \<in> sv n db (mesh_edge_routes_key (vh_edge_id vh)) then None
             else case zv db MESH_ROUTES_KEY m of
                    None \<Rightarrow> None | Some x \<Rightarrow> if x \<le> now then None else Some x))
         \<and> sv n db' (mesh_edge_routes_key (vh_edge_id vh)) = ser ` set ads
         \<and> zv db2 MESH_ROUTES_KEY (ser kept) =
             (if kept \<in> set gone then None else zv db MESH_ROUTES_KEY (ser kept))"
proof -
  obtain res' where s: "routes_replace_script Z n MESH_ROUTES_KEY (mesh_edge_routes_key (vh_edge_id vh))
      now (now + ttl) ttl (vh_published_routes vh \<noteq> Some (digest (map ser ads)) \<and> ads \<noteq> [])
      (map ser ads) db = (res', db')"
    using pub by (auto simp: publish_routes_def invoke_def Let_def split: prod.splits)
  have "ser kept \<in> ser ` set gone \<longleftrightarrow> kept \<in> set gone"
    using inj by (auto simp: inj_on_def)
  then have "zv db2 MESH_ROUTES_KEY (ser kept) =
      (if kept \<in> set gone then None else zv db MESH_ROUTES_KEY (ser kept))"
    using wdr withdraw_script_effect [OF Z, of n "mesh_edge_routes_key (vh_edge_id vh)" "map ser gone" db]
    by (cases "gone = []") (auto simp: withdraw_routes_def invoke_def withdraw_script_def)
  then show ?thesis
    using routes_replace_effect [OF Z ttl s] by simp
qed

text \<open>A server that satisfies the hypothesis: association lists per sorted set, lists per set.\<close>

type_synonym list_db = "(string \<Rightarrow> (string \<times> nat) list) \<times> (string \<Rightarrow> string list)"

definition drop_scores :: "nat \<Rightarrow> (string \<times> nat) list \<Rightarrow> (string \<times> nat) list" where
  "drop_scores s t =
     fold t_remove (filter (\<lambda>m. case map_of t m of None \<Rightarrow> False | Some x \<Rightarrow> x \<le> s) (map fst t)) t"

definition list_sets :: "list_db redis_sets" where
  "list_sets =
     \<lparr>rz_add = (\<lambda>k s m (z, v). (z(k := t_insert m s (z k)), v)),
      rz_rem = (\<lambda>k m (z, v). (if map_of (z k) m = None then 0 else 1, (z(k := t_remove m (z k)), v))),
      rz_remrangebyscore = (\<lambda>k s (z, v). (z(k := drop_scores s (z k)), v)),
      rz_rangebyscore = (\<lambda>k s (z, v).
        List.map_filter (\<lambda>m. case map_of (z k) m of
            None \<Rightarrow> None | Some x \<Rightarrow> if s \<le> x then Some (m, x) else None) (map fst (z k))),
      rs_members = (\<lambda>n k (z, v). v k),
      rs_add = (\<lambda>n k m (z, v). (z, v(k := m # v k))),
      rs_rem = (\<lambda>n k m (z, v). (z, v(k := removeAll m (v k)))),
      rs_pexpire = (\<lambda>n k t db. db)\<rparr>"

lemma map_of_fold_remove: "map_of (fold t_remove ms t) m = (if m \<in> set ms then None else map_of t m)"
  by (induction ms arbitrary: t) (auto simp: tab_simps)

lemma map_of_drop_scores:
  "map_of (drop_scores s t) m = (case map_of t m of None \<Rightarrow> None | Some x \<Rightarrow> if x \<le> s then None else Some x)"
proof -
  have "m \<in> set (map fst t)" if "map_of t m = Some x" for x
    using map_of_SomeD [OF that] by force
  then show ?thesis
    by (auto simp: drop_scores_def map_of_fold_remove split: option.split)
qed

lemma range_scores:
  "set (List.map_filter (\<lambda>m. case map_of t m of
            None \<Rightarrow> None | Some x \<Rightarrow> if s \<le> x then Some (m, x) else None) (map fst t))
   = {(m, x). map_of t m = Some x \<and> s \<le> x}"
proof -
  have "m \<in> set (map fst t)" if "map_of t m = Some x" for m x
    using map_of_SomeD [OF that] by force
  then show ?thesis
    by (force simp: List.map_filter_def image_iff split: option.splits if_splits)
qed

lemma list_sets_ok:
  "redis_sets_ok list_sets (\<lambda>(z, v) k. map_of (z k)) (\<lambda>n (z, v) k. set (v k))"
  by (simp add: redis_sets_ok_def list_sets_def split_def fun_eq_iff tab_simps map_of_drop_scores
      range_scores del: List.map_filter_simps)

definition sample_ser :: "route_ad \<Rightarrow> string" where
  "sample_ser ad = show_nat (unat (ra_generation ad))"

definition sample_list_db :: list_db where
  "sample_list_db = ((\<lambda>_. [(''3'', 90), (''other'', 80)]), (\<lambda>_. [''3'']))"

theorem publish_replaces_own_routes_witness:
  "\<exists>res vh' z v. publish_routes list_sets sample_ser (\<lambda>_. 0) Delivered 1 5 10 [sample_ad] sample_vh
       sample_list_db = (res, vh', z, v)
     \<and> map_of (z MESH_ROUTES_KEY) (sample_ser sample_ad) = Some 15"
proof -
  let ?old = "sample_ad\<lparr>ra_generation := 3\<rparr>"
  obtain res vh' z v where pub:
    "publish_routes list_sets sample_ser (\<lambda>_. 0) Delivered 1 5 10 [sample_ad] sample_vh
       sample_list_db = (res, vh', z, v)"
    by (metis surj_pair)
  obtain res2 vh2 db2 where wdr:
    "withdraw_routes list_sets sample_ser Delivered 1 [?old] sample_vh sample_list_db = (res2, vh2, db2)"
    by (metis surj_pair)
  have "inj_on sample_ser (insert sample_ad (set [?old]))"
    by (simp add: sample_ser_def sample_ad_def show_nat_inj)
  from publish_replaces_own_routes [OF list_sets_ok _ pub wdr this, of "sample_ser sample_ad"] pub
  show ?thesis by simp
qed

end
