(* ===== verification/Mesh_Forward.thy ===== *)
theory Mesh_Forward
  imports Tunnel Peer_Pool Permits Mesh_Routes
begin

text \<open>
  Forwarding between Edges (\<open>sievetube-edge/src/mesh/forward.rs\<close>): the ingress side opens a
  stream or sends a datagram to the peer that has the Connector, the receiving side checks
  the request, delivers it to its own Connector and returns replies. What the network does
  (handshakes, stream opens, arriving frames, timeouts, what other tasks do while this one
  waits) is an argument of each operation. The byte pipe of an accepted stream is not modelled.
\<close>

subsection \<open>State\<close>

record ('s, 'c) mesh_service =
  ms_edge_id :: string
  ms_pool :: "'c peer_pool"
  ms_routes :: route_table
  ms_registry :: "'c registry"
  ms_limits :: mesh_limits
  ms_outbound :: permit_table
  ms_inbound :: permit_table
  ms_udp_replies :: "('s, 'c) udp_reply_table"

definition new_mesh_service ::
  "string \<Rightarrow> 'c peer_pool \<Rightarrow> route_table \<Rightarrow> 'c registry \<Rightarrow> mesh_limits \<Rightarrow> ('s, 'c) udp_reply_table
   \<Rightarrow> ('s, 'c) mesh_service" where
  "new_mesh_service edge_id pool routes registry limits udp_replies =
     \<lparr>ms_edge_id = edge_id, ms_pool = pool, ms_routes = routes, ms_registry = registry,
      ms_limits = limits, ms_outbound = empty_permits, ms_inbound = empty_permits,
      ms_udp_replies = udp_replies\<rparr>"

definition sweep_permits :: "('s, 'c) mesh_service \<Rightarrow> ('s, 'c) mesh_service" where
  "sweep_permits ms =
     ms\<lparr>ms_outbound := sweep_permit_table (ms_limits ms) (ms_outbound ms),
        ms_inbound := sweep_permit_table (ms_limits ms) (ms_inbound ms)\<rparr>"

text \<open>Durations are natural numbers of nanoseconds.\<close>

definition ANSWER_MARGIN :: nat where "ANSWER_MARGIN = 100000000"
definition MIN_SILENCE :: nat where "MIN_SILENCE = 1000000000"

definition millis :: "nat \<Rightarrow> 64 word" where
  "millis duration = word_of_nat (min (duration div 1000000) (2 ^ 64 - 1))"

record silence_probe =
  sp_elapsed :: nat
  sp_rtt :: nat
  sp_received_before :: nat
  sp_received_now :: nat

definition went_silent :: "silence_probe \<Rightarrow> bool" where
  "went_silent p \<longleftrightarrow>
     sp_elapsed p \<ge> max (sp_rtt p * 4) MIN_SILENCE \<and> sp_received_now p = sp_received_before p"

datatype forward_failure =
    NoConnection pool_error
  | NoSlot no_slot
  | StreamFailed
  | BadResponse wire_error
  | NoAnswer
  | PeerRejected reject_reason

record forward_error =
  fe_message :: forward_failure
  fe_retryable :: bool
  fe_timed_out :: bool

definition retryable_error :: "forward_failure \<Rightarrow> forward_error" where
  "retryable_error m = \<lparr>fe_message = m, fe_retryable = True, fe_timed_out = False\<rparr>"

definition timeout_error :: "forward_failure \<Rightarrow> forward_error" where
  "timeout_error m = \<lparr>fe_message = m, fe_retryable = True, fe_timed_out = True\<rparr>"

definition rejected_error :: "reject_reason option \<Rightarrow> forward_error" where
  "rejected_error reason =
     (let r = (case reason of None \<Rightarrow> Invalid | Some r \<Rightarrow> r)
      in \<lparr>fe_message = PeerRejected r, fe_retryable = retryable r, fe_timed_out = False\<rparr>)"

subsection \<open>Ingress side: streams\<close>

text \<open>How the exchange with the peer goes: no stream, the request not sent, an answer, or the
  deadline (after the request was sent if there is a probe).\<close>

datatype exchange =
    OpenStreamFailed
  | SendRequestFailed
  | Responded bytes
  | DeadlinePassed "silence_probe option"

record 'c remote_env =
  re_net :: "'c mesh_net"
  re_now :: nat
  re_now2 :: nat
  re_waited :: "'c peer_pool \<Rightarrow> 'c peer_pool"
  re_dialled :: "'c option"
  re_meanwhile_t :: "permits \<Rightarrow> permits"
  re_meanwhile_p :: "permits \<Rightarrow> permits"
  re_remaining :: nat
  re_exchange :: exchange
  re_end :: nat

definition remote_request ::
  "string \<Rightarrow> remote_route \<Rightarrow> string \<Rightarrow> protocol \<Rightarrow> socket_addr \<Rightarrow> 64 word \<Rightarrow> nat \<Rightarrow> forward_request" where
  "remote_request edge_id route hostname protocol client_addr request_id remaining =
     \<lparr>fr_version = MESH_VERSION, fr_ingress_edge_id = edge_id, fr_tenant_id = rr_tenant_id route,
      fr_hostname = hostname, fr_protocol = protocol, fr_client_addr = client_addr,
      fr_request_id = request_id, fr_hops_remaining = 1,
      fr_connection_generation = rr_generation route,
      fr_response_budget_ms = Some (millis remaining)\<rparr>"

text \<open>The exchange itself: the result, the pool and the state of the network afterwards. A stream
  error cools the peer down only if it closed the shared connection.\<close>

definition exchange_request ::
  "(forward_request \<Rightarrow> bytes) \<Rightarrow> (bytes \<Rightarrow> forward_response option) \<Rightarrow> 'c remote_env \<Rightarrow> string \<Rightarrow> 'c
   \<Rightarrow> forward_request \<Rightarrow> 'c peer_pool
   \<Rightarrow> (forward_error, bytes) result \<times> 'c mesh_net \<times> 'c peer_pool" where
  "exchange_request ser_req de_resp env edge_id connection request pool =
     (let net = re_net env;
          failed = (\<lambda>m. (Inl (retryable_error m), net,
                         connection_failed net (re_end env) edge_id connection pool))
      in case re_exchange env of
           OpenStreamFailed \<Rightarrow> failed StreamFailed
         | DeadlinePassed None \<Rightarrow> (Inl (timeout_error NoAnswer), net, pool)
         | other \<Rightarrow>
             (case write_forward_request ser_req request of
                Inl _ \<Rightarrow> failed StreamFailed
              | Inr sent \<Rightarrow>
                  (case other of
                     Responded s \<Rightarrow>
                       (case read_forward_response de_resp s of
                          Inl e \<Rightarrow> failed (BadResponse e)
                        | Inr (response, _) \<Rightarrow>
                            if fw_accepted response then (Inr sent, net, pool)
                            else (Inl (rejected_error (fw_reject response)), net, pool))
                   | DeadlinePassed (Some probe) \<Rightarrow>
                       if went_silent probe
                       then (case connection_unresponsive net (re_end env) edge_id connection pool of
                               (net', pool') \<Rightarrow> (Inl (timeout_error NoAnswer), net', pool'))
                       else (Inl (timeout_error NoAnswer), net, pool)
                   | _ \<Rightarrow> failed StreamFailed)))"

definition open_remote_stream ::
  "(forward_request \<Rightarrow> bytes) \<Rightarrow> (bytes \<Rightarrow> forward_response option) \<Rightarrow> 'c remote_env
   \<Rightarrow> remote_route \<Rightarrow> string \<Rightarrow> protocol \<Rightarrow> socket_addr \<Rightarrow> 64 word \<Rightarrow> ('s, 'c) mesh_service
   \<Rightarrow> (forward_error, bytes) result \<times> 'c mesh_net \<times> 64 word \<times> ('s, 'c) mesh_service" where
  "open_remote_stream ser_req de_resp env route hostname protocol client_addr counter ms =
     (let edge_id = rr_edge_id route; tenant = rr_tenant_id route
      in case pool_connection (re_net env) (re_now env) (re_now2 env) (re_waited env) edge_id
                (re_dialled env) (ms_pool ms) of
           (Inl e, pool) \<Rightarrow>
             (Inl (retryable_error (NoConnection e)), re_net env, counter, ms\<lparr>ms_pool := pool\<rparr>)
         | (Inr connection, pool) \<Rightarrow>
             (case tenant_and_peer (ms_limits ms) (re_meanwhile_t env) (re_meanwhile_p env)
                     tenant edge_id (ms_outbound ms) of
                (Inl slot, outbound) \<Rightarrow>
                  (Inl (timeout_error (NoSlot slot)), re_net env, counter,
                   ms\<lparr>ms_pool := pool, ms_outbound := outbound\<rparr>)
              | (Inr _, outbound) \<Rightarrow>
                  (let (request_id, counter') = next_request_id counter;
                       request = remote_request (ms_edge_id ms) route hostname protocol client_addr
                                   request_id (re_remaining env)
                   in case exchange_request ser_req de_resp env edge_id connection request pool of
                        (Inl e, net, pool') \<Rightarrow>
                          (Inl e, net, counter',
                           ms\<lparr>ms_pool := pool', ms_outbound := drop_permits tenant edge_id outbound\<rparr>)
                      | (Inr sent, net, pool') \<Rightarrow>
                          (Inr sent, net, counter', ms\<lparr>ms_pool := pool', ms_outbound := outbound\<rparr>))))"

subsection \<open>Receiving side: streams\<close>

definition answer_deadline :: "mesh_limits \<Rightarrow> nat \<Rightarrow> 64 word option \<Rightarrow> nat \<Rightarrow> nat" where
  "answer_deadline limits accepted_at budget_ms rtt =
     (let budget = min (case budget_ms of None \<Rightarrow> accept_timeout limits
                                        | Some ms \<Rightarrow> unat ms * 1000000) (accept_timeout limits)
      in accepted_at + (budget - (rtt + ANSWER_MARGIN)))"

text \<open>What the network does to one forwarded stream: the frame that arrives (none before the
  timeout), whether the local stream opens (none before the deadline), whether the ingress
  Edge abandons the request and whether the response is sent.\<close>

record forward_env =
  fn_incoming :: "bytes option"
  fn_meanwhile_t :: "permits \<Rightarrow> permits"
  fn_meanwhile_p :: "permits \<Rightarrow> permits"
  fn_open :: "bool option"
  fn_stopped :: bool
  fn_response_sent :: bool

datatype forward_served =
    Refused reject_reason
  | Abandoned
  | ResponseLost
  | Serving forward_request bytes

text \<open>The checks before anything is opened.\<close>

definition authorize_forward ::
  "'c registry \<Rightarrow> string \<Rightarrow> forward_request \<Rightarrow> (reject_reason, 'c connector_handle) result" where
  "authorize_forward registry peer_id request =
     (case validate_request request of
        Inl reason \<Rightarrow> Inl reason
      | Inr _ \<Rightarrow>
          if fr_ingress_edge_id request \<noteq> peer_id then Inl NotAuthorized
          else case get_by_hostname registry (fr_hostname request) of
            None \<Rightarrow> Inl NoRoute
          | Some connector \<Rightarrow>
              if ch_tenant_id connector \<noteq> fr_tenant_id request then Inl NotAuthorized
              else if \<not> supports connector (fr_hostname request) (fr_protocol request) then Inl NoRoute
              else Inr connector)"

text \<open>\<open>prepare\<close>: the permits, then the local stream. The permits are dropped when it fails.\<close>

definition prepare_forward ::
  "json \<Rightarrow> forward_env \<Rightarrow> string \<Rightarrow> forward_request \<Rightarrow> 64 word \<Rightarrow> mesh_limits \<Rightarrow> permit_table
   \<Rightarrow> (reject_reason, bytes) result \<times> 64 word \<times> permit_table" where
  "prepare_forward J env peer_id request counter limits inbound =
     (let tenant = fr_tenant_id request
      in case tenant_and_peer limits (fn_meanwhile_t env) (fn_meanwhile_p env) tenant peer_id inbound of
           (Inl _, inbound1) \<Rightarrow> (Inl Overloaded, counter, inbound1)
         | (Inr _, inbound1) \<Rightarrow>
             (case open_local_stream J (fn_open env = Some True) counter (fr_hostname request)
                     (fr_protocol request) (fr_client_addr request) of
                (opened, counter') \<Rightarrow>
                  (case fn_open env of
                     None \<Rightarrow> (Inl Overloaded, counter', drop_permits tenant peer_id inbound1)
                   | Some _ \<Rightarrow>
                       (case opened of
                          Inl _ \<Rightarrow> (Inl NoRoute, counter', drop_permits tenant peer_id inbound1)
                        | Inr sent \<Rightarrow> (Inr sent, counter', inbound1)))))"

definition handle_forward ::
  "json \<Rightarrow> (bytes \<Rightarrow> forward_request option) \<Rightarrow> forward_env \<Rightarrow> string \<Rightarrow> 64 word \<Rightarrow> ('s, 'c) mesh_service
   \<Rightarrow> forward_served \<times> 64 word \<times> ('s, 'c) mesh_service" where
  "handle_forward J de_req env peer_id counter ms =
     (case fn_incoming env of
        None \<Rightarrow> (Refused Invalid, counter, ms)
      | Some s \<Rightarrow>
          (case read_forward_request de_req s of
             Inl _ \<Rightarrow> (Refused Invalid, counter, ms)
           | Inr (request, _) \<Rightarrow>
               (case authorize_forward (ms_registry ms) peer_id request of
                  Inl reason \<Rightarrow> (Refused reason, counter, ms)
                | Inr connector \<Rightarrow>
                    (case prepare_forward J env peer_id request counter (ms_limits ms) (ms_inbound ms) of
                       (Inl reason, counter', inbound) \<Rightarrow>
                         (if fn_stopped env then Abandoned else Refused reason, counter',
                          ms\<lparr>ms_inbound := inbound\<rparr>)
                     | (Inr sent, counter', inbound) \<Rightarrow>
                         (let dropped = ms\<lparr>ms_inbound := drop_permits (fr_tenant_id request) peer_id inbound\<rparr>
                          in if fn_stopped env then (Abandoned, counter', dropped)
                             else if \<not> fn_response_sent env then (ResponseLost, counter', dropped)
                             else (Serving request sent, counter', ms\<lparr>ms_inbound := inbound\<rparr>))))))"

text \<open>When the pipe of an accepted stream ends, its permits are dropped.\<close>

definition forward_finished :: "string \<Rightarrow> forward_request \<Rightarrow> ('s, 'c) mesh_service \<Rightarrow> ('s, 'c) mesh_service" where
  "forward_finished peer_id request ms =
     ms\<lparr>ms_inbound := drop_permits (fr_tenant_id request) peer_id (ms_inbound ms)\<rparr>"

subsection \<open>Datagrams\<close>

datatype udp_forward_error = NoMeshConnection pool_error | UdpDropped udp_drop

text \<open>\<open>forward_udp\<close>: \<open>dial\<close> is how the pool finds the connection, \<open>max_size\<close> and \<open>send_ok\<close> what the
  connection says of datagrams.\<close>

definition forward_udp ::
  "'c remote_env \<Rightarrow> ('c \<Rightarrow> nat option) \<Rightarrow> bool \<Rightarrow> nat \<Rightarrow> remote_route \<Rightarrow> string \<Rightarrow> bytes \<Rightarrow> socket_addr \<Rightarrow> 's
   \<Rightarrow> 64 word \<Rightarrow> ('s, 'c) mesh_service
   \<Rightarrow> (udp_forward_error, 'c \<times> bytes) result \<times> 64 word \<times> ('s, 'c) mesh_service" where
  "forward_udp env max_size send_ok now route hostname payload client_addr socket counter ms =
     (case pool_connection (re_net env) (re_now env) (re_now2 env) (re_waited env) (rr_edge_id route)
             (re_dialled env) (ms_pool ms) of
        (Inl e, pool) \<Rightarrow> (Inl (NoMeshConnection e), counter, ms\<lparr>ms_pool := pool\<rparr>)
      | (Inr connection, pool) \<Rightarrow>
          (let ms1 = ms\<lparr>ms_pool := pool\<rparr>;
               (request_id, counter') = next_request_id counter;
               header = \<lparr>md_kind = Request, md_request_id = request_id,
                         md_connection_generation = rr_generation route,
                         md_ingress_edge_id = ms_edge_id ms, md_tenant_id = rr_tenant_id route,
                         md_hostname = hostname\<rparr>
           in case mesh_encode header payload of
                Inl _ \<Rightarrow> (Inl (UdpDropped EncodeFailed), counter', ms1)
              | Inr datagram \<Rightarrow>
                  if too_large (max_size connection) datagram
                  then (Inl (UdpDropped Oversize), counter', ms1)
                  else case udp_insert now request_id
                              (entry_client_via_peer now client_addr socket (rr_edge_id route))
                              (ms_udp_replies ms) of
                         (False, t) \<Rightarrow> (Inl (UdpDropped ReplyTableFull), counter', ms1\<lparr>ms_udp_replies := t\<rparr>)
                       | (True, t) \<Rightarrow>
                           if \<not> send_ok
                           then (Inl (UdpDropped SendFailed), counter',
                                 ms1\<lparr>ms_udp_replies := udp_remove request_id t\<rparr>)
                           else (Inr (connection, datagram), counter', ms1\<lparr>ms_udp_replies := t\<rparr>)))"

definition purge_udp :: "nat \<Rightarrow> ('s, 'c) mesh_service \<Rightarrow> nat \<times> ('s, 'c) mesh_service" where
  "purge_udp now ms =
     (case udp_purge_expired now (ms_udp_replies ms) of
        (expired, t) \<Rightarrow> (expired, ms\<lparr>ms_udp_replies := t\<rparr>))"

datatype ('s, 'c) mesh_delivery =
    Ignored
  | ToConnector 'c bytes
  | Delivered_client 's socket_addr bytes
  | DroppedDatagram udp_drop
  | PeerMismatch
  | UnknownReply

text \<open>A request datagram of a peer: \<open>tables\<close> holds the reply tables of the Connectors of this
  Edge, by the name their handles carry.\<close>

definition handle_request_datagram ::
  "('c \<Rightarrow> nat option) \<Rightarrow> ('c \<Rightarrow> bytes \<Rightarrow> bool) \<Rightarrow> nat \<Rightarrow> string \<Rightarrow> 'c \<Rightarrow> mesh_datagram_header \<Rightarrow> bytes
   \<Rightarrow> 64 word \<Rightarrow> (nat \<Rightarrow> ('s, 'c) udp_reply_table) \<Rightarrow> 'c registry
   \<Rightarrow> ('s, 'c) mesh_delivery \<times> 64 word \<times> (nat \<Rightarrow> ('s, 'c) udp_reply_table)" where
  "handle_request_datagram max_size send_ok now peer_id connection header payload counter tables registry =
     (if md_ingress_edge_id header \<noteq> peer_id then (Ignored, counter, tables)
      else case get_by_hostname registry (md_hostname header) of
        None \<Rightarrow> (Ignored, counter, tables)
      | Some connector \<Rightarrow>
          if ch_tenant_id connector \<noteq> md_tenant_id header
             \<or> \<not> supports connector (md_hostname header) Udp
          then (Ignored, counter, tables)
          else let (local_id, counter') = next_request_id counter;
                   key = ch_udp_reply_map connector;
                   entry = entry_peer now connection (md_ingress_edge_id header)
                             (md_request_id header) (md_hostname header)
               in case udp_insert now local_id entry (tables key) of
                    (False, t) \<Rightarrow> (DroppedDatagram ReplyTableFull, counter', tables(key := t))
                  | (True, t) \<Rightarrow>
                      let to_connector = datagram_encode
                            \<lparr>dh_request_id = local_id, dh_hostname = md_hostname header\<rparr> payload
                      in if too_large (max_size (ch_connection connector)) to_connector
                         then (DroppedDatagram Oversize, counter', tables(key := udp_remove local_id t))
                         else if \<not> send_ok (ch_connection connector) to_connector
                         then (DroppedDatagram SendFailed, counter', tables(key := udp_remove local_id t))
                         else (ToConnector (ch_connection connector) to_connector, counter',
                               tables(key := t)))"

definition handle_reply_datagram ::
  "nat \<Rightarrow> string \<Rightarrow> mesh_datagram_header \<Rightarrow> bytes \<Rightarrow> ('s, 'c) mesh_service
   \<Rightarrow> ('s, 'c) mesh_delivery \<times> ('s, 'c) mesh_service" where
  "handle_reply_datagram now peer_id header payload ms =
     (if md_ingress_edge_id header \<noteq> ms_edge_id ms then (Ignored, ms)
      else case udp_take_if now (md_request_id header) (\<lambda>e. ue_expect_peer e = Some peer_id)
                  (ms_udp_replies ms) of
        (None, t) \<Rightarrow>
          (if udp_contains (md_request_id header) t then PeerMismatch else UnknownReply,
           ms\<lparr>ms_udp_replies := t\<rparr>)
      | (Some entry, t) \<Rightarrow>
          (case ue_destination entry of
             Client addr socket \<Rightarrow> Delivered_client socket addr payload
           | Peer _ _ _ _ \<Rightarrow> Ignored, ms\<lparr>ms_udp_replies := t\<rparr>))"

definition handle_datagram ::
  "('c \<Rightarrow> nat option) \<Rightarrow> ('c \<Rightarrow> bytes \<Rightarrow> bool) \<Rightarrow> nat \<Rightarrow> string \<Rightarrow> 'c \<Rightarrow> bytes
   \<Rightarrow> 64 word \<Rightarrow> (nat \<Rightarrow> ('s, 'c) udp_reply_table) \<Rightarrow> ('s, 'c) mesh_service
   \<Rightarrow> ('s, 'c) mesh_delivery \<times> 64 word \<times> (nat \<Rightarrow> ('s, 'c) udp_reply_table) \<times> ('s, 'c) mesh_service" where
  "handle_datagram max_size send_ok now peer_id connection datagram counter tables ms =
     (case mesh_decode datagram of
        Inl _ \<Rightarrow> (Ignored, counter, tables, ms)
      | Inr (header, payload) \<Rightarrow>
          (case md_kind header of
             Request \<Rightarrow>
               (case handle_request_datagram max_size send_ok now peer_id connection header payload
                       counter tables (ms_registry ms) of
                  (d, counter', tables') \<Rightarrow> (d, counter', tables', ms))
           | Reply \<Rightarrow>
               (case handle_reply_datagram now peer_id header payload ms of
                  (d, ms') \<Rightarrow> (d, counter, tables, ms'))))"

subsection \<open>Facts\<close>

text \<open>The permits of a key that are free; an absent entry stands for a fresh semaphore.\<close>

definition free_permits :: "nat \<Rightarrow> permits \<Rightarrow> string \<Rightarrow> nat" where
  "free_permits limit t k = (case map_of t k of None \<Rightarrow> limit | Some s \<Rightarrow> sem_available s)"

lemma permit_acquire_free:
  assumes "permit_acquire limit id key t = (granted, t')"
  shows "granted \<longleftrightarrow> free_permits limit t key > 0"
    and "free_permits limit t' = (free_permits limit t)(key := free_permits limit t key - of_bool granted)"
  using assms
  by (auto simp: permit_acquire_def permit_enter_def permit_grant_def permit_leave_def Let_def
      free_permits_def tab_simps fun_eq_iff split: option.splits if_splits)

lemma permit_acquire_entry:
  "permit_acquire limit id key t = (granted, t') \<Longrightarrow> map_of t' key \<noteq> None"
  by (auto simp: permit_acquire_def permit_enter_def permit_grant_def permit_leave_def Let_def
      tab_simps split: option.splits if_splits)

lemma permit_release_free:
  "map_of t key \<noteq> None \<Longrightarrow>
   free_permits limit (permit_release key t) = (free_permits limit t)(key := free_permits limit t key + 1)"
  by (auto simp: permit_release_def free_permits_def tab_simps fun_eq_iff split: option.splits)

text \<open>What is free in both maps of a permit table.\<close>

definition budget :: "mesh_limits \<Rightarrow> permit_table \<Rightarrow> (string \<Rightarrow> nat) \<times> (string \<Rightarrow> nat)" where
  "budget limits pt = (free_permits (max_streams_per_tenant limits) (pt_tenants pt),
                       free_permits (max_streams_per_peer limits) (pt_peers pt))"

definition take_one :: "string \<Rightarrow> (string \<Rightarrow> nat) \<Rightarrow> (string \<Rightarrow> nat)" where
  "take_one k f = f(k := f k - 1)"

lemma tenant_and_peer_budget:
  assumes "tenant_and_peer limits id id tenant peer pt = (r, pt')"
  shows "is_ok r \<longleftrightarrow> fst (budget limits pt) tenant > 0 \<and> snd (budget limits pt) peer > 0"
    and "is_ok r \<Longrightarrow> budget limits pt' = (take_one tenant (fst (budget limits pt)), take_one peer (snd (budget limits pt)))"
    and "\<not> is_ok r \<Longrightarrow> budget limits pt' = budget limits pt"
    and "is_ok r \<Longrightarrow> budget limits (drop_permits tenant peer pt') = budget limits pt"
proof -
  obtain gt ts where t: "permit_acquire (max_streams_per_tenant limits) id tenant (pt_tenants pt) = (gt, ts)"
    by fastforce
  obtain gp ps where p: "permit_acquire (max_streams_per_peer limits) id peer (pt_peers pt) = (gp, ps)"
    by fastforce
  note tf = permit_acquire_free [OF t] permit_acquire_entry [OF t]
  note pf = permit_acquire_free [OF p] permit_acquire_entry [OF p]
  have run: "(r, pt') = (if \<not> gt then (Inl NoTenantSlot, pt\<lparr>pt_tenants := ts\<rparr>)
       else if \<not> gp then (Inl NoPeerSlot, \<lparr>pt_peers = ps, pt_tenants = permit_release tenant ts\<rparr>)
       else (Inr (), \<lparr>pt_peers = ps, pt_tenants = ts\<rparr>))"
    using assms by (simp add: tenant_and_peer_def t p split: bool.splits)
  show "is_ok r \<longleftrightarrow> fst (budget limits pt) tenant > 0 \<and> snd (budget limits pt) peer > 0"
    using run tf(1) pf(1) by (auto simp: budget_def split: if_splits)
  show "is_ok r \<Longrightarrow> budget limits pt' = (take_one tenant (fst (budget limits pt)), take_one peer (snd (budget limits pt)))"
    using run tf pf by (auto simp: budget_def take_one_def split: if_splits)
  show "\<not> is_ok r \<Longrightarrow> budget limits pt' = budget limits pt"
    using run tf pf by (auto simp: budget_def permit_release_free split: if_splits)
  show "is_ok r \<Longrightarrow> budget limits (drop_permits tenant peer pt') = budget limits pt"
    using run tf pf by (auto simp: budget_def drop_permits_def permit_release_free fun_eq_iff split: if_splits)
qed

lemma authorize_forward_iff:
  "authorize_forward registry peer_id request = Inr h \<longleftrightarrow>
     validate_request request = Inr () \<and> fr_ingress_edge_id request = peer_id
     \<and> get_by_hostname registry (fr_hostname request) = Some h
     \<and> ch_tenant_id h = fr_tenant_id request
     \<and> supports h (fr_hostname request) (fr_protocol request)"
  by (auto simp: authorize_forward_def split: sum.splits option.splits)

lemma validate_request_iff:
  "validate_request r = Inr () \<longleftrightarrow>
     fr_version r = MESH_VERSION \<and> fr_hops_remaining r \<noteq> 0
     \<and> id_ok (fr_ingress_edge_id r) \<and> id_ok (fr_tenant_id r) \<and> id_ok (fr_hostname r)
     \<and> normalize_hostname (fr_hostname r) = Inr (fr_hostname r)"
  by (auto simp: validate_request_def Let_def split: sum.splits)

definition connect_frame :: "json \<Rightarrow> 64 word \<Rightarrow> forward_request \<Rightarrow> (wire_error, bytes) result" where
  "connect_frame J request_id r =
     write_message J (ConnectRequest
       \<lparr>cr_request_id = request_id, cr_hostname = fr_hostname r, cr_protocol = fr_protocol r,
        cr_client_addr = fr_client_addr r\<rparr>)"

lemma prepare_forward_ok:
  assumes "prepare_forward J env peer_id request counter limits inbound = (Inr sent, counter', inbound')"
  shows "fn_open env = Some True" "connect_frame J counter request = Inr sent" "counter' = counter + 1"
    and "\<exists>u. tenant_and_peer limits (fn_meanwhile_t env) (fn_meanwhile_p env)
           (fr_tenant_id request) peer_id inbound = (Inr u, inbound')"
  using assms
  by (auto simp: prepare_forward_def Let_def open_local_stream_def next_request_id_def connect_frame_def
      map_err_def split: prod.splits sum.splits option.splits if_splits)

lemma handle_forward_serving:
  assumes "handle_forward J de_req env peer_id counter ms = (Serving request sent, counter', ms')"
  obtains s rest h inbound where
    "fn_incoming env = Some s" "read_forward_request de_req s = Inr (request, rest)"
    "authorize_forward (ms_registry ms) peer_id request = Inr h"
    "prepare_forward J env peer_id request counter (ms_limits ms) (ms_inbound ms) = (Inr sent, counter', inbound)"
    "ms' = ms\<lparr>ms_inbound := inbound\<rparr>"
  using assms
  by (auto simp: handle_forward_def Let_def split: option.splits sum.splits prod.splits if_splits)

lemma handle_reply_datagram_claims:
  fixes ms :: "('s, 'c) mesh_service"
  assumes inv: "udp_inv (ms_udp_replies ms)"
    and step: "handle_reply_datagram now peer_id header payload ms = (d, ms')"
  shows "d = Delivered_client socket addr pl \<Longrightarrow>
           \<exists>e. pending (ms_udp_replies ms) (md_request_id header) = Some e
             \<and> ue_expect_peer e = Some peer_id \<and> ue_destination e = Client addr socket
             \<and> pl = payload \<and> md_ingress_edge_id header = ms_edge_id ms
             \<and> pending (ms_udp_replies ms') = (pending (ms_udp_replies ms))(md_request_id header := None)"
    and "pending (ms_udp_replies ms) (md_request_id header) = Some e \<Longrightarrow> ue_expect_peer e \<noteq> Some peer_id
         \<Longrightarrow> ms' = ms \<and> (d = Ignored \<or> d = PeerMismatch)"
proof -
  let ?P = "\<lambda>e :: ('s, 'c) udp_reply_entry. ue_expect_peer e = Some peer_id" and ?i = "md_request_id header"
  obtain r t where rt: "udp_take_if now ?i ?P (ms_udp_replies ms) = (r, t)" by fastforce
  show "\<exists>e. pending (ms_udp_replies ms) ?i = Some e \<and> ?P e \<and> ue_destination e = Client addr socket
      \<and> pl = payload \<and> md_ingress_edge_id header = ms_edge_id ms
      \<and> pending (ms_udp_replies ms') = (pending (ms_udp_replies ms))(?i := None)"
    if "d = Delivered_client socket addr pl"
  proof (cases r)
    case None
    with step that rt show ?thesis by (auto simp: handle_reply_datagram_def split: if_splits)
  next
    case (Some e)
    from ur.claim_takes [OF inv rt [unfolded Some]] show ?thesis
      using step that rt Some
      by (auto simp: handle_reply_datagram_def split: if_splits udp_reply_destination.splits)
  qed
  show "ms' = ms \<and> (d = Ignored \<or> d = PeerMismatch)"
    if "pending (ms_udp_replies ms) ?i = Some e" "\<not> ?P e"
    using step ur.claim_refuses [OF inv that(1), of ?P now] that
    by (auto simp: handle_reply_datagram_def udp_contains_def split: if_splits)
qed

subsection \<open>Properties\<close>

text \<open>C6. A peer Edge gets a tunnel only for what it is entitled to: a forwarded stream is served
  only for a well-formed request of this protocol version with a hop left and a normalised
  hostname, that names the authenticated peer as its ingress Edge, whose hostname the local
  registry gives to a Connector of the very tenant the request names and that serves the
  protocol; what the Connector then reads is a ConnectRequest for that hostname, protocol and
  client; and neither the registry nor the pending replies change.\<close>

theorem handle_forward_sound:
  assumes "handle_forward J de_req env peer_id counter ms = (Serving request sent, counter', ms')"
  shows "(\<exists>s rest. fn_incoming env = Some s \<and> read_forward_request de_req s = Inr (request, rest))
         \<and> fr_version request = MESH_VERSION \<and> fr_hops_remaining request \<noteq> 0
         \<and> normalize_hostname (fr_hostname request) = Inr (fr_hostname request)
         \<and> fr_ingress_edge_id request = peer_id
         \<and> (\<exists>h. get_by_hostname (ms_registry ms) (fr_hostname request) = Some h
               \<and> ch_tenant_id h = fr_tenant_id request
               \<and> supports h (fr_hostname request) (fr_protocol request))
         \<and> connect_frame J counter request = Inr sent
         \<and> ms_registry ms' = ms_registry ms \<and> ms_udp_replies ms' = ms_udp_replies ms"
proof -
  obtain s rest h inbound where f: "fn_incoming env = Some s" "read_forward_request de_req s = Inr (request, rest)"
    "authorize_forward (ms_registry ms) peer_id request = Inr h"
    "prepare_forward J env peer_id request counter (ms_limits ms) (ms_inbound ms) = (Inr sent, counter', inbound)"
    "ms' = ms\<lparr>ms_inbound := inbound\<rparr>"
    using handle_forward_serving [OF assms] .
  then show ?thesis
    using prepare_forward_ok(2) [OF f(4)]
    by (auto simp: authorize_forward_iff validate_request_iff)
qed

definition sample_limits :: mesh_limits where
  "sample_limits = \<lparr>max_streams_per_peer = 4, max_streams_per_tenant = 2, stream_wait = 5, accept_timeout = 10\<rparr>"

definition sample_service :: "(unit, unit) mesh_service" where
  "sample_service = new_mesh_service ''e2'' (new_pool [''e1''] 30) [] sample_registry sample_limits
     (new_udp_table 2 10)"

definition sample_env :: "bool \<Rightarrow> forward_env" where
  "sample_env stopped =
     \<lparr>fn_incoming = Some (be_u32 2 @ [0x10] @ [7]), fn_meanwhile_t = id, fn_meanwhile_p = id,
      fn_open = Some True, fn_stopped = stopped, fn_response_sent = True\<rparr>"

definition sample_de :: "bytes \<Rightarrow> forward_request option" where
  "sample_de b = (if b = [7] then Some sample_forward_request else None)"

lemma sample_served:
  "fst (handle_forward sample_json sample_de (sample_env False) ''e1'' 1 sample_service)
     = Serving sample_forward_request (be_u32 1 @ [3])"
  "fst (handle_forward sample_json sample_de (sample_env True) ''e1'' 1 sample_service) = Abandoned"
  by code_simp+

theorem handle_forward_sound_witness:
  "fst (handle_forward sample_json sample_de (sample_env False) ''e1'' 1 sample_service)
     = Serving sample_forward_request (be_u32 1 @ [3])
   \<and> connect_frame sample_json 1 sample_forward_request = Inr (be_u32 1 @ [3])"
proof -
  obtain c ms where "handle_forward sample_json sample_de (sample_env False) ''e1'' 1 sample_service
      = (Serving sample_forward_request (be_u32 1 @ [3]), c, ms)"
    using sample_served(1) by (metis prod.collapse)
  from handle_forward_sound [OF this] sample_served(1) show ?thesis by blast
qed

text \<open>Stream budgets do not leak: serving a forwarded stream takes one tenant permit and one
  peer permit, which there must have been; every other end of the handler (refused,
  abandoned by the ingress Edge, response lost) leaves all budgets as they were, and so does
  the end of a served stream.\<close>

theorem handle_forward_budget:
  assumes quiet: "fn_meanwhile_t env = id" "fn_meanwhile_p env = id"
    and run: "handle_forward J de_req env peer_id counter ms = (served, counter', ms')"
  shows "(case served of
            Serving request _ \<Rightarrow>
              fst (budget (ms_limits ms) (ms_inbound ms)) (fr_tenant_id request) > 0
              \<and> snd (budget (ms_limits ms) (ms_inbound ms)) peer_id > 0
              \<and> budget (ms_limits ms) (ms_inbound ms')
                  = (take_one (fr_tenant_id request) (fst (budget (ms_limits ms) (ms_inbound ms))),
                     take_one peer_id (snd (budget (ms_limits ms) (ms_inbound ms))))
              \<and> budget (ms_limits ms) (ms_inbound (forward_finished peer_id request ms'))
                  = budget (ms_limits ms) (ms_inbound ms)
          | _ \<Rightarrow> budget (ms_limits ms) (ms_inbound ms') = budget (ms_limits ms) (ms_inbound ms))"
proof -
  have prep: "case r of
        Inl _ \<Rightarrow> budget limits inbound' = budget limits inbound
      | Inr _ \<Rightarrow> fst (budget limits inbound) (fr_tenant_id request) > 0
               \<and> snd (budget limits inbound) peer_id > 0
               \<and> budget limits inbound' = (take_one (fr_tenant_id request) (fst (budget limits inbound)),
                                           take_one peer_id (snd (budget limits inbound)))
               \<and> budget limits (drop_permits (fr_tenant_id request) peer_id inbound') = budget limits inbound"
    if "prepare_forward J env peer_id request counter limits inbound = (r, c', inbound')"
    for request limits inbound r c' inbound'
  proof -
    obtain g pt where g: "tenant_and_peer limits id id (fr_tenant_id request) peer_id inbound = (g, pt)"
      by fastforce
    show ?thesis
      using that tenant_and_peer_budget [OF g]
      by (cases g) (auto simp: prepare_forward_def Let_def quiet g split: prod.splits sum.splits option.splits)
  qed
  show ?thesis
    using run
    by (auto simp: handle_forward_def Let_def forward_finished_def
        split: option.splits sum.splits prod.splits if_splits dest!: prep)
qed

theorem handle_forward_budget_witness:
  "fst (budget sample_limits (ms_inbound (snd (snd
     (handle_forward sample_json sample_de (sample_env False) ''e1'' 1 sample_service))))) ''t'' = 1"
proof -
  obtain c ms where run: "handle_forward sample_json sample_de (sample_env False) ''e1'' 1 sample_service
      = (Serving sample_forward_request (be_u32 1 @ [3]), c, ms)"
    using sample_served(1) by (metis prod.collapse)
  have "fst (budget sample_limits (ms_inbound sample_service)) ''t'' = 2"
    "ms_limits sample_service = sample_limits"
    by (simp_all add: sample_service_def new_mesh_service_def empty_permits_def budget_def
        free_permits_def sample_limits_def)
  with handle_forward_budget [OF _ _ run] run show ?thesis
    by (simp add: sample_env_def take_one_def sample_forward_request_def)
qed

text \<open>C15. Replies of the mesh cannot be forged: a datagram delivers a payload to a client only if it
  is a reply addressed to this Edge for a request that is pending and that was sent to the very
  peer the datagram came from; the client is the one recorded for it and the request is then
  used up. A reply from any other peer changes nothing, so the genuine one still gets through.\<close>

theorem mesh_replies_unforgeable:
  assumes inv: "udp_inv (ms_udp_replies ms)"
    and run: "handle_datagram max_size send_ok now peer_id c datagram counter tables ms
                = (d, counter', tables', ms')"
  shows "(\<forall>socket addr payload. d = Delivered_client socket addr payload \<longrightarrow>
            (\<exists>header e. mesh_decode datagram = Inr (header, payload) \<and> md_kind header = Reply
               \<and> md_ingress_edge_id header = ms_edge_id ms
               \<and> pending (ms_udp_replies ms) (md_request_id header) = Some e
               \<and> ue_expect_peer e = Some peer_id \<and> ue_destination e = Client addr socket
               \<and> pending (ms_udp_replies ms') = (pending (ms_udp_replies ms))(md_request_id header := None)))
         \<and> (\<forall>header payload e. mesh_decode datagram = Inr (header, payload) \<and> md_kind header = Reply
              \<and> pending (ms_udp_replies ms) (md_request_id header) = Some e
              \<and> ue_expect_peer e \<noteq> Some peer_id \<longrightarrow> ms' = ms \<and> tables' = tables
              \<and> (d = Ignored \<or> d = PeerMismatch))"
proof (cases "mesh_decode datagram")
  case (Inl e)
  with run show ?thesis by (simp add: handle_datagram_def)
next
  case (Inr hp)
  obtain header payload where hp: "hp = (header, payload)" by (cases hp)
  show ?thesis
  proof (cases "md_kind header")
    case Request
    with run Inr hp show ?thesis
      by (auto simp: handle_datagram_def handle_request_datagram_def Let_def
          split: prod.splits if_splits option.splits bool.splits)
  next
    case Reply
    then have step: "handle_reply_datagram now peer_id header payload ms = (d, ms')"
      and keeps: "tables' = tables"
      using run Inr hp by (auto simp: handle_datagram_def split: prod.splits)
    show ?thesis
      using handle_reply_datagram_claims(1) [OF inv step] handle_reply_datagram_claims(2) [OF inv step]
        keeps Inr hp Reply
      by simp metis
  qed
qed

definition sample_waiting :: "(unit, unit) mesh_service" where
  "sample_waiting = sample_service\<lparr>ms_udp_replies :=
     \<lparr>ut_entries = [(1, entry_client_via_peer 5 sample_addr () ''e3'')], ut_max_entries = 2, ut_ttl = 10\<rparr>\<rparr>"

definition sample_reply :: bytes where
  "sample_reply = (case mesh_encode (mesh_reply ''e2'' 1 ''a.example.com'') [9] of Inl _ \<Rightarrow> [] | Inr b \<Rightarrow> b)"

lemma sample_reply_handled:
  "fst (handle_datagram (\<lambda>_. None) (\<lambda>_ _. True) 6 ''e3'' () sample_reply 2 (\<lambda>_. new_udp_table 2 10) sample_waiting)
     = Delivered_client () sample_addr [9]"
  "fst (handle_datagram (\<lambda>_. None) (\<lambda>_ _. True) 6 ''e1'' () sample_reply 2 (\<lambda>_. new_udp_table 2 10) sample_waiting)
     = PeerMismatch"
  by code_simp+

theorem mesh_replies_unforgeable_witness:
  "\<exists>e. pending (ms_udp_replies sample_waiting) 1 = Some e \<and> ue_expect_peer e = Some ''e3''
       \<and> ue_destination e = Client sample_addr ()"
proof -
  have inv: "udp_inv (ms_udp_replies sample_waiting)"
    by (simp add: udp_inv_def sample_waiting_def t_len_def wf_table_def)
  obtain c t ms where "handle_datagram (\<lambda>_. None) (\<lambda>_ _. True) 6 ''e3'' () sample_reply 2
      (\<lambda>_. new_udp_table 2 10) sample_waiting = (Delivered_client () sample_addr [9], c, t, ms)"
    using sample_reply_handled(1) by (metis prod.collapse)
  from mesh_replies_unforgeable [OF inv this, THEN conjunct1]
  obtain header e where *: "mesh_decode sample_reply = Inr (header, [9])"
    "pending (ms_udp_replies sample_waiting) (md_request_id header) = Some e"
    "ue_expect_peer e = Some ''e3''" "ue_destination e = Client sample_addr ()"
    by blast
  moreover have "md_request_id header = 1"
    using *(2) by (simp add: sample_waiting_def split: if_splits)
  ultimately show ?thesis by auto
qed

end
