(* ===== verification/Router.thy ===== *)
theory Router
  imports Mesh_Forward
begin

text \<open>
  Routing of a hostname and protocol (\<open>sievetube-edge/src/router.rs\<close>): the decision between a
  local Connector, the peer Edges that advertise one, and nothing; and opening a stream for
  a decision, with the retries over the candidates.
\<close>

subsection \<open>Operations\<close>

datatype 'c route_decision =
    Local "'c connector_handle"
  | Remote "remote_route list"
  | Unavailable

definition decision_tenant_id :: "'c route_decision \<Rightarrow> string option" where
  "decision_tenant_id d =
     (case d of
        Local handle \<Rightarrow> Some (ch_tenant_id handle)
      | Remote routes \<Rightarrow> (case routes of [] \<Rightarrow> None | r # _ \<Rightarrow> Some (rr_tenant_id r))
      | Unavailable \<Rightarrow> None)"

definition is_available :: "'c route_decision \<Rightarrow> bool" where
  "is_available d = (case d of Unavailable \<Rightarrow> False | _ \<Rightarrow> True)"

datatype open_failure =
    LocalFailed open_stream_error
  | LocalTimedOut
  | MeshDisabled
  | NoCandidate
  | ForwardFailed forward_failure
  | NoRouteForHostname

record open_error =
  oe_message :: open_failure
  oe_timed_out :: bool

definition open_failed :: "open_failure \<Rightarrow> open_error" where
  "open_failed m = \<lparr>oe_message = m, oe_timed_out = False\<rparr>"

record ('s, 'c) router =
  rt_registry :: "'c registry"
  rt_mesh :: "('s, 'c) mesh_service option"

definition route :: "nat \<Rightarrow> ('s, 'c) router \<Rightarrow> string \<Rightarrow> protocol \<Rightarrow> 'c route_decision" where
  "route now router hostname protocol =
     (case (case get_by_hostname (rt_registry router) hostname of
              Some handle \<Rightarrow> if supports handle hostname protocol then Some handle else None
            | None \<Rightarrow> None) of
        Some handle \<Rightarrow> Local handle
      | None \<Rightarrow>
          (case rt_mesh router of
             None \<Rightarrow> Unavailable
           | Some mesh \<Rightarrow>
               let candidates = filter (\<lambda>r. \<not> cooling_down now (ms_pool mesh) (rr_edge_id r))
                                  (route_candidates (ms_routes mesh) hostname protocol now)
               in if candidates = [] then Unavailable else Remote candidates))"

text \<open>The loop over the candidates. \<open>envs\<close> is what happens to each attempt; the attempts made are
  returned with their outcome, as the code logs them.\<close>

fun try_routes ::
  "(forward_request \<Rightarrow> bytes) \<Rightarrow> (bytes \<Rightarrow> forward_response option) \<Rightarrow> (nat \<Rightarrow> 'c remote_env)
   \<Rightarrow> string \<Rightarrow> protocol \<Rightarrow> socket_addr \<Rightarrow> nat \<Rightarrow> open_error \<Rightarrow> remote_route list \<Rightarrow> 64 word
   \<Rightarrow> ('s, 'c) mesh_service
   \<Rightarrow> (open_error, bytes) result \<times> (remote_route \<times> (forward_error, bytes) result) list
       \<times> 64 word \<times> ('s, 'c) mesh_service" where
  "try_routes ser_req de_resp envs hostname protocol client_addr i last_error [] counter ms =
     (Inl last_error, [], counter, ms)"
| "try_routes ser_req de_resp envs hostname protocol client_addr i last_error (r # routes) counter ms =
     (case open_remote_stream ser_req de_resp (envs i) r hostname protocol client_addr counter ms of
        (Inr stream, _, counter', ms') \<Rightarrow> (Inr stream, [(r, Inr stream)], counter', ms')
      | (Inl e, _, counter', ms') \<Rightarrow>
          (let err = \<lparr>oe_message = ForwardFailed (fe_message e), oe_timed_out = fe_timed_out e\<rparr>
           in if \<not> fe_retryable e then (Inl err, [(r, Inl e)], counter', ms')
              else case try_routes ser_req de_resp envs hostname protocol client_addr (i + 1) err routes
                          counter' ms' of
                     (res, log, counter'', ms'') \<Rightarrow> (res, (r, Inl e) # log, counter'', ms'')))"

text \<open>\<open>opened\<close> says whether the local stream opens, \<open>None\<close> when it does not before the timeout.\<close>

definition open_local ::
  "json \<Rightarrow> bool option \<Rightarrow> string \<Rightarrow> protocol \<Rightarrow> socket_addr \<Rightarrow> 64 word
   \<Rightarrow> (open_error, bytes) result \<times> 64 word" where
  "open_local J opened hostname protocol client_addr counter =
     (case open_local_stream J (opened = Some True) counter hostname protocol client_addr of
        (r, counter') \<Rightarrow>
          (if opened = None then Inl \<lparr>oe_message = LocalTimedOut, oe_timed_out = True\<rparr>
           else map_err (\<lambda>e. open_failed (LocalFailed e)) r, counter'))"

definition open_route ::
  "json \<Rightarrow> (forward_request \<Rightarrow> bytes) \<Rightarrow> (bytes \<Rightarrow> forward_response option) \<Rightarrow> bool option
   \<Rightarrow> (nat \<Rightarrow> 'c remote_env) \<Rightarrow> 'c route_decision \<Rightarrow> string \<Rightarrow> protocol \<Rightarrow> socket_addr \<Rightarrow> 64 word
   \<Rightarrow> ('s, 'c) router
   \<Rightarrow> (open_error, bytes) result \<times> (remote_route \<times> (forward_error, bytes) result) list
       \<times> 64 word \<times> ('s, 'c) router" where
  "open_route J ser_req de_resp opened envs decision hostname protocol client_addr counter router =
     (case decision of
        Local handle \<Rightarrow>
          (case open_local J opened hostname protocol client_addr counter of
             (r, counter') \<Rightarrow> (r, [], counter', router))
      | Remote routes \<Rightarrow>
          (case rt_mesh router of
             None \<Rightarrow> (Inl (open_failed MeshDisabled), [], counter, router)
           | Some mesh \<Rightarrow>
               (case try_routes ser_req de_resp envs hostname protocol client_addr 0
                       (open_failed NoCandidate) routes counter mesh of
                  (r, log, counter', mesh') \<Rightarrow> (r, log, counter', router\<lparr>rt_mesh := Some mesh'\<rparr>)))
      | Unavailable \<Rightarrow> (Inl (open_failed NoRouteForHostname), [], counter, router))"

subsection \<open>Facts\<close>

lemma route_Local_iff:
  "route now router hostname protocol = Local h \<longleftrightarrow>
     get_by_hostname (rt_registry router) hostname = Some h \<and> supports h hostname protocol"
  by (auto simp: route_def Let_def split: option.splits if_splits)

text \<open>The permits of an attempt are dropped unless it succeeds.\<close>

lemma open_remote_stream_budget:
  assumes quiet: "re_meanwhile_t env = id" "re_meanwhile_p env = id"
    and run: "open_remote_stream ser_req de_resp env r hostname protocol client_addr counter ms
                = (res, net, counter', ms')"
  shows "ms_limits ms' = ms_limits ms \<and> ms_inbound ms' = ms_inbound ms
         \<and> ms_registry ms' = ms_registry ms \<and> ms_routes ms' = ms_routes ms
         \<and> budget (ms_limits ms) (ms_outbound ms')
            = (if is_ok res
               then (take_one (rr_tenant_id r) (fst (budget (ms_limits ms) (ms_outbound ms))),
                     take_one (rr_edge_id r) (snd (budget (ms_limits ms) (ms_outbound ms))))
               else budget (ms_limits ms) (ms_outbound ms))"
proof -
  obtain g pt where g: "tenant_and_peer (ms_limits ms) id id (rr_tenant_id r) (rr_edge_id r) (ms_outbound ms) = (g, pt)"
    by fastforce
  show ?thesis
    using run tenant_and_peer_budget [OF g]
    by (cases g) (auto simp: open_remote_stream_def Let_def quiet g next_request_id_def
        split: prod.splits sum.splits)
qed

text \<open>What the attempts made look like: all but the last failed in a way that may be retried.\<close>

definition attempts_ok :: "(remote_route \<times> (forward_error, bytes) result) list \<Rightarrow> bool" where
  "attempts_ok log \<longleftrightarrow> (\<forall>a \<in> set (butlast log). \<exists>e. snd a = Inl e \<and> fe_retryable e)"

lemma attempts_ok_Cons:
  "attempts_ok ((r, Inl e) # log) \<longleftrightarrow> log = [] \<or> fe_retryable e \<and> attempts_ok log"
  by (auto simp: attempts_ok_def)

definition final_error :: "(remote_route \<times> (forward_error, bytes) result) list \<Rightarrow> open_error \<Rightarrow> open_error" where
  "final_error log start =
     (case log of
        [] \<Rightarrow> start
      | _ \<Rightarrow> (case snd (last log) of
                Inl e \<Rightarrow> \<lparr>oe_message = ForwardFailed (fe_message e), oe_timed_out = fe_timed_out e\<rparr>
              | Inr _ \<Rightarrow> start))"

lemma try_routes_log:
  assumes "try_routes ser_req de_resp envs hostname protocol client_addr i start routes counter ms
             = (res, log, counter', ms')"
  shows "map fst log = take (length log) routes \<and> attempts_ok log
         \<and> (case res of
              Inr stream \<Rightarrow> log \<noteq> [] \<and> snd (last log) = Inr stream
            | Inl e \<Rightarrow> e = final_error log start
                \<and> (\<forall>a \<in> set log. \<not> is_ok (snd a))
                \<and> (length log = length routes \<or> (\<exists>fe. log \<noteq> [] \<and> snd (last log) = Inl fe \<and> \<not> fe_retryable fe)))"
  using assms
proof (induction routes arbitrary: i start counter ms res log counter' ms')
  case Nil
  then show ?case by (auto simp: attempts_ok_def final_error_def)
next
  case (Cons r routes)
  obtain a net c1 ms1 where a: "open_remote_stream ser_req de_resp (envs i) r hostname protocol client_addr counter ms
      = (a, net, c1, ms1)" by (metis prod.collapse)
  show ?case
  proof (cases a)
    case (Inr stream)
    with Cons.prems a show ?thesis by (auto simp: attempts_ok_def)
  next
    case (Inl e)
    let ?err = "\<lparr>oe_message = ForwardFailed (fe_message e), oe_timed_out = fe_timed_out e\<rparr>"
    show ?thesis
    proof (cases "fe_retryable e")
      case False
      with Cons.prems a Inl show ?thesis by (auto simp: attempts_ok_def final_error_def)
    next
      case True
      obtain res1 log1 c2 ms2 where rest: "try_routes ser_req de_resp envs hostname protocol client_addr (i + 1) ?err
          routes c1 ms1 = (res1, log1, c2, ms2)" by (metis prod.collapse)
      have eq: "res = res1" "log = (r, Inl e) # log1"
        using Cons.prems a Inl True rest by auto
      have fin: "final_error ((r, Inl e) # log1) start = final_error log1 ?err"
        if none: "\<forall>a \<in> set log1. \<not> is_ok (snd a)"
      proof (cases "log1 = []")
        case False
        then have "\<not> is_ok (snd (last log1))" using none last_in_set by blast
        then obtain fe where "snd (last log1) = Inl fe" by (cases "snd (last log1)") auto
        with False show ?thesis by (auto simp: final_error_def neq_Nil_conv)
      qed (simp add: final_error_def)
      from Cons.IH [OF rest] True fin show ?thesis
        by (auto simp: eq attempts_ok_Cons split: sum.splits)
    qed
  qed
qed

lemma try_routes_budget:
  assumes quiet: "\<forall>j. re_meanwhile_t (envs j) = id \<and> re_meanwhile_p (envs j) = id"
    and "try_routes ser_req de_resp envs hostname protocol client_addr i start routes counter ms
             = (res, log, counter', ms')"
  shows "ms_limits ms' = ms_limits ms
         \<and> budget (ms_limits ms) (ms_outbound ms')
            = (if is_ok res
               then (take_one (rr_tenant_id (fst (last log))) (fst (budget (ms_limits ms) (ms_outbound ms))),
                     take_one (rr_edge_id (fst (last log))) (snd (budget (ms_limits ms) (ms_outbound ms))))
               else budget (ms_limits ms) (ms_outbound ms))"
  using assms(2)
proof (induction routes arbitrary: i start counter ms res log counter' ms')
  case (Cons r routes)
  obtain a net c1 ms1 where a: "open_remote_stream ser_req de_resp (envs i) r hostname protocol client_addr counter ms
      = (a, net, c1, ms1)" by (metis prod.collapse)
  note b = open_remote_stream_budget [OF _ _ a]
  show ?case
  proof (cases a)
    case (Inl e)
    show ?thesis
    proof (cases "fe_retryable e")
      case True
      let ?err = "\<lparr>oe_message = ForwardFailed (fe_message e), oe_timed_out = fe_timed_out e\<rparr>"
      obtain res1 log1 c2 ms2 where rest: "try_routes ser_req de_resp envs hostname protocol client_addr (i + 1) ?err
          routes c1 ms1 = (res1, log1, c2, ms2)" by (metis prod.collapse)
      have eq: "res = res1" "log = (r, Inl e) # log1" "ms' = ms2"
        using Cons.prems a Inl True rest by auto
      have "is_ok res1 \<Longrightarrow> log1 \<noteq> []" using try_routes_log [OF rest] by (cases res1) auto
      with Cons.IH [OF rest] b quiet Inl show ?thesis by (auto simp: eq)
    qed (use Cons.prems a Inl b quiet in auto)
  qed (use Cons.prems a b quiet in auto)
qed simp

subsection \<open>Properties\<close>

text \<open>A local Connector always wins and a stale route is never used: the decision is local
  exactly when the registry has a Connector that serves the hostname and protocol; it is
  remote only without one, and then its candidates are exactly the unexpired routes, in rank
  order, whose peer is not cooling down; otherwise there is no route.\<close>

theorem route_decides:
  "(\<forall>h. route now router hostname protocol = Local h \<longleftrightarrow>
      get_by_hostname (rt_registry router) hostname = Some h \<and> supports h hostname protocol)
   \<and> (\<forall>rs. route now router hostname protocol = Remote rs \<longleftrightarrow>
        (\<nexists>h. get_by_hostname (rt_registry router) hostname = Some h \<and> supports h hostname protocol)
        \<and> rs \<noteq> []
        \<and> (\<exists>mesh. rt_mesh router = Some mesh
             \<and> rs = filter (\<lambda>r. \<not> cooling_down now (ms_pool mesh) (rr_edge_id r))
                      (route_candidates (ms_routes mesh) hostname protocol now)
             \<and> (\<forall>r. r \<in> set rs \<longrightarrow> rr_expires_at r > now)))"
proof -
  have live: "rr_expires_at r > now" if "r \<in> set (route_candidates t hostname protocol now)" for r t
    using that by (auto simp: route_candidates_def split: option.splits)
  show ?thesis
    using live
    by (intro conjI allI route_Local_iff)
       (auto simp: route_def Let_def split: option.splits if_splits)
qed

definition sample_router :: "(unit, unit) router" where
  "sample_router = \<lparr>rt_registry = sample_registry, rt_mesh = Some sample_service\<rparr>"

theorem route_decides_witness:
  "\<exists>h. route 9 sample_router ''a.example.com'' Http = Local h \<and> ch_tenant_id h = ''t''"
proof -
  have "get_by_hostname (rt_registry sample_router) ''a.example.com''
      = Some (new_handle 5 1 (sample_registration ''t'' [''a.example.com'']))"
    by (simp add: sample_router_def get_by_hostname_def sample_registry_def register_def
        taken_hostname_def sample_registration_def new_registry_def new_handle_def t_insert_def
        insert_all_def Let_def)
  then show ?thesis
    using route_decides [of 9 sample_router "''a.example.com''" Http, THEN conjunct1]
    by (auto simp: supports_def new_handle_def sample_registration_def)
qed

text \<open>C9. Nothing is delivered twice: opening a stream over the candidates tries them in order; every
  attempt but the last failed before its peer accepted and in a way that may be retried; a
  success is the outcome of the last attempt, and after a failure none was accepted and
  either all candidates were tried or the last failure may not be retried. The error reported
  is that of the last attempt, and the only stream permits taken are those of the success.\<close>

theorem open_delivers_once:
  assumes quiet: "\<forall>j. re_meanwhile_t (envs j) = id \<and> re_meanwhile_p (envs j) = id"
    and mesh: "rt_mesh router = Some mesh"
    and run: "open_route J ser_req de_resp opened envs (Remote routes) hostname protocol client_addr counter router
                = (res, log, counter', router')"
  shows "map fst log = take (length log) routes
         \<and> (\<forall>a \<in> set (butlast log). \<exists>e. snd a = Inl e \<and> fe_retryable e)
         \<and> (case res of
              Inr stream \<Rightarrow> log \<noteq> [] \<and> snd (last log) = Inr stream
            | Inl e \<Rightarrow> e = final_error log (open_failed NoCandidate)
                \<and> (\<forall>a \<in> set log. \<not> is_ok (snd a))
                \<and> (length log = length routes \<or> (\<exists>fe. log \<noteq> [] \<and> snd (last log) = Inl fe \<and> \<not> fe_retryable fe)))
         \<and> (\<exists>mesh'. rt_mesh router' = Some mesh'
              \<and> budget (ms_limits mesh) (ms_outbound mesh')
                 = (if is_ok res
                    then (take_one (rr_tenant_id (fst (last log))) (fst (budget (ms_limits mesh) (ms_outbound mesh))),
                          take_one (rr_edge_id (fst (last log))) (snd (budget (ms_limits mesh) (ms_outbound mesh))))
                    else budget (ms_limits mesh) (ms_outbound mesh)))"
proof -
  obtain mesh' where t: "try_routes ser_req de_resp envs hostname protocol client_addr 0 (open_failed NoCandidate)
      routes counter mesh = (res, log, counter', mesh')" "router' = router\<lparr>rt_mesh := Some mesh'\<rparr>"
    using run mesh by (auto simp: open_route_def split: prod.splits)
  show ?thesis
    using try_routes_log [OF t(1)] try_routes_budget [OF quiet t(1)] t(2)
    by (simp add: attempts_ok_def)
qed

definition sample_remote_env :: "unit remote_env" where
  "sample_remote_env =
     \<lparr>re_net = \<lparr>mn_closed = (\<lambda>_. False), mn_stable_id = (\<lambda>_. 0), mn_peer_edge_id = (\<lambda>_. Some ''e1'')\<rparr>,
      re_now = 5, re_now2 = 5, re_waited = id, re_dialled = Some (), re_meanwhile_t = id,
      re_meanwhile_p = id, re_remaining = 10, re_exchange = Responded (be_u32 2 @ [0x11] @ [1]), re_end = 6\<rparr>"

definition sample_remote :: "string \<Rightarrow> remote_route" where
  "sample_remote e = \<lparr>rr_edge_id = e, rr_tenant_id = ''t'', rr_generation = 1, rr_addr = sample_addr,
                      rr_expires_at = 100\<rparr>"

lemma sample_opens:
  "fst (open_route sample_json (\<lambda>_. [7]) (\<lambda>_. Some accept_response) None (\<lambda>_. sample_remote_env)
     (Remote [sample_remote ''e9'', sample_remote ''e1'']) ''a.example.com'' Http sample_addr 1 sample_router)
   = Inr (be_u32 2 @ [0x10] @ [7])"
  by code_simp

theorem open_delivers_once_witness:
  "\<exists>log. (\<exists>c r. open_route sample_json (\<lambda>_. [7]) (\<lambda>_. Some accept_response) None (\<lambda>_. sample_remote_env)
     (Remote [sample_remote ''e9'', sample_remote ''e1'']) ''a.example.com'' Http sample_addr 1 sample_router
       = (Inr (be_u32 2 @ [0x10] @ [7]), log, c, r))
     \<and> snd (last log) = Inr (be_u32 2 @ [0x10] @ [7])"
proof -
  obtain log c r where run: "open_route sample_json (\<lambda>_. [7]) (\<lambda>_. Some accept_response) None (\<lambda>_. sample_remote_env)
     (Remote [sample_remote ''e9'', sample_remote ''e1'']) ''a.example.com'' Http sample_addr 1 sample_router
       = (Inr (be_u32 2 @ [0x10] @ [7]), log, c, r)"
    using sample_opens by (metis prod.collapse)
  have "\<forall>j :: nat. re_meanwhile_t sample_remote_env = id \<and> re_meanwhile_p sample_remote_env = id"
    by (simp add: sample_remote_env_def)
  moreover have "rt_mesh sample_router = Some sample_service" by (simp add: sample_router_def)
  ultimately have "snd (last log) = Inr (be_u32 2 @ [0x10] @ [7])"
    using open_delivers_once [OF _ _ run] by simp
  with run show ?thesis by blast
qed

end
