(* ===== verification/Plugins.thy ===== *)
theory Plugins
  imports Hostname Common Bytes Table
begin

text \<open>
  Policy plugins (\<open>sievetube-edge/src/plugins/mod.rs\<close>): loading and verifying the modules of a
  configuration, and evaluating a request. The WebAssembly engine, SHA-256, the file system and
  the serialisation of the request are parameters; what a call of a module yields is the
  engine's answer.
\<close>

subsection \<open>Modules\<close>

datatype plugin_failure =
  Trap | OutOfFuel | Timeout | MemoryLimit | InvalidOutput | Busy | InputTooLarge

datatype plugin_verdict = PluginAllow | PluginDeny string | PluginFailed string plugin_failure

record plugin_config =
  pc_name :: string
  pc_path :: string
  pc_sha256 :: string
  pc_applies_to :: "string list"
  pc_max_memory_bytes :: nat
  pc_fuel :: nat
  pc_timeout_ms :: nat
  pc_max_concurrent :: nat

record 'm loaded_plugin =
  lp_name :: string
  lp_module :: 'm
  lp_applies_to :: "string list"
  lp_max_memory_bytes :: nat
  lp_fuel :: nat
  lp_timeout_ticks :: nat
  lp_permits :: nat

text \<open>What the engine offers: compiling, the imports and exports of a module, and calling the two
  entry points within the limits of a plugin.\<close>

record 'm wasm =
  wm_compile :: "bytes \<Rightarrow> 'm option"
  wm_has_imports :: "'m \<Rightarrow> bool"
  wm_has_export :: "'m \<Rightarrow> string \<Rightarrow> bool"
  wm_abi_version :: "'m \<Rightarrow> nat \<Rightarrow> nat \<Rightarrow> nat \<Rightarrow> (plugin_failure, int) result"
  wm_evaluate :: "'m \<Rightarrow> nat \<Rightarrow> nat \<Rightarrow> nat \<Rightarrow> bytes \<Rightarrow> (plugin_failure, int) result"

definition ABI_VERSION :: int where "ABI_VERSION = 1"
definition MAX_INPUT_BYTES :: nat where "MAX_INPUT_BYTES = 16384"

definition REQUIRED_EXPORTS :: "string list" where
  "REQUIRED_EXPORTS = [''memory'', ''sievetube_abi_version'', ''sievetube_alloc'', ''sievetube_evaluate'']"

datatype plugin_error =
    CannotRead string | DigestMismatch string | InvalidModule string | ImportsNotAllowed string
  | MissingExport string | InvalidAppliesTo string | UnsupportedAbi string | AbiCheckFailed string

type_synonym 'm module_cache = "(string, 'm) table"

definition get_or_compile ::
  "'m wasm \<Rightarrow> string \<Rightarrow> bytes \<Rightarrow> 'm module_cache \<Rightarrow> 'm option \<times> 'm module_cache" where
  "get_or_compile W digest b cache =
     (case map_of cache digest of
        Some m \<Rightarrow> (Some m, cache)
      | None \<Rightarrow> (case wm_compile W b of
                  None \<Rightarrow> (None, cache)
                | Some m \<Rightarrow> (Some m, t_insert digest m cache)))"

definition verify_exports :: "'m wasm \<Rightarrow> string \<Rightarrow> 'm \<Rightarrow> (plugin_error, unit) result" where
  "verify_exports W name m =
     (if wm_has_imports W m then Inl (ImportsNotAllowed name)
      else if \<not> list_all (wm_has_export W m) REQUIRED_EXPORTS then Inl (MissingExport name)
      else Inr ())"

fun normalize_patterns :: "string list \<Rightarrow> (hostname_error, string list) result" where
  "normalize_patterns [] = Inr []"
| "normalize_patterns (p # ps) =
     and_then (normalize_hostname_pattern p) (\<lambda>q. and_then (normalize_patterns ps) (\<lambda>qs. Inr (q # qs)))"

definition load_plugin ::
  "'m wasm \<Rightarrow> (bytes \<Rightarrow> string) \<Rightarrow> (string \<Rightarrow> bytes option) \<Rightarrow> plugin_config \<Rightarrow> 'm module_cache
   \<Rightarrow> (plugin_error, 'm loaded_plugin) result \<times> 'm module_cache" where
  "load_plugin W sha256_hex read_file cfg cache =
     (case read_file (pc_path cfg) of
        None \<Rightarrow> (Inl (CannotRead (pc_name cfg)), cache)
      | Some b \<Rightarrow>
          let digest = sha256_hex b
          in if \<not> eq_ignore_ascii_case digest (trim (pc_sha256 cfg))
             then (Inl (DigestMismatch (pc_name cfg)), cache)
             else case get_or_compile W digest b cache of
                    (None, cache1) \<Rightarrow> (Inl (InvalidModule (pc_name cfg)), cache1)
                  | (Some m, cache1) \<Rightarrow>
                      (case verify_exports W (pc_name cfg) m of
                         Inl e \<Rightarrow> (Inl e, cache1)
                       | Inr _ \<Rightarrow>
                           (case normalize_patterns (pc_applies_to cfg) of
                              Inl _ \<Rightarrow> (Inl (InvalidAppliesTo (pc_name cfg)), cache1)
                            | Inr patterns \<Rightarrow>
                                let plugin = \<lparr>lp_name = pc_name cfg, lp_module = m, lp_applies_to = patterns,
                                              lp_max_memory_bytes = pc_max_memory_bytes cfg,
                                              lp_fuel = pc_fuel cfg,
                                              lp_timeout_ticks = max (pc_timeout_ms cfg) 1,
                                              lp_permits = pc_max_concurrent cfg\<rparr>
                                in case wm_abi_version W m (lp_max_memory_bytes plugin) (lp_fuel plugin)
                                          (lp_timeout_ticks plugin) of
                                     Inl _ \<Rightarrow> (Inl (AbiCheckFailed (pc_name cfg)), cache1)
                                   | Inr v \<Rightarrow>
                                       if v = ABI_VERSION then (Inr plugin, cache1)
                                       else (Inl (UnsupportedAbi (pc_name cfg)), cache1))))"

fun load_plugins_from ::
  "'m wasm \<Rightarrow> (bytes \<Rightarrow> string) \<Rightarrow> (string \<Rightarrow> bytes option) \<Rightarrow> plugin_config list \<Rightarrow> 'm module_cache
   \<Rightarrow> (plugin_error, 'm loaded_plugin list) result \<times> 'm module_cache" where
  "load_plugins_from W sha256_hex read_file [] cache = (Inr [], cache)"
| "load_plugins_from W sha256_hex read_file (cfg # cfgs) cache =
     (case load_plugin W sha256_hex read_file cfg cache of
        (Inl e, cache1) \<Rightarrow> (Inl e, cache1)
      | (Inr p, cache1) \<Rightarrow>
          (case load_plugins_from W sha256_hex read_file cfgs cache1 of
             (Inl e, cache2) \<Rightarrow> (Inl e, cache2)
           | (Inr ps, cache2) \<Rightarrow> (Inr (p # ps), cache2)))"

subsection \<open>Requests\<close>

definition plugin_applies :: "'m loaded_plugin \<Rightarrow> string \<Rightarrow> bool" where
  "plugin_applies p hostname \<longleftrightarrow>
     lp_applies_to p = [] \<or> list_ex (\<lambda>pattern. matches_pattern pattern hostname) (lp_applies_to p)"

text \<open>The concurrency slots: \<open>prepare\<close> takes one of every plugin that applies, or none. The plugins
  are returned with their slots taken; \<open>finish_plugins\<close> gives them back when the job is dropped.\<close>

fun take_slots :: "string \<Rightarrow> 'm loaded_plugin list \<Rightarrow> (string, 'm loaded_plugin list) result" where
  "take_slots hostname [] = Inr []"
| "take_slots hostname (p # ps) =
     (if \<not> plugin_applies p hostname
      then and_then (take_slots hostname ps) (\<lambda>qs. Inr (p # qs))
      else if lp_permits p = 0 then Inl (lp_name p)
      else and_then (take_slots hostname ps) (\<lambda>qs. Inr (p\<lparr>lp_permits := lp_permits p - 1\<rparr> # qs)))"

datatype plugin_job = NoJob | Job string bytes

definition prepare_plugins ::
  "('ctx \<Rightarrow> bytes) \<Rightarrow> string \<Rightarrow> 'ctx \<Rightarrow> 'm loaded_plugin list
   \<Rightarrow> (plugin_verdict, plugin_job) result \<times> 'm loaded_plugin list" where
  "prepare_plugins ser hostname ctx ps =
     (case take_slots hostname ps of
        Inl name \<Rightarrow> (Inl (PluginFailed name Busy), ps)
      | Inr qs \<Rightarrow>
          if list_all (\<lambda>p. \<not> plugin_applies p hostname) ps then (Inr NoJob, qs)
          else (Inr (Job hostname (ser ctx)), qs))"

definition finish_plugins :: "string \<Rightarrow> 'm loaded_plugin list \<Rightarrow> 'm loaded_plugin list" where
  "finish_plugins hostname ps =
     map (\<lambda>p. if plugin_applies p hostname then p\<lparr>lp_permits := lp_permits p + 1\<rparr> else p) ps"

definition plugin_evaluate ::
  "'m wasm \<Rightarrow> 'm loaded_plugin \<Rightarrow> bytes \<Rightarrow> (plugin_failure, int) result" where
  "plugin_evaluate W p input =
     (if length input > MAX_INPUT_BYTES then Inl InputTooLarge
      else wm_evaluate W (lp_module p) (lp_max_memory_bytes p) (lp_fuel p) (lp_timeout_ticks p) input)"

fun evaluate_prepared ::
  "'m wasm \<Rightarrow> string \<Rightarrow> bytes \<Rightarrow> 'm loaded_plugin list \<Rightarrow> plugin_verdict" where
  "evaluate_prepared W hostname input [] = PluginAllow"
| "evaluate_prepared W hostname input (p # ps) =
     (if \<not> plugin_applies p hostname then evaluate_prepared W hostname input ps
      else case plugin_evaluate W p input of
             Inl failure \<Rightarrow> PluginFailed (lp_name p) failure
           | Inr code \<Rightarrow>
               if code = 0 then evaluate_prepared W hostname input ps
               else if code = 1 then PluginDeny (lp_name p)
               else PluginFailed (lp_name p) InvalidOutput)"

subsection \<open>Facts\<close>

lemma plugin_applies_permits [simp]: "plugin_applies (p\<lparr>lp_permits := n\<rparr>) h = plugin_applies p h"
  by (simp add: plugin_applies_def)

lemma take_slots_finish:
  "take_slots h ps = Inr qs \<Longrightarrow> finish_plugins h qs = ps"
  by (induction ps arbitrary: qs) (auto simp: finish_plugins_def split: if_splits)

lemma take_slots_evaluate:
  "take_slots h ps = Inr qs \<Longrightarrow> evaluate_prepared W h' input qs = evaluate_prepared W h' input ps"
proof (induction ps arbitrary: qs)
  case (Cons p ps)
  then obtain rs where rs: "take_slots h ps = Inr rs"
    and qs: "qs = p # rs \<or> qs = p\<lparr>lp_permits := lp_permits p - 1\<rparr> # rs"
    by (auto split: if_splits)
  have "plugin_evaluate W (p\<lparr>lp_permits := n\<rparr>) input = plugin_evaluate W p input" for n
    by (simp add: plugin_evaluate_def)
  with Cons.IH [OF rs] qs show ?case by (auto split: sum.split)
qed simp

lemma evaluate_prepared_Allow:
  "evaluate_prepared W h input ps = PluginAllow \<longleftrightarrow>
     (\<forall>p \<in> set ps. plugin_applies p h \<longrightarrow> plugin_evaluate W p input = Inr 0)"
  by (induction ps) (auto split: sum.splits if_splits)

lemma load_plugins_from_ok:
  assumes "load_plugins_from W sha rd cfgs cache = (Inr ps, cache')"
  shows "list_all2 (\<lambda>cfg p. \<exists>c1 c2. load_plugin W sha rd cfg c1 = (Inr p, c2)) cfgs ps"
  using assms
  by (induction cfgs arbitrary: cache ps) (auto split: prod.splits sum.splits)
end
