(* ===== verification/Policy.thy ===== *)
theory Policy
  imports Rate_Limit Plugins Std_Net "HOL-Library.Multiset"
begin

text \<open>
  The traffic policy (\<open>sievetube-edge/src/policy.rs\<close>): validating a configuration, the client
  address behind trusted proxies, and the decisions for HTTP requests, TCP connections and UDP
  datagrams. IP networks (the \<open>ipnet\<close> crate) and the keyed hashes of the tables are parameters.
\<close>

subsection \<open>Configuration\<close>

text \<open>A number of the configuration: TOML also has infinities and NaN.\<close>

datatype f64 = Finite real | NotFinite

datatype policy_mode = Enforce | Monitor
datatype rate_limit_key = TenantHostnameIp | ClientIp

record domain_policy_config =
  dp_hostname :: string
  dp_mode :: "policy_mode option"
  dp_blocked_cidrs :: "string list"
  dp_requests_per_second :: "f64 option"
  dp_burst :: "nat option"

record tcp_policy_config =
  tp_connections_per_second :: "f64 option"
  tp_connection_burst :: "nat option"
  tp_max_concurrent_per_ip :: "nat option"
  tp_max_concurrent_per_listener :: "nat option"

record udp_policy_config =
  up_packets_per_second :: "f64 option"
  up_packet_burst :: "nat option"
  up_bytes_per_second :: "f64 option"
  up_byte_burst :: "nat option"

record policy_config =
  pl_enabled :: bool
  pl_mode :: policy_mode
  pl_trusted_proxies :: "string list"
  pl_blocked_cidrs :: "string list"
  pl_requests_per_second :: "f64 option"
  pl_burst :: "nat option"
  pl_rate_limit_key :: rate_limit_key
  pl_max_entries :: nat
  pl_idle_ttl_secs :: nat
  pl_domains :: "domain_policy_config list"
  pl_tcp :: tcp_policy_config
  pl_udp :: udp_policy_config
  pl_plugins :: "plugin_config list"

record 'n ipnet =
  net_parse :: "string \<Rightarrow> 'n option"
  net_of_ip :: "ip_addr \<Rightarrow> 'n"
  net_trunc :: "'n \<Rightarrow> 'n"
  net_contains :: "'n \<Rightarrow> ip_addr \<Rightarrow> bool"

record 'n compiled_domain =
  cd_mode :: "policy_mode option"
  cd_blocked :: "'n list"
  cd_http_rate :: "rate_limit option"

record compiled_tcp =
  ct_connection_rate :: "rate_limit option"
  ct_max_concurrent_per_ip :: "nat option"
  ct_max_concurrent_per_listener :: "nat option"

record compiled_udp =
  cu_packet_rate :: "rate_limit option"
  cu_byte_rate :: "rate_limit option"

record 'n compiled_policy =
  cp_enabled :: bool
  cp_mode :: policy_mode
  cp_trusted_proxies :: "'n list"
  cp_blocked :: "'n list"
  cp_http_rate :: "rate_limit option"
  cp_key :: rate_limit_key
  cp_domains :: "(string, 'n compiled_domain) table"
  cp_max_entries :: nat
  cp_idle_ttl :: nat
  cp_tcp :: compiled_tcp
  cp_udp :: compiled_udp

datatype policy_error =
    BadDomain hostname_error | DuplicateDomain string | ZeroMaxEntries | ByteBurstTooSmall
  | BurstWithoutRate | RateNotPositive | ZeroBurst | NotPositive | BadNetwork string
  | BadPluginName string | DuplicatePlugin string | EmptyPluginPath string | BadPluginDigest string
  | BadPluginPattern string | BadPluginMemory string | BadPluginLimits string

definition rate_limit_of :: "f64 option \<Rightarrow> nat option \<Rightarrow> (policy_error, rate_limit option) result" where
  "rate_limit_of per_second burst =
     (case per_second of
        None \<Rightarrow> (case burst of None \<Rightarrow> Inr None | Some _ \<Rightarrow> Inl BurstWithoutRate)
      | Some NotFinite \<Rightarrow> Inl RateNotPositive
      | Some (Finite rate) \<Rightarrow>
          if rate \<le> 0 then Inl RateNotPositive
          else let b = (case burst of
                          Some b \<Rightarrow> b
                        | None \<Rightarrow> min (nat (max \<lceil>rate\<rceil> 1)) (2 ^ 32 - 1))
               in if b = 0 then Inl ZeroBurst
                  else Inr (Some \<lparr>rl_per_second = rate, rl_burst = real b\<rparr>))"

definition positive :: "nat option \<Rightarrow> (policy_error, nat option) result" where
  "positive value = (if value = Some 0 then Inl NotPositive else Inr value)"

definition parse_network :: "'n ipnet \<Rightarrow> string \<Rightarrow> 'n option" where
  "parse_network N value =
     (let v = trim value
      in map_option (net_trunc N)
           (case net_parse N v of
              Some n \<Rightarrow> Some n
            | None \<Rightarrow> map_option (net_of_ip N) (parse_ip_addr v)))"

fun parse_networks :: "'n ipnet \<Rightarrow> string list \<Rightarrow> (policy_error, 'n list) result" where
  "parse_networks N [] = Inr []"
| "parse_networks N (v # vs) =
     (case parse_network N v of
        None \<Rightarrow> Inl (BadNetwork v)
      | Some n \<Rightarrow> and_then (parse_networks N vs) (\<lambda>ns. Inr (n # ns)))"

fun compile_domains ::
  "'n ipnet \<Rightarrow> domain_policy_config list \<Rightarrow> (string, 'n compiled_domain) table
   \<Rightarrow> (policy_error, (string, 'n compiled_domain) table) result" where
  "compile_domains N [] domains = Inr domains"
| "compile_domains N (d # ds) domains =
     and_then (map_err BadDomain (normalize_hostname_pattern (dp_hostname d))) (\<lambda>name.
     and_then (parse_networks N (dp_blocked_cidrs d)) (\<lambda>blocked.
     and_then (rate_limit_of (dp_requests_per_second d) (dp_burst d)) (\<lambda>rate.
       if map_of domains name \<noteq> None then Inl (DuplicateDomain name)
       else compile_domains N ds
              (t_insert name \<lparr>cd_mode = dp_mode d, cd_blocked = blocked, cd_http_rate = rate\<rparr> domains))))"

definition plugin_name_char :: "char \<Rightarrow> bool" where
  "plugin_name_char c \<longleftrightarrow> is_ascii_lowercase c \<or> is_ascii_digit c \<or> c = CHR ''-'' \<or> c = CHR ''_''"

fun check_plugins :: "string list \<Rightarrow> plugin_config list \<Rightarrow> (policy_error, unit) result" where
  "check_plugins names [] = Inr ()"
| "check_plugins names (p # ps) =
     (let name = pc_name p; sha256 = trim (pc_sha256 p)
      in if name = [] \<or> \<not> list_all plugin_name_char name then Inl (BadPluginName name)
         else if name \<in> set names then Inl (DuplicatePlugin name)
         else if trim (pc_path p) = [] then Inl (EmptyPluginPath name)
         else if length sha256 \<noteq> 64 \<or> \<not> list_all is_ascii_hexdigit sha256 then Inl (BadPluginDigest name)
         else if list_ex (\<lambda>q. \<not> is_ok (normalize_hostname_pattern q)) (pc_applies_to p)
           then Inl (BadPluginPattern name)
         else if \<not> (65536 \<le> pc_max_memory_bytes p \<and> pc_max_memory_bytes p \<le> 1073741824)
           then Inl (BadPluginMemory name)
         else if pc_fuel p = 0 \<or> pc_max_concurrent p = 0 \<or> \<not> (1 \<le> pc_timeout_ms p \<and> pc_timeout_ms p \<le> 10000)
           then Inl (BadPluginLimits name)
         else check_plugins (name # names) ps)"

definition compile :: "'n ipnet \<Rightarrow> policy_config \<Rightarrow> (policy_error, 'n compiled_policy) result" where
  "compile N cfg =
     and_then (compile_domains N (pl_domains cfg) []) (\<lambda>domains.
     if pl_max_entries cfg = 0 then Inl ZeroMaxEntries
     else
       and_then (rate_limit_of (up_packets_per_second (pl_udp cfg)) (up_packet_burst (pl_udp cfg))) (\<lambda>packet_rate.
       and_then (rate_limit_of (up_bytes_per_second (pl_udp cfg)) (up_byte_burst (pl_udp cfg))) (\<lambda>byte_rate.
       if (case byte_rate of None \<Rightarrow> False | Some r \<Rightarrow> rl_burst r < 65535) then Inl ByteBurstTooSmall
       else
         and_then (check_plugins [] (pl_plugins cfg)) (\<lambda>_.
         and_then (parse_networks N (pl_trusted_proxies cfg)) (\<lambda>trusted.
         and_then (parse_networks N (pl_blocked_cidrs cfg)) (\<lambda>blocked.
         and_then (rate_limit_of (pl_requests_per_second cfg) (pl_burst cfg)) (\<lambda>http_rate.
         and_then (rate_limit_of (tp_connections_per_second (pl_tcp cfg)) (tp_connection_burst (pl_tcp cfg))) (\<lambda>conn_rate.
         and_then (positive (tp_max_concurrent_per_ip (pl_tcp cfg))) (\<lambda>per_ip.
         and_then (positive (tp_max_concurrent_per_listener (pl_tcp cfg))) (\<lambda>per_listener.
           Inr \<lparr>cp_enabled = pl_enabled cfg, cp_mode = pl_mode cfg, cp_trusted_proxies = trusted,
                cp_blocked = blocked, cp_http_rate = http_rate, cp_key = pl_rate_limit_key cfg,
                cp_domains = domains, cp_max_entries = pl_max_entries cfg,
                cp_idle_ttl = pl_idle_ttl_secs cfg * nanos_per_sec,
                cp_tcp = \<lparr>ct_connection_rate = conn_rate, ct_max_concurrent_per_ip = per_ip,
                          ct_max_concurrent_per_listener = per_listener\<rparr>,
                cp_udp = \<lparr>cu_packet_rate = packet_rate, cu_byte_rate = byte_rate\<rparr>\<rparr>))))))))))"

definition domain_for :: "'n compiled_policy \<Rightarrow> string \<Rightarrow> 'n compiled_domain option" where
  "domain_for policy hostname =
     (case map_of (cp_domains policy) hostname of
        Some d \<Rightarrow> Some d
      | None \<Rightarrow> (case wildcard_for hostname of
                  None \<Rightarrow> None | Some pattern \<Rightarrow> map_of (cp_domains policy) pattern))"

subsection \<open>The client address\<close>

definition contains_ip :: "'n ipnet \<Rightarrow> 'n list \<Rightarrow> ip_addr \<Rightarrow> bool" where
  "contains_ip N networks ip \<longleftrightarrow> list_ex (\<lambda>n. net_contains N n ip) networks"

definition parse_forwarded_ip :: "string \<Rightarrow> ip_addr option" where
  "parse_forwarded_ip value =
     (case parse_ip_addr value of
        Some ip \<Rightarrow> Some (to_canonical ip)
      | None \<Rightarrow>
          (case strip_prefix ''['' value of
             Some rest \<Rightarrow>
               (case split_once (CHR '']'') rest of
                  None \<Rightarrow> None
                | Some (host, _) \<Rightarrow> map_option to_canonical (parse_ip_addr host))
           | None \<Rightarrow>
               (case rsplit_once (CHR '':'') value of
                  None \<Rightarrow> None
                | Some (host, port) \<Rightarrow>
                    (case parse_uint 16 port of
                       None \<Rightarrow> None
                     | Some _ \<Rightarrow> map_option to_canonical (parse_ip_addr host)))))"

text \<open>The hops of all headers, left to right; the loop walks them from the right.\<close>

definition forwarded_hops :: "string list \<Rightarrow> string list" where
  "forwarded_hops forwarded_for = map trim (concat (map (split_on (CHR '','')) forwarded_for))"

fun walk_hops :: "'n ipnet \<Rightarrow> 'n list \<Rightarrow> ip_addr \<Rightarrow> string list \<Rightarrow> ip_addr" where
  "walk_hops N trusted client [] = client"
| "walk_hops N trusted client (hop # hops) =
     (case parse_forwarded_ip hop of
        None \<Rightarrow> client
      | Some ip \<Rightarrow> if contains_ip N trusted ip then walk_hops N trusted ip hops else ip)"

definition resolve_client_ip :: "'n ipnet \<Rightarrow> ip_addr \<Rightarrow> string list \<Rightarrow> 'n list \<Rightarrow> ip_addr" where
  "resolve_client_ip N peer forwarded_for trusted =
     (let p = to_canonical peer
      in if \<not> contains_ip N trusted p then p
         else walk_hops N trusted p (rev (forwarded_hops forwarded_for)))"

subsection \<open>Decisions\<close>

datatype policy_reason = BlockedCidr | RateLimited_reason | Capacity_reason | ConcurrencyLimit
  | Plugin_reason | PluginFailure_reason

datatype decision = Allow | Deny policy_reason | RateLimited policy_reason nat | Unevaluated policy_reason

record verdict =
  vd_decision :: decision
  vd_enforced :: bool

definition allow_verdict :: verdict where
  "allow_verdict = \<lparr>vd_decision = Allow, vd_enforced = True\<rparr>"

definition rejects :: "verdict \<Rightarrow> bool" where
  "rejects v \<longleftrightarrow> vd_enforced v \<and> vd_decision v \<noteq> Allow"

text \<open>The keys that are hashed, one keyed hash per table.\<close>

datatype limit_key =
    KTenantHostnameIp string string ip_addr
  | KClientIp ip_addr
  | KListenerIp string ip_addr
  | KListener string

record hashers =
  hk_http :: "limit_key \<Rightarrow> 64 word"
  hk_tcp :: "limit_key \<Rightarrow> 64 word"
  hk_udp_packets :: "limit_key \<Rightarrow> 64 word"
  hk_udp_bytes :: "limit_key \<Rightarrow> 64 word"
  hk_active :: "limit_key \<Rightarrow> 64 word"

record ('n, 'm) policy_state =
  ps_compiled :: "'n compiled_policy"
  ps_plugins :: "'m loaded_plugin list"
  ps_module_cache :: "'m module_cache"
  ps_http_buckets :: bucket_table
  ps_tcp_buckets :: bucket_table
  ps_udp_packet_buckets :: bucket_table
  ps_udp_byte_buckets :: bucket_table
  ps_tcp_ip_active :: "(64 word, nat) table"
  ps_tcp_listener_active :: "(64 word, nat) table"

record request_context =
  rq_tenant_id :: string
  rq_hostname :: string
  rq_protocol :: protocol
  rq_client_ip :: ip_addr
  rq_method :: string
  rq_path :: string

record take_env =
  te_fl :: "real \<Rightarrow> real"
  te_cas_ok :: bool
  te_now :: nat

definition take_from ::
  "take_env \<Rightarrow> 'n compiled_policy \<Rightarrow> 64 word \<Rightarrow> rate_limit \<Rightarrow> real \<Rightarrow> bucket_table
   \<Rightarrow> (take_error, unit) result \<times> bucket_table" where
  "take_from env policy key limit amount t =
     table_take (te_fl env) (te_cas_ok env) key limit amount (te_now env) (cp_max_entries policy)
       (cp_idle_ttl policy) t"

text \<open>\<open>limited\<close>; a panic of the take is not a decision, it ends the task.\<close>

definition limited :: "take_error \<Rightarrow> decision option" where
  "limited e =
     (case e of
        Limited wait_secs \<Rightarrow>
          Some (RateLimited RateLimited_reason (min (nat (max \<lceil>wait_secs\<rceil> 1)) (2 ^ 64 - 1)))
      | Capacity \<Rightarrow> Some (RateLimited Capacity_reason 1)
      | TakePanic \<Rightarrow> None)"

definition taken :: "(take_error, unit) result \<Rightarrow> decision option" where
  "taken r = (case r of Inl e \<Rightarrow> limited e | Inr _ \<Rightarrow> Some Allow)"

definition http_key :: "rate_limit_key \<Rightarrow> request_context \<Rightarrow> limit_key" where
  "http_key k ctx =
     (case k of
        TenantHostnameIp \<Rightarrow> KTenantHostnameIp (rq_tenant_id ctx) (rq_hostname ctx) (rq_client_ip ctx)
      | ClientIp \<Rightarrow> KClientIp (rq_client_ip ctx))"

definition decide_http ::
  "'n ipnet \<Rightarrow> hashers \<Rightarrow> take_env \<Rightarrow> 'n compiled_policy \<Rightarrow> 'n compiled_domain option \<Rightarrow> request_context
   \<Rightarrow> bucket_table \<Rightarrow> decision option \<times> bucket_table" where
  "decide_http N H env policy domain ctx buckets =
     (if contains_ip N (cp_blocked policy) (rq_client_ip ctx)
         \<or> (case domain of None \<Rightarrow> False | Some d \<Rightarrow> contains_ip N (cd_blocked d) (rq_client_ip ctx))
      then (Some (Deny BlockedCidr), buckets)
      else case (case domain of
                   Some d \<Rightarrow> (case cd_http_rate d of Some l \<Rightarrow> Some l | None \<Rightarrow> cp_http_rate policy)
                 | None \<Rightarrow> cp_http_rate policy) of
             None \<Rightarrow> (Some Allow, buckets)
           | Some limit \<Rightarrow>
               (case take_from env policy (hk_http H (http_key (cp_key policy) ctx)) limit 1 buckets of
                  (r, buckets') \<Rightarrow> (taken r, buckets')))"

text \<open>\<open>finished\<close>: the blocking task returned; otherwise it panicked or was cancelled.\<close>

definition decide_plugins ::
  "'m wasm \<Rightarrow> (request_context \<Rightarrow> bytes) \<Rightarrow> bool \<Rightarrow> request_context \<Rightarrow> 'm loaded_plugin list
   \<Rightarrow> decision \<times> 'm loaded_plugin list" where
  "decide_plugins W ser finished ctx plugins =
     (case prepare_plugins ser (rq_hostname ctx) ctx plugins of
        (Inr NoJob, ps) \<Rightarrow> (Allow, ps)
      | (Inr (Job hostname input), ps) \<Rightarrow>
          (if \<not> finished then Unevaluated PluginFailure_reason
           else case evaluate_prepared W hostname input ps of
                  PluginAllow \<Rightarrow> Allow
                | PluginDeny _ \<Rightarrow> Deny Plugin_reason
                | PluginFailed _ _ \<Rightarrow> Unevaluated PluginFailure_reason,
           finish_plugins hostname ps)
      | (Inl busy, ps) \<Rightarrow>
          (case busy of
             PluginAllow \<Rightarrow> Allow
           | PluginDeny _ \<Rightarrow> Deny Plugin_reason
           | PluginFailed _ _ \<Rightarrow> Unevaluated PluginFailure_reason, ps))"

definition evaluate_http ::
  "'n ipnet \<Rightarrow> hashers \<Rightarrow> 'm wasm \<Rightarrow> (request_context \<Rightarrow> bytes) \<Rightarrow> take_env \<Rightarrow> bool \<Rightarrow> request_context
   \<Rightarrow> ('n, 'm) policy_state \<Rightarrow> verdict option \<times> ('n, 'm) policy_state" where
  "evaluate_http N H W ser env finished ctx ps =
     (let policy = ps_compiled ps
      in if \<not> cp_enabled policy then (Some allow_verdict, ps)
         else let domain = domain_for policy (rq_hostname ctx);
                  mode = (case domain of
                            Some d \<Rightarrow> (case cd_mode d of Some m \<Rightarrow> m | None \<Rightarrow> cp_mode policy)
                          | None \<Rightarrow> cp_mode policy)
              in case decide_http N H env policy domain ctx (ps_http_buckets ps) of
                   (None, buckets) \<Rightarrow> (None, ps\<lparr>ps_http_buckets := buckets\<rparr>)
                 | (Some d, buckets) \<Rightarrow>
                     (let ps1 = ps\<lparr>ps_http_buckets := buckets\<rparr>;
                          (d', plugins) = (if d = Allow then decide_plugins W ser finished ctx (ps_plugins ps)
                                           else (d, ps_plugins ps))
                      in (Some \<lparr>vd_decision = d', vd_enforced = (mode = Enforce)\<rparr>,
                          ps1\<lparr>ps_plugins := plugins\<rparr>)))"

subsection \<open>TCP and UDP\<close>

definition acquire_slot :: "64 word \<Rightarrow> nat \<Rightarrow> (64 word, nat) table \<Rightarrow> bool \<times> (64 word, nat) table" where
  "acquire_slot key limit t =
     (let n = (case map_of t key of None \<Rightarrow> 0 | Some n \<Rightarrow> n)
      in if n \<ge> limit then (False, t_insert key n t) else (True, t_insert key (n + 1) t))"

definition release_slot :: "64 word \<Rightarrow> (64 word, nat) table \<Rightarrow> (64 word, nat) table" where
  "release_slot key t =
     (case map_of t key of
        None \<Rightarrow> t
      | Some n \<Rightarrow> if n - 1 = 0 then t_remove key t else t_insert key (n - 1) t)"

record tcp_permit =
  pm_ip_key :: "64 word option"
  pm_listener_key :: "64 word option"

definition release_opt :: "64 word option \<Rightarrow> (64 word, nat) table \<Rightarrow> (64 word, nat) table" where
  "release_opt key t = (case key of None \<Rightarrow> t | Some k \<Rightarrow> release_slot k t)"

definition drop_permit :: "tcp_permit \<Rightarrow> ('n, 'm) policy_state \<Rightarrow> ('n, 'm) policy_state" where
  "drop_permit p ps =
     ps\<lparr>ps_tcp_ip_active := release_opt (pm_ip_key p) (ps_tcp_ip_active ps),
        ps_tcp_listener_active := release_opt (pm_listener_key p) (ps_tcp_listener_active ps)\<rparr>"

definition acquire_tcp ::
  "hashers \<Rightarrow> compiled_tcp \<Rightarrow> string \<Rightarrow> ip_addr \<Rightarrow> ('n, 'm) policy_state
   \<Rightarrow> tcp_permit option \<times> ('n, 'm) policy_state" where
  "acquire_tcp H limits listener client_ip ps =
     (let listener_key = hk_active H (KListener listener);
          ip_key = hk_active H (KListenerIp listener client_ip);
          (ok_l, ls) = (case ct_max_concurrent_per_listener limits of
                          None \<Rightarrow> (True, ps_tcp_listener_active ps)
                        | Some m \<Rightarrow> acquire_slot listener_key m (ps_tcp_listener_active ps));
          held_l = (if ct_max_concurrent_per_listener limits = None then None else Some listener_key)
      in if \<not> ok_l then (None, ps\<lparr>ps_tcp_listener_active := ls\<rparr>)
         else case ct_max_concurrent_per_ip limits of
                None \<Rightarrow> (Some \<lparr>pm_ip_key = None, pm_listener_key = held_l\<rparr>,
                          ps\<lparr>ps_tcp_listener_active := ls\<rparr>)
              | Some m \<Rightarrow>
                  (case acquire_slot ip_key m (ps_tcp_ip_active ps) of
                     (False, ips) \<Rightarrow>
                       (None, ps\<lparr>ps_tcp_ip_active := ips, ps_tcp_listener_active := release_opt held_l ls\<rparr>)
                   | (True, ips) \<Rightarrow>
                       (Some \<lparr>pm_ip_key = Some ip_key, pm_listener_key = held_l\<rparr>,
                        ps\<lparr>ps_tcp_ip_active := ips, ps_tcp_listener_active := ls\<rparr>)))"

definition admit_tcp ::
  "'n ipnet \<Rightarrow> hashers \<Rightarrow> take_env \<Rightarrow> string \<Rightarrow> ip_addr \<Rightarrow> ('n, 'm) policy_state
   \<Rightarrow> (verdict \<times> tcp_permit option) option \<times> ('n, 'm) policy_state" where
  "admit_tcp N H env listener peer ps =
     (let policy = ps_compiled ps; client_ip = to_canonical peer
      in if \<not> cp_enabled policy then (Some (allow_verdict, None), ps)
         else let (decision, ps1) =
                    (if contains_ip N (cp_blocked policy) client_ip then (Some (Deny BlockedCidr), ps)
                     else case ct_connection_rate (cp_tcp policy) of
                            None \<Rightarrow> (Some Allow, ps)
                          | Some limit \<Rightarrow>
                              (case take_from env policy (hk_tcp H (KListenerIp listener client_ip)) limit 1
                                      (ps_tcp_buckets ps) of
                                 (r, t) \<Rightarrow> (taken r, ps\<lparr>ps_tcp_buckets := t\<rparr>)))
              in case decision of
                   None \<Rightarrow> (None, ps1)
                 | Some d \<Rightarrow>
                     (let (d', permit, ps2) =
                            (if d = Allow
                             then (case acquire_tcp H (cp_tcp policy) listener client_ip ps1 of
                                     (Some p, ps2) \<Rightarrow> (Allow, Some p, ps2)
                                   | (None, ps2) \<Rightarrow> (Deny ConcurrencyLimit, None, ps2))
                             else (d, None, ps1))
                      in (Some (\<lparr>vd_decision = d', vd_enforced = (cp_mode policy = Enforce)\<rparr>, permit), ps2)))"

definition admit_udp ::
  "'n ipnet \<Rightarrow> hashers \<Rightarrow> take_env \<Rightarrow> string \<Rightarrow> ip_addr \<Rightarrow> nat \<Rightarrow> ('n, 'm) policy_state
   \<Rightarrow> verdict option \<times> ('n, 'm) policy_state" where
  "admit_udp N H env listener peer len ps =
     (let policy = ps_compiled ps; client_ip = to_canonical peer; key = KListenerIp listener client_ip;
          done = (\<lambda>d ps'. (map_option (\<lambda>x. \<lparr>vd_decision = x, vd_enforced = (cp_mode policy = Enforce)\<rparr>) d, ps'))
      in if \<not> cp_enabled policy then (Some allow_verdict, ps)
         else if contains_ip N (cp_blocked policy) client_ip then done (Some (Deny BlockedCidr)) ps
         else let (packets, ps1) =
                    (case cu_packet_rate (cp_udp policy) of
                       None \<Rightarrow> (Inr (), ps)
                     | Some limit \<Rightarrow>
                         (case take_from env policy (hk_udp_packets H key) limit 1 (ps_udp_packet_buckets ps) of
                            (r, t) \<Rightarrow> (r, ps\<lparr>ps_udp_packet_buckets := t\<rparr>)))
              in case packets of
                   Inl e \<Rightarrow> done (limited e) ps1
                 | Inr _ \<Rightarrow>
                     (case cu_byte_rate (cp_udp policy) of
                        None \<Rightarrow> done (Some Allow) ps1
                      | Some limit \<Rightarrow>
                          (case take_from env policy (hk_udp_bytes H key) limit (real len)
                                  (ps_udp_byte_buckets ps1) of
                             (r, t) \<Rightarrow> done (taken r) (ps1\<lparr>ps_udp_byte_buckets := t\<rparr>))))"

definition policy_sweep :: "nat \<Rightarrow> ('n, 'm) policy_state \<Rightarrow> ('n, 'm) policy_state" where
  "policy_sweep now ps =
     (let ttl = cp_idle_ttl (ps_compiled ps)
      in ps\<lparr>ps_http_buckets := sweep_table now ttl (ps_http_buckets ps),
            ps_tcp_buckets := sweep_table now ttl (ps_tcp_buckets ps),
            ps_udp_packet_buckets := sweep_table now ttl (ps_udp_packet_buckets ps),
            ps_udp_byte_buckets := sweep_table now ttl (ps_udp_byte_buckets ps)\<rparr>)"

definition load_plugins ::
  "'m wasm \<Rightarrow> (bytes \<Rightarrow> string) \<Rightarrow> (string \<Rightarrow> bytes option) \<Rightarrow> policy_config \<Rightarrow> 'm module_cache
   \<Rightarrow> (plugin_error, 'm loaded_plugin list) result \<times> 'm module_cache" where
  "load_plugins W sha256_hex read_file cfg cache =
     (if pl_enabled cfg then load_plugins_from W sha256_hex read_file (pl_plugins cfg) cache
      else (Inr [], cache))"

datatype reload_error = ReloadConfig policy_error | ReloadPlugins plugin_error

definition reload_policy ::
  "'n ipnet \<Rightarrow> 'm wasm \<Rightarrow> (bytes \<Rightarrow> string) \<Rightarrow> (string \<Rightarrow> bytes option) \<Rightarrow> policy_config
   \<Rightarrow> ('n, 'm) policy_state \<Rightarrow> (reload_error, unit) result \<times> ('n, 'm) policy_state" where
  "reload_policy N W sha256_hex read_file cfg ps =
     (case compile N cfg of
        Inl e \<Rightarrow> (Inl (ReloadConfig e), ps)
      | Inr compiled \<Rightarrow>
          (case load_plugins W sha256_hex read_file cfg (ps_module_cache ps) of
             (Inl e, cache) \<Rightarrow> (Inl (ReloadPlugins e), ps\<lparr>ps_module_cache := cache\<rparr>)
           | (Inr plugins, cache) \<Rightarrow>
               (Inr (), ps\<lparr>ps_module_cache := cache, ps_plugins := plugins, ps_compiled := compiled\<rparr>)))"

subsection \<open>Facts\<close>

lemma walk_hops_trusted:
  assumes "\<forall>h \<in> set hops. \<exists>ip. parse_forwarded_ip h = Some ip \<and> contains_ip N trusted ip"
    and "parse_forwarded_ip hop = Some ip" "\<not> contains_ip N trusted ip"
  shows "walk_hops N trusted client (hops @ hop # rest) = ip"
  using assms(1) by (induction hops arbitrary: client) (auto simp: assms(2,3))

lemma walk_hops_range:
  "walk_hops N trusted client hops = client
   \<or> (\<exists>h \<in> set hops. parse_forwarded_ip h = Some (walk_hops N trusted client hops))"
proof (induction hops arbitrary: client)
  case (Cons h hops)
  show ?case
    using Cons.IH [of "the (parse_forwarded_ip h)"] by (auto split: option.splits)
qed simp

text \<open>The number of slots in use under a key.\<close>

definition active :: "(64 word, nat) table \<Rightarrow> 64 word \<Rightarrow> nat" where
  "active t k = (case map_of t k of None \<Rightarrow> 0 | Some n \<Rightarrow> n)"

lemma acquire_slot_active:
  assumes "acquire_slot key limit t = (ok, t')"
  shows "ok \<longleftrightarrow> active t key < limit" and "active t' = (active t)(key := active t key + of_bool ok)"
  using assms
  by (auto simp: acquire_slot_def active_def Let_def tab_simps fun_eq_iff split: option.splits if_splits)

lemma release_slot_active:
  "active (release_slot key t) = (active t)(key := active t key - 1)"
  by (auto simp: release_slot_def active_def tab_simps fun_eq_iff split: option.splits)

lemma release_opt_active:
  "active (release_opt key t) = (case key of None \<Rightarrow> active t | Some k \<Rightarrow> (active t)(k := active t k - 1))"
  by (simp add: release_opt_def release_slot_active split: option.split)

text \<open>The effect of \<open>acquire_tcp\<close> on both counts.\<close>

definition add_one :: "64 word option \<Rightarrow> (64 word \<Rightarrow> nat) \<Rightarrow> 64 word \<Rightarrow> nat" where
  "add_one key f = (case key of None \<Rightarrow> f | Some k \<Rightarrow> f(k := f k + 1))"

lemma acquire_tcp_counts:
  assumes "acquire_tcp H limits listener ip ps = (r, ps')"
  shows "case r of
           None \<Rightarrow> active (ps_tcp_ip_active ps') = active (ps_tcp_ip_active ps)
                   \<and> active (ps_tcp_listener_active ps') = active (ps_tcp_listener_active ps)
         | Some p \<Rightarrow>
             active (ps_tcp_ip_active ps') = add_one (pm_ip_key p) (active (ps_tcp_ip_active ps))
             \<and> active (ps_tcp_listener_active ps') = add_one (pm_listener_key p) (active (ps_tcp_listener_active ps))
             \<and> (\<forall>m. ct_max_concurrent_per_ip limits = Some m \<longrightarrow>
                  pm_ip_key p = Some (hk_active H (KListenerIp listener ip))
                  \<and> active (ps_tcp_ip_active ps') (hk_active H (KListenerIp listener ip)) \<le> m)
             \<and> (\<forall>m. ct_max_concurrent_per_listener limits = Some m \<longrightarrow>
                  pm_listener_key p = Some (hk_active H (KListener listener))
                  \<and> active (ps_tcp_listener_active ps') (hk_active H (KListener listener)) \<le> m)"
proof -
  let ?lk = "hk_active H (KListener listener)" and ?ik = "hk_active H (KListenerIp listener ip)"
  obtain ok_l ls where l: "(case ct_max_concurrent_per_listener limits of
      None \<Rightarrow> (True, ps_tcp_listener_active ps)
    | Some m \<Rightarrow> acquire_slot ?lk m (ps_tcp_listener_active ps)) = (ok_l, ls)" by fastforce
  let ?held = "if ct_max_concurrent_per_listener limits = None then None else Some ?lk"
  have lc: "active ls = (if ok_l then add_one ?held (active (ps_tcp_listener_active ps))
                         else active (ps_tcp_listener_active ps))"
    "\<And>m. ok_l \<Longrightarrow> ct_max_concurrent_per_listener limits = Some m \<Longrightarrow> active ls ?lk \<le> m"
    "ct_max_concurrent_per_listener limits = None \<Longrightarrow> ok_l"
  proof (atomize (full), cases "ct_max_concurrent_per_listener limits")
    case (Some m)
    then have "acquire_slot ?lk m (ps_tcp_listener_active ps) = (ok_l, ls)" using l by simp
    from acquire_slot_active [OF this] Some show "active ls = (if ok_l then add_one ?held (active (ps_tcp_listener_active ps))
                         else active (ps_tcp_listener_active ps))
      \<and> (\<forall>m. ok_l \<longrightarrow> ct_max_concurrent_per_listener limits = Some m \<longrightarrow> active ls ?lk \<le> m)
      \<and> (ct_max_concurrent_per_listener limits = None \<longrightarrow> ok_l)"
      by (simp add: add_one_def)
  qed (use l in \<open>simp add: add_one_def\<close>)
  have rel: "active (release_opt ?held ls) = active (ps_tcp_listener_active ps)" if ok_l
    using that lc(1) by (auto simp: release_opt_active add_one_def fun_eq_iff)
  show ?thesis
  proof (cases "ok_l \<and> (\<exists>m. ct_max_concurrent_per_ip limits = Some m)")
    case False
    then show ?thesis
      using assms l lc by (auto simp: acquire_tcp_def Let_def add_one_def split: if_splits option.splits)
  next
    case True
    then obtain m where ok: ok_l and m: "ct_max_concurrent_per_ip limits = Some m" by blast
    obtain ok_i ips where i: "acquire_slot ?ik m (ps_tcp_ip_active ps) = (ok_i, ips)" by fastforce
    note ic = acquire_slot_active [OF i]
    have "(r, ps') = (if ok_i then (Some \<lparr>pm_ip_key = Some ?ik, pm_listener_key = ?held\<rparr>,
                        ps\<lparr>ps_tcp_ip_active := ips, ps_tcp_listener_active := ls\<rparr>)
        else (None, ps\<lparr>ps_tcp_ip_active := ips, ps_tcp_listener_active := release_opt ?held ls\<rparr>))"
      using assms l ok m i by (auto simp: acquire_tcp_def Let_def split: bool.splits)
    then show ?thesis
      using ic lc ok rel m by (auto simp: add_one_def split: if_splits)
  qed
qed

text \<open>
  Runs of the TCP admission with the permits held: connections are admitted or refused, permits are
  dropped when connections end, and the configuration is replaced, in any order.
\<close>

inductive tcp_run :: "hashers \<Rightarrow> ('n, 'm) policy_state \<Rightarrow> tcp_permit multiset \<Rightarrow> bool" for H where
  start: "ps_tcp_ip_active ps = [] \<Longrightarrow> ps_tcp_listener_active ps = [] \<Longrightarrow> tcp_run H ps {#}"
| admitted: "tcp_run H ps held \<Longrightarrow> admit_tcp N H env listener ip ps = (Some (v, Some p), ps')
    \<Longrightarrow> tcp_run H ps' (add_mset p held)"
| refused: "tcp_run H ps held \<Longrightarrow> admit_tcp N H env listener ip ps = (r, ps')
    \<Longrightarrow> (\<nexists>v p. r = Some (v, Some p)) \<Longrightarrow> tcp_run H ps' held"
| closed: "tcp_run H ps held \<Longrightarrow> p \<in># held \<Longrightarrow> tcp_run H (drop_permit p ps) (held - {#p#})"
| reloaded: "tcp_run H ps held \<Longrightarrow> reload_policy N W sha rd cfg ps = (r, ps') \<Longrightarrow> tcp_run H ps' held"

definition held_ip :: "tcp_permit multiset \<Rightarrow> 64 word \<Rightarrow> nat" where
  "held_ip held k = count (image_mset pm_ip_key held) (Some k)"

definition held_listener :: "tcp_permit multiset \<Rightarrow> 64 word \<Rightarrow> nat" where
  "held_listener held k = count (image_mset pm_listener_key held) (Some k)"

lemma held_add [simp]:
  "held_ip (add_mset p held) = add_one (pm_ip_key p) (held_ip held)"
  "held_listener (add_mset p held) = add_one (pm_listener_key p) (held_listener held)"
  by (auto simp: held_ip_def held_listener_def add_one_def fun_eq_iff split: option.split)

lemma held_remove:
  assumes "p \<in># held"
  shows "held_ip (held - {#p#}) = (case pm_ip_key p of None \<Rightarrow> held_ip held
           | Some k \<Rightarrow> (held_ip held)(k := held_ip held k - 1))"
    and "held_listener (held - {#p#}) = (case pm_listener_key p of None \<Rightarrow> held_listener held
           | Some k \<Rightarrow> (held_listener held)(k := held_listener held k - 1))"
  using image_mset_Diff [of "{#p#}" held pm_ip_key] image_mset_Diff [of "{#p#}" held pm_listener_key] assms
  by (auto simp: held_ip_def held_listener_def fun_eq_iff split: option.split)

lemma admit_tcp_counts:
  assumes "admit_tcp N H env listener ip ps = (r, ps')"
  shows "case r of
      Some (v, Some p) \<Rightarrow>
        \<exists>ps1. active (ps_tcp_ip_active ps1) = active (ps_tcp_ip_active ps)
            \<and> active (ps_tcp_listener_active ps1) = active (ps_tcp_listener_active ps)
            \<and> acquire_tcp H (cp_tcp (ps_compiled ps)) listener (to_canonical ip) ps1 = (Some p, ps')
    | _ \<Rightarrow> active (ps_tcp_ip_active ps') = active (ps_tcp_ip_active ps)
        \<and> active (ps_tcp_listener_active ps') = active (ps_tcp_listener_active ps)"
proof -
  have acq: "active (ps_tcp_ip_active p2) = active (ps_tcp_ip_active p1)
      \<and> active (ps_tcp_listener_active p2) = active (ps_tcp_listener_active p1)"
    if "acquire_tcp H l s i p1 = (None, p2)" for l s i and p1 p2 :: "('n, 'm) policy_state"
    using acquire_tcp_counts [OF that] by simp
  show ?thesis
    using assms
    apply (auto simp: admit_tcp_def Let_def split: if_splits option.splits prod.splits dest!: acq)
    subgoal for _ _ t by (rule exI [of _ "ps\<lparr>ps_tcp_buckets := t\<rparr>"]) simp
    done
qed

lemma tcp_run_counts:
  "tcp_run H ps held \<Longrightarrow>
     active (ps_tcp_ip_active ps) = held_ip held \<and> active (ps_tcp_listener_active ps) = held_listener held"
proof (induction rule: tcp_run.induct)
  case (start ps)
  then show ?case by (simp add: active_def held_ip_def held_listener_def fun_eq_iff)
next
  case (admitted ps held N env listener ip v p ps')
  from admit_tcp_counts [OF admitted.hyps(2)] obtain ps1 where
    "active (ps_tcp_ip_active ps1) = active (ps_tcp_ip_active ps)"
    "active (ps_tcp_listener_active ps1) = active (ps_tcp_listener_active ps)"
    "acquire_tcp H (cp_tcp (ps_compiled ps)) listener (to_canonical ip) ps1 = (Some p, ps')"
    by auto
  with acquire_tcp_counts [OF this(3)] admitted.IH show ?case by simp
next
  case (refused ps held N env listener ip r ps')
  then show ?case
    using admit_tcp_counts [OF refused.hyps(2)] by (auto split: option.splits)
next
  case (closed ps held p)
  then show ?case
    by (auto simp: drop_permit_def release_opt_active held_remove split: option.split)
next
  case (reloaded ps held N W sha rd cfg r ps')
  then show ?case by (auto simp: reload_policy_def split: sum.splits prod.splits)
qed

lemma take_slots_ok:
  "is_ok (take_slots h ps) \<longleftrightarrow> (\<forall>p \<in> set ps. plugin_applies p h \<longrightarrow> 0 < lp_permits p)"
proof (induction ps)
  case (Cons p ps)
  then show ?case by (cases "take_slots h ps") auto
qed simp

lemma take_slots_none: "\<forall>p \<in> set ps. \<not> plugin_applies p h \<Longrightarrow> take_slots h ps = Inr ps"
  by (induction ps) auto

lemma decide_plugins_Allow:
  assumes "decide_plugins W ser finished ctx ps = (d, ps')"
  shows "ps' = ps"
    and "d = Allow \<longleftrightarrow> (\<forall>p \<in> set ps. plugin_applies p (rq_hostname ctx) \<longrightarrow>
           finished \<and> 0 < lp_permits p \<and> plugin_evaluate W p (ser ctx) = Inr 0)"
proof -
  let ?h = "rq_hostname ctx"
  have "ps' = ps \<and> (d = Allow \<longleftrightarrow> (\<forall>p \<in> set ps. plugin_applies p ?h \<longrightarrow>
           finished \<and> 0 < lp_permits p \<and> plugin_evaluate W p (ser ctx) = Inr 0))"
  proof (cases "take_slots ?h ps")
    case (Inl name)
    then have "\<not> is_ok (take_slots ?h ps)" by simp
    then obtain p where "p \<in> set ps" "plugin_applies p ?h" "lp_permits p = 0"
      using take_slots_ok [of ?h ps] by auto
    with Inl assms show ?thesis
      by (auto simp: decide_plugins_def prepare_plugins_def)
  next
    case (Inr qs)
    then have ok: "\<forall>p \<in> set ps. plugin_applies p ?h \<longrightarrow> 0 < lp_permits p"
      using take_slots_ok [of ?h ps] by simp
    note ev = take_slots_evaluate [OF Inr, of W ?h "ser ctx"] and fin = take_slots_finish [OF Inr]
    show ?thesis
    proof (cases "list_all (\<lambda>p. \<not> plugin_applies p ?h) ps")
      case True
      then have none: "\<forall>p \<in> set ps. \<not> plugin_applies p ?h" by (simp add: list_all_iff)
      then have "take_slots ?h ps = Inr ps" by (rule take_slots_none)
      with True assms have "d = Allow \<and> ps' = ps" by (simp add: decide_plugins_def prepare_plugins_def)
      with none show ?thesis by blast
    next
      case False
      then have "d = (if \<not> finished then Unevaluated PluginFailure_reason
          else case evaluate_prepared W ?h (ser ctx) ps of
                 PluginAllow \<Rightarrow> Allow | PluginDeny _ \<Rightarrow> Deny Plugin_reason
               | PluginFailed _ _ \<Rightarrow> Unevaluated PluginFailure_reason)" "ps' = ps"
        unfolding ev [symmetric] using assms Inr
        by (auto simp: decide_plugins_def prepare_plugins_def fin)
      moreover have "\<exists>p \<in> set ps. plugin_applies p ?h" using False by (auto simp: list_all_iff)
      moreover have "(case evaluate_prepared W ?h (ser ctx) ps of
            PluginAllow \<Rightarrow> Allow | PluginDeny _ \<Rightarrow> Deny Plugin_reason
          | PluginFailed _ _ \<Rightarrow> Unevaluated PluginFailure_reason) = Allow
          \<longleftrightarrow> evaluate_prepared W ?h (ser ctx) ps = PluginAllow"
        by (simp split: plugin_verdict.split)
      ultimately show ?thesis
        using ok evaluate_prepared_Allow [of W ?h "ser ctx" ps] by (cases finished) auto
    qed
  qed
  then show "ps' = ps" and "d = Allow \<longleftrightarrow> (\<forall>p \<in> set ps. plugin_applies p ?h \<longrightarrow>
      finished \<and> 0 < lp_permits p \<and> plugin_evaluate W p (ser ctx) = Inr 0)" by blast+
qed

lemma decide_http_Allow:
  assumes "decide_http N H env policy domain ctx buckets = (d, buckets')"
  shows "(contains_ip N (cp_blocked policy) (rq_client_ip ctx)
          \<or> (\<exists>d. domain = Some d \<and> contains_ip N (cd_blocked d) (rq_client_ip ctx)))
         \<Longrightarrow> d = Some (Deny BlockedCidr) \<and> buckets' = buckets"
    and "\<not> (contains_ip N (cp_blocked policy) (rq_client_ip ctx)
          \<or> (\<exists>d. domain = Some d \<and> contains_ip N (cd_blocked d) (rq_client_ip ctx)))
         \<Longrightarrow> d = Some Allow \<longleftrightarrow>
           (\<forall>l. (case domain of
              Some d \<Rightarrow> (case cd_http_rate d of Some l \<Rightarrow> Some l | None \<Rightarrow> cp_http_rate policy)
            | None \<Rightarrow> cp_http_rate policy) = Some l \<longrightarrow>
              is_ok (fst (take_from env policy (hk_http H (http_key (cp_key policy) ctx)) l 1 buckets)))"
  using assms
  by (auto simp: decide_http_def taken_def limited_def split: option.splits if_splits prod.splits sum.splits take_error.splits)

subsection \<open>Properties\<close>


text \<open>A concrete network library: a network is a single address.\<close>

definition host_nets :: "ip_addr ipnet" where
  "host_nets = \<lparr>net_parse = (\<lambda>_. None), net_of_ip = id, net_trunc = id, net_contains = (=)\<rparr>"



definition sample_policy :: "ip_addr compiled_policy" where
  "sample_policy =
     \<lparr>cp_enabled = True, cp_mode = Enforce, cp_trusted_proxies = [], cp_blocked = [V4 6],
      cp_http_rate = None, cp_key = ClientIp, cp_domains = [], cp_max_entries = 10, cp_idle_ttl = 5,
      cp_tcp = \<lparr>ct_connection_rate = None, ct_max_concurrent_per_ip = Some 1,
                ct_max_concurrent_per_listener = None\<rparr>,
      cp_udp = \<lparr>cu_packet_rate = None, cu_byte_rate = None\<rparr>\<rparr>"

definition sample_policy_state :: "(ip_addr, int) policy_state" where
  "sample_policy_state =
     \<lparr>ps_compiled = sample_policy,
      ps_plugins = [\<lparr>lp_name = ''guard'', lp_module = 1, lp_applies_to = [], lp_max_memory_bytes = 65536,
                     lp_fuel = 1, lp_timeout_ticks = 1, lp_permits = 1\<rparr>],
      ps_module_cache = [], ps_http_buckets = new_bucket_table, ps_tcp_buckets = new_bucket_table,
      ps_udp_packet_buckets = new_bucket_table, ps_udp_byte_buckets = new_bucket_table,
      ps_tcp_ip_active = [], ps_tcp_listener_active = []\<rparr>"

definition sample_hashers :: hashers where
  "sample_hashers = \<lparr>hk_http = (\<lambda>_. 1), hk_tcp = (\<lambda>_. 2), hk_udp_packets = (\<lambda>_. 3), hk_udp_bytes = (\<lambda>_. 4),
                     hk_active = (\<lambda>_. 5)\<rparr>"

definition sample_take_env :: take_env where
  "sample_take_env = \<lparr>te_fl = (\<lambda>x. x), te_cas_ok = True, te_now = 7\<rparr>"


text \<open>C34. The HTTP policy fails closed and wastes nothing on blocked clients: with the policy enabled a
  request is allowed exactly when its client is in no blocked network of the policy or its
  domain, the rate limit that applies grants a token, and every plugin that applies had a
  free slot, ran to its end and answered 0; a blocked request changes no state at all; every
  plugin slot is free again afterwards; and only the enforcing mode rejects.\<close>

theorem evaluate_http_fails_closed:
  assumes enabled: "cp_enabled (ps_compiled ps)"
    and run: "evaluate_http N H W ser env finished ctx ps = (Some v, ps')"
    and domain: "domain = domain_for (ps_compiled ps) (rq_hostname ctx)"
    and blocked: "blocked \<longleftrightarrow> contains_ip N (cp_blocked (ps_compiled ps)) (rq_client_ip ctx)
         \<or> (\<exists>d. domain = Some d \<and> contains_ip N (cd_blocked d) (rq_client_ip ctx))"
    and limit: "limit = (case domain of
           Some d \<Rightarrow> (case cd_http_rate d of Some l \<Rightarrow> Some l | None \<Rightarrow> cp_http_rate (ps_compiled ps))
         | None \<Rightarrow> cp_http_rate (ps_compiled ps))"
    and mode: "mode = (case domain of
           Some d \<Rightarrow> (case cd_mode d of Some m \<Rightarrow> m | None \<Rightarrow> cp_mode (ps_compiled ps))
         | None \<Rightarrow> cp_mode (ps_compiled ps))"
  shows "(vd_decision v = Allow \<longleftrightarrow>
            \<not> blocked
            \<and> (\<forall>l. limit = Some l \<longrightarrow>
                 is_ok (fst (take_from env (ps_compiled ps) (hk_http H (http_key (cp_key (ps_compiled ps)) ctx)) l 1
                               (ps_http_buckets ps))))
            \<and> (\<forall>p \<in> set (ps_plugins ps). plugin_applies p (rq_hostname ctx) \<longrightarrow>
                 finished \<and> 0 < lp_permits p \<and> plugin_evaluate W p (ser ctx) = Inr 0))
         \<and> (blocked \<longrightarrow> vd_decision v = Deny BlockedCidr \<and> ps' = ps)
         \<and> ps_plugins ps' = ps_plugins ps
         \<and> (rejects v \<longleftrightarrow> vd_decision v \<noteq> Allow \<and> mode = Enforce)"
proof -
  obtain d b where http: "decide_http N H env (ps_compiled ps) domain ctx (ps_http_buckets ps) = (d, b)"
    by fastforce
  note hc = decide_http_Allow [OF http, folded limit blocked]
  obtain d' plugins where plug: "decide_plugins W ser finished ctx (ps_plugins ps) = (d', plugins)"
    by fastforce
  note pc = decide_plugins_Allow [OF plug]
  from run obtain x where x: "d = Some x"
    "v = \<lparr>vd_decision = (if x = Allow then d' else x), vd_enforced = (mode = Enforce)\<rparr>"
    "ps' = ps\<lparr>ps_http_buckets := b, ps_plugins := ps_plugins ps\<rparr>"
    using http plug pc(1) enabled unfolding domain mode
    by (auto simp: evaluate_http_def Let_def split: option.splits if_splits)
  show ?thesis
  proof (cases "x = Allow")
    case True
    with x hc pc show ?thesis by (auto simp: rejects_def)
  next
    case False
    with x hc show ?thesis by (auto simp: rejects_def)
  qed
qed

definition sample_wasm :: "int wasm" where
  "sample_wasm = \<lparr>wm_compile = (\<lambda>_. Some 1), wm_has_imports = (\<lambda>_. False), wm_has_export = (\<lambda>_ _. True),
                  wm_abi_version = (\<lambda>_ _ _ _. Inr 1), wm_evaluate = (\<lambda>m _ _ _ _. Inr m)\<rparr>"

definition sample_ctx :: "ip_addr \<Rightarrow> request_context" where
  "sample_ctx ip = \<lparr>rq_tenant_id = ''t'', rq_hostname = ''a.example.com'', rq_protocol = Http, rq_client_ip = ip,
                    rq_method = ''GET'', rq_path = ''/''\<rparr>"

theorem evaluate_http_fails_closed_witness:
  "\<exists>v ps'. evaluate_http host_nets sample_hashers sample_wasm (\<lambda>_. []) sample_take_env True (sample_ctx (V4 9))
       sample_policy_state = (Some v, ps') \<and> rejects v"
proof -
  have en: "cp_enabled (ps_compiled sample_policy_state)"
    by (simp add: sample_policy_state_def sample_policy_def)
  have dom: "domain_for (ps_compiled sample_policy_state) (rq_hostname (sample_ctx (V4 9))) = None"
    by (simp add: domain_for_def sample_policy_state_def sample_policy_def split: option.split)
  have "decide_http host_nets sample_hashers sample_take_env (ps_compiled sample_policy_state) None (sample_ctx (V4 9))
      (ps_http_buckets sample_policy_state) = (Some Allow, ps_http_buckets sample_policy_state)"
    by (simp add: decide_http_def sample_policy_state_def sample_policy_def contains_ip_def host_nets_def
        sample_ctx_def)
  then obtain v ps' where run: "evaluate_http host_nets sample_hashers sample_wasm (\<lambda>_. []) sample_take_env True
      (sample_ctx (V4 9)) sample_policy_state = (Some v, ps')"
    using dom
    by (cases "decide_plugins sample_wasm (\<lambda>_. []) True (sample_ctx (V4 9)) (ps_plugins sample_policy_state)")
       (simp add: evaluate_http_def en Let_def)
  from evaluate_http_fails_closed [OF en run dom [symmetric] refl refl refl]
  have "rejects v \<longleftrightarrow> vd_decision v \<noteq> Allow" and
    "vd_decision v = Allow \<longrightarrow> plugin_evaluate sample_wasm (hd (ps_plugins sample_policy_state)) [] = Inr 0"
    by (auto simp: sample_policy_state_def sample_policy_def plugin_applies_def)
  then have "rejects v"
    by (simp add: plugin_evaluate_def MAX_INPUT_BYTES_def sample_wasm_def sample_policy_state_def)
  with run show ?thesis by blast
qed

text \<open>A failed reload leaves the policy and its plugins in force.\<close>

lemma reload_policy_atomic:
  assumes "reload_policy N W sha rd cfg ps = (Inl e, ps')"
  shows "ps_compiled ps' = ps_compiled ps \<and> ps_plugins ps' = ps_plugins ps
         \<and> ps_http_buckets ps' = ps_http_buckets ps"
  using assms by (auto simp: reload_policy_def split: sum.splits prod.splits)

text \<open>A rate so small that the time to fill the bucket does not fit a \<open>Duration\<close> passes validation,
  and then every take panics.\<close>

lemma tiny_rate_accepted_then_panics:
  "\<exists>l. rate_limit_of (Some (Finite (1 / 10 ^ 20))) None = Inr (Some l)
       \<and> fst (bucket_take (\<lambda>x. x) l 1 now b) = Inl TakePanic"
proof -
  have "\<lceil>1 / 10 ^ 20 :: real\<rceil> = 1" by (simp add: ceiling_eq_iff)
  then have "rate_limit_of (Some (Finite (1 / 10 ^ 20))) None = Inr (Some \<lparr>rl_per_second = 1 / 10 ^ 20, rl_burst = 1\<rparr>)"
    by (simp add: rate_limit_of_def)
  then show ?thesis by (simp add: bucket_take_def from_secs_f64_def Let_def)
qed

end
