(* ===== verification/Dns_Record.thy ===== *)
theory Dns_Record
  imports Hostname Std_Net Table Bytes
begin

text \<open>
  DNS record sets (\<open>sievetube-edge/src/dns/mod.rs\<close>): types, the canonical form of values, the
  quoting of TXT values, and the comparison the management logic rests on. A \<open>BTreeSet\<close> of
  values is a set. The \<open>chars()\<close> of a string are the groups of a first byte and the continuation
  bytes after it, so that the operations on characters keep multi-byte characters whole.
\<close>

subsection \<open>Characters\<close>

definition continuation :: "char \<Rightarrow> bool" where
  "continuation c \<longleftrightarrow> 128 \<le> byte_of c \<and> byte_of c < 192"

function utf8_chars :: "string \<Rightarrow> string list" where
  "utf8_chars [] = []"
| "utf8_chars (c # cs) = (c # takeWhile continuation cs) # utf8_chars (dropWhile continuation cs)"
  by pat_completeness auto
termination by (relation "measure length") (auto simp: less_Suc_eq_le length_dropWhile_le)

definition is_control :: "string \<Rightarrow> bool" where
  "is_control c \<longleftrightarrow>
     (case c of
        [b] \<Rightarrow> byte_of b < 32 \<or> byte_of b = 127
      | [b1, b2] \<Rightarrow> byte_of b1 = 194 \<and> 128 \<le> byte_of b2 \<and> byte_of b2 < 160
      | _ \<Rightarrow> False)"

abbreviation dquote :: char where "dquote \<equiv> CHR 0x22"
abbreviation backslash :: char where "backslash \<equiv> CHR 0x5C"

subsection \<open>TXT values\<close>

text \<open>The two loops of \<open>unquote_txt\<close>, outside and inside of quotes.\<close>

fun unquote_outside :: "string list \<Rightarrow> string"
  and unquote_inside :: "string list \<Rightarrow> string" where
  "unquote_outside [] = []"
| "unquote_outside (c # cs) = (if c = [dquote] then unquote_inside cs else unquote_outside cs)"
| "unquote_inside [] = []"
| "unquote_inside (c # cs) =
     (if c = [backslash] then (case cs of [] \<Rightarrow> [] | e # es \<Rightarrow> e @ unquote_inside es)
      else if c = [dquote] then unquote_outside cs
      else c @ unquote_inside cs)"

definition unquote_txt :: "string \<Rightarrow> string" where
  "unquote_txt raw0 =
     (let raw = trim raw0
      in if \<not> starts_with [dquote] raw then raw else unquote_outside (utf8_chars raw))"

definition chunk_step :: "string \<Rightarrow> string list \<times> string \<Rightarrow> string list \<times> string" where
  "chunk_step c = (\<lambda>(chunks, current).
     if length current + length c > 255 then (chunks @ [current], c) else (chunks, current @ c))"

definition txt_chunks :: "string \<Rightarrow> string list" where
  "txt_chunks value =
     (case fold chunk_step (utf8_chars value) ([], []) of
        (chunks, current) \<Rightarrow> if current \<noteq> [] \<or> chunks = [] then chunks @ [current] else chunks)"

definition replace_char :: "char \<Rightarrow> string \<Rightarrow> string \<Rightarrow> string" where
  "replace_char x by s = concat (map (\<lambda>c. if c = x then by else [c]) s)"

definition quote_chunk :: "string \<Rightarrow> string" where
  "quote_chunk chunk =
     dquote # replace_char dquote [backslash, dquote] (replace_char backslash [backslash, backslash] chunk) @ [dquote]"

definition quote_txt :: "string \<Rightarrow> string" where
  "quote_txt value = join_with (CHR '' '') (map quote_chunk (txt_chunks value))"

subsection \<open>Record types\<close>

datatype record_type = RA | RAaaa | RCname | RTxt

fun record_type_str :: "record_type \<Rightarrow> string" where
  "record_type_str RA = ''A''"
| "record_type_str RAaaa = ''AAAA''"
| "record_type_str RCname = ''CNAME''"
| "record_type_str RTxt = ''TXT''"

text \<open>\<open>Display\<close> of \<open>Ipv6Addr\<close>: the first longest run of at least two zero groups becomes two colons,
  and a mapped IPv4 address keeps its dotted form.\<close>

fun show_hex :: "nat \<Rightarrow> string" where
  "show_hex n =
     (let d = (\<lambda>k. if k < 10 then char_of (48 + k) else char_of (87 + k :: nat))
      in if n < 16 then [d n] else show_hex (n div 16) @ [d (n mod 16)])"

declare show_hex.simps [simp del]

definition ipv6_segments :: "128 word \<Rightarrow> nat list" where
  "ipv6_segments a = map (\<lambda>i. unat a div 65536 ^ (7 - i) mod 65536) [0..<8]"

definition zero_run_step :: "nat \<times> nat \<Rightarrow> (nat \<times> nat) \<times> (nat \<times> nat) \<Rightarrow> (nat \<times> nat) \<times> (nat \<times> nat)" where
  "zero_run_step = (\<lambda>(i, segment) ((lstart, llen), (cstart, clen)).
     if segment = 0
     then let cur = (if clen = 0 then i else cstart, clen + 1)
          in (if snd cur > llen then cur else (lstart, llen), cur)
     else ((lstart, llen), (0, 0)))"

definition show_ipv6 :: "128 word \<Rightarrow> string" where
  "show_ipv6 a =
     (let segs = ipv6_segments a; hex = (\<lambda>xs. join_with (CHR '':'') (map show_hex xs))
      in if take 6 segs = [0, 0, 0, 0, 0, 65535] then ''::ffff:'' @ show_ipv4 (ucast a)
         else case fst (fold zero_run_step (enumerate 0 segs) ((0, 0), (0, 0))) of
           (start, len) \<Rightarrow>
             if len > 1 then hex (take start segs) @ ''::'' @ hex (drop (start + len) segs)
             else hex segs)"

definition parse_ipv4 :: "string \<Rightarrow> 32 word option" where
  "parse_ipv4 s = (if length s > 15 then None else parse_with read_ipv4_addr s)"

datatype value_error = BadIpv4 | BadIpv6 | BadCname hostname_error | BadTxt

definition normalize_value :: "record_type \<Rightarrow> string \<Rightarrow> (value_error, string) result" where
  "normalize_value t value0 =
     (let value = trim value0
      in case t of
           RA \<Rightarrow> (case parse_ipv4 value of Some ip \<Rightarrow> Inr (show_ipv4 ip) | None \<Rightarrow> Inl BadIpv4)
         | RAaaa \<Rightarrow> (case parse_with read_ipv6_addr value of Some ip \<Rightarrow> Inr (show_ipv6 ip) | None \<Rightarrow> Inl BadIpv6)
         | RCname \<Rightarrow> map_err BadCname (normalize_dns_name value)
         | RTxt \<Rightarrow>
             let text = unquote_txt value
             in if length text > 4000 \<or> list_ex is_control (utf8_chars text) then Inl BadTxt else Inr text)"

subsection \<open>Record sets\<close>

record record_set =
  rs_name :: string
  rs_type :: record_type
  rs_ttl :: nat
  rs_values :: "string set"
  rs_proxied :: "bool option"

definition same_data :: "record_set \<Rightarrow> record_set \<Rightarrow> bool" where
  "same_data a b \<longleftrightarrow>
     rs_name a = rs_name b \<and> rs_type a = rs_type b \<and> rs_ttl a = rs_ttl b \<and> rs_values a = rs_values b
     \<and> (case (rs_proxied a, rs_proxied b) of (Some x, Some y) \<Rightarrow> x = y | _ \<Rightarrow> True)"

fun same_optional :: "record_set option \<Rightarrow> record_set option \<Rightarrow> bool" where
  "same_optional None None = True"
| "same_optional (Some a) (Some b) = same_data a b"
| "same_optional _ _ = False"

record observed =
  ob_set :: record_set
  ob_unsupported :: "string option"

datatype dns_error =
    DnsConflict string | RateLimited "nat option" | AuthFailedDns string | TimedOut | Unsupported string
  | ProviderError string

datatype change_ticket = Immediate | Route53Ticket string

lemma same_data_refl [simp]: "same_data a a"
  by (cases "rs_proxied a") (simp_all add: same_data_def)

lemma same_data_sym: "same_data a b \<longleftrightarrow> same_data b a"
  by (cases "rs_proxied a"; cases "rs_proxied b") (auto simp: same_data_def)

lemma same_optional_refl [simp]: "same_optional a a"
  by (cases a) simp_all

subsection \<open>Quoting is inverted by unquoting\<close>

text \<open>A character is a byte that starts one, with the continuation bytes after it, none after ASCII.\<close>

definition utf8_char :: "string \<Rightarrow> bool" where
  "utf8_char g \<longleftrightarrow>
     (case g of [] \<Rightarrow> False
      | c # cs \<Rightarrow> \<not> continuation c \<and> list_all continuation cs \<and> (byte_of c < 128 \<longrightarrow> cs = []))"

lemma utf8_chars_concat: "list_all utf8_char gs \<Longrightarrow> utf8_chars (concat gs) = gs"
proof (induction gs)
  case (Cons g gs)
  then obtain c cs where g: "g = c # cs" "list_all continuation cs" by (auto simp: utf8_char_def split: list.splits)
  have start: "takeWhile continuation (concat gs) = []" "dropWhile continuation (concat gs) = concat gs"
    using Cons.prems by (cases gs; auto simp: utf8_char_def split: list.splits)+
  have "takeWhile continuation (cs @ concat gs) = cs" "dropWhile continuation (cs @ concat gs) = concat gs"
    using g(2) start by (simp_all add: list_all_iff takeWhile_append2 dropWhile_append2)
  then show ?case using Cons g by simp
qed simp

lemma concat_utf8_chars [simp]: "concat (utf8_chars s) = s"
  by (induction s rule: utf8_chars.induct) simp_all

lemma tails_rest_split:
  "tails_rest rs bs = Some r \<Longrightarrow> \<forall>(lo, hi) \<in> set rs. 128 \<le> lo \<and> hi \<le> 191
   \<Longrightarrow> \<exists>ts. bs = ts @ r \<and> length ts = length rs \<and> (\<forall>b \<in> set ts. 128 \<le> unat b \<and> unat b \<le> 191)"
proof (induction rs bs rule: tails_rest.induct)
  case (3 lo hi rs b bs)
  then obtain ts where "bs = ts @ r" "length ts = length rs" "\<forall>b \<in> set ts. 128 \<le> unat b \<and> unat b \<le> 191"
    by (auto split: if_splits)
  with 3 show ?case by (intro exI [of _ "b # ts"]) (auto simp: in_range_def split: if_splits)
qed auto

lemma utf8_tails_range:
  "utf8_tails b = Some rs \<Longrightarrow> length rs \<le> 3 \<and> (\<forall>(lo, hi) \<in> set rs. 128 \<le> lo \<and> hi \<le> 191)
     \<and> \<not> (128 \<le> unat b \<and> unat b < 192) \<and> (unat b < 128 \<longrightarrow> rs = [])"
  by (auto simp: utf8_tails_def in_range_def split: if_splits)

lemma continuation_char [simp]: "continuation (byte_char b) \<longleftrightarrow> 128 \<le> unat b \<and> unat b < 192"
  by (metis byte_of_def char_byte_byte_char continuation_def unat_char_byte)

lemma byte_of_char: "byte_of (byte_char b) = unat b"
  by (metis byte_of_def char_byte_byte_char unat_char_byte)

lemma utf8_valid_start: "utf8_valid (b # bs) \<Longrightarrow> \<not> (128 \<le> unat b \<and> unat b < 192)"
  by (subst (asm) utf8_valid.simps) (auto simp: utf8_rest_def split: option.splits dest: utf8_tails_range)

lemma utf8_valid_chars: "utf8_valid bs \<Longrightarrow> list_all (\<lambda>g. utf8_char g \<and> length g \<le> 4) (utf8_chars (of_bytes bs))"
proof (induction "length bs" arbitrary: bs rule: less_induct)
  case less
  show ?case
  proof (cases bs)
    case (Cons b bs')
    obtain rs r where rs: "utf8_tails b = Some rs" "tails_rest rs bs' = Some r" and r: "utf8_valid r"
      using less.prems unfolding Cons
      by (subst (asm) utf8_valid.simps) (auto simp: utf8_rest_def split: option.splits)
    obtain ts where ts: "bs' = ts @ r" "length ts \<le> 3" "\<forall>b \<in> set ts. 128 \<le> unat b \<and> unat b \<le> 191"
      "unat b < 128 \<longrightarrow> ts = []"
      using tails_rest_split [OF rs(2)] utf8_tails_range [OF rs(1)] by fastforce
    have cont: "list_all continuation (of_bytes ts)" using ts(3) by (auto simp: of_bytes_def list_all_iff)
    have "of_bytes bs' = of_bytes ts @ of_bytes r" using ts(1) by (simp add: of_bytes_def)
    moreover have "takeWhile continuation (of_bytes r) = []" "dropWhile continuation (of_bytes r) = of_bytes r"
      using r utf8_valid_start by (cases r; force simp: of_bytes_def)+
    ultimately have "takeWhile continuation (of_bytes bs') = of_bytes ts" "dropWhile continuation (of_bytes bs') = of_bytes r"
      using cont by (simp_all add: list_all_iff takeWhile_append2 dropWhile_append2)
    moreover have "\<not> continuation (byte_char b)" "byte_of (byte_char b) < 128 \<longrightarrow> of_bytes ts = []"
      using utf8_tails_range [OF rs(1)] ts(4) by (simp_all add: of_bytes_def byte_of_char)
    moreover have "list_all (\<lambda>g. utf8_char g \<and> length g \<le> 4) (utf8_chars (of_bytes r))"
      using less.hyps [OF _ r] Cons ts(1) by simp
    ultimately show ?thesis using Cons cont ts(2)
      by (simp add: of_bytes_def utf8_char_def)
  qed (simp add: of_bytes_def)
qed

text \<open>The characters of a quoted chunk.\<close>

definition escape_char :: "string \<Rightarrow> string list" where
  "escape_char g = (if g = [backslash] then [[backslash], [backslash]]
                    else if g = [dquote] then [[backslash], [dquote]] else [g])"

definition chunk_chars :: "string list \<Rightarrow> string list" where
  "chunk_chars gs = [dquote] # concat (map escape_char gs) @ [[dquote]]"

lemma byte_ascii: "byte_of dquote = 34" "byte_of backslash = 92" "byte_of (CHR '' '') = 32"
  by (simp_all add: byte_of_def)

lemma utf8_char_special:
  assumes "utf8_char g"
  shows "dquote \<in> set g \<longleftrightarrow> g = [dquote]" "backslash \<in> set g \<longleftrightarrow> g = [backslash]"
  using assms byte_ascii by (auto simp: utf8_char_def continuation_def list_all_iff split: list.splits)

lemma replace_char_none: "x \<notin> set s \<Longrightarrow> replace_char x by s = s"
  by (induction s) (auto simp: replace_char_def)

lemma replace_char_append: "replace_char x by (s @ t) = replace_char x by s @ replace_char x by t"
  by (simp add: replace_char_def)

lemma quote_char:
  assumes "utf8_char g"
  shows "replace_char dquote [backslash, dquote] (replace_char backslash [backslash, backslash] g) = concat (escape_char g)"
  using utf8_char_special [OF assms]
  by (cases "g = [backslash]"; cases "g = [dquote]")
     (auto simp: escape_char_def replace_char_none, auto simp: replace_char_def)

lemma quote_chunk_chars:
  assumes "list_all utf8_char gs" shows "quote_chunk (concat gs) = concat (chunk_chars gs)"
proof -
  have "replace_char dquote [backslash, dquote] (replace_char backslash [backslash, backslash] (concat gs))
      = concat (concat (map escape_char gs))"
    using assms by (induction gs) (simp_all add: replace_char_append quote_char, simp_all add: replace_char_def)
  then show ?thesis by (simp add: quote_chunk_def chunk_chars_def)
qed

lemma utf8_char_ascii: "utf8_char [dquote]" "utf8_char [backslash]" "utf8_char '' ''"
  using byte_ascii by (simp_all add: utf8_char_def continuation_def)

lemma chunk_chars_utf8: "list_all utf8_char gs \<Longrightarrow> list_all utf8_char (chunk_chars gs)"
  by (induction gs) (simp_all add: chunk_chars_def escape_char_def utf8_char_ascii)

lemma unquote_escaped:
  "list_all utf8_char gs \<Longrightarrow> unquote_inside (concat (map escape_char gs) @ [dquote] # rest) = concat gs @ unquote_outside rest"
  by (induction gs) (auto simp: escape_char_def)

lemma unquote_chunk:
  "list_all utf8_char gs \<Longrightarrow> unquote_outside (chunk_chars gs @ rest) = concat gs @ unquote_outside rest"
  by (simp add: chunk_chars_def unquote_escaped)

text \<open>The chunks are runs of whole characters that make up the value.\<close>

lemma chunk_fold:
  "list_all (\<lambda>g. length g \<le> 4) gs \<Longrightarrow> list_all (\<lambda>c. length (concat c) \<le> 255) css \<Longrightarrow> length (concat cur) \<le> 255
   \<Longrightarrow> \<exists>css' cur'. fold chunk_step gs (map concat css, concat cur) = (map concat css', concat cur')
       \<and> concat css' @ cur' = concat css @ cur @ gs
       \<and> list_all (\<lambda>c. length (concat c) \<le> 255) css' \<and> length (concat cur') \<le> 255"
proof (induction gs arbitrary: css cur)
  case Nil
  then show ?case by (intro exI [of _ css] exI [of _ cur]) simp
next
  case (Cons g gs)
  show ?case
  proof (cases "length (concat cur) + length g > 255")
    case True
    have "chunk_step g (map concat css, concat cur) = (map concat (css @ [cur]), concat [g])"
      using True by (simp add: chunk_step_def)
    with Cons.IH [of "css @ [cur]" "[g]"] Cons.prems show ?thesis by simp
  next
    case False
    have "chunk_step g (map concat css, concat cur) = (map concat css, concat (cur @ [g]))"
      using False by (simp add: chunk_step_def)
    with Cons.IH [of css "cur @ [g]"] Cons.prems False show ?thesis by simp
  qed
qed

lemma txt_chunks_groups:
  assumes "wf_string v"
  shows "\<exists>css. txt_chunks v = map concat css \<and> concat css = utf8_chars v \<and> css \<noteq> []
           \<and> list_all (\<lambda>c. length (concat c) \<le> 255) css \<and> list_all (list_all utf8_char) css"
proof -
  have gs: "list_all (\<lambda>g. utf8_char g \<and> length g \<le> 4) (utf8_chars v)" using utf8_valid_chars [OF assms] by simp
  then have "list_all (\<lambda>g. length g \<le> 4) (utf8_chars v)" by (auto simp: list_all_iff)
  from chunk_fold [OF this, of "[]" "[]"] obtain css cur where
    f: "fold chunk_step (utf8_chars v) ([], []) = (map concat css, concat cur)"
    and all: "concat css @ cur = utf8_chars v" and le: "list_all (\<lambda>c. length (concat c) \<le> 255) css" "length (concat cur) \<le> 255"
    by auto
  have cur: "concat cur = [] \<Longrightarrow> cur = []"
  proof -
    have "\<not> utf8_char []" by (simp add: utf8_char_def)
    then have "g \<noteq> []" if "g \<in> set cur" for g
      using gs that unfolding all [symmetric] list_all_iff by auto
    then show "concat cur = [] \<Longrightarrow> cur = []" by (cases cur) auto
  qed
  let ?css = "if concat cur \<noteq> [] \<or> css = [] then css @ [cur] else css"
  have eq: "txt_chunks v = map concat ?css" "concat ?css = utf8_chars v" "?css \<noteq> []"
    "list_all (\<lambda>c. length (concat c) \<le> 255) ?css"
    using f all le cur by (auto simp: txt_chunks_def)
  have "list_all (list_all utf8_char) ?css"
    using gs eq(2) [symmetric] by (auto simp: list_all_iff)
  with eq show ?thesis by blast
qed

text \<open>Quoting the chunks and joining them with spaces, character by character.\<close>

fun quoted_chars :: "string list list \<Rightarrow> string list" where
  "quoted_chars [] = []"
| "quoted_chars [c] = chunk_chars c"
| "quoted_chars (c # d # cs) = chunk_chars c @ ['' ''] @ quoted_chars (d # cs)"

lemma quoted_chars_join:
  "list_all (list_all utf8_char) css \<Longrightarrow> join_with (CHR '' '') (map quote_chunk (map concat css)) = concat (quoted_chars css)"
  by (induction css rule: quoted_chars.induct) (simp_all add: quote_chunk_chars)

lemma quoted_chars_utf8: "list_all (list_all utf8_char) css \<Longrightarrow> list_all utf8_char (quoted_chars css)"
  by (induction css rule: quoted_chars.induct) (simp_all add: chunk_chars_utf8 utf8_char_ascii)

lemma unquote_quoted: "list_all (list_all utf8_char) css \<Longrightarrow> unquote_outside (quoted_chars css) = concat (concat css)"
proof (induction css rule: quoted_chars.induct)
  case (2 c)
  then show ?case using unquote_chunk [of c "[]"] by simp
next
  case (3 c d cs)
  then show ?case using unquote_chunk [of c "'' '' # quoted_chars (d # cs)"] by simp
qed simp

lemma quoted_chars_ends:
  "css \<noteq> [] \<Longrightarrow> \<exists>mid. concat (quoted_chars css) = dquote # mid @ [dquote]"
proof (induction css rule: quoted_chars.induct)
  case (3 c d cs)
  then obtain mid where "concat (quoted_chars (d # cs)) = dquote # mid @ [dquote]" by auto
  then show ?case by (simp add: chunk_chars_def)
qed (simp_all add: chunk_chars_def)

theorem txt_round_trip:
  assumes "wf_string v"
  shows "unquote_txt (quote_txt v) = v \<and> (\<forall>chunk \<in> set (txt_chunks v). length chunk \<le> 255)"
proof -
  obtain css where css: "txt_chunks v = map concat css" "concat css = utf8_chars v" "css \<noteq> []"
    "list_all (\<lambda>c. length (concat c) \<le> 255) css" "list_all (list_all utf8_char) css"
    using txt_chunks_groups [OF assms] by blast
  have q: "quote_txt v = concat (quoted_chars css)" using css quoted_chars_join by (simp add: quote_txt_def)
  obtain mid where mid: "concat (quoted_chars css) = dquote # mid @ [dquote]" using quoted_chars_ends [OF css(3)] by blast
  have "trim (quote_txt v) = quote_txt v"
    unfolding q mid by (rule trim_non_ws) (simp_all add: non_ws_char_def byte_of_def)
  moreover have "starts_with [dquote] (quote_txt v)" unfolding q mid by (simp add: starts_with_iff)
  ultimately have "unquote_txt (quote_txt v) = unquote_outside (utf8_chars (quote_txt v))" by (simp add: unquote_txt_def)
  also have "\<dots> = concat (concat css)"
    unfolding q using utf8_chars_concat [OF quoted_chars_utf8 [OF css(5)]] unquote_quoted [OF css(5)] by simp
  also have "\<dots> = v" using css(2) by simp
  finally show ?thesis using css(1,4) by (auto simp: list_all_iff)
qed

end
