(* ===== verification/Dns_Plan.thy ===== *)
theory Dns_Plan
  imports Dns_Record
begin

text \<open>
  Desired DNS state and the decision for one record (\<open>sievetube-edge/src/dns/plan.rs\<close>, with the
  configuration types of \<open>config.rs\<close>). \<open>compile\<close> checks the configuration against the allowed
  zones; \<open>decide\<close> compares a desired record with what the provider reports and with what Sieve
  Tube last did. Reading the provider's base URL is \<open>http::Uri\<close>, a parameter.
\<close>

subsection \<open>Configuration\<close>

datatype dns_provider_type = Cloudflare | Route53

datatype record_state = Present | Absent

record dns_provider_config =
  dpc_name :: string
  dpc_kind :: dns_provider_type
  dpc_zone :: string
  dpc_zone_id :: "string option"
  dpc_api_token_env :: "string option"
  dpc_api_token_file :: "string option"
  dpc_api_base_url :: "string option"
  dpc_hosted_zone_id :: "string option"
  dpc_endpoint_url :: "string option"
  dpc_region :: "string option"
  dpc_request_timeout_secs :: nat

record dns_record_config =
  drc_provider :: string
  drc_name :: string
  drc_type :: record_type
  drc_values :: "string list"
  drc_ttl :: nat
  drc_proxied :: "bool option"
  drc_import :: bool
  drc_state :: record_state

record dns_config =
  dc_enabled :: bool
  dc_dry_run :: bool
  dc_state_dir :: string
  dc_reconcile_interval_secs :: nat
  dc_settle_secs :: nat
  dc_lease_ttl_secs :: nat
  dc_single_writer :: bool
  dc_allowed_zones :: "string list"
  dc_providers :: "dns_provider_config list"
  dc_records :: "dns_record_config list"

record provider_spec =
  ps_name :: string
  ps_kind :: dns_provider_type
  ps_zone :: string
  ps_config :: dns_provider_config

record desired_record =
  dr_provider :: string
  dr_set :: record_set
  dr_import :: bool
  dr_absent :: bool

record compiled_dns =
  cd_allowed_zones :: "string list"
  cd_providers :: "provider_spec list"
  cd_records :: "desired_record list"

definition record_key :: "string \<Rightarrow> record_type \<Rightarrow> string" where
  "record_key name t = name @ ''/'' @ record_type_str t"

definition dr_key :: "desired_record \<Rightarrow> string" where
  "dr_key d = record_key (rs_name (dr_set d)) (rs_type (dr_set d))"

datatype dns_config_error =
    InvalidZone hostname_error | NoAllowedZones | BadProviderName | DuplicateProvider
  | InvalidProviderZone hostname_error | ZoneNotAllowed | NeedsZoneId | TokenSource | BadBaseUrl
  | NotACloudflareSetting | NeedsHostedZoneId | NotARoute53Setting | ZeroTimeout
  | UnknownProvider | InvalidRecordName hostname_error | OutsideZone | ReservedLabel
  | InvalidValue value_error | NoValue | ManyCnames | ApexCname | BadTtl | ProxyNotSupported
  | ProxiedTxt | ProxiedTtl | DuplicateRecord | CnameWithOthers

definition ACME_CHALLENGE_LABEL :: string where "ACME_CHALLENGE_LABEL = ''_acme-challenge''"

definition field_set :: "string option \<Rightarrow> bool" where
  "field_set v = (case v of None \<Rightarrow> False | Some s \<Rightarrow> trim s \<noteq> [])"

definition provider_name_ok :: "string \<Rightarrow> bool" where
  "provider_name_ok name \<longleftrightarrow> name \<noteq> []
     \<and> list_all (\<lambda>b. is_ascii_lowercase b \<or> is_ascii_digit b \<or> b = CHR ''-'' \<or> b = CHR ''_'') name"

text \<open>\<open>validate_api_base_url\<close>: \<open>parse_uri\<close> gives scheme and host, as far as they are there.\<close>

definition is_loopback :: "ip_addr \<Rightarrow> bool" where
  "is_loopback ip = (case ip of V4 a \<Rightarrow> drop_bit 24 a = 127 | V6 a \<Rightarrow> a = 1)"

definition validate_api_base_url :: "(string \<Rightarrow> (string option \<times> string option) option) \<Rightarrow> string \<Rightarrow> bool" where
  "validate_api_base_url parse_uri base_url =
     (case parse_uri base_url of
        Some (Some scheme, Some host) \<Rightarrow>
          (let ip_host = (case strip_prefix ''['' host of
                            Some h \<Rightarrow> (case strip_suffix '']'' h of Some h' \<Rightarrow> h' | None \<Rightarrow> host)
                          | None \<Rightarrow> host)
           in scheme = ''https''
              \<or> scheme = ''http'' \<and> (case parse_ip_addr ip_host of Some a \<Rightarrow> is_loopback a | None \<Rightarrow> False))
      | _ \<Rightarrow> False)"

definition check_kind ::
  "(string \<Rightarrow> (string option \<times> string option) option) \<Rightarrow> dns_provider_config \<Rightarrow> (dns_config_error, unit) result" where
  "check_kind parse_uri p =
     (case dpc_kind p of
        Cloudflare \<Rightarrow>
          if \<not> field_set (dpc_zone_id p) then Inl NeedsZoneId
          else if field_set (dpc_api_token_env p) = field_set (dpc_api_token_file p) then Inl TokenSource
          else if (case dpc_api_base_url p of Some u \<Rightarrow> \<not> validate_api_base_url parse_uri u | None \<Rightarrow> False)
          then Inl BadBaseUrl
          else if dpc_hosted_zone_id p \<noteq> None \<or> dpc_endpoint_url p \<noteq> None \<or> dpc_region p \<noteq> None
          then Inl NotACloudflareSetting else Inr ()
      | Route53 \<Rightarrow>
          if \<not> field_set (dpc_hosted_zone_id p) then Inl NeedsHostedZoneId
          else if dpc_zone_id p \<noteq> None \<or> dpc_api_token_env p \<noteq> None \<or> dpc_api_token_file p \<noteq> None
            \<or> dpc_api_base_url p \<noteq> None
          then Inl NotARoute53Setting else Inr ())"

definition compile_provider ::
  "(string \<Rightarrow> (string option \<times> string option) option) \<Rightarrow> string list \<Rightarrow> provider_spec list
   \<Rightarrow> dns_provider_config \<Rightarrow> (dns_config_error, provider_spec) result" where
  "compile_provider parse_uri allowed providers p =
     (let name = trim (dpc_name p)
      in if \<not> provider_name_ok name then Inl BadProviderName
         else if list_ex (\<lambda>q. ps_name q = name) providers then Inl DuplicateProvider
         else and_then (map_err InvalidProviderZone (normalize_hostname (dpc_zone p))) (\<lambda>zone.
           if \<not> list_ex (is_within_zone zone) allowed then Inl ZoneNotAllowed
           else and_then (check_kind parse_uri p) (\<lambda>_.
             if dpc_request_timeout_secs p = 0 then Inl ZeroTimeout
             else Inr \<lparr>ps_name = name, ps_kind = dpc_kind p, ps_zone = zone, ps_config = p\<rparr>)))"

fun compile_providers ::
  "(string \<Rightarrow> (string option \<times> string option) option) \<Rightarrow> string list \<Rightarrow> provider_spec list
   \<Rightarrow> dns_provider_config list \<Rightarrow> (dns_config_error, provider_spec list) result" where
  "compile_providers parse_uri allowed providers [] = Inr providers"
| "compile_providers parse_uri allowed providers (p # ps) =
     and_then (compile_provider parse_uri allowed providers p) (\<lambda>spec.
       compile_providers parse_uri allowed (providers @ [spec]) ps)"

definition ttl_ok :: "dns_provider_type \<Rightarrow> nat \<Rightarrow> bool" where
  "ttl_ok kind ttl =
     (case kind of
        Cloudflare \<Rightarrow> ttl = 1 \<or> 60 \<le> ttl \<and> ttl \<le> 86400
      | Route53 \<Rightarrow> 1 \<le> ttl \<and> ttl \<le> 604800)"

definition check_proxied :: "dns_provider_type \<Rightarrow> dns_record_config \<Rightarrow> (dns_config_error, unit) result" where
  "check_proxied kind r =
     (case drc_proxied r of
        None \<Rightarrow> Inr ()
      | Some proxied \<Rightarrow>
          if kind \<noteq> Cloudflare then Inl ProxyNotSupported
          else if proxied \<and> drc_type r = RTxt then Inl ProxiedTxt
          else if proxied \<and> drc_ttl r \<noteq> 1 then Inl ProxiedTtl else Inr ())"

text \<open>One record of the configuration, given those before it.\<close>

definition compile_record ::
  "provider_spec list \<Rightarrow> desired_record list \<Rightarrow> dns_record_config \<Rightarrow> (dns_config_error, desired_record) result" where
  "compile_record providers records r =
     (case find (\<lambda>p. ps_name p = drc_provider r) providers of
        None \<Rightarrow> Inl UnknownProvider
      | Some spec \<Rightarrow>
          and_then (map_err InvalidRecordName (normalize_dns_name (drc_name r))) (\<lambda>name.
            if \<not> is_within_zone name (ps_zone spec) then Inl OutsideZone
            else if hd (split_on (CHR ''.'') name) = ACME_CHALLENGE_LABEL then Inl ReservedLabel
            else let absent = (drc_state r = Absent)
            in and_then (map_err InvalidValue (collect_results (normalize_value (drc_type r)) (drc_values r))) (\<lambda>vs.
              let values = set vs
              in if \<not> absent \<and> values = {} then Inl NoValue
                 else if drc_type r = RCname \<and> card values > 1 then Inl ManyCnames
                 else if drc_type r = RCname \<and> name = ps_zone spec \<and> ps_kind spec = Route53 then Inl ApexCname
                 else if \<not> ttl_ok (ps_kind spec) (drc_ttl r) then Inl BadTtl
                 else and_then (check_proxied (ps_kind spec) r) (\<lambda>_.
                   if list_ex (\<lambda>d. dr_provider d = ps_name spec \<and> rs_name (dr_set d) = name
                                    \<and> rs_type (dr_set d) = drc_type r) records
                   then Inl DuplicateRecord
                   else Inr \<lparr>dr_provider = ps_name spec,
                             dr_set = \<lparr>rs_name = name, rs_type = drc_type r, rs_ttl = drc_ttl r,
                                       rs_values = values, rs_proxied = drc_proxied r\<rparr>,
                             dr_import = drc_import r, dr_absent = absent\<rparr>))))"

fun compile_records ::
  "provider_spec list \<Rightarrow> desired_record list \<Rightarrow> dns_record_config list
   \<Rightarrow> (dns_config_error, desired_record list) result" where
  "compile_records providers records [] = Inr records"
| "compile_records providers records (r # rs) =
     and_then (compile_record providers records r) (\<lambda>d. compile_records providers (records @ [d]) rs)"

definition present_types :: "desired_record list \<Rightarrow> string \<Rightarrow> string \<Rightarrow> record_type list" where
  "present_types records provider name =
     map (\<lambda>d. rs_type (dr_set d))
       (filter (\<lambda>d. \<not> dr_absent d \<and> dr_provider d = provider \<and> rs_name (dr_set d) = name) records)"

definition cname_alone :: "desired_record list \<Rightarrow> desired_record \<Rightarrow> bool" where
  "cname_alone records d \<longleftrightarrow>
     (let types = present_types records (dr_provider d) (rs_name (dr_set d))
      in \<not> (RCname \<in> set types \<and> length types > 1))"

definition compile_dns ::
  "(string \<Rightarrow> (string option \<times> string option) option) \<Rightarrow> dns_config \<Rightarrow> (dns_config_error, compiled_dns) result" where
  "compile_dns parse_uri cfg =
     and_then (map_err InvalidZone (collect_results normalize_hostname (dc_allowed_zones cfg))) (\<lambda>allowed.
       if allowed = [] then Inl NoAllowedZones
       else and_then (compile_providers parse_uri allowed [] (dc_providers cfg)) (\<lambda>providers.
         and_then (compile_records providers [] (dc_records cfg)) (\<lambda>records.
           if list_all (cname_alone records) records
           then Inr \<lparr>cd_allowed_zones = allowed, cd_providers = providers, cd_records = records\<rparr>
           else Inl CnameWithOthers)))"

subsection \<open>Decisions\<close>

record pending_change =
  pc_expected :: "record_set option"
  pc_desired :: "record_set option"
  pc_ticket :: "change_ticket option"
  pc_started_at :: int

record managed_record =
  mr_name :: string
  mr_type :: record_type
  mr_applied :: "record_set option"
  mr_previous :: "record_set option"
  mr_generation :: nat
  mr_pending :: "pending_change option"
  mr_updated_at :: int

record provider_state =
  st_writer_generation :: nat
  st_records :: "(string, managed_record) table"

datatype wait_reason = ProviderLagging | ChangePending | StatusUnreadable | ReadFailed | ProviderUnavailable

datatype conflict_reason =
    CannotManage string | ChangedDuringChange | ChangedOutside | RefusingToDelete | UnmanagedExists
  | ProviderConflict string

datatype dns_action =
    NoChange
  | Apply "record_set option" "record_set option"
  | Adopt record_set
  | Forget
  | Wait wait_reason
  | Conflicting conflict_reason

definition with_current_proxied :: "record_set \<Rightarrow> record_set option \<Rightarrow> record_set" where
  "with_current_proxied desired current =
     (if rs_proxied desired = None
      then desired\<lparr>rs_proxied := (case current of None \<Rightarrow> None | Some c \<Rightarrow> rs_proxied c)\<rparr>
      else desired)"

definition values_of :: "record_set option \<Rightarrow> string set" where
  "values_of s = (case s of None \<Rightarrow> {} | Some r \<Rightarrow> rs_values r)"

definition is_between :: "record_set option \<Rightarrow> record_set option \<Rightarrow> record_set option \<Rightarrow> bool" where
  "is_between actual from to \<longleftrightarrow>
     values_of actual \<subseteq> values_of from \<union> values_of to
     \<and> values_of from \<inter> values_of to \<subseteq> values_of actual
     \<and> (case actual of
          None \<Rightarrow> True
        | Some a \<Rightarrow> (case from of None \<Rightarrow> False | Some f \<Rightarrow> rs_ttl f = rs_ttl a)
                    \<or> (case to of None \<Rightarrow> False | Some t \<Rightarrow> rs_ttl t = rs_ttl a))"

text \<open>The provider has what the configuration asks for.\<close>

definition reached :: "desired_record \<Rightarrow> record_set option \<Rightarrow> bool" where
  "reached d actual =
     (if dr_absent d then actual = None
      else case actual of None \<Rightarrow> False | Some a \<Rightarrow> same_data a (with_current_proxied (dr_set d) (Some a)))"

text \<open>The early returns for a record that Sieve Tube manages, and for one that it does not.\<close>

definition managed_stop ::
  "record_set option \<Rightarrow> managed_record \<Rightarrow> int \<Rightarrow> int \<Rightarrow> dns_action option" where
  "managed_stop actual m now settle =
     (case mr_pending m of
        Some p \<Rightarrow>
          if \<not> is_between actual (pc_expected p) (pc_desired p)
          then Some (if now - pc_started_at p < settle then Wait ProviderLagging else Conflicting ChangedDuringChange)
          else None
      | None \<Rightarrow>
          if \<not> same_optional actual (mr_applied m)
          then Some (if now - mr_updated_at m < settle then Wait ProviderLagging else Conflicting ChangedOutside)
          else None)"

definition unmanaged_stop :: "desired_record \<Rightarrow> record_set option \<Rightarrow> dns_action option" where
  "unmanaged_stop d actual =
     (case actual of
        None \<Rightarrow> None
      | Some current \<Rightarrow>
          Some (if dr_absent d then Conflicting RefusingToDelete
                else if \<not> dr_import d then Conflicting UnmanagedExists
                else let target = with_current_proxied (dr_set d) (Some current)
                     in if same_data current target then Adopt current
                        else Apply (Some current) (Some target)))"

definition final_action :: "desired_record \<Rightarrow> record_set option \<Rightarrow> bool \<Rightarrow> dns_action" where
  "final_action d actual is_managed =
     (case (actual, dr_absent d) of
        (None, True) \<Rightarrow> if is_managed then Forget else NoChange
      | (Some current, True) \<Rightarrow> Apply (Some current) None
      | (None, False) \<Rightarrow> Apply None (Some (dr_set d))
      | (Some current, False) \<Rightarrow>
          let target = with_current_proxied (dr_set d) (Some current)
          in if same_data current target then NoChange else Apply (Some current) (Some target))"

definition decide ::
  "desired_record \<Rightarrow> observed option \<Rightarrow> managed_record option \<Rightarrow> int \<Rightarrow> int \<Rightarrow> dns_action" where
  "decide d obs managed now settle =
     (case (case obs of None \<Rightarrow> None | Some ob \<Rightarrow> ob_unsupported ob) of
        Some reason \<Rightarrow> Conflicting (CannotManage reason)
      | None \<Rightarrow>
          (let actual = map_option ob_set obs;
               stop = (case managed of
                         Some m \<Rightarrow> if reached d actual then None else managed_stop actual m now settle
                       | None \<Rightarrow> unmanaged_stop d actual)
           in case stop of Some a \<Rightarrow> a | None \<Rightarrow> final_action d actual (managed \<noteq> None)))"

subsection \<open>What the decision guarantees\<close>

lemma same_data_target:
  "same_data a (with_current_proxied s (Some a)) \<longleftrightarrow>
     rs_name a = rs_name s \<and> rs_type a = rs_type s \<and> rs_ttl a = rs_ttl s \<and> rs_values a = rs_values s
     \<and> (rs_proxied s = None \<or> rs_proxied a = None \<or> rs_proxied a = rs_proxied s)"
  by (cases "rs_proxied s"; cases "rs_proxied a") (auto simp: same_data_def with_current_proxied_def)

text \<open>What the provider holds is what Sieve Tube left there, or a state its unfinished change passes
  through.\<close>

definition own_state :: "record_set option \<Rightarrow> managed_record \<Rightarrow> bool" where
  "own_state actual m =
     (case mr_pending m of
        Some p \<Rightarrow> is_between actual (pc_expected p) (pc_desired p)
      | None \<Rightarrow> same_optional actual (mr_applied m))"

lemma managed_stop_None: "managed_stop actual m now settle = None \<longleftrightarrow> own_state actual m"
  by (auto simp: managed_stop_def own_state_def split: option.splits if_splits)

lemma managed_stop_Some: "managed_stop actual m now settle = Some a \<Longrightarrow> a = Wait ProviderLagging \<or> (\<exists>r. a = Conflicting r)"
  by (auto simp: managed_stop_def split: option.splits if_splits)

lemma final_action_Apply:
  "final_action d actual b = Apply e t \<Longrightarrow>
     e = actual \<and> \<not> reached d actual
     \<and> (if dr_absent d then t = None else t = Some (with_current_proxied (dr_set d) actual))"
  by (auto simp: final_action_def reached_def with_current_proxied_def Let_def
      split: option.splits bool.splits if_splits)

lemma unmanaged_stop_Apply:
  "unmanaged_stop d actual = Some (Apply e t) \<Longrightarrow>
     e = actual \<and> actual \<noteq> None \<and> \<not> dr_absent d \<and> dr_import d \<and> \<not> reached d actual
     \<and> t = Some (with_current_proxied (dr_set d) actual)"
  by (auto simp: unmanaged_stop_def reached_def Let_def split: option.splits if_splits)

lemma supported_iff:
  "(case obs of None \<Rightarrow> None | Some ob \<Rightarrow> ob_unsupported ob) = None \<longleftrightarrow> (\<forall>ob. obs = Some ob \<longrightarrow> ob_unsupported ob = None)"
  by (cases obs) auto

lemma decide_Apply:
  assumes dec: "decide d obs managed now settle = Apply e t"
  shows "e = map_option ob_set obs \<and> (\<forall>ob. obs = Some ob \<longrightarrow> ob_unsupported ob = None) \<and> \<not> reached d (map_option ob_set obs)
      \<and> (if dr_absent d then t = None else t = Some (with_current_proxied (dr_set d) (map_option ob_set obs)))
      \<and> (case managed of
           None \<Rightarrow> obs = None \<and> \<not> dr_absent d \<or> dr_import d \<and> \<not> dr_absent d
         | Some m \<Rightarrow> own_state (map_option ob_set obs) m)"
proof -
  let ?actual = "map_option ob_set obs"
  have sup: "(case obs of None \<Rightarrow> None | Some ob \<Rightarrow> ob_unsupported ob) = None"
    using dec by (auto simp: decide_def split: option.splits)
  note ok = supported_iff [of obs]
  show ?thesis
  proof (cases managed)
    case None
    show ?thesis
    proof (cases "unmanaged_stop d ?actual")
      case stop: None
      then have "obs = None" by (auto simp: unmanaged_stop_def split: option.splits)
      moreover have "final_action d ?actual False = Apply e t" using dec sup None stop by (simp add: decide_def)
      ultimately show ?thesis using final_action_Apply [of d ?actual False e t] None
        by (auto simp: final_action_def split: if_splits bool.splits)
    next
      case (Some a)
      then have "unmanaged_stop d ?actual = Some (Apply e t)" using dec sup None by (simp add: decide_def)
      from unmanaged_stop_Apply [OF this] show ?thesis using sup ok None by auto
    qed
  next
    case (Some m)
    have "\<not> reached d ?actual \<Longrightarrow> managed_stop ?actual m now settle = None"
      using dec sup Some managed_stop_Some [of ?actual m now settle]
      by (cases "managed_stop ?actual m now settle") (auto simp: decide_def Let_def)
    moreover from this have fin: "final_action d ?actual True = Apply e t"
      using dec sup Some by (auto simp: decide_def Let_def split: if_splits)
    ultimately show ?thesis using final_action_Apply [OF fin] sup ok Some managed_stop_None by auto
  qed
qed

lemma decide_reached:
  assumes "reached d (map_option ob_set obs)" "\<forall>ob. obs = Some ob \<longrightarrow> ob_unsupported ob = None" "managed \<noteq> None"
  shows "decide d obs managed now settle = (if dr_absent d then Forget else NoChange)"
  using assms
  by (cases obs) (auto simp: decide_def reached_def final_action_def Let_def split: option.splits if_splits)

text \<open>C33. The planner never touches a record it may not touch. It asks for a change only when the provider
  reports a record it can manage and the configuration is not met yet; the change is always
  conditional on exactly what was observed, and its target is the configured set (or deletion,
  only where the configuration says absent). A record that Sieve Tube does not manage is
  changed only if there is none yet or the configuration imports it, and never deleted; one
  that it manages is changed only from a state that Sieve Tube itself left or that its own
  unfinished change passes through. When the configuration is met for a managed record, nothing
  is changed.\<close>

theorem decide_safe:
  "(\<forall>e t. decide d obs managed now settle = Apply e t \<longrightarrow>
      e = map_option ob_set obs \<and> (\<forall>ob. obs = Some ob \<longrightarrow> ob_unsupported ob = None)
      \<and> \<not> reached d (map_option ob_set obs)
      \<and> (if dr_absent d then t = None else t = Some (with_current_proxied (dr_set d) (map_option ob_set obs)))
      \<and> (case managed of
           None \<Rightarrow> obs = None \<and> \<not> dr_absent d \<or> dr_import d \<and> \<not> dr_absent d
         | Some m \<Rightarrow> own_state (map_option ob_set obs) m))
   \<and> (reached d (map_option ob_set obs) \<and> (\<forall>ob. obs = Some ob \<longrightarrow> ob_unsupported ob = None) \<and> managed \<noteq> None
        \<longrightarrow> decide d obs managed now settle = (if dr_absent d then Forget else NoChange))"
  using decide_Apply [of d obs managed now settle] decide_reached [of d obs managed now settle] by blast

theorem decide_safe_witness:
  "decide \<lparr>dr_provider = ''p'', dr_set = \<lparr>rs_name = ''a.b'', rs_type = RA, rs_ttl = 60, rs_values = {''1.2.3.4''}, rs_proxied = None\<rparr>,
           dr_import = False, dr_absent = False\<rparr> None None 0 0
     = Apply None (Some \<lparr>rs_name = ''a.b'', rs_type = RA, rs_ttl = 60, rs_values = {''1.2.3.4''}, rs_proxied = None\<rparr>)
   \<and> \<not> reached \<lparr>dr_provider = ''p'', dr_set = \<lparr>rs_name = ''a.b'', rs_type = RA, rs_ttl = 60, rs_values = {''1.2.3.4''}, rs_proxied = None\<rparr>,
           dr_import = False, dr_absent = False\<rparr> None"
proof -
  let ?d = "\<lparr>dr_provider = ''p'', dr_set = \<lparr>rs_name = ''a.b'', rs_type = RA, rs_ttl = 60, rs_values = {''1.2.3.4''}, rs_proxied = None\<rparr>,
           dr_import = False, dr_absent = False\<rparr>"
  have dec: "decide ?d None None 0 0
     = Apply None (Some \<lparr>rs_name = ''a.b'', rs_type = RA, rs_ttl = 60, rs_values = {''1.2.3.4''}, rs_proxied = None\<rparr>)"
    by (simp add: decide_def unmanaged_stop_def final_action_def)
  with decide_safe [of ?d None None 0 0] show ?thesis by simp
qed

subsection \<open>What a compiled configuration is\<close>

definition record_ok :: "provider_spec list \<Rightarrow> desired_record \<Rightarrow> bool" where
  "record_ok providers d \<longleftrightarrow>
     (\<exists>spec \<in> set providers. ps_name spec = dr_provider d
        \<and> is_within_zone (rs_name (dr_set d)) (ps_zone spec)
        \<and> ttl_ok (ps_kind spec) (rs_ttl (dr_set d))
        \<and> (rs_proxied (dr_set d) \<noteq> None \<longrightarrow> ps_kind spec = Cloudflare)
        \<and> (rs_type (dr_set d) = RCname \<longrightarrow> \<not> (rs_name (dr_set d) = ps_zone spec \<and> ps_kind spec = Route53)))
     \<and> (\<exists>n. normalize_dns_name n = Inr (rs_name (dr_set d)))
     \<and> hd (split_on (CHR ''.'') (rs_name (dr_set d))) \<noteq> ACME_CHALLENGE_LABEL
     \<and> (\<not> dr_absent d \<longrightarrow> rs_values (dr_set d) \<noteq> {})
     \<and> (rs_type (dr_set d) = RCname \<longrightarrow> card (rs_values (dr_set d)) \<le> 1)
     \<and> finite (rs_values (dr_set d))
     \<and> (\<forall>v \<in> rs_values (dr_set d). \<exists>raw. normalize_value (rs_type (dr_set d)) raw = Inr v)"

definition spec_ok :: "string list \<Rightarrow> provider_spec \<Rightarrow> bool" where
  "spec_ok allowed spec \<longleftrightarrow>
     provider_name_ok (ps_name spec) \<and> (\<exists>z. normalize_hostname z = Inr (ps_zone spec))
     \<and> (\<exists>zone \<in> set allowed. is_within_zone (ps_zone spec) zone)
     \<and> dpc_request_timeout_secs (ps_config spec) > 0"

definition dr_id :: "desired_record \<Rightarrow> string \<times> string \<times> record_type" where
  "dr_id d = (dr_provider d, rs_name (dr_set d), rs_type (dr_set d))"

definition wf_compiled :: "compiled_dns \<Rightarrow> bool" where
  "wf_compiled cd \<longleftrightarrow>
     cd_allowed_zones cd \<noteq> [] \<and> (\<forall>z \<in> set (cd_allowed_zones cd). \<exists>raw. normalize_hostname raw = Inr z)
     \<and> (\<forall>spec \<in> set (cd_providers cd). spec_ok (cd_allowed_zones cd) spec)
     \<and> distinct (map ps_name (cd_providers cd))
     \<and> (\<forall>d \<in> set (cd_records cd). record_ok (cd_providers cd) d \<and> cname_alone (cd_records cd) d)
     \<and> distinct (map dr_id (cd_records cd))"

lemma compile_provider_ok:
  assumes "compile_provider parse_uri allowed providers p = Inr spec"
  shows "spec_ok allowed spec" "ps_name spec \<notin> ps_name ` set providers"
  using assms
  by (auto simp: compile_provider_def spec_ok_def Let_def and_then_eq_Inr map_err_eq_Inr list_ex_iff split: if_splits)

lemma compile_providers_ok:
  "compile_providers parse_uri allowed providers ps = Inr specs
   \<Longrightarrow> \<forall>s \<in> set providers. spec_ok allowed s \<Longrightarrow> distinct (map ps_name providers)
   \<Longrightarrow> (\<forall>s \<in> set specs. spec_ok allowed s) \<and> distinct (map ps_name specs)"
proof (induction ps arbitrary: providers)
  case (Cons p ps)
  from Cons.prems(1) obtain spec where one: "compile_provider parse_uri allowed providers p = Inr spec"
    and rest: "compile_providers parse_uri allowed (providers @ [spec]) ps = Inr specs"
    by (auto simp: and_then_eq_Inr)
  show ?case using Cons.IH [OF rest] Cons.prems(2,3) compile_provider_ok [OF one] by simp
qed simp

lemma collect_results_origin:
  "collect_results f xs = Inr ys \<Longrightarrow> y \<in> set ys \<Longrightarrow> \<exists>x. f x = Inr y"
  by (induction xs arbitrary: ys) (auto split: sum.splits)

lemma compile_record_ok:
  assumes "compile_record providers records r = Inr d"
  shows "record_ok providers d" "dr_id d \<notin> dr_id ` set records"
proof -
  obtain spec where spec: "find (\<lambda>p. ps_name p = drc_provider r) providers = Some spec"
    using assms by (auto simp: compile_record_def split: option.splits)
  then have mem: "spec \<in> set providers" by (auto simp: find_Some_iff)
  obtain name vs where nm: "normalize_dns_name (drc_name r) = Inr name"
    and vs: "collect_results (normalize_value (drc_type r)) (drc_values r) = Inr vs"
    and checks: "is_within_zone name (ps_zone spec)" "hd (split_on (CHR ''.'') name) \<noteq> ACME_CHALLENGE_LABEL"
      "drc_state r = Absent \<or> set vs \<noteq> {}" "\<not> (drc_type r = RCname \<and> card (set vs) > 1)"
      "\<not> (drc_type r = RCname \<and> name = ps_zone spec \<and> ps_kind spec = Route53)"
      "ttl_ok (ps_kind spec) (drc_ttl r)" "check_proxied (ps_kind spec) r = Inr ()"
      "\<not> list_ex (\<lambda>d. dr_provider d = ps_name spec \<and> rs_name (dr_set d) = name \<and> rs_type (dr_set d) = drc_type r) records"
    and d: "d = \<lparr>dr_provider = ps_name spec,
                 dr_set = \<lparr>rs_name = name, rs_type = drc_type r, rs_ttl = drc_ttl r,
                           rs_values = set vs, rs_proxied = drc_proxied r\<rparr>,
                 dr_import = drc_import r, dr_absent = (drc_state r = Absent)\<rparr>"
    using assms spec
    by (auto simp: compile_record_def Let_def and_then_eq_Inr map_err_eq_Inr split: if_splits)
  have "drc_proxied r \<noteq> None \<Longrightarrow> ps_kind spec = Cloudflare"
    using checks(7) by (auto simp: check_proxied_def split: if_splits option.splits)
  then show "record_ok providers d"
    using mem nm checks collect_results_origin [OF vs] unfolding record_ok_def d by auto
  show "dr_id d \<notin> dr_id ` set records" using checks(8) by (auto simp: d dr_id_def list_ex_iff)
qed

lemma compile_records_ok:
  "compile_records providers records rs = Inr ds
   \<Longrightarrow> \<forall>d \<in> set records. record_ok providers d \<Longrightarrow> distinct (map dr_id records)
   \<Longrightarrow> (\<forall>d \<in> set ds. record_ok providers d) \<and> distinct (map dr_id ds)"
proof (induction rs arbitrary: records)
  case (Cons r rs)
  from Cons.prems(1) obtain d where one: "compile_record providers records r = Inr d"
    and rest: "compile_records providers (records @ [d]) rs = Inr ds"
    by (auto simp: and_then_eq_Inr)
  show ?case using Cons.IH [OF rest] Cons.prems(2,3) compile_record_ok [OF one] by simp
qed simp

text \<open>Every DNS configuration that is accepted is well formed: the allowed zones are normal hostnames;
  every provider has a distinct, valid name and a zone inside an allowed one; every record is a
  normal name inside the zone of its provider, outside of the names reserved for ACME, with
  values in canonical form and a TTL the provider takes; no record is listed twice, and no name
  has a CNAME beside another record.\<close>

theorem compile_dns_wf:
  assumes "compile_dns parse_uri cfg = Inr cd"
  shows "wf_compiled cd"
proof -
  obtain allowed providers records where
    a: "collect_results normalize_hostname (dc_allowed_zones cfg) = Inr allowed" "allowed \<noteq> []"
    and p: "compile_providers parse_uri allowed [] (dc_providers cfg) = Inr providers"
    and r: "compile_records providers [] (dc_records cfg) = Inr records"
    and c: "list_all (cname_alone records) records"
    and cd: "cd = \<lparr>cd_allowed_zones = allowed, cd_providers = providers, cd_records = records\<rparr>"
    using assms by (auto simp: compile_dns_def and_then_eq_Inr map_err_eq_Inr split: if_splits)
  show ?thesis
    using compile_providers_ok [OF p] compile_records_ok [OF r] collect_results_origin [OF a(1)] a(2) c
    by (auto simp: wf_compiled_def cd list_all_iff)
qed

definition sample_dns :: dns_config where
  "sample_dns =
     \<lparr>dc_enabled = True, dc_dry_run = False, dc_state_dir = ''/var/dns'', dc_reconcile_interval_secs = 300,
      dc_settle_secs = 30, dc_lease_ttl_secs = 60, dc_single_writer = False, dc_allowed_zones = [''Example.com''],
      dc_providers = [\<lparr>dpc_name = ''cf'', dpc_kind = Cloudflare, dpc_zone = ''example.com'', dpc_zone_id = Some ''z'',
        dpc_api_token_env = Some ''T'', dpc_api_token_file = None, dpc_api_base_url = None,
        dpc_hosted_zone_id = None, dpc_endpoint_url = None, dpc_region = None, dpc_request_timeout_secs = 15\<rparr>],
      dc_records = [\<lparr>drc_provider = ''cf'', drc_name = ''www.example.com'', drc_type = RA, drc_values = [''192.0.2.1''],
        drc_ttl = 300, drc_proxied = None, drc_import = False, drc_state = Present\<rparr>]\<rparr>"

theorem compile_dns_wf_witness:
  "\<exists>cd. compile_dns (\<lambda>_. None) sample_dns = Inr cd \<and> wf_compiled cd"
proof -
  have "is_ok (compile_dns (\<lambda>_. None) sample_dns)" by code_simp
  then obtain cd where "compile_dns (\<lambda>_. None) sample_dns = Inr cd" by (auto simp: is_ok_iff)
  with compile_dns_wf [OF this] show ?thesis by blast
qed

end
