(* ===== verification/Io.thy ===== *)
theory Io
  imports Prelude
begin

text \<open>
  Calls with effects and errors: a call takes the state of the world and returns a result with the new
  state. \<open>io_bind\<close> is \<open>?\<close> followed by the rest of the function.
\<close>

subsection \<open>Calls\<close>

type_synonym ('s, 'e, 'a) io = "'s \<Rightarrow> ('e, 'a) result \<times> 's"

definition io_return :: "'a \<Rightarrow> ('s, 'e, 'a) io" where
  "io_return a s = (Inr a, s)"

definition io_fail :: "'e \<Rightarrow> ('s, 'e, 'a) io" where
  "io_fail e s = (Inl e, s)"

text \<open>\<open>m.await?\<close> followed by the rest.\<close>

definition io_bind :: "('s, 'e, 'a) io \<Rightarrow> ('a \<Rightarrow> ('s, 'e, 'b) io) \<Rightarrow> ('s, 'e, 'b) io" where
  "io_bind m f s = (case m s of (Inl e, s') \<Rightarrow> (Inl e, s') | (Inr a, s') \<Rightarrow> f a s')"

named_theorems io_simps \<open>evaluation of calls\<close>

declare io_return_def [io_simps] io_fail_def [io_simps]

lemma io_bind_cong [fundef_cong]:
  assumes "m s = m' s'" "\<And>a t. m' s' = (Inr a, t) \<Longrightarrow> f a t = f' a t"
  shows "io_bind m f s = io_bind m' f' s'"
  using assms by (auto simp: io_bind_def split: prod.splits sum.splits)

lemma io_bind_Inr [io_simps]:
  "io_bind m f s = (Inr b, s'') \<longleftrightarrow> (\<exists>a s'. m s = (Inr a, s') \<and> f a s' = (Inr b, s''))"
  by (auto simp: io_bind_def split: prod.splits sum.splits)

lemma io_bind_Inl:
  "io_bind m f s = (Inl e, s'') \<longleftrightarrow> m s = (Inl e, s'') \<or> (\<exists>a s'. m s = (Inr a, s') \<and> f a s' = (Inl e, s''))"
  by (auto simp: io_bind_def split: prod.splits sum.splits)

subsection \<open>What a call leaves alone\<close>

text \<open>A relation between the states before and after a call, whatever the call returns.\<close>

definition framed :: "('s \<Rightarrow> 's \<Rightarrow> bool) \<Rightarrow> ('s, 'e, 'a) io \<Rightarrow> bool" where
  "framed rel m \<longleftrightarrow> (\<forall>s. rel s (snd (m s)))"

lemma framedI: "(\<And>s r s'. m s = (r, s') \<Longrightarrow> rel s s') \<Longrightarrow> framed rel m"
  by (auto simp: framed_def) (metis prod.collapse)

lemma framedD: "framed rel m \<Longrightarrow> m s = (r, s') \<Longrightarrow> rel s s'"
  by (metis framed_def snd_conv)

locale io_frame =
  fixes rel :: "'s \<Rightarrow> 's \<Rightarrow> bool"
  assumes rel_refl: "rel s s"
    and rel_trans: "rel s t \<Longrightarrow> rel t u \<Longrightarrow> rel s u"
begin

lemma bind_step:
  assumes "io_bind m f s = (r, s')" "\<And>r t. m s = (r, t) \<Longrightarrow> rel s t"
    and "\<And>a t. m s = (Inr a, t) \<Longrightarrow> f a t = (r, s') \<Longrightarrow> rel t s'"
  shows "rel s s'"
  using assms by (auto simp: io_bind_def split: prod.splits sum.splits intro: rel_trans)

lemma framed_return: "framed rel (io_return a)"
  by (rule framedI) (auto simp: io_return_def rel_refl)

lemma framed_fail: "framed rel (io_fail e)"
  by (rule framedI) (auto simp: io_fail_def rel_refl)

lemma framed_bind: "framed rel m \<Longrightarrow> (\<And>a. framed rel (f a)) \<Longrightarrow> framed rel (io_bind m f)"
  by (rule framedI) (auto simp: io_bind_def split: prod.splits sum.splits dest!: framedD intro: rel_trans)

lemma framed_if: "(b \<Longrightarrow> framed rel m) \<Longrightarrow> (\<not> b \<Longrightarrow> framed rel m') \<Longrightarrow> framed rel (if b then m else m')"
  by simp

lemma framed_option: "framed rel m \<Longrightarrow> (\<And>a. framed rel (f a)) \<Longrightarrow> framed rel (case x of None \<Rightarrow> m | Some a \<Rightarrow> f a)"
  by (cases x) simp_all

lemma framed_prod: "(\<And>a b. framed rel (f a b)) \<Longrightarrow> framed rel (case p of (a, b) \<Rightarrow> f a b)"
  by (cases p) simp

lemmas framed_intros = framed_return framed_fail framed_bind framed_if framed_option framed_prod

end

end
