(* ===== verification/Dns_Provider.thy ===== *)
theory Dns_Provider
  imports Dns_Plan Io
begin

text \<open>
  The provider interface (\<open>Provider\<close> of \<open>sievetube-edge/src/dns/mod.rs\<close>) and the in-memory
  provider (\<open>dns/memory.rs\<close>). A call takes the state of the world, which holds the provider's
  records, and returns a result with the new state. The locales \<open>guarded_store\<close>,
  \<open>dns_store\<close> and \<open>atomic_store\<close> are what the reconciler and the ACME solver rely on: a read reports the view of
  the records, and a replacement takes place only if the record set still has the expected data.
\<close>

subsection \<open>Providers\<close>

record 's provider_ops =
  pv_get :: "string \<Rightarrow> record_type \<Rightarrow> ('s, dns_error, observed option) io"
  pv_replace :: "string \<Rightarrow> record_type \<Rightarrow> record_set option \<Rightarrow> record_set option \<Rightarrow> ('s, dns_error, change_ticket) io"
  pv_synced :: "string \<Rightarrow> ('s, dns_error, bool) io"

definition change_synced :: "'s provider_ops \<Rightarrow> change_ticket \<Rightarrow> ('s, dns_error, bool) io" where
  "change_synced P ticket =
     (case ticket of Immediate \<Rightarrow> io_return True | Route53Ticket change_id \<Rightarrow> pv_synced P change_id)"

text \<open>The condition of a replacement: what is there is supported and has the expected data.\<close>

definition ob_matches :: "observed option \<Rightarrow> record_set option \<Rightarrow> bool" where
  "ob_matches current expected \<longleftrightarrow>
     (case current of None \<Rightarrow> True | Some ob \<Rightarrow> ob_unsupported ob = None)
     \<and> same_optional (map_option ob_set current) expected"

text \<open>The record set that a replacement leaves.\<close>

definition written :: "observed option \<Rightarrow> record_set option \<Rightarrow> bool" where
  "written current desired \<longleftrightarrow>
     (case desired of
        None \<Rightarrow> current = None
      | Some d \<Rightarrow> (case current of None \<Rightarrow> False | Some ob \<Rightarrow> ob_unsupported ob = None \<and> same_data (ob_set ob) d))"

text \<open>A target that belongs to the name and type it is written under.\<close>

definition target_for :: "(record_set \<Rightarrow> bool) \<Rightarrow> string \<Rightarrow> record_type \<Rightarrow> record_set option \<Rightarrow> bool" where
  "target_for writable n t d = (case d of None \<Rightarrow> True | Some r \<Rightarrow> writable r \<and> rs_name r = n \<and> rs_type r = t)"

locale guarded_store =
  fixes P :: "'s provider_ops"
    and view :: "'s \<Rightarrow> string \<Rightarrow> record_type \<Rightarrow> observed option"
    and inv :: "'s \<Rightarrow> bool"
    and writable :: "record_set \<Rightarrow> bool"
  assumes get_view: "inv s \<Longrightarrow> pv_get P n t s = (Inr ob, s') \<Longrightarrow> ob = view s n t"
    and get_frame: "inv s \<Longrightarrow> pv_get P n t s = (r, s') \<Longrightarrow> inv s' \<and> view s' = view s"
    and synced_frame: "inv s \<Longrightarrow> pv_synced P c s = (b, s') \<Longrightarrow> inv s' \<and> view s' = view s"
    and replace_inv: "inv s \<Longrightarrow> target_for writable n t d \<Longrightarrow> pv_replace P n t e d s = (k, s') \<Longrightarrow> inv s'"
    and replace_other:
      "inv s \<Longrightarrow> target_for writable n t d \<Longrightarrow> pv_replace P n t e d s = (k, s') \<Longrightarrow> (n', t') \<noteq> (n, t) \<Longrightarrow> view s' n' t' = view s n' t'"
    and replace_refused: "inv s \<Longrightarrow> \<not> ob_matches (view s n t) e \<Longrightarrow> pv_replace P n t e d s = (k, s') \<Longrightarrow> view s' = view s"
    and view_named: "inv s \<Longrightarrow> view s n t = Some o' \<Longrightarrow> rs_name (ob_set o') = n \<and> rs_type (ob_set o') = t"
begin

text \<open>Any change of a record set went through the condition.\<close>

lemma replace_changed:
  assumes "inv s" "pv_replace P n t e d s = (k, s')" "view s' n t \<noteq> view s n t"
  shows "ob_matches (view s n t) e"
  using replace_refused [OF assms(1) _ assms(2)] assms(3) by metis

lemma change_synced_frame:
  assumes "inv s" "change_synced P ticket s = (b, s')"
  shows "inv s' \<and> view s' = view s"
  using assms synced_frame by (cases ticket) (auto simp: change_synced_def io_return_def)

end

text \<open>A store in which a call that reports success has written the target.\<close>

locale dns_store = guarded_store +
  assumes replace_ok:
      "inv s \<Longrightarrow> target_for writable n t d \<Longrightarrow> pv_replace P n t e d s = (Inr k', s') \<Longrightarrow> ob_matches (view s n t) e \<and> written (view s' n t) d"

text \<open>A store in which a call that fails has changed nothing.\<close>

locale atomic_store = dns_store +
  assumes replace_err:
    "inv s \<Longrightarrow> target_for writable n t d \<Longrightarrow> pv_replace P n t e d s = (Inl er, s') \<Longrightarrow> view s' = view s"

subsection \<open>The provider in memory\<close>

record mem_provider =
  mp_records :: "(string \<times> record_type, observed) table"
  mp_failures :: "dns_error list"
  mp_writes :: "64 word"
  mp_tracked :: "(string, bool) table option"

definition new_memory :: mem_provider where
  "new_memory = \<lparr>mp_records = [], mp_failures = [], mp_writes = 0, mp_tracked = None\<rparr>"

definition with_tracked_changes :: mem_provider where
  "with_tracked_changes = new_memory\<lparr>mp_tracked := Some []\<rparr>"

definition set_external :: "record_set \<Rightarrow> mem_provider \<Rightarrow> mem_provider" where
  "set_external r s =
     s\<lparr>mp_records := t_insert (rs_name r, rs_type r) \<lparr>ob_set = r, ob_unsupported = None\<rparr> (mp_records s)\<rparr>"

definition set_unsupported :: "record_set \<Rightarrow> string \<Rightarrow> mem_provider \<Rightarrow> mem_provider" where
  "set_unsupported r reason s =
     s\<lparr>mp_records := t_insert (rs_name r, rs_type r) \<lparr>ob_set = r, ob_unsupported = Some reason\<rparr> (mp_records s)\<rparr>"

definition remove_external :: "string \<Rightarrow> record_type \<Rightarrow> mem_provider \<Rightarrow> mem_provider" where
  "remove_external n t s = s\<lparr>mp_records := t_remove (n, t) (mp_records s)\<rparr>"

definition mem_snapshot :: "string \<Rightarrow> record_type \<Rightarrow> mem_provider \<Rightarrow> record_set option" where
  "mem_snapshot n t s = map_option ob_set (map_of (mp_records s) (n, t))"

definition fail_next :: "dns_error \<Rightarrow> mem_provider \<Rightarrow> mem_provider" where
  "fail_next e s = s\<lparr>mp_failures := mp_failures s @ [e]\<rparr>"

definition sync_all :: "mem_provider \<Rightarrow> mem_provider" where
  "sync_all s = s\<lparr>mp_tracked := map_option (map (\<lambda>(k, _). (k, True))) (mp_tracked s)\<rparr>"

definition take_failure :: "(mem_provider, dns_error, unit) io" where
  "take_failure s =
     (case mp_failures s of [] \<Rightarrow> (Inr (), s) | e # es \<Rightarrow> (Inl e, s\<lparr>mp_failures := es\<rparr>))"

definition mem_get :: "string \<Rightarrow> record_type \<Rightarrow> (mem_provider, dns_error, observed option) io" where
  "mem_get n t = io_bind take_failure (\<lambda>_ s. (Inr (map_of (mp_records s) (n, t)), s))"

text \<open>The ticket for the write that was just counted.\<close>

definition mem_ticket :: "(mem_provider, dns_error, change_ticket) io" where
  "mem_ticket s =
     (let write = mp_writes s + 1; s1 = s\<lparr>mp_writes := write\<rparr>
      in case mp_tracked s of
           Some changes \<Rightarrow>
             let change_id = ''C'' @ show_nat (unat write)
             in (Inr (Route53Ticket change_id), s1\<lparr>mp_tracked := Some (t_insert change_id False changes)\<rparr>)
         | None \<Rightarrow> (Inr Immediate, s1))"

text \<open>The record set as it is stored: an unset proxy flag keeps the current one.\<close>

definition mem_stored :: "record_type \<Rightarrow> observed option \<Rightarrow> record_set \<Rightarrow> record_set" where
  "mem_stored t current d =
     (if rs_proxied d = None \<and> t \<noteq> RTxt
      then d\<lparr>rs_proxied := (case current of
             Some ob \<Rightarrow> (case rs_proxied (ob_set ob) of Some p \<Rightarrow> Some p | None \<Rightarrow> Some False)
           | None \<Rightarrow> Some False)\<rparr>
      else d)"

definition mem_write :: "string \<Rightarrow> record_type \<Rightarrow> record_set option \<Rightarrow> mem_provider \<Rightarrow> mem_provider" where
  "mem_write n t desired s =
     s\<lparr>mp_records :=
        (case desired of
           Some d \<Rightarrow> t_insert (n, t) \<lparr>ob_set = mem_stored t (map_of (mp_records s) (n, t)) d, ob_unsupported = None\<rparr> (mp_records s)
         | None \<Rightarrow> t_remove (n, t) (mp_records s))\<rparr>"

definition mem_replace ::
  "string \<Rightarrow> record_type \<Rightarrow> record_set option \<Rightarrow> record_set option \<Rightarrow> (mem_provider, dns_error, change_ticket) io" where
  "mem_replace n t expected desired =
     io_bind take_failure (\<lambda>_ s.
       let current = map_of (mp_records s) (n, t)
       in case (case current of None \<Rightarrow> None | Some ob \<Rightarrow> ob_unsupported ob) of
            Some reason \<Rightarrow> (Inl (DnsConflict reason), s)
          | None \<Rightarrow>
              if \<not> same_optional (map_option ob_set current) expected
              then (Inl (DnsConflict ''record set changed at the provider''), s)
              else mem_ticket (mem_write n t desired s))"

definition mem_change_synced :: "string \<Rightarrow> (mem_provider, dns_error, bool) io" where
  "mem_change_synced change_id s =
     (case mp_tracked s of
        None \<Rightarrow> (Inr False, s)
      | Some changes \<Rightarrow>
          (case map_of changes change_id of
             None \<Rightarrow> (Inr False, s)
           | Some synced \<Rightarrow>
               if synced then (Inr True, s)
               else (Inr False, s\<lparr>mp_tracked := Some (t_insert change_id True changes)\<rparr>)))"

definition memory_ops :: "mem_provider provider_ops" where
  "memory_ops = \<lparr>pv_get = mem_get, pv_replace = mem_replace, pv_synced = mem_change_synced\<rparr>"

definition mem_view :: "mem_provider \<Rightarrow> string \<Rightarrow> record_type \<Rightarrow> observed option" where
  "mem_view s n t = map_of (mp_records s) (n, t)"

definition mem_inv :: "mem_provider \<Rightarrow> bool" where
  "mem_inv s \<longleftrightarrow> (\<forall>n t ob. map_of (mp_records s) (n, t) = Some ob \<longrightarrow> rs_name (ob_set ob) = n \<and> rs_type (ob_set ob) = t)"

lemma take_failure_frame:
  "take_failure s = (r, s') \<Longrightarrow> mp_records s' = mp_records s"
  by (auto simp: take_failure_def split: list.splits)

lemma mem_ticket_ok [simp]: "mp_records (snd (mem_ticket s)) = mp_records s" "\<exists>k. fst (mem_ticket s) = Inr k"
  by (auto simp: mem_ticket_def Let_def split: option.splits)

lemma mem_replace_cases:
  assumes "mem_replace n t e d s = (k, s')"
  obtains (refused) err where "k = Inl err" "mp_records s' = mp_records s"
  | (replaced) tk where "k = Inr tk" "ob_matches (mem_view s n t) e" "mp_records s' = mp_records (mem_write n t d s)"
proof -
  obtain r s1 where tf: "take_failure s = (r, s1)" by fastforce
  note recs = take_failure_frame [OF tf]
  show thesis
  proof (cases r)
    case (Inl err)
    with tf assms have "k = Inl err" "s' = s1" by (auto simp: mem_replace_def io_bind_def)
    with recs refused show thesis by simp
  next
    case (Inr u)
    have w: "mp_records (mem_write n t d s1) = mp_records (mem_write n t d s)" unfolding mem_write_def recs by simp
    obtain tk where tk: "fst (mem_ticket (mem_write n t d s1)) = Inr tk" using mem_ticket_ok(2) by blast
    show thesis
    proof (cases "ob_matches (mem_view s n t) e")
      case True
      then have "(k, s') = mem_ticket (mem_write n t d s1)"
        using assms tf Inr recs
        by (auto simp: mem_replace_def io_bind_def Let_def ob_matches_def mem_view_def split: option.splits)
      with tk have "k = Inr tk" "mp_records s' = mp_records (mem_write n t d s1)"
        by (metis fst_conv, metis mem_ticket_ok(1) snd_conv)
      with True w show thesis by (intro replaced) simp_all
    next
      case False
      then have "\<exists>err. (k, s') = (Inl err, s1)"
        using assms tf Inr recs
        by (auto simp: mem_replace_def io_bind_def Let_def ob_matches_def mem_view_def split: option.splits if_splits)
      with recs refused show thesis by blast
    qed
  qed
qed

lemma mem_stored_same [simp]:
  "same_data (mem_stored t current d) d"
  "rs_name (mem_stored t current d) = rs_name d" "rs_type (mem_stored t current d) = rs_type d"
  by (simp_all add: mem_stored_def same_data_def split: option.splits)

interpretation memory: atomic_store memory_ops mem_view mem_inv "\<lambda>_. True"
proof
  fix s n t ob s'
  show "mem_inv s \<Longrightarrow> pv_get memory_ops n t s = (Inr ob, s') \<Longrightarrow> ob = mem_view s n t"
    by (auto simp: memory_ops_def mem_get_def mem_view_def io_bind_Inr dest: take_failure_frame)
next
  fix s n t r s'
  assume "mem_inv s" "pv_get memory_ops n t s = (r, s')"
  then show "mem_inv s' \<and> mem_view s' = mem_view s"
    by (auto simp: memory_ops_def mem_get_def mem_view_def mem_inv_def io_bind_def fun_eq_iff
        dest!: take_failure_frame split: prod.splits sum.splits)
next
  fix s c b s'
  assume "mem_inv s" "pv_synced memory_ops c s = (b, s')"
  then show "mem_inv s' \<and> mem_view s' = mem_view s"
    by (auto simp: memory_ops_def mem_change_synced_def mem_view_def mem_inv_def fun_eq_iff
        split: option.splits if_splits)
next
  fix s d n t e k s'
  assume "mem_inv s" "target_for (\<lambda>_. True) n t d" "pv_replace memory_ops n t e d s = (k, s')"
  then show "mem_inv s'"
    by (auto simp: memory_ops_def mem_inv_def target_for_def tab_simps mem_write_def elim!: mem_replace_cases split: option.splits if_splits)
next
  fix s d n t e k s' n' t'
  assume "mem_inv s" "target_for (\<lambda>_. True) n t d" "pv_replace memory_ops n t e d s = (k, s')" "(n', t') \<noteq> (n, t)"
  then show "mem_view s' n' t' = mem_view s n' t'"
    by (auto simp: memory_ops_def mem_view_def tab_simps mem_write_def elim!: mem_replace_cases split: option.splits)
next
  fix s d n t e k s'
  assume "mem_inv s" "target_for (\<lambda>_. True) n t d" "pv_replace memory_ops n t e d s = (Inr k, s')"
  then show "ob_matches (mem_view s n t) e \<and> written (mem_view s' n t) d"
    by (auto simp: memory_ops_def mem_view_def tab_simps mem_write_def written_def elim!: mem_replace_cases split: option.splits)
next
  fix s n t e d k s'
  assume "mem_inv s" "\<not> ob_matches (mem_view s n t) e" "pv_replace memory_ops n t e d s = (k, s')"
  then show "mem_view s' = mem_view s"
    by (auto simp: memory_ops_def mem_view_def fun_eq_iff elim!: mem_replace_cases)
next
  fix s n t o'
  show "mem_inv s \<Longrightarrow> mem_view s n t = Some o' \<Longrightarrow> rs_name (ob_set o') = n \<and> rs_type (ob_set o') = t"
    by (simp add: mem_inv_def mem_view_def)
next
  fix s d n t e er s'
  assume "mem_inv s" "target_for (\<lambda>_. True) n t d" "pv_replace memory_ops n t e d s = (Inl er, s')"
  then show "mem_view s' = mem_view s"
    by (auto simp: memory_ops_def mem_view_def fun_eq_iff elim!: mem_replace_cases)
qed

subsection \<open>A provider inside a larger world\<close>

definition lift_io :: "('w \<Rightarrow> 's) \<Rightarrow> ('s \<Rightarrow> 'w \<Rightarrow> 'w) \<Rightarrow> ('s, 'e, 'a) io \<Rightarrow> ('w, 'e, 'a) io" where
  "lift_io get put f w = (case f (get w) of (r, s) \<Rightarrow> (r, put s w))"

definition lift_ops :: "('w \<Rightarrow> 's) \<Rightarrow> ('s \<Rightarrow> 'w \<Rightarrow> 'w) \<Rightarrow> 's provider_ops \<Rightarrow> 'w provider_ops" where
  "lift_ops get put P = \<lparr>pv_get = (\<lambda>n t. lift_io get put (pv_get P n t)),
     pv_replace = (\<lambda>n t e d. lift_io get put (pv_replace P n t e d)),
     pv_synced = (\<lambda>c. lift_io get put (pv_synced P c))\<rparr>"

lemma lift_ops_simps [simp]:
  "pv_get (lift_ops get put P) n t = lift_io get put (pv_get P n t)"
  "pv_replace (lift_ops get put P) n t e d = lift_io get put (pv_replace P n t e d)"
  "pv_synced (lift_ops get put P) c = lift_io get put (pv_synced P c)"
  by (simp_all add: lift_ops_def)

lemma lift_ioD:
  assumes "lift_io get put f w = (r, w')" "\<And>s w. get (put s w) = s"
  shows "f (get w) = (r, get w') \<and> w' = put (get w') w"
  using assms(1) by (auto simp: lift_io_def assms(2) split: prod.splits)

lemma lift_atomic:
  fixes get :: "'w \<Rightarrow> 's"
  assumes P: "atomic_store P view ok writable" and lens: "\<And>s w. get (put s w) = s"
  shows "atomic_store (lift_ops get put P) (\<lambda>w. view (get w)) (\<lambda>w. ok (get w)) writable"
proof -
  have D: "f (get w) = (r, get w')" if "lift_io get put f w = (r, w')" for f :: "('s, 'e, 'v) io" and w r w'
    using lift_ioD [where get = get and put = put, OF that lens] by blast
  have d: "dns_store P view ok writable" using P by (rule atomic_store.axioms)
  then have g: "guarded_store P view ok writable" by (rule dns_store.axioms)
  show ?thesis
    unfolding atomic_store_def dns_store_def guarded_store_def atomic_store_axioms_def dns_store_axioms_def lift_ops_simps
    by (intro conjI allI impI; (drule D)?)
      (blast intro: guarded_store.get_view [OF g] guarded_store.get_frame [OF g, THEN conjunct1] guarded_store.get_frame [OF g, THEN conjunct2]
         guarded_store.synced_frame [OF g, THEN conjunct1] guarded_store.synced_frame [OF g, THEN conjunct2]
         guarded_store.replace_inv [OF g] guarded_store.replace_other [OF g] guarded_store.replace_refused [OF g]
         guarded_store.view_named [OF g, THEN conjunct1] guarded_store.view_named [OF g, THEN conjunct2]
         dns_store.replace_ok [OF d, THEN conjunct1] dns_store.replace_ok [OF d, THEN conjunct2] atomic_store.replace_err [OF P])+
qed

end
