(* ===== verification/Dns_Cloudflare.thy ===== *)
theory Dns_Cloudflare
  imports Dns_Provider "HOL-Library.List_Lexorder" "HOL-Library.Char_ord"
begin

text \<open>
  The Cloudflare adapter (\<open>sievetube-edge/src/dns/cloudflare.rs\<close>). Cloudflare keeps one record per
  value; the adapter shows the records of a name and type as one record set and applies a change
  value by value. The service is a parameter: it takes a request and its state to a reply and a new
  state. The locale \<open>cf_server\<close> has the documented behaviour of the service, and theory \<open>Dns_Contract\<close> shows that
  the mock API of \<open>dns/contract_tests.rs\<close> has it. Lists of values are sorted, as a \<open>BTreeSet\<close> is.
\<close>

subsection \<open>Replies\<close>

record cf_record =
  cf_id :: string
  cf_content :: string
  cf_ttl :: nat
  cf_proxied :: "bool option"

record envelope =
  ev_success :: bool
  ev_errors :: "(int \<times> string) list"
  ev_result :: "cf_record list option"
  ev_total_pages :: "nat option"

text \<open>
  A reply: status, \<open>Retry-After\<close> in seconds and the envelope, or what parsing the body as an
  envelope reported.
\<close>

datatype http_reply =
    ReplyTimedOut | ReplyFailed string | HttpReply nat "nat option" "(string, envelope) result"

definition CONFLICT_CODES :: "int list" where "CONFLICT_CODES = [81053, 81057, 81058]"

definition show_int :: "int \<Rightarrow> string" where
  "show_int i = (if i < 0 then CHR ''-'' # show_nat (nat (- i)) else show_nat (nat i))"

definition cf_messages :: "(int \<times> string) list \<Rightarrow> string" where
  "cf_messages errors = join_str ''; '' (map (\<lambda>(code, message). message @ '' ('' @ show_int code @ '')'') errors)"

text \<open>How \<open>call\<close> classifies a reply; \<open>show_status\<close> is the text of a status code.\<close>

definition cf_result :: "(nat \<Rightarrow> string) \<Rightarrow> http_reply \<Rightarrow> (dns_error, envelope) result" where
  "cf_result show_status reply =
     (case reply of
        ReplyTimedOut \<Rightarrow> Inl TimedOut
      | ReplyFailed e \<Rightarrow> Inl (ProviderError e)
      | HttpReply status retry_after env \<Rightarrow>
          if status = 429 then Inl (RateLimited retry_after)
          else if status = 401 \<or> status = 403
          then Inl (AuthFailedDns (case env of Inr e \<Rightarrow> cf_messages (ev_errors e) | Inl _ \<Rightarrow> show_status status))
          else if 500 \<le> status \<and> status < 600 then Inl (ProviderError (''HTTP '' @ show_status status))
          else case env of
                 Inl e \<Rightarrow> Inl (ProviderError (''unexpected response (HTTP '' @ show_status status @ ''): '' @ e))
               | Inr e \<Rightarrow>
                   if \<not> ev_success e then
                     let detail = cf_messages (ev_errors e)
                     in if list_ex (\<lambda>(code, _). code \<in> set CONFLICT_CODES) (ev_errors e)
                        then Inl (DnsConflict detail) else Inl (ProviderError detail)
                   else Inr e)"

subsection \<open>Requests\<close>

datatype cf_request =
    CfList string record_type nat
  | CfPatch string nat "bool option"
  | CfPost record_type string string nat "bool option"
  | CfDelete string

record 's cf_env =
  ce_api :: "cf_request \<Rightarrow> 's \<Rightarrow> http_reply \<times> 's"
  ce_show_status :: "nat \<Rightarrow> string"

definition cf_call :: "'s cf_env \<Rightarrow> cf_request \<Rightarrow> ('s, dns_error, envelope) io" where
  "cf_call C req s = (case ce_api C req s of (reply, s') \<Rightarrow> (cf_result (ce_show_status C) reply, s'))"

definition MAX_PAGES :: nat where "MAX_PAGES = 1000"

function cf_list :: "'s cf_env \<Rightarrow> string \<Rightarrow> record_type \<Rightarrow> nat \<Rightarrow> cf_record list \<Rightarrow> ('s, dns_error, cf_record list) io" where
  "cf_list C n t page records s =
     (case cf_call C (CfList n t page) s of
        (Inl e, s') \<Rightarrow> (Inl e, s')
      | (Inr env, s') \<Rightarrow>
          let records' = records @ (case ev_result env of Some rs \<Rightarrow> rs | None \<Rightarrow> []);
              total_pages = (case ev_total_pages env of Some p \<Rightarrow> p | None \<Rightarrow> 1)
          in if page \<ge> total_pages \<or> page \<ge> MAX_PAGES then (Inr records', s')
             else cf_list C n t (page + 1) records' s')"
  by pat_completeness auto
termination
  by (relation "measure (\<lambda>(C, n, t, page, records, s). MAX_PAGES - page)") auto

declare cf_list.simps [simp del]

subsection \<open>The records as a record set\<close>

definition proxiable :: "record_type \<Rightarrow> bool" where
  "proxiable t \<longleftrightarrow> t = RA \<or> t = RAaaa \<or> t = RCname"

definition value_of :: "record_type \<Rightarrow> cf_record \<Rightarrow> string option" where
  "value_of t r = ok_option (normalize_value t (cf_content r))"

definition cf_observed :: "string \<Rightarrow> record_type \<Rightarrow> cf_record list \<Rightarrow> observed option" where
  "cf_observed n t records =
     (case records of
        [] \<Rightarrow> None
      | first # _ \<Rightarrow>
          let values = set (List.map_filter (value_of t) records);
              proxy_settings = set (map cf_proxied records);
              unsupported =
                (if card values \<noteq> length records then Some ''duplicate or unparsable record values''
                 else if list_ex (\<lambda>r. cf_ttl r \<noteq> cf_ttl first) records then Some ''records with different TTLs''
                 else if card proxy_settings > 1 then Some ''records with different proxy settings''
                 else None)
          in Some \<lparr>ob_set = \<lparr>rs_name = n, rs_type = t, rs_ttl = cf_ttl first, rs_values = values,
                              rs_proxied = (if proxiable t then cf_proxied first else None)\<rparr>,
                   ob_unsupported = unsupported\<rparr>)"

definition cf_get :: "'s cf_env \<Rightarrow> string \<Rightarrow> record_type \<Rightarrow> ('s, dns_error, observed option) io" where
  "cf_get C n t = io_bind (cf_list C n t 1 []) (\<lambda>records. io_return (cf_observed n t records))"

subsection \<open>Changes\<close>

definition content_of :: "record_type \<Rightarrow> string \<Rightarrow> string" where
  "content_of t v = (if t = RTxt then quote_txt v else v)"

text \<open>The request for one desired value, if one is needed.\<close>

definition cf_put :: "string \<Rightarrow> record_type \<Rightarrow> cf_record list \<Rightarrow> bool \<Rightarrow> nat \<Rightarrow> string \<Rightarrow> cf_request list" where
  "cf_put n t records proxied ttl v =
     (let flag = (if proxiable t then Some proxied else None)
      in case find (\<lambda>r. value_of t r = Some v) records of
           Some r \<Rightarrow>
             let proxy_changed = (proxiable t \<and> cf_proxied r \<noteq> Some proxied)
             in if cf_ttl r \<noteq> ttl \<or> proxy_changed then [CfPatch (cf_id r) ttl flag] else []
         | None \<Rightarrow> [CfPost t n (content_of t v) ttl flag])"

definition cf_obsolete :: "record_type \<Rightarrow> cf_record list \<Rightarrow> record_set option \<Rightarrow> cf_record list" where
  "cf_obsolete t records desired =
     (let keep = (case desired of Some d \<Rightarrow> rs_values d | None \<Rightarrow> {})
      in filter (\<lambda>r. \<not> (case value_of t r of Some v \<Rightarrow> v \<in> keep | None \<Rightarrow> False)) records)"

definition cf_flag :: "observed option \<Rightarrow> record_set \<Rightarrow> bool" where
  "cf_flag current d =
     (case rs_proxied d of
        Some p \<Rightarrow> p
      | None \<Rightarrow> (case current of
                  Some ob \<Rightarrow> (case rs_proxied (ob_set ob) of Some p \<Rightarrow> p | None \<Rightarrow> False)
                | None \<Rightarrow> False))"

text \<open>
  The requests of a change in their order: a \<open>CNAME\<close> is removed before the new one is created, for
  the other types new values are added first.
\<close>

definition cf_puts :: "string \<Rightarrow> record_type \<Rightarrow> cf_record list \<Rightarrow> observed option \<Rightarrow> record_set option \<Rightarrow> cf_request list" where
  "cf_puts n t records current desired =
     (case desired of
        Some d \<Rightarrow> concat (map (cf_put n t records (cf_flag current d) (rs_ttl d)) (sorted_list_of_set (rs_values d)))
      | None \<Rightarrow> [])"

definition cf_calls :: "string \<Rightarrow> record_type \<Rightarrow> cf_record list \<Rightarrow> observed option \<Rightarrow> record_set option \<Rightarrow> cf_request list" where
  "cf_calls n t records current desired =
     (let deletes = map (\<lambda>r. CfDelete (cf_id r)) (cf_obsolete t records desired);
          puts = cf_puts n t records current desired
      in if t = RCname then deletes @ puts else puts @ deletes)"

primrec run_calls :: "'s cf_env \<Rightarrow> cf_request list \<Rightarrow> ('s, dns_error, unit) io" where
  "run_calls C [] = io_return ()"
| "run_calls C (q # qs) = io_bind (cf_call C q) (\<lambda>_. run_calls C qs)"

text \<open>The change, given the records that were listed.\<close>

definition cf_change ::
  "'s cf_env \<Rightarrow> string \<Rightarrow> record_type \<Rightarrow> record_set option \<Rightarrow> record_set option \<Rightarrow> cf_record list \<Rightarrow> ('s, dns_error, change_ticket) io" where
  "cf_change C n t expected desired records =
     (let current = cf_observed n t records
      in case (case current of None \<Rightarrow> None | Some ob \<Rightarrow> ob_unsupported ob) of
           Some reason \<Rightarrow> io_fail (DnsConflict reason)
         | None \<Rightarrow>
             if \<not> same_optional (map_option ob_set current) expected
             then io_fail (DnsConflict ''record set changed at the provider'')
             else io_bind (run_calls C (cf_calls n t records current desired)) (\<lambda>_. io_return Immediate))"

definition cf_replace ::
  "'s cf_env \<Rightarrow> string \<Rightarrow> record_type \<Rightarrow> record_set option \<Rightarrow> record_set option \<Rightarrow> ('s, dns_error, change_ticket) io" where
  "cf_replace C n t expected desired = io_bind (cf_list C n t 1 []) (cf_change C n t expected desired)"

definition cloudflare_ops :: "'s cf_env \<Rightarrow> 's provider_ops" where
  "cloudflare_ops C =
     \<lparr>pv_get = cf_get C, pv_replace = cf_replace C,
      pv_synced = (\<lambda>_. io_fail (Unsupported ''change ticket does not belong to this provider''))\<rparr>"

text \<open>The token of the configuration.\<close>

definition load_token ::
  "(string \<Rightarrow> string option) \<Rightarrow> (string \<Rightarrow> string option) \<Rightarrow> string option \<Rightarrow> string option \<Rightarrow> string option" where
  "load_token env_var read_file env file =
     (case (case (env, file) of
              (Some var, _) \<Rightarrow> env_var var
            | (None, Some path) \<Rightarrow> read_file path
            | (None, None) \<Rightarrow> None) of
        None \<Rightarrow> None
      | Some token \<Rightarrow> if trim token = [] then None else Some (trim token))"

subsection \<open>The service\<close>

type_synonym cf_zone = "string \<Rightarrow> record_type \<Rightarrow> cf_record list"

definition cf_patched :: "string \<Rightarrow> nat \<Rightarrow> bool option \<Rightarrow> cf_record \<Rightarrow> cf_record" where
  "cf_patched i ttl flag r =
     (if cf_id r = i
      then r\<lparr>cf_ttl := ttl, cf_proxied := (case flag of Some p \<Rightarrow> Some p | None \<Rightarrow> cf_proxied r)\<rparr> else r)"

definition fresh_id :: "string \<Rightarrow> cf_zone \<Rightarrow> bool" where
  "fresh_id i z \<longleftrightarrow> (\<forall>n t. i \<notin> cf_id ` set (z n t))"

text \<open>A record that was created for a content: its text may differ, its value does not.\<close>

definition created :: "record_type \<Rightarrow> string \<Rightarrow> nat \<Rightarrow> bool option \<Rightarrow> cf_record \<Rightarrow> bool" where
  "created t content ttl flag r \<longleftrightarrow>
     normalize_value t (cf_content r) = normalize_value t content \<and> cf_ttl r = ttl
     \<and> cf_proxied r = Some (case flag of Some p \<Rightarrow> p | None \<Rightarrow> False)"

definition cf_effect :: "cf_request \<Rightarrow> cf_zone \<Rightarrow> cf_zone \<Rightarrow> bool" where
  "cf_effect req z z' =
     (case req of
        CfList n t page \<Rightarrow> z' = z
      | CfPatch i ttl flag \<Rightarrow> z' = (\<lambda>n t. map (cf_patched i ttl flag) (z n t))
      | CfPost t n content ttl flag \<Rightarrow>
          (\<exists>r. fresh_id (cf_id r) z \<and> created t content ttl flag r \<and> z' = z(n := (z n)(t := z n t @ [r])))
      | CfDelete i \<Rightarrow> z' = (\<lambda>n t. filter (\<lambda>r. cf_id r \<noteq> i) (z n t)))"

definition wf_zone :: "cf_zone \<Rightarrow> bool" where
  "wf_zone z \<longleftrightarrow>
     (\<forall>n t. distinct (map cf_id (z n t)))
     \<and> (\<forall>n t n' t'. (n, t) \<noteq> (n', t') \<longrightarrow> cf_id ` set (z n t) \<inter> cf_id ` set (z n' t') = {})
     \<and> (\<forall>n t. \<not> proxiable t \<longrightarrow> (\<forall>r \<in> set (z n t). cf_proxied r = Some False))"

text \<open>
  What the adapter relies on: a listing is cut into pages, at least one; a request that succeeds has
  its effect, and one that fails has it or not, since a reply can be lost.
\<close>

locale cf_server =
  fixes C :: "'s cf_env"
    and zone :: "'s \<Rightarrow> cf_zone"
    and pages :: "cf_record list \<Rightarrow> cf_record list list"
    and ok :: "'s \<Rightarrow> bool"
  assumes call_ok: "ok s \<Longrightarrow> cf_call C q s = (r, s') \<Longrightarrow> ok s'"
    and pages_concat: "concat (pages rs) = rs"
    and pages_nonempty: "pages rs \<noteq> []"
    and list_reply:
      "ok s \<Longrightarrow> 1 \<le> p \<Longrightarrow> p \<le> length (pages (zone s n t)) \<Longrightarrow> cf_call C (CfList n t p) s = (Inr env, s')
       \<Longrightarrow> ev_result env = Some (pages (zone s n t) ! (p - 1)) \<and> ev_total_pages env = Some (length (pages (zone s n t)))"
    and effect_ok: "ok s \<Longrightarrow> cf_call C q s = (Inr env, s') \<Longrightarrow> cf_effect q (zone s) (zone s')"
    and effect_err: "ok s \<Longrightarrow> cf_call C q s = (Inl e, s') \<Longrightarrow> zone s' = zone s \<or> cf_effect q (zone s) (zone s')"

subsection \<open>Values of the records\<close>

lemma map_filter_distinct:
  "card (set (List.map_filter f xs)) = length xs \<longleftrightarrow> (\<forall>x \<in> set xs. f x \<noteq> None) \<and> distinct (map f xs)"
proof (induction xs)
  case (Cons x xs)
  have le: "card (set (List.map_filter f xs)) \<le> length xs"
    by (rule order_trans [OF card_length]) (simp add: List.map_filter_def)
  have img: "y \<in> set (List.map_filter f xs) \<longleftrightarrow> Some y \<in> f ` set xs" for y
    by (auto simp: set_map_filter_iff image_iff intro: sym)
  show ?case
  proof (cases "f x")
    case None
    then show ?thesis using le by (simp add: List.map_filter_simps)
  next
    case (Some y)
    then show ?thesis
      using Cons.IH le img [of y] by (auto simp: List.map_filter_simps card_insert_if image_iff)
  qed
qed (simp add: List.map_filter_simps)

definition cf_values :: "record_type \<Rightarrow> cf_record list \<Rightarrow> string set" where
  "cf_values t rs = set (List.map_filter (value_of t) rs)"

text \<open>Records that agree on everything but their values.\<close>

definition uniform :: "record_type \<Rightarrow> nat \<Rightarrow> bool option \<Rightarrow> cf_record list \<Rightarrow> bool" where
  "uniform t ttl flag rs \<longleftrightarrow>
     (\<forall>r \<in> set rs. value_of t r \<noteq> None \<and> cf_ttl r = ttl \<and> cf_proxied r = flag) \<and> distinct (map (value_of t) rs)"

lemma card_le_one_const: "(\<forall>x \<in> A. x = c) \<Longrightarrow> \<not> Suc 0 < card A"
proof -
  assume "\<forall>x \<in> A. x = c"
  then have "A \<subseteq> {c}" by blast
  then have "card A \<le> card {c}" by (intro card_mono) auto
  then show ?thesis by simp
qed

lemma card_gt_one_iff: "finite A \<Longrightarrow> \<not> Suc 0 < card A \<longleftrightarrow> (\<forall>x \<in> A. \<forall>y \<in> A. x = y)"
  by (metis One_nat_def card_le_Suc0_iff_eq not_less)

definition cf_unsupported :: "record_type \<Rightarrow> cf_record list \<Rightarrow> string option" where
  "cf_unsupported t rs =
     (if card (cf_values t rs) \<noteq> length rs then Some ''duplicate or unparsable record values''
      else if list_ex (\<lambda>r. cf_ttl r \<noteq> cf_ttl (hd rs)) rs then Some ''records with different TTLs''
      else if card (cf_proxied ` set rs) > 1 then Some ''records with different proxy settings''
      else None)"

lemma cf_observed_eq:
  "rs \<noteq> [] \<Longrightarrow> cf_observed n t rs = Some \<lparr>ob_set = \<lparr>rs_name = n, rs_type = t, rs_ttl = cf_ttl (hd rs), rs_values = cf_values t rs,
       rs_proxied = (if proxiable t then cf_proxied (hd rs) else None)\<rparr>, ob_unsupported = cf_unsupported t rs\<rparr>"
  by (cases rs; simp only: cf_observed_def cf_unsupported_def cf_values_def Let_def list.case list.sel set_map simp_thms)

lemma cf_observed_Nil [simp]: "cf_observed n t [] = None"
  by (simp add: cf_observed_def)

lemma cf_unsupported_None:
  assumes "rs \<noteq> []"
  shows "cf_unsupported t rs = None \<longleftrightarrow> uniform t (cf_ttl (hd rs)) (cf_proxied (hd rs)) rs"
proof -
  have p: "\<not> 1 < card (cf_proxied ` set rs) \<longleftrightarrow> (\<forall>r \<in> set rs. cf_proxied r = cf_proxied (hd rs))"
  proof -
    have "(\<forall>x \<in> cf_proxied ` set rs. \<forall>y \<in> cf_proxied ` set rs. x = y) \<longleftrightarrow> (\<forall>r \<in> set rs. cf_proxied r = cf_proxied (hd rs))"
      using hd_in_set [OF assms] unfolding ball_simps(9) by metis
    then show ?thesis using card_gt_one_iff [of "cf_proxied ` set rs"] by (simp only: One_nat_def finite_imageI finite_set)
  qed
  have c: "card (cf_values t rs) = length rs \<longleftrightarrow> (\<forall>r \<in> set rs. value_of t r \<noteq> None) \<and> distinct (map (value_of t) rs)"
    unfolding cf_values_def by (rule map_filter_distinct)
  have "cf_unsupported t rs = None \<longleftrightarrow> card (cf_values t rs) = length rs
      \<and> \<not> list_ex (\<lambda>r. cf_ttl r \<noteq> cf_ttl (hd rs)) rs \<and> \<not> 1 < card (cf_proxied ` set rs)"
    by (simp only: cf_unsupported_def split: if_split) simp
  then show ?thesis
    unfolding p c uniform_def list_ex_iff by blast
qed

lemma cf_observed_uniform:
  assumes "uniform t ttl flag rs" "rs \<noteq> []"
  shows "cf_observed n t rs = Some \<lparr>ob_set = \<lparr>rs_name = n, rs_type = t, rs_ttl = ttl, rs_values = cf_values t rs,
            rs_proxied = (if proxiable t then flag else None)\<rparr>, ob_unsupported = None\<rparr>"
proof -
  have "cf_ttl (hd rs) = ttl" "cf_proxied (hd rs) = flag" using assms hd_in_set by (auto simp: uniform_def)
  with assms show ?thesis by (simp add: cf_observed_eq cf_unsupported_None)
qed

lemma cf_observed_supported:
  assumes "cf_observed n t rs = Some ob" "ob_unsupported ob = None"
  shows "uniform t (rs_ttl (ob_set ob)) (cf_proxied (hd rs)) rs \<and> rs \<noteq> [] \<and> rs_values (ob_set ob) = cf_values t rs
         \<and> (proxiable t \<longrightarrow> rs_proxied (ob_set ob) = cf_proxied (hd rs))"
proof -
  have "rs \<noteq> []" using assms(1) by auto
  with assms show ?thesis by (auto simp: cf_observed_eq cf_unsupported_None)
qed

subsection \<open>The state between two requests\<close>

text \<open>
  While a change runs, the records of its name and type are the old ones, some of them deleted
  (\<open>D\<close>) or patched (\<open>P\<close>), followed by new ones; every other name and type is as it was.
\<close>

definition cf_form :: "cf_record list \<Rightarrow> string set \<Rightarrow> string set \<Rightarrow> nat \<Rightarrow> bool option \<Rightarrow> cf_record list" where
  "cf_form rs D P ttl flag =
     filter (\<lambda>r. cf_id r \<notin> D) (map (\<lambda>r. if cf_id r \<in> P then cf_patched (cf_id r) ttl flag r else r) rs)"

definition cf_mid ::
  "cf_zone \<Rightarrow> string \<Rightarrow> record_type \<Rightarrow> nat \<Rightarrow> bool option \<Rightarrow> string set \<Rightarrow> string set \<Rightarrow> cf_record list \<Rightarrow> cf_zone \<Rightarrow> bool" where
  "cf_mid z0 n t ttl flag D P news z \<longleftrightarrow>
     z = z0(n := (z0 n)(t := cf_form (z0 n t) D P ttl flag @ news))
     \<and> cf_id ` set news \<inter> (cf_id ` set (z0 n t) - D) = {} \<and> distinct (map cf_id news)
     \<and> (\<forall>n' t'. (n', t') \<noteq> (n, t) \<longrightarrow> cf_id ` set news \<inter> cf_id ` set (z0 n' t') = {})"

definition own_request :: "string \<Rightarrow> record_type \<Rightarrow> string set \<Rightarrow> nat \<Rightarrow> bool option \<Rightarrow> cf_request \<Rightarrow> bool" where
  "own_request n t ids ttl flag q =
     (case q of
        CfList _ _ _ \<Rightarrow> False
      | CfPatch i ttl' flag' \<Rightarrow> i \<in> ids \<and> ttl' = ttl \<and> flag' = flag
      | CfPost t' n' _ ttl' flag' \<Rightarrow> t' = t \<and> n' = n \<and> ttl' = ttl \<and> flag' = flag
      | CfDelete i \<Rightarrow> i \<in> ids)"

definition deleted :: "cf_request list \<Rightarrow> string set" where
  "deleted qs = {i. CfDelete i \<in> set qs}"

definition patched :: "cf_request list \<Rightarrow> string set" where
  "patched qs = {i. \<exists>ttl flag. CfPatch i ttl flag \<in> set qs}"

definition posted :: "cf_request list \<Rightarrow> string list" where
  "posted qs = List.map_filter (\<lambda>q. case q of CfPost _ _ c _ _ \<Rightarrow> Some c | _ \<Rightarrow> None) qs"

fun effects :: "cf_request list \<Rightarrow> cf_zone \<Rightarrow> cf_zone \<Rightarrow> bool" where
  "effects [] z z' \<longleftrightarrow> z' = z"
| "effects (q # qs) z z' \<longleftrightarrow> (\<exists>z1. cf_effect q z z1 \<and> effects qs z1 z')"

lemma request_sets [simp]:
  "deleted [] = {}" "patched [] = {}" "posted [] = []"
  "deleted (CfDelete i # qs) = insert i (deleted qs)" "patched (CfDelete i # qs) = patched qs" "posted (CfDelete i # qs) = posted qs"
  "deleted (CfPatch i a f # qs) = deleted qs" "patched (CfPatch i a f # qs) = insert i (patched qs)" "posted (CfPatch i a f # qs) = posted qs"
  "deleted (CfPost u m c a f # qs) = deleted qs" "patched (CfPost u m c a f # qs) = patched qs" "posted (CfPost u m c a f # qs) = c # posted qs"
  by (auto simp: deleted_def patched_def posted_def List.map_filter_simps)

lemma request_sets_append [simp]:
  "deleted (ps @ qs) = deleted ps \<union> deleted qs" "patched (ps @ qs) = patched ps \<union> patched qs" "posted (ps @ qs) = posted ps @ posted qs"
  by (auto simp: deleted_def patched_def posted_def List.map_filter_def)

lemma cf_patched_id [simp]: "cf_id (cf_patched i ttl flag r) = cf_id r"
  by (simp add: cf_patched_def)

lemma cf_patched_twice [simp]: "cf_patched i ttl flag (cf_patched i ttl flag r) = cf_patched i ttl flag r"
  by (simp add: cf_patched_def split: option.splits)

lemma cf_patched_other: "i \<notin> cf_id ` set rs \<Longrightarrow> map (cf_patched i ttl flag) rs = rs"
  by (induction rs) (auto simp: cf_patched_def)

lemma filter_other: "i \<notin> cf_id ` set rs \<Longrightarrow> filter (\<lambda>r. cf_id r \<noteq> i) rs = rs"
  by (induction rs) auto

lemma cf_patched_neq: "cf_id r \<noteq> i \<Longrightarrow> cf_patched i ttl flag r = r"
  by (simp add: cf_patched_def)

lemma cf_patched_again: "cf_patched i ttl flag (cf_patched (cf_id r) ttl flag r) = cf_patched (cf_id r) ttl flag r"
  by (cases "cf_id r = i") (simp_all add: cf_patched_neq)

lemma cf_form_patch: "map (cf_patched i ttl flag) (cf_form rs D P ttl flag) = cf_form rs D (insert i P) ttl flag"
  by (induction rs) (auto simp: cf_form_def cf_patched_neq cf_patched_again)

lemma cf_form_delete: "filter (\<lambda>r. cf_id r \<noteq> i) (cf_form rs D P ttl flag) = cf_form rs (insert i D) P ttl flag"
  by (induction rs) (auto simp: cf_form_def)

lemma cf_form_ids: "cf_id ` set (cf_form rs D P ttl flag) = cf_id ` set rs - D"
  by (induction rs) (auto simp: cf_form_def)

lemma cf_form_none [simp]: "cf_form rs {} {} ttl flag = rs"
  by (simp add: cf_form_def)

lemma cf_mid_start: "cf_mid z n t ttl flag {} {} [] z"
  by (simp add: cf_mid_def)

lemma wf_zone_other:
  assumes "wf_zone z" "i \<in> cf_id ` set (z n t)" "(n', t') \<noteq> (n, t)"
  shows "i \<notin> cf_id ` set (z n' t')"
  using assms unfolding wf_zone_def by blast

lemma cf_mid_step:
  assumes wf: "wf_zone z0" and mid: "cf_mid z0 n t ttl flag D P news z"
    and own: "own_request n t (cf_id ` set (z0 n t) - D) ttl flag q" and eff: "cf_effect q z z'"
  shows "\<exists>news'. cf_mid z0 n t ttl flag (D \<union> deleted [q]) (P \<union> patched [q]) (news @ news') z'
           \<and> list_all2 (\<lambda>c r. created t c ttl flag r) (posted [q]) news'"
proof (cases q)
  case (CfPatch i ttl' flag')
  then have "i \<in> cf_id ` set (z0 n t) - D" and i: "i \<in> cf_id ` set (z0 n t)" "ttl' = ttl" "flag' = flag" using own by (auto simp: own_request_def)
  then have new: "i \<notin> cf_id ` set news" using mid by (auto simp: cf_mid_def)
  have "map (cf_patched i ttl flag) (z n' t') = (z0(n := (z0 n)(t := cf_form (z0 n t) D (insert i P) ttl flag @ news))) n' t'" for n' t'
    using mid wf_zone_other [OF wf i(1), of n' t'] by (auto simp: cf_mid_def cf_form_patch cf_patched_other [OF new] intro: cf_patched_other)
  then have "z' = z0(n := (z0 n)(t := cf_form (z0 n t) D (insert i P) ttl flag @ news))"
    using eff CfPatch i by (auto simp: cf_effect_def fun_eq_iff)
  with mid CfPatch show ?thesis by (intro exI [of _ "[]"]) (auto simp: cf_mid_def)
next
  case (CfDelete i)
  then have "i \<in> cf_id ` set (z0 n t) - D" and i: "i \<in> cf_id ` set (z0 n t)" using own by (auto simp: own_request_def)
  then have new: "i \<notin> cf_id ` set news" using mid by (auto simp: cf_mid_def)
  have "filter (\<lambda>r. cf_id r \<noteq> i) (z n' t') = (z0(n := (z0 n)(t := cf_form (z0 n t) (insert i D) P ttl flag @ news))) n' t'" for n' t'
    using mid wf_zone_other [OF wf i(1), of n' t'] by (auto simp: cf_mid_def cf_form_delete filter_other [OF new] intro: filter_other)
  then have "z' = z0(n := (z0 n)(t := cf_form (z0 n t) (insert i D) P ttl flag @ news))"
    using eff CfDelete by (auto simp: cf_effect_def fun_eq_iff)
  with mid CfDelete show ?thesis by (intro exI [of _ "[]"]) (auto simp: cf_mid_def)
next
  case (CfPost t' n' c ttl' flag')
  then have eq: "t' = t" "n' = n" "ttl' = ttl" "flag' = flag" using own by (auto simp: own_request_def)
  obtain r where r: "fresh_id (cf_id r) z" "created t c ttl flag r" "z' = z(n := (z n)(t := z n t @ [r]))"
    using eff CfPost eq by (auto simp: cf_effect_def)
  have old: "z n t = cf_form (z0 n t) D P ttl flag @ news" using mid by (simp add: cf_mid_def)
  have "cf_id r \<notin> cf_id ` set (z0 n t) - D" "cf_id r \<notin> cf_id ` set news"
    using r(1) old cf_form_ids [of "z0 n t" D P ttl flag] unfolding fresh_id_def by (metis UnCI image_Un set_append)+
  moreover have "cf_id r \<notin> cf_id ` set (z0 n' t')" if "(n', t') \<noteq> (n, t)" for n' t'
  proof -
    have "z n' t' = z0 n' t'" using mid that by (auto simp: cf_mid_def)
    with r(1) show ?thesis by (metis fresh_id_def)
  qed
  ultimately show ?thesis
    using mid r(2,3) CfPost old by (intro exI [of _ "[r]"]) (auto simp: cf_mid_def)
qed (use own in \<open>auto simp: own_request_def\<close>)

fun own_seq :: "string \<Rightarrow> record_type \<Rightarrow> nat \<Rightarrow> bool option \<Rightarrow> string set \<Rightarrow> cf_request list \<Rightarrow> bool" where
  "own_seq n t ttl flag ids [] \<longleftrightarrow> True"
| "own_seq n t ttl flag ids (q # qs) \<longleftrightarrow> own_request n t ids ttl flag q \<and> own_seq n t ttl flag (ids - deleted [q]) qs"

lemma deleted_Cons: "deleted (q # qs) = deleted [q] \<union> deleted qs"
  by (auto simp: deleted_def)

lemma patched_Cons: "patched (q # qs) = patched [q] \<union> patched qs"
  by (auto simp: patched_def)

lemma posted_Cons: "posted (q # qs) = posted [q] @ posted qs"
  by (auto simp: posted_def List.map_filter_simps split: option.splits)

lemma own_seq_append:
  "own_seq n t ttl flag ids (ps @ qs) \<longleftrightarrow> own_seq n t ttl flag ids ps \<and> own_seq n t ttl flag (ids - deleted ps) qs"
proof (induction ps arbitrary: ids)
  case (Cons p ps)
  have "ids - deleted [p] - deleted ps = ids - deleted (p # ps)" by (subst deleted_Cons) blast
  with Cons show ?case by simp
qed simp

lemma own_seq_deletes:
  "own_seq n t ttl flag ids (map (\<lambda>r. CfDelete (cf_id r)) rs) \<longleftrightarrow> distinct (map cf_id rs) \<and> cf_id ` set rs \<subseteq> ids"
  by (induction rs arbitrary: ids) (auto simp: own_request_def image_iff)

lemma own_seq_mono: "own_seq n t ttl flag ids qs \<Longrightarrow> ids \<subseteq> ids' \<Longrightarrow> own_seq n t ttl flag ids' qs"
proof (induction qs arbitrary: ids ids')
  case (Cons q qs)
  from Cons.prems have "own_request n t ids' ttl flag q" by (auto simp: own_request_def split: cf_request.splits)
  moreover have "own_seq n t ttl flag (ids' - deleted [q]) qs" using Cons.IH [of "ids - deleted [q]" "ids' - deleted [q]"] Cons.prems by (simp add: Diff_mono)
  ultimately show ?case by simp
qed simp

lemma cf_mid_effects:
  assumes wf: "wf_zone z0"
  shows "cf_mid z0 n t ttl flag D P news z \<Longrightarrow> own_seq n t ttl flag (cf_id ` set (z0 n t) - D) qs \<Longrightarrow> effects qs z z'
    \<Longrightarrow> \<exists>news'. cf_mid z0 n t ttl flag (D \<union> deleted qs) (P \<union> patched qs) (news @ news') z'
         \<and> list_all2 (\<lambda>c r. created t c ttl flag r) (posted qs) news'"
proof (induction qs arbitrary: D P news z)
  case (Cons q qs)
  from Cons.prems(3) obtain z1 where z1: "cf_effect q z z1" "effects qs z1 z'" by auto
  from cf_mid_step [OF wf Cons.prems(1) _ z1(1)] Cons.prems(2) obtain n1 where
    n1: "cf_mid z0 n t ttl flag (D \<union> deleted [q]) (P \<union> patched [q]) (news @ n1) z1" "list_all2 (\<lambda>c r. created t c ttl flag r) (posted [q]) n1"
    by auto
  have "cf_id ` set (z0 n t) - D - deleted [q] = cf_id ` set (z0 n t) - (D \<union> deleted [q])" by blast
  with Cons.prems(2) have "own_seq n t ttl flag (cf_id ` set (z0 n t) - (D \<union> deleted [q])) qs" by simp
  from Cons.IH [OF n1(1) this z1(2)] obtain n2 where
    n2: "cf_mid z0 n t ttl flag (D \<union> deleted [q] \<union> deleted qs) (P \<union> patched [q] \<union> patched qs) ((news @ n1) @ n2) z'"
      "list_all2 (\<lambda>c r. created t c ttl flag r) (posted qs) n2" by blast
  have "list_all2 (\<lambda>c r. created t c ttl flag r) (posted (q # qs)) (n1 @ n2)"
    using n1(2) n2(2) by (subst posted_Cons) (rule list_all2_appendI)
  with n2(1) show ?case
    unfolding deleted_Cons [of q qs] patched_Cons [of q qs] append_assoc Un_assoc by blast
qed (auto intro: exI [of _ "[]"])

subsection \<open>The requests of a change\<close>

text \<open>A record that has to be patched to get the settings.\<close>

definition needs_patch :: "record_type \<Rightarrow> nat \<Rightarrow> bool \<Rightarrow> cf_record \<Rightarrow> bool" where
  "needs_patch t ttl proxied r \<longleftrightarrow> cf_ttl r \<noteq> ttl \<or> proxiable t \<and> cf_proxied r \<noteq> Some proxied"

definition flag_of :: "record_type \<Rightarrow> bool \<Rightarrow> bool option" where
  "flag_of t proxied = (if proxiable t then Some proxied else None)"

definition distinct_values :: "record_type \<Rightarrow> cf_record list \<Rightarrow> bool" where
  "distinct_values t rs \<longleftrightarrow> (\<forall>r \<in> set rs. value_of t r \<noteq> None) \<and> distinct (map (value_of t) rs)"

lemma distinct_values_find:
  assumes "distinct_values t rs" "r \<in> set rs" "value_of t r = Some v"
  shows "find (\<lambda>r. value_of t r = Some v) rs = Some r"
proof (cases "find (\<lambda>r. value_of t r = Some v) rs")
  case None
  with assms show ?thesis by (auto simp: find_None_iff)
next
  case (Some q)
  then have "q \<in> set rs" "value_of t q = Some v" by (auto simp: find_Some_iff)
  with assms have "q = r" by (metis distinct_values_def distinct_map inj_onD)
  with Some show ?thesis by simp
qed

lemma cf_put_eq:
  assumes "distinct_values t rs"
  shows "v \<notin> cf_values t rs \<Longrightarrow> cf_put n t rs proxied ttl v = [CfPost t n (content_of t v) ttl (flag_of t proxied)]"
    and "r \<in> set rs \<Longrightarrow> value_of t r = Some v \<Longrightarrow>
      cf_put n t rs proxied ttl v = (if needs_patch t ttl proxied r then [CfPatch (cf_id r) ttl (flag_of t proxied)] else [])"
proof -
  assume "v \<notin> cf_values t rs"
  then have "find (\<lambda>r. value_of t r = Some v) rs = None" by (auto simp: find_None_iff cf_values_def set_map_filter_iff)
  then show "cf_put n t rs proxied ttl v = [CfPost t n (content_of t v) ttl (flag_of t proxied)]"
    by (simp add: cf_put_def flag_of_def)
next
  assume "r \<in> set rs" "value_of t r = Some v"
  then show "cf_put n t rs proxied ttl v = (if needs_patch t ttl proxied r then [CfPatch (cf_id r) ttl (flag_of t proxied)] else [])"
    using distinct_values_find [OF assms] by (simp add: cf_put_def flag_of_def needs_patch_def)
qed

lemma cf_values_iff: "v \<in> cf_values t rs \<longleftrightarrow> (\<exists>r \<in> set rs. value_of t r = Some v)"
  by (simp add: cf_values_def set_map_filter_iff)

lemma cf_put_mem:
  assumes "distinct_values t rs"
  shows "q \<in> set (cf_put n t rs proxied ttl v) \<longleftrightarrow>
     v \<notin> cf_values t rs \<and> q = CfPost t n (content_of t v) ttl (flag_of t proxied)
     \<or> (\<exists>r \<in> set rs. value_of t r = Some v \<and> needs_patch t ttl proxied r \<and> q = CfPatch (cf_id r) ttl (flag_of t proxied))"
proof (cases "v \<in> cf_values t rs")
  case True
  then obtain r where r: "r \<in> set rs" "value_of t r = Some v" by (auto simp: cf_values_iff)
  have eq: "q \<in> set (cf_put n t rs proxied ttl v) \<longleftrightarrow> needs_patch t ttl proxied r \<and> q = CfPatch (cf_id r) ttl (flag_of t proxied)"
    by (auto simp: cf_put_eq(2) [OF assms r])
  have uniq: "r' \<in> set rs \<and> value_of t r' = Some v \<longleftrightarrow> r' = r" for r'
    using distinct_values_find [OF assms, of r' v] distinct_values_find [OF assms r] r by auto
  show ?thesis unfolding eq using True uniq by metis
next
  case False
  then show ?thesis using cf_put_eq(1) [OF assms False, of n proxied ttl] by (auto simp: cf_values_iff)
qed

lemma own_seq_no_deletes:
  "deleted qs = {} \<Longrightarrow> own_seq n t ttl flag ids qs \<longleftrightarrow> (\<forall>q \<in> set qs. own_request n t ids ttl flag q)"
proof (induction qs)
  case (Cons q qs)
  then have "deleted [q] = {}" "deleted qs = {}" unfolding deleted_Cons [of q qs] by blast+
  with Cons.IH show ?case by simp
qed simp

definition put_list :: "string \<Rightarrow> record_type \<Rightarrow> cf_record list \<Rightarrow> bool \<Rightarrow> nat \<Rightarrow> string list \<Rightarrow> cf_request list" where
  "put_list n t rs proxied ttl vs = concat (map (cf_put n t rs proxied ttl) vs)"

lemma put_list_deleted: "distinct_values t rs \<Longrightarrow> deleted (put_list n t rs proxied ttl vs) = {}"
  by (auto simp: deleted_def put_list_def cf_put_mem)

lemma put_list_patched:
  "distinct_values t rs \<Longrightarrow> patched (put_list n t rs proxied ttl vs) =
     {cf_id r |r. r \<in> set rs \<and> needs_patch t ttl proxied r \<and> (\<exists>v \<in> set vs. value_of t r = Some v)}"
  by (auto simp: patched_def put_list_def cf_put_mem)

lemma put_list_posted:
  assumes "distinct_values t rs"
  shows "posted (put_list n t rs proxied ttl vs) = map (content_of t) (filter (\<lambda>v. v \<notin> cf_values t rs) vs)"
proof (induction vs)
  case (Cons v vs)
  have "posted (cf_put n t rs proxied ttl v) = (if v \<in> cf_values t rs then [] else [content_of t v])"
    using cf_put_eq [OF assms] by (cases "v \<in> cf_values t rs") (auto simp: cf_values_iff)
  with Cons show ?case by (simp add: put_list_def)
qed (simp add: put_list_def)

lemma put_list_own:
  assumes "distinct_values t rs"
  shows "own_seq n t ttl (flag_of t proxied) {cf_id r |r. r \<in> set rs \<and> (\<exists>v \<in> set vs. value_of t r = Some v)} (put_list n t rs proxied ttl vs)"
  unfolding own_seq_no_deletes [OF put_list_deleted [OF assms]]
  by (auto simp: put_list_def cf_put_mem [OF assms] own_request_def) blast


subsection \<open>What a change leaves\<close>

lemma distinct_values_uniform: "uniform t ttl flag rs \<Longrightarrow> distinct_values t rs"
  by (auto simp: uniform_def distinct_values_def)

lemma cf_values_append [simp]: "cf_values t (rs @ rs') = cf_values t rs \<union> cf_values t rs'"
  by (auto simp: cf_values_iff)

lemma value_of_patched [simp]: "value_of t (cf_patched i ttl flag r) = value_of t r"
  by (simp add: value_of_def cf_patched_def)

lemma cf_form_values:
  "value_of t ` set (cf_form rs D P ttl flag) = value_of t ` {r \<in> set rs. cf_id r \<notin> D}"
  by (induction rs) (auto simp: cf_form_def)

lemma cf_form_distinct: "distinct (map (value_of t) rs) \<Longrightarrow> distinct (map (value_of t) (cf_form rs D P ttl flag))"
proof (induction rs)
  case (Cons r rs)
  have "value_of t ` set (cf_form rs D P ttl flag) \<subseteq> value_of t ` set rs" unfolding cf_form_values by blast
  with Cons show ?case by (auto simp: cf_form_def)
qed (simp add: cf_form_def)

definition storable :: "record_type \<Rightarrow> string \<Rightarrow> bool" where
  "storable t v \<longleftrightarrow> normalize_value t (content_of t v) = Inr v"

lemma created_values:
  assumes "list_all2 (\<lambda>c r. created t c ttl flag r) (map (content_of t) vs) news" "\<forall>v \<in> set vs. storable t v"
  shows "map (value_of t) news = map Some vs"
  using assms
proof (induction vs arbitrary: news)
  case (Cons v vs)
  then obtain r rs where news: "news = r # rs" "created t (content_of t v) ttl flag r"
    "list_all2 (\<lambda>c r. created t c ttl flag r) (map (content_of t) vs) rs"
    by (auto simp: list_all2_Cons1)
  have "value_of t r = Some v"
    using news(2) Cons.prems(2) by (simp add: created_def value_of_def storable_def ok_option_def)
  with news Cons.IH [OF news(3)] Cons.prems(2) show ?case by simp
qed simp

lemma created_settings:
  "list_all2 (\<lambda>c r. created t c ttl flag r) cs news \<Longrightarrow> r \<in> set news
     \<Longrightarrow> cf_ttl r = ttl \<and> cf_proxied r = Some (case flag of Some p \<Rightarrow> p | None \<Rightarrow> False)"
  by (induction rule: list_all2_induct) (auto simp: created_def)

text \<open>The setting that the records of a change end with.\<close>

definition final_flag :: "record_type \<Rightarrow> bool \<Rightarrow> bool option" where
  "final_flag t proxied = Some (proxiable t \<and> proxied)"

lemma mid_uniform:
  assumes dv: "distinct_values t rs"
    and left: "\<forall>r \<in> set rs. cf_id r \<notin> D \<longrightarrow> cf_id r \<in> P \<or> cf_ttl r = ttl \<and> cf_proxied r = final_flag t proxied"
    and flagless: "\<not> proxiable t \<Longrightarrow> \<forall>r \<in> set rs. cf_proxied r = Some False"
    and news: "list_all2 (\<lambda>c r. created t c ttl (flag_of t proxied) r) (map (content_of t) vs) news"
    and vs: "distinct vs" "\<forall>v \<in> set vs. storable t v \<and> v \<notin> cf_values t rs"
  shows "uniform t ttl (final_flag t proxied) (cf_form rs D P ttl (flag_of t proxied) @ news)"
    and "cf_values t (cf_form rs D P ttl (flag_of t proxied) @ news) = cf_values t (filter (\<lambda>r. cf_id r \<notin> D) rs) \<union> set vs"
proof -
  let ?form = "cf_form rs D P ttl (flag_of t proxied)"
  have nv: "map (value_of t) news = map Some vs" using created_values [OF news] vs(2) by blast
  have fv: "value_of t ` set ?form = value_of t ` {r \<in> set rs. cf_id r \<notin> D}" by (rule cf_form_values)
  have nset: "value_of t ` set news = Some ` set vs" using nv by (metis list.set_map)
  have "cf_values t ?form = cf_values t (filter (\<lambda>r. cf_id r \<notin> D) rs)"
  proof -
    have "v \<in> cf_values t ?form \<longleftrightarrow> Some v \<in> value_of t ` set ?form" for v by (auto simp: cf_values_iff image_iff intro: sym)
    moreover have "v \<in> cf_values t (filter (\<lambda>r. cf_id r \<notin> D) rs) \<longleftrightarrow> Some v \<in> value_of t ` {r \<in> set rs. cf_id r \<notin> D}" for v
      by (auto simp: cf_values_iff image_iff intro: sym)
    ultimately show ?thesis unfolding fv by blast
  qed
  moreover have "cf_values t news = set vs"
  proof -
    have "v \<in> cf_values t news \<longleftrightarrow> Some v \<in> value_of t ` set news" for v by (auto simp: cf_values_iff image_iff intro: sym)
    then show ?thesis unfolding nset by blast
  qed
  ultimately show "cf_values t (?form @ news) = cf_values t (filter (\<lambda>r. cf_id r \<notin> D) rs) \<union> set vs" by simp
  have form_ok: "value_of t r \<noteq> None \<and> cf_ttl r = ttl \<and> cf_proxied r = final_flag t proxied" if "r \<in> set ?form" for r
  proof -
    from that obtain q where q: "q \<in> set rs" "cf_id q \<notin> D"
      "r = (if cf_id q \<in> P then cf_patched (cf_id q) ttl (flag_of t proxied) q else q)"
      by (auto simp: cf_form_def split: if_splits)
    moreover have "value_of t q \<noteq> None" using dv q(1) by (simp add: distinct_values_def)
    ultimately show ?thesis
      using left flagless by (auto simp: cf_patched_def flag_of_def final_flag_def value_of_def)
  qed
  have new_ok: "value_of t r \<noteq> None \<and> cf_ttl r = ttl \<and> cf_proxied r = final_flag t proxied" if "r \<in> set news" for r
  proof -
    have "value_of t r \<in> Some ` set vs" using nset that by blast
    then have "value_of t r \<noteq> None" by auto
    then show ?thesis using created_settings [OF news that] by (auto simp: flag_of_def final_flag_def)
  qed
  have "distinct (map (value_of t) (?form @ news))"
  proof -
    have "value_of t ` set ?form \<inter> value_of t ` set news = {}"
    proof -
      have "value_of t r \<noteq> Some v" if "v \<in> set vs" "r \<in> set rs" for v r
        using vs(2) that by (auto simp: cf_values_iff)
      then show ?thesis unfolding fv nset by auto
    qed
    moreover have "distinct (map (value_of t) ?form)" using dv by (intro cf_form_distinct) (simp add: distinct_values_def)
    moreover have "distinct (map (value_of t) news)" unfolding nv using vs(1) by (simp add: distinct_map)
    ultimately show ?thesis by simp
  qed
  then show "uniform t ttl (final_flag t proxied) (?form @ news)"
    using form_ok new_ok by (auto simp: uniform_def)
qed

definition change_ttl :: "record_set option \<Rightarrow> nat" where
  "change_ttl desired = (case desired of Some d \<Rightarrow> rs_ttl d | None \<Rightarrow> 0)"

definition change_proxied :: "observed option \<Rightarrow> record_set option \<Rightarrow> bool" where
  "change_proxied current desired = (case desired of Some d \<Rightarrow> cf_flag current d | None \<Rightarrow> False)"

abbreviation change_own :: "string \<Rightarrow> record_type \<Rightarrow> observed option \<Rightarrow> record_set option \<Rightarrow> string set \<Rightarrow> cf_request list \<Rightarrow> bool" where
  "change_own n t current desired \<equiv> own_seq n t (change_ttl desired) (flag_of t (change_proxied current desired))"

lemma cf_puts_eq:
  "cf_puts n t rs current desired =
     put_list n t rs (change_proxied current desired) (change_ttl desired) (sorted_list_of_set (values_of desired))"
  by (simp add: cf_puts_def put_list_def change_proxied_def change_ttl_def values_of_def split: option.splits)

lemma cf_obsolete_iff: "r \<in> set (cf_obsolete t rs desired) \<longleftrightarrow> r \<in> set rs \<and> (\<forall>v \<in> values_of desired. value_of t r \<noteq> Some v)"
  by (auto simp: cf_obsolete_def values_of_def Let_def split: option.splits)

lemma cf_obsolete_ids: "distinct (map cf_id rs) \<Longrightarrow> distinct (map cf_id (cf_obsolete t rs desired))"
  by (simp add: cf_obsolete_def Let_def distinct_map_filter)

lemma kept_not_obsolete:
  assumes "distinct (map cf_id rs)" "r \<in> set rs" "value_of t r = Some v" "v \<in> values_of desired"
  shows "cf_id r \<notin> cf_id ` set (cf_obsolete t rs desired)"
proof
  assume "cf_id r \<in> cf_id ` set (cf_obsolete t rs desired)"
  then obtain q where q: "q \<in> set rs" "cf_id q = cf_id r" "\<forall>v \<in> values_of desired. value_of t q \<noteq> Some v"
    by (auto simp: cf_obsolete_iff)
  then have "q = r" using assms(1,2) by (metis distinct_map inj_onD)
  with q(3) assms(3,4) show False by blast
qed

lemma cf_calls_own:
  assumes dv: "distinct_values t rs" and ids: "distinct (map cf_id rs)" and fin: "finite (values_of desired)"
  shows "change_own n t current desired (cf_id ` set rs) (cf_calls n t rs current desired)"
proof -
  let ?puts = "cf_puts n t rs current desired" and ?obs = "cf_obsolete t rs desired"
  let ?dels = "map (\<lambda>r. CfDelete (cf_id r)) ?obs"
  let ?kept = "{cf_id r |r. r \<in> set rs \<and> (\<exists>v \<in> set (sorted_list_of_set (values_of desired)). value_of t r = Some v)}"
  have puts: "change_own n t current desired ?kept ?puts" unfolding cf_puts_eq by (rule put_list_own [OF dv])
  have "x \<notin> cf_id ` set ?obs" if "x \<in> ?kept" for x
  proof -
    from that obtain r v where x: "x = cf_id r" and rv: "r \<in> set rs" "value_of t r = Some v" "v \<in> values_of desired" using fin by auto
    show ?thesis unfolding x by (rule kept_not_obsolete [OF ids rv])
  qed
  then have kept: "?kept \<subseteq> cf_id ` set rs" "?kept \<inter> cf_id ` set ?obs = {}" by blast+
  have obs: "cf_id ` set ?obs \<subseteq> cf_id ` set rs" by (auto simp: cf_obsolete_iff)
  have dels: "deleted ?dels = cf_id ` set ?obs" by (auto simp: deleted_def)
  have noput: "deleted ?puts = {}" unfolding cf_puts_eq by (rule put_list_deleted [OF dv])
  have "change_own n t current desired (cf_id ` set rs) (?puts @ ?dels)"
    unfolding own_seq_append noput own_seq_deletes
    using own_seq_mono [OF puts kept(1)] cf_obsolete_ids [OF ids] obs by simp
  moreover have "change_own n t current desired (cf_id ` set rs) (?dels @ ?puts)"
  proof -
    have "?kept \<subseteq> cf_id ` set rs - cf_id ` set ?obs" using kept by blast
    from own_seq_mono [OF puts this] show ?thesis
      unfolding own_seq_append dels own_seq_deletes using cf_obsolete_ids [OF ids] obs by simp
  qed
  ultimately show ?thesis by (cases "t = RCname") (simp_all only: cf_calls_def Let_def if_True if_False simp_thms)
qed

lemma cf_calls_sets:
  assumes "distinct_values t rs" "finite (values_of desired)"
  shows "deleted (cf_calls n t rs current desired) = cf_id ` set (cf_obsolete t rs desired)"
    and "posted (cf_calls n t rs current desired)
           = map (content_of t) (filter (\<lambda>v. v \<notin> cf_values t rs) (sorted_list_of_set (values_of desired)))"
    and "patched (cf_calls n t rs current desired)
           = {cf_id r |r. r \<in> set rs \<and> needs_patch t (change_ttl desired) (change_proxied current desired) r
                          \<and> (\<exists>v \<in> values_of desired. value_of t r = Some v)}"
proof -
  have d: "deleted (map (\<lambda>r. CfDelete (cf_id r)) rs') = cf_id ` set rs'" "patched (map (\<lambda>r. CfDelete (cf_id r)) rs') = {}"
    "posted (map (\<lambda>r. CfDelete (cf_id r)) rs') = []" for rs'
    by (auto simp: deleted_def patched_def posted_def List.map_filter_def)
  let ?puts = "cf_puts n t rs current desired" and ?dels = "map (\<lambda>r. CfDelete (cf_id r)) (cf_obsolete t rs desired)"
  have parts: "deleted (cf_calls n t rs current desired) = deleted ?puts \<union> deleted ?dels"
    "patched (cf_calls n t rs current desired) = patched ?puts \<union> patched ?dels"
    "posted (cf_calls n t rs current desired) = posted ?puts \<or> posted (cf_calls n t rs current desired) = posted ?puts @ posted ?dels"
    by (auto simp: cf_calls_def Let_def d)
  show "deleted (cf_calls n t rs current desired) = cf_id ` set (cf_obsolete t rs desired)"
    unfolding parts(1) cf_puts_eq put_list_deleted [OF assms(1)] d by simp
  show "posted (cf_calls n t rs current desired)
      = map (content_of t) (filter (\<lambda>v. v \<notin> cf_values t rs) (sorted_list_of_set (values_of desired)))"
    using parts(3) unfolding cf_puts_eq put_list_posted [OF assms(1)] d by simp
  show "patched (cf_calls n t rs current desired)
           = {cf_id r |r. r \<in> set rs \<and> needs_patch t (change_ttl desired) (change_proxied current desired) r
                          \<and> (\<exists>v \<in> values_of desired. value_of t r = Some v)}"
    unfolding parts(2) cf_puts_eq put_list_patched [OF assms(1)] d using assms(2) by simp
qed

lemma prefix_sets:
  "deleted (take k qs) \<subseteq> deleted qs" "patched (take k qs) \<subseteq> patched qs" "\<exists>m. posted (take k qs) = take m (posted qs)"
proof -
  show "deleted (take k qs) \<subseteq> deleted qs" "patched (take k qs) \<subseteq> patched qs"
    by (auto simp: deleted_def patched_def dest: in_set_takeD)
  have "posted qs = posted (take k qs) @ posted (drop k qs)" by (metis append_take_drop_id request_sets_append(3))
  then show "\<exists>m. posted (take k qs) = take m (posted qs)" by (metis append_eq_conv_conj)
qed

lemma own_seq_take: "own_seq n t ttl flag ids qs \<Longrightarrow> own_seq n t ttl flag ids (take k qs)"
  by (metis append_take_drop_id own_seq_append)

lemma cf_form_ids_distinct: "distinct (map cf_id rs) \<Longrightarrow> distinct (map cf_id (cf_form rs D P ttl flag))"
proof (induction rs)
  case (Cons r rs)
  have "cf_id ` set (cf_form rs D P ttl flag) \<subseteq> cf_id ` set rs" unfolding cf_form_ids by blast
  with Cons show ?case by (auto simp: cf_form_def)
qed (simp add: cf_form_def)

lemma cf_mid_wf:
  assumes wf: "wf_zone z0" and mid: "cf_mid z0 n t ttl (flag_of t proxied) D P news z"
    and news: "list_all2 (\<lambda>c r. created t c ttl (flag_of t proxied) r) cs news"
  shows "wf_zone z"
proof -
  let ?new = "cf_form (z0 n t) D P ttl (flag_of t proxied) @ news"
  have z: "z = z0(n := (z0 n)(t := ?new))" using mid by (simp add: cf_mid_def)
  have fid: "cf_id ` set (cf_form (z0 n t) D P ttl (flag_of t proxied)) = cf_id ` set (z0 n t) - D" by (rule cf_form_ids)
  have d0: "distinct (map cf_id (z0 n t))" using wf by (simp add: wf_zone_def)
  have dist: "distinct (map cf_id ?new)"
  proof -
    have "(cf_id ` set (z0 n t) - D) \<inter> cf_id ` set news = {}" "distinct (map cf_id news)"
      using mid unfolding cf_mid_def by (metis Int_commute, metis)
    with cf_form_ids_distinct [OF d0, of D P ttl "flag_of t proxied"] show ?thesis
      unfolding map_append distinct_append set_map fid by simp
  qed
  have other: "cf_id ` set ?new \<inter> cf_id ` set (z0 n' t') = {}" if "(n', t') \<noteq> (n, t)" for n' t'
  proof -
    have "cf_id ` set (z0 n t) \<inter> cf_id ` set (z0 n' t') = {}" using wf that unfolding wf_zone_def by blast
    moreover have "cf_id ` set news \<inter> cf_id ` set (z0 n' t') = {}" using mid that unfolding cf_mid_def by blast
    ultimately show ?thesis using fid by (auto simp: image_Un)
  qed
  have flags: "cf_proxied r = Some False" if "\<not> proxiable t" "r \<in> set ?new" for r
  proof -
    have "\<forall>r \<in> set (z0 n t). cf_proxied r = Some False" using wf that(1) by (simp add: wf_zone_def)
    moreover have "\<forall>r \<in> set news. cf_proxied r = Some False"
      using created_settings [OF news] that(1) by (simp add: flag_of_def)
    ultimately show ?thesis using that by (auto simp: cf_form_def cf_patched_def flag_of_def split: if_splits)
  qed
  show ?thesis
    unfolding wf_zone_def
  proof (intro conjI allI impI ballI)
    fix n' t' show "distinct (map cf_id (z n' t'))" using wf dist by (simp add: z wf_zone_def)
  next
    fix n1 t1 n2 t2 assume ne: "(n1, t1) \<noteq> (n2 :: string, t2 :: record_type)"
    have same: "z n' t' = z0 n' t'" if "(n', t') \<noteq> (n, t)" for n' t' using that by (auto simp: z)
    have new: "z n t = ?new" by (simp add: z)
    consider "(n1, t1) = (n, t)" | "(n2, t2) = (n, t)" | "(n1, t1) \<noteq> (n, t)" "(n2, t2) \<noteq> (n, t)" by blast
    then show "cf_id ` set (z n1 t1) \<inter> cf_id ` set (z n2 t2) = {}"
    proof cases
      case 1
      with ne other [of n2 t2] same [of n2 t2] new show ?thesis by (metis Pair_inject)
    next
      case 2
      with ne other [of n1 t1] same [of n1 t1] new show ?thesis by (metis Int_commute Pair_inject)
    next
      case 3
      with ne wf same show ?thesis by (simp add: wf_zone_def)
    qed
  next
    fix n' t' r assume "\<not> proxiable t'" "r \<in> set (z n' t')"
    then show "cf_proxied r = Some False" using flags wf by (auto simp: z wf_zone_def split: if_splits)
  qed
qed

subsection \<open>The adapter on the service\<close>

lemma drop_step: "p < length xs \<Longrightarrow> concat (drop p xs) = xs ! p @ concat (drop (Suc p) xs)"
  by (simp add: Cons_nth_drop_Suc [symmetric])

text \<open>
  What a listing holds: every record, if there are at most \<open>MAX_PAGES\<close> pages.
\<close>

definition cf_listing :: "(cf_record list \<Rightarrow> cf_record list list) \<Rightarrow> cf_zone \<Rightarrow> string \<Rightarrow> record_type \<Rightarrow> cf_record list" where
  "cf_listing pages z n t = concat (take MAX_PAGES (pages (z n t)))"

definition cf_fits :: "(cf_record list \<Rightarrow> cf_record list list) \<Rightarrow> cf_zone \<Rightarrow> string \<Rightarrow> record_type \<Rightarrow> bool" where
  "cf_fits pages z n t \<longleftrightarrow> length (pages (z n t)) \<le> MAX_PAGES"

definition cf_seen :: "(cf_record list \<Rightarrow> cf_record list list) \<Rightarrow> cf_zone \<Rightarrow> string \<Rightarrow> record_type \<Rightarrow> observed option" where
  "cf_seen pages z n t = cf_observed n t (cf_listing pages z n t)"

context cf_server
begin

abbreviation listing where "listing s n t \<equiv> cf_listing pages (zone s) n t"

abbreviation fits where "fits s n t \<equiv> cf_fits pages (zone s) n t"

abbreviation cf_view where "cf_view s n t \<equiv> cf_seen pages (zone s) n t"

lemma listing_fits: "fits s n t \<Longrightarrow> listing s n t = zone s n t"
  by (simp add: cf_listing_def cf_fits_def pages_concat)

lemma listing_prefix: "\<exists>rest. zone s n t = listing s n t @ rest"
proof
  show "zone s n t = listing s n t @ concat (drop MAX_PAGES (pages (zone s n t)))"
    by (metis append_take_drop_id concat_append cf_listing_def pages_concat)
qed

lemma list_frame:
  assumes "ok s" "cf_call C (CfList n t p) s = (r, s')"
  shows "zone s' = zone s"
  using assms effect_ok [of s "CfList n t p"] effect_err [of s "CfList n t p"] by (cases r) (auto simp: cf_effect_def)

lemma cf_list_result:
  "cf_list C n t p acc s = (r, s') \<Longrightarrow> ok s \<Longrightarrow> 1 \<le> p \<Longrightarrow> p \<le> length (pages (zone s n t)) \<Longrightarrow> p \<le> MAX_PAGES \<Longrightarrow>
     ok s' \<and> zone s' = zone s \<and> (\<forall>out. r = Inr out \<longrightarrow> out = acc @ concat (drop (p - 1) (take MAX_PAGES (pages (zone s n t)))))"
proof (induction "MAX_PAGES - p" arbitrary: p acc s rule: less_induct)
  case (less p)
  obtain reply s1 where c: "cf_call C (CfList n t p) s = (reply, s1)" by fastforce
  note z1 = list_frame [OF less.prems(2) c] call_ok [OF less.prems(2) c]
  show ?case
  proof (cases reply)
    case (Inl e)
    with less.prems(1) c z1 show ?thesis by (auto simp: cf_list.simps [of C n t p])
  next
    case (Inr env)
    let ?ps = "pages (zone s n t)"
    have env: "ev_result env = Some (?ps ! (p - 1))" "ev_total_pages env = Some (length ?ps)"
      using list_reply [OF less.prems(2,3,4)] c Inr by auto
    have step: "concat (drop (p - 1) (take MAX_PAGES ?ps)) = ?ps ! (p - 1) @ concat (drop p (take MAX_PAGES ?ps))"
    proof -
      have "p - 1 < length ?ps \<and> p - 1 < MAX_PAGES" using less.prems by linarith
      with drop_step [of "p - 1" "take MAX_PAGES ?ps"] less.prems(3) show ?thesis by simp
    qed
    show ?thesis
    proof (cases "p \<ge> length ?ps \<or> p \<ge> MAX_PAGES")
      case True
      then have "drop p (take MAX_PAGES ?ps) = []" using less.prems by auto
      with True less.prems(1) c Inr env z1 step show ?thesis by (auto simp: cf_list.simps [of C n t p])
    next
      case False
      then have rec: "cf_list C n t (p + 1) (acc @ ?ps ! (p - 1)) s1 = (r, s')"
        using less.prems(1) c Inr env by (simp add: cf_list.simps [of C n t p])
      have "MAX_PAGES - (p + 1) < MAX_PAGES - p" using False by linarith
      from less.hyps [OF this rec] False z1 have
        "ok s'" "zone s' = zone s1" "\<forall>out. r = Inr out \<longrightarrow> out = (acc @ ?ps ! (p - 1)) @ concat (drop p (take MAX_PAGES ?ps))" by auto
      with z1 step show ?thesis by simp
    qed
  qed
qed

lemma cf_list_listing:
  assumes "ok s" "cf_list C n t 1 [] s = (r, s')"
  shows "ok s'" "zone s' = zone s" "r = Inr out \<Longrightarrow> out = listing s n t"
proof -
  have "0 < length (pages (zone s n t))" using pages_nonempty by simp
  then have "1 \<le> length (pages (zone s n t))" by linarith
  from cf_list_result [OF assms(2,1) _ this] show "ok s'" "zone s' = zone s" "r = Inr out \<Longrightarrow> out = listing s n t"
    by (simp_all add: MAX_PAGES_def cf_listing_def)
qed

lemma cf_get_view:
  assumes "ok s" "cf_get C n t s = (r, s')"
  shows "ok s'" "zone s' = zone s" "r = Inr ob \<Longrightarrow> ob = cf_view s n t"
proof -
  obtain l s1 where l: "cf_list C n t 1 [] s = (l, s1)" by fastforce
  with assms cf_list_listing [OF assms(1) l] show "ok s'" "zone s' = zone s" "r = Inr ob \<Longrightarrow> ob = cf_view s n t"
    by (cases l; auto simp: cf_get_def io_bind_def io_return_def cf_seen_def)+
qed

lemma run_calls_effects:
  "run_calls C qs s = (r, s') \<Longrightarrow> ok s \<Longrightarrow> ok s' \<and> (\<exists>k \<le> length qs. effects (take k qs) (zone s) (zone s') \<and> (r = Inr () \<longrightarrow> k = length qs))"
proof (induction qs arbitrary: s)
  case (Cons q qs)
  obtain a s1 where c: "cf_call C q s = (a, s1)" by fastforce
  show ?case
  proof (cases a)
    case (Inl e)
    with Cons.prems c have r: "r = Inl e" "s' = s1" "ok s1" using call_ok [OF Cons.prems(2) c] by (auto simp: io_bind_def)
    from effect_err [of s q e s1] Cons.prems(2) c Inl consider "zone s1 = zone s" | "cf_effect q (zone s) (zone s1)" by auto
    then show ?thesis
    proof cases
      case 1
      then show ?thesis using r by (auto intro!: exI [of _ 0])
    next
      case 2
      then show ?thesis using r by (auto intro!: exI [of _ 1])
    qed
  next
    case (Inr env)
    with Cons.prems c have "run_calls C qs s1 = (r, s')" by (simp add: io_bind_def)
    from Cons.IH [OF this call_ok [OF Cons.prems(2) c]] obtain k where k: "ok s'" "k \<le> length qs" "effects (take k qs) (zone s1) (zone s')" "r = Inr () \<longrightarrow> k = length qs"
      by blast
    have "cf_effect q (zone s) (zone s1)" using effect_ok Cons.prems(2) c Inr by simp
    with k show ?thesis by (auto intro!: exI [of _ "Suc k"])
  qed
qed (simp add: io_return_def)

lemma cf_replace_cases:
  assumes "ok s" "cf_replace C n t e d s = (r, s')"
  obtains (refused) err where "r = Inl err" "ok s'" "zone s' = zone s"
  | (started) k where "ok s'" "ob_matches (cf_view s n t) e" "k \<le> length (cf_calls n t (listing s n t) (cf_view s n t) d)"
      "effects (take k (cf_calls n t (listing s n t) (cf_view s n t) d)) (zone s) (zone s')"
      "is_ok r \<longrightarrow> r = Inr Immediate \<and> k = length (cf_calls n t (listing s n t) (cf_view s n t) d)"
proof -
  obtain l s1 where l: "cf_list C n t 1 [] s = (l, s1)" by fastforce
  note ll = cf_list_listing [OF assms(1) l]
  show thesis
  proof (cases l)
    case (Inl err)
    with l assms(2) have "r = Inl err" "s' = s1" unfolding cf_replace_def io_bind_def by auto
    with ll refused show thesis by simp
  next
    case (Inr rs)
    with ll have rs: "rs = listing s n t" by simp
    have v: "cf_observed n t rs = cf_view s n t" by (simp add: rs cf_seen_def)
    let ?calls = "cf_calls n t (listing s n t) (cf_view s n t) d"
    have body: "cf_change C n t e d rs s1 = (r, s')" using assms(2) l Inr unfolding cf_replace_def io_bind_def by simp
    show thesis
    proof (cases "ob_matches (cf_view s n t) e")
      case True
      then have "cf_change C n t e d rs = io_bind (run_calls C ?calls) (\<lambda>_. io_return Immediate)"
        using rs v by (auto simp: cf_change_def Let_def ob_matches_def split: option.splits)
      with body obtain a where a: "run_calls C ?calls s1 = (a, s')" "is_ok r \<longleftrightarrow> a = Inr ()" "is_ok r \<longrightarrow> r = Inr Immediate"
        by (cases "run_calls C ?calls s1") (auto simp: io_bind_def io_return_def split: sum.splits)
      from run_calls_effects [OF a(1) ll(1)] a ll(2) True show thesis by (auto intro: started)
    next
      case False
      then have "\<exists>err. cf_change C n t e d rs = io_fail err"
        using v by (auto simp: cf_change_def Let_def ob_matches_def split: option.splits if_splits)
      with body have "\<exists>err. (r, s') = (Inl err, s1)" by (auto simp: io_fail_def)
      with ll refused show thesis by blast
    qed
  qed
qed

end

definition cf_writable :: "record_set \<Rightarrow> bool" where
  "cf_writable r \<longleftrightarrow> finite (rs_values r) \<and> rs_values r \<noteq> {} \<and> (\<forall>v \<in> rs_values r. storable (rs_type r) v)"

text \<open>The change leaves TTL and proxy flag of existing records as they are.\<close>

definition settings_kept :: "record_type \<Rightarrow> observed option \<Rightarrow> record_set option \<Rightarrow> bool" where
  "settings_kept t current desired =
     (case (current, desired) of
        (Some ob, Some d) \<Rightarrow>
          rs_ttl (ob_set ob) = rs_ttl d
          \<and> (proxiable t \<longrightarrow> rs_proxied (ob_set ob) = Some (cf_flag current d))
      | _ \<Rightarrow> True)"

text \<open>The desired values that no record has yet, in the order they are created.\<close>

definition missing :: "record_type \<Rightarrow> cf_record list \<Rightarrow> record_set option \<Rightarrow> string list" where
  "missing t rs desired = filter (\<lambda>v. v \<notin> cf_values t rs) (sorted_list_of_set (values_of desired))"

lemma supported_distinct:
  assumes "ob_matches (cf_observed n t rs) e"
  shows "distinct_values t rs"
proof (cases "cf_observed n t rs")
  case None
  then have "rs = []" by (cases rs) (auto simp: cf_observed_eq)
  then show ?thesis by (simp add: distinct_values_def)
next
  case (Some ob)
  with assms have "ob_unsupported ob = None" by (simp add: ob_matches_def)
  from cf_observed_supported [OF Some this] show ?thesis using distinct_values_uniform by blast
qed

lemma target_values: "target_for cf_writable n t d \<Longrightarrow> finite (values_of d) \<and> (\<forall>v \<in> values_of d. storable t v)"
  by (auto simp: target_for_def cf_writable_def values_of_def split: option.splits)

lemma missing_facts:
  assumes "target_for cf_writable n t d"
  shows "distinct (missing t rs d)" "\<forall>v \<in> set (missing t rs d). storable t v \<and> v \<notin> cf_values t rs"
    "set (missing t rs d) = values_of d - cf_values t rs"
  using target_values [OF assms] by (auto simp: missing_def)

context cf_server
begin

lemma started_mid:
  fixes s n t d k
  defines "calls \<equiv> cf_calls n t (listing s n t) (cf_view s n t) d"
  assumes wf: "wf_zone (zone s)" and m: "ob_matches (cf_view s n t) e" and tgt: "target_for cf_writable n t d"
    and eff: "effects (take k calls) (zone s) z'"
  obtains news j where
    "cf_mid (zone s) n t (change_ttl d) (flag_of t (change_proxied (cf_view s n t) d)) (deleted (take k calls)) (patched (take k calls)) news z'"
    "list_all2 (\<lambda>c r. created t c (change_ttl d) (flag_of t (change_proxied (cf_view s n t) d)) r)
       (map (content_of t) (take j (missing t (listing s n t) d))) news"
    "k = length calls \<Longrightarrow> take j (missing t (listing s n t) d) = missing t (listing s n t) d"
proof -
  let ?rs = "listing s n t" and ?ttl = "change_ttl d" and ?flag = "flag_of t (change_proxied (cf_view s n t) d)"
  have dv: "distinct_values t ?rs" using m unfolding cf_seen_def by (rule supported_distinct)
  obtain rest where rest: "zone s n t = ?rs @ rest" using listing_prefix by blast
  have "distinct (map cf_id (zone s n t))" using wf by (simp add: wf_zone_def)
  then have ids: "distinct (map cf_id ?rs)" unfolding rest by simp
  have fin: "finite (values_of d)" using target_values [OF tgt] by blast
  have "own_seq n t ?ttl ?flag (cf_id ` set ?rs) calls"
    unfolding calls_def by (rule cf_calls_own [OF dv ids fin])
  then have "own_seq n t ?ttl ?flag (cf_id ` set (zone s n t) - {}) (take k calls)"
    by (intro own_seq_take) (rule own_seq_mono, auto simp: rest)
  from cf_mid_effects [OF wf cf_mid_start this eff] obtain news where
    news: "cf_mid (zone s) n t ?ttl ?flag (deleted (take k calls)) (patched (take k calls)) news z'"
      "list_all2 (\<lambda>c r. created t c ?ttl ?flag r) (posted (take k calls)) news" by auto
  have all: "posted calls = map (content_of t) (missing t ?rs d)"
    unfolding calls_def missing_def by (rule cf_calls_sets(2) [OF dv fin])
  show thesis
  proof (cases "k = length calls")
    case True
    then have "posted (take k calls) = map (content_of t) (take (length (missing t ?rs d)) (missing t ?rs d))" using all by simp
    with that [OF news(1), of "length (missing t ?rs d)"] news(2) show thesis by simp
  next
    case False
    obtain j where "posted (take k calls) = map (content_of t) (take j (missing t ?rs d))"
      using prefix_sets(3) [of k calls] all by (metis take_map)
    with that [OF news(1), of j] news(2) False show thesis by simp
  qed
qed

lemma started_frame:
  assumes wf: "wf_zone (zone s)" and m: "ob_matches (cf_view s n t) e" and tgt: "target_for cf_writable n t d"
    and eff: "effects (take k (cf_calls n t (listing s n t) (cf_view s n t) d)) (zone s) z'"
  shows "wf_zone z'" "(n', t') \<noteq> (n, t) \<Longrightarrow> z' n' t' = zone s n' t'"
proof -
  let ?calls = "take k (cf_calls n t (listing s n t) (cf_view s n t) d)"
  obtain news cs where mid: "cf_mid (zone s) n t (change_ttl d) (flag_of t (change_proxied (cf_view s n t) d)) (deleted ?calls) (patched ?calls) news z'"
    and cs: "list_all2 (\<lambda>c r. created t c (change_ttl d) (flag_of t (change_proxied (cf_view s n t) d)) r) cs news"
    by (rule started_mid [OF wf m tgt eff])
  show "wf_zone z'" by (rule cf_mid_wf [OF wf mid cs])
  have "z' = (zone s)(n := (zone s n)(t := cf_form (zone s n t) (deleted ?calls) (patched ?calls) (change_ttl d)
      (flag_of t (change_proxied (cf_view s n t) d)) @ news))" using mid unfolding cf_mid_def by (rule conjunct1)
  then show "(n', t') \<noteq> (n, t) \<Longrightarrow> z' n' t' = zone s n' t'" by (cases "n' = n") auto
qed

lemma replace_frame:
  assumes okay: "ok s" and wf: "wf_zone (zone s)" and tgt: "target_for cf_writable n t d" and run: "cf_replace C n t e d s = (r, s')"
  shows "(\<not> ob_matches (cf_view s n t) e \<longrightarrow> \<not> is_ok r \<and> zone s' = zone s)
    \<and> (\<forall>n' t'. (n', t') \<noteq> (n, t) \<longrightarrow> zone s' n' t' = zone s n' t')"
  using okay run
proof (cases rule: cf_replace_cases)
  case (started k)
  show ?thesis using started(2) started_frame(2) [OF wf started(2) tgt started(4)] by simp
qed simp

end

sublocale cf_server \<subseteq> cf_store: guarded_store "cloudflare_ops C" "\<lambda>s. cf_seen pages (zone s)" "\<lambda>s. ok s \<and> wf_zone (zone s)" cf_writable
proof
  fix s n t ob s'
  assume "ok s \<and> wf_zone (zone s)" "pv_get (cloudflare_ops C) n t s = (Inr ob, s')"
  then show "ob = cf_view s n t" using cf_get_view(3) [of s n t "Inr ob" s'] by (simp add: cloudflare_ops_def)
next
  fix s n t r s'
  assume "ok s \<and> wf_zone (zone s)" "pv_get (cloudflare_ops C) n t s = (r, s')"
  then show "(ok s' \<and> wf_zone (zone s')) \<and> cf_seen pages (zone s') = cf_seen pages (zone s)"
    using cf_get_view(1,2) [of s n t r s'] by (simp add: cloudflare_ops_def)
next
  fix s c b s'
  assume "ok s \<and> wf_zone (zone s)" "pv_synced (cloudflare_ops C) c s = (b, s')"
  then show "(ok s' \<and> wf_zone (zone s')) \<and> cf_seen pages (zone s') = cf_seen pages (zone s)"
    by (auto simp: cloudflare_ops_def io_fail_def)
next
  fix s n t d e k s'
  assume inv: "ok s \<and> wf_zone (zone s)" and tgt: "target_for cf_writable n t d" and run: "pv_replace (cloudflare_ops C) n t e d s = (k, s')"
  from inv have okay: "ok s" and wf: "wf_zone (zone s)" by simp_all
  from run have "cf_replace C n t e d s = (k, s')" by (simp add: cloudflare_ops_def)
  with okay show "ok s' \<and> wf_zone (zone s')"
  proof (cases rule: cf_replace_cases)
    case (started j)
    show ?thesis using started(1) started_frame(1) [OF wf started(2) tgt started(4)] by simp
  qed (use wf in simp)
next
  fix s n t d e k s' n' t'
  assume inv: "ok s \<and> wf_zone (zone s)" and tgt: "target_for cf_writable n t d" and run: "pv_replace (cloudflare_ops C) n t e d s = (k, s')"
    and ne: "(n', t') \<noteq> (n, t)"
  from inv have okay: "ok s" and wf: "wf_zone (zone s)" by simp_all
  from run have "cf_replace C n t e d s = (k, s')" by (simp add: cloudflare_ops_def)
  with okay have "zone s' n' t' = zone s n' t'"
  proof (cases rule: cf_replace_cases)
    case (started j)
    show ?thesis by (rule started_frame(2) [OF wf started(2) tgt started(4) ne])
  qed simp
  then show "cf_view s' n' t' = cf_view s n' t'" by (simp add: cf_seen_def cf_listing_def)
next
  fix s n t e d k s'
  assume "ok s \<and> wf_zone (zone s)" "\<not> ob_matches (cf_view s n t) e" "pv_replace (cloudflare_ops C) n t e d s = (k, s')"
  then have "zone s' = zone s" by (auto simp: cloudflare_ops_def elim: cf_replace_cases)
  then show "cf_seen pages (zone s') = cf_seen pages (zone s)" by simp
next
  fix s n t o'
  assume "cf_view s n t = Some o'"
  then show "rs_name (ob_set o') = n \<and> rs_type (ob_set o') = t"
    by (cases "cf_listing pages (zone s) n t = []") (auto simp: cf_seen_def cf_observed_eq)
qed

lemma not_obsolete_kept:
  assumes "r \<in> set rs" "cf_id r \<notin> cf_id ` set (cf_obsolete t rs d)"
  obtains v where "v \<in> values_of d" "value_of t r = Some v"
proof -
  have "r \<notin> set (cf_obsolete t rs d)" using assms(2) by blast
  with assms(1) that show thesis by (auto simp: cf_obsolete_iff)
qed

lemma kept_values:
  assumes "distinct (map cf_id rs)"
  shows "cf_values t (filter (\<lambda>r. cf_id r \<notin> cf_id ` set (cf_obsolete t rs d)) rs) = cf_values t rs \<inter> values_of d"
proof -
  have "cf_id r \<notin> cf_id ` set (cf_obsolete t rs d) \<longleftrightarrow> (\<exists>v \<in> values_of d. value_of t r = Some v)" if "r \<in> set rs" for r
    using kept_not_obsolete [OF assms that] that by (auto simp: cf_obsolete_iff)
  then show ?thesis by (fastforce simp: cf_values_iff)
qed

lemma seen_matches:
  assumes "ob_matches (cf_observed n t rs) e" "rs \<noteq> []"
  obtains ob where "cf_observed n t rs = Some ob" "uniform t (rs_ttl (ob_set ob)) (cf_proxied (hd rs)) rs"
    "rs_values (ob_set ob) = cf_values t rs" "proxiable t \<longrightarrow> rs_proxied (ob_set ob) = cf_proxied (hd rs)"
    "ob_unsupported ob = None" "rs_name (ob_set ob) = n" "rs_type (ob_set ob) = t"
proof -
  from assms(2) obtain ob where ob: "cf_observed n t rs = Some ob" "rs_name (ob_set ob) = n" "rs_type (ob_set ob) = t"
    by (simp add: cf_observed_eq)
  with assms(1) have "ob_unsupported ob = None" by (simp add: ob_matches_def)
  from cf_observed_supported [OF ob(1) this] that ob this show thesis by blast
qed

context cf_server
begin

text \<open>A change that reports success has been made in full.\<close>

lemma replace_exact:
  assumes okay: "ok s" and wf: "wf_zone (zone s)" and fits: "fits s n t" and tgt: "target_for cf_writable n t d"
    and run: "cf_replace C n t e d s = (Inr tk, s')"
  shows "ob_matches (cf_view s n t) e \<and> written (cf_observed n t (zone s' n t)) d"
  using okay run
proof (cases rule: cf_replace_cases)
  case (started k)
  let ?rs = "zone s n t" and ?px = "change_proxied (cf_view s n t) d" and ?ttl = "change_ttl d"
  let ?calls = "cf_calls n t ?rs (cf_view s n t) d"
  note rs = listing_fits [OF fits]
  have k: "k = length ?calls" using started(5) by (simp add: rs)
  have dv: "distinct_values t ?rs" using started(2) unfolding cf_seen_def rs by (rule supported_distinct)
  have fin: "finite (values_of d)" using target_values [OF tgt] by blast
  have ids: "distinct (map cf_id ?rs)" using wf by (simp add: wf_zone_def)
  have eff: "effects (take k (cf_calls n t (listing s n t) (cf_view s n t) d)) (zone s) (zone s')" by (rule started(4))
  obtain news j where mid: "cf_mid (zone s) n t ?ttl (flag_of t ?px) (deleted (take k ?calls)) (patched (take k ?calls)) news (zone s')"
    and news: "list_all2 (\<lambda>c r. created t c ?ttl (flag_of t ?px) r) (map (content_of t) (take j (missing t ?rs d))) news"
    and j: "k = length ?calls \<Longrightarrow> take j (missing t ?rs d) = missing t ?rs d"
    using started_mid [OF wf started(2) tgt eff] unfolding rs by metis
  let ?D = "cf_id ` set (cf_obsolete t ?rs d)"
  let ?P = "{cf_id r |r. r \<in> set ?rs \<and> needs_patch t ?ttl ?px r \<and> (\<exists>v \<in> values_of d. value_of t r = Some v)}"
  let ?new = "cf_form ?rs ?D ?P ?ttl (flag_of t ?px) @ news"
  have z': "zone s' n t = ?new"
    using mid k unfolding cf_mid_def by (simp add: cf_calls_sets(1,3) [OF dv fin])
  have flagless: "\<not> proxiable t \<Longrightarrow> \<forall>r \<in> set ?rs. cf_proxied r = Some False" using wf by (simp add: wf_zone_def)
  have left: "\<forall>r \<in> set ?rs. cf_id r \<notin> ?D \<longrightarrow> cf_id r \<in> ?P \<or> cf_ttl r = ?ttl \<and> cf_proxied r = final_flag t ?px"
  proof (intro ballI impI)
    fix r assume r: "r \<in> set ?rs" "cf_id r \<notin> ?D"
    then obtain v where v: "v \<in> values_of d" "value_of t r = Some v" by (rule not_obsolete_kept)
    show "cf_id r \<in> ?P \<or> cf_ttl r = ?ttl \<and> cf_proxied r = final_flag t ?px"
    proof (cases "needs_patch t ?ttl ?px r")
      case True
      with r v show ?thesis by blast
    next
      case False
      with flagless r show ?thesis by (auto simp: needs_patch_def final_flag_def)
    qed
  qed
  note mf = missing_facts [OF tgt, of ?rs]
  have news': "list_all2 (\<lambda>c r. created t c ?ttl (flag_of t ?px) r) (map (content_of t) (missing t ?rs d)) news"
    using news j [OF k] by simp
  note un = mid_uniform [OF dv left flagless news' mf(1,2)]
  have vals: "cf_values t ?new = values_of d" using un(2) kept_values [OF ids] mf(3) by auto
  have "written (cf_observed n t ?new) d"
  proof (cases d)
    case None
    then have "cf_values t ?new = {}" using vals by (simp add: values_of_def)
    then have "?new = []" using un(1) by (cases ?new) (auto simp: cf_values_iff uniform_def)
    with None show ?thesis by (simp add: written_def)
  next
    case (Some r)
    have r: "rs_name r = n" "rs_type r = t" "rs_values r \<noteq> {}" using tgt Some by (auto simp: target_for_def cf_writable_def)
    then have "?new \<noteq> []" using vals Some by (auto simp: values_of_def cf_values_iff)
    from cf_observed_uniform [OF un(1) this, of n] vals Some r show ?thesis
      by (auto simp: written_def same_data_def values_of_def change_ttl_def change_proxied_def cf_flag_def final_flag_def split: option.splits)
  qed
  with started(2) show ?thesis unfolding z' by blast
qed simp

end

subsection \<open>Interrupted changes\<close>

lemma cf_form_unpatched [simp]: "cf_form rs D {} ttl flag = filter (\<lambda>r. cf_id r \<notin> D) rs"
  by (simp add: cf_form_def)

lemma uniform_filter: "uniform t ttl flag rs \<Longrightarrow> uniform t ttl flag (filter p rs)"
  by (auto simp: uniform_def distinct_map_filter)

lemma expected_values:
  assumes "ob_matches (cf_observed n t rs) e"
  shows "values_of e = cf_values t rs"
proof (cases "rs = []")
  case True
  with assms show ?thesis by (cases e) (auto simp: ob_matches_def values_of_def cf_values_def List.map_filter_simps)
next
  case False
  obtain ob where ob: "cf_observed n t rs = Some ob" "rs_values (ob_set ob) = cf_values t rs"
    by (rule seen_matches [OF assms False])
  with assms show ?thesis by (cases e) (auto simp: ob_matches_def values_of_def same_data_def)
qed

text \<open>What is left of an interrupted change can be read back and lies between start and target.\<close>

definition resumable :: "string \<Rightarrow> record_type \<Rightarrow> record_set option \<Rightarrow> record_set option \<Rightarrow> cf_record list \<Rightarrow> bool" where
  "resumable n t e d rs \<longleftrightarrow>
     (case cf_observed n t rs of None \<Rightarrow> True | Some ob \<Rightarrow> ob_unsupported ob = None)
     \<and> is_between (map_option ob_set (cf_observed n t rs)) e d"

lemma resumableI:
  assumes u: "rs \<noteq> [] \<Longrightarrow> uniform t ttl flag rs"
    and v: "cf_values t rs \<subseteq> values_of e \<union> values_of d" "values_of e \<inter> values_of d \<subseteq> cf_values t rs"
    and ttl: "rs \<noteq> [] \<Longrightarrow> (\<exists>r. e = Some r \<and> rs_ttl r = ttl) \<or> (\<exists>r. d = Some r \<and> rs_ttl r = ttl)"
  shows "resumable n t e d rs"
proof (cases "rs = []")
  case True
  have "cf_values t [] = {}" by (simp add: cf_values_def List.map_filter_simps)
  with v(2) True show ?thesis by (simp add: resumable_def is_between_def values_of_def)
next
  case False
  from cf_observed_uniform [OF u [OF False] False] v ttl [OF False] show ?thesis
    by (auto simp: resumable_def is_between_def values_of_def)
qed

lemma no_patches:
  assumes "ob_matches (cf_observed n t rs) e" "settings_kept t (cf_observed n t rs) (Some d)" "rs \<noteq> []"
    and flagless: "\<not> proxiable t \<Longrightarrow> \<forall>r \<in> set rs. cf_proxied r = Some False"
  shows "uniform t (rs_ttl d) (final_flag t (cf_flag (cf_observed n t rs) d)) rs"
proof -
  obtain ob where ob: "cf_observed n t rs = Some ob" "uniform t (rs_ttl (ob_set ob)) (cf_proxied (hd rs)) rs"
    "proxiable t \<longrightarrow> rs_proxied (ob_set ob) = cf_proxied (hd rs)"
    by (rule seen_matches [OF assms(1,3)])
  have "rs_ttl (ob_set ob) = rs_ttl d" "proxiable t \<longrightarrow> rs_proxied (ob_set ob) = Some (cf_flag (Some ob) d)"
    using assms(2) by (simp_all add: settings_kept_def ob(1))
  moreover have "cf_proxied (hd rs) = Some False" if "\<not> proxiable t" using flagless [OF that] hd_in_set [OF assms(3)] by blast
  ultimately have "cf_proxied (hd rs) = final_flag t (cf_flag (cf_observed n t rs) d)" "rs_ttl (ob_set ob) = rs_ttl d"
    using ob by (cases "proxiable t"; simp add: final_flag_def)+
  with ob(2) show ?thesis by simp
qed

lemma partial_resumable:
  assumes m: "ob_matches (cf_observed n t rs) e" and tgt: "target_for cf_writable n t d"
    and keep: "settings_kept t (cf_observed n t rs) d" and ids: "distinct (map cf_id rs)"
    and flagless: "\<not> proxiable t \<Longrightarrow> \<forall>r \<in> set rs. cf_proxied r = Some False"
    and D: "D \<subseteq> cf_id ` set (cf_obsolete t rs d)"
    and news: "list_all2 (\<lambda>c r. created t c (change_ttl d) (flag_of t (change_proxied (cf_observed n t rs) d)) r)
                 (map (content_of t) (take j (missing t rs d))) news"
  shows "resumable n t e d (filter (\<lambda>r. cf_id r \<notin> D) rs @ news)"
proof -
  let ?old = "filter (\<lambda>r. cf_id r \<notin> D) rs" and ?vs = "take j (missing t rs d)"
  note ev = expected_values [OF m]
  have common: "values_of e \<inter> values_of d \<subseteq> cf_values t ?old"
  proof -
    have "cf_values t (filter (\<lambda>r. cf_id r \<notin> cf_id ` set (cf_obsolete t rs d)) rs) \<subseteq> cf_values t ?old"
      using D unfolding cf_values_def set_map_filter_iff subset_iff set_filter by blast
    then show ?thesis unfolding kept_values [OF ids] ev by blast
  qed
  have old: "cf_values t ?old \<subseteq> values_of e" unfolding ev by (auto simp: cf_values_iff)
  show ?thesis
  proof (cases d)
    case None
    then have "?vs = []" by (simp add: missing_def values_of_def)
    with news have n: "news = []" by simp
    show ?thesis
    proof (cases "rs = []")
      case True
      with n m None show ?thesis by (cases e) (auto simp: resumable_def is_between_def values_of_def ob_matches_def)
    next
      case False
      obtain ob where ob: "cf_observed n t rs = Some ob" "uniform t (rs_ttl (ob_set ob)) (cf_proxied (hd rs)) rs"
        by (rule seen_matches [OF m False])
      with m have "\<exists>r. e = Some r \<and> rs_ttl r = rs_ttl (ob_set ob)" by (cases e) (auto simp: ob_matches_def same_data_def)
      with n old common show ?thesis
        by (intro resumableI [where ttl = "rs_ttl (ob_set ob)"]) (auto intro: uniform_filter [OF ob(2)])
    qed
  next
    case (Some r)
    have ttl: "change_ttl d = rs_ttl r" and px: "change_proxied (cf_observed n t rs) d = cf_flag (cf_observed n t rs) r"
      by (simp_all add: Some change_ttl_def change_proxied_def)
    have dv: "distinct_values t rs" by (rule supported_distinct [OF m])
    have left: "\<forall>q \<in> set rs. cf_id q \<notin> D \<longrightarrow> cf_id q \<in> {} \<or> cf_ttl q = rs_ttl r \<and> cf_proxied q = final_flag t (cf_flag (cf_observed n t rs) r)"
      using no_patches [OF m _ _ flagless] keep Some by (cases "rs = []") (auto simp: uniform_def)
    note mf = missing_facts [OF tgt, of rs]
    have "distinct ?vs" "\<forall>v \<in> set ?vs. storable t v \<and> v \<notin> cf_values t rs" using mf(1,2) by (auto dest: in_set_takeD)
    from mid_uniform [OF dv left flagless news [unfolded ttl px] this] show ?thesis
      using common old mf(3) Some
      by (intro resumableI [where ttl = "rs_ttl r"]) (auto dest!: in_set_takeD)
  qed
qed

context cf_server
begin

lemma replace_resumable:
  assumes okay: "ok s" and wf: "wf_zone (zone s)" and fits: "fits s n t" and tgt: "target_for cf_writable n t d"
    and m: "ob_matches (cf_view s n t) e" and keep: "settings_kept t (cf_view s n t) d"
    and run: "cf_replace C n t e d s = (r, s')"
  shows "resumable n t e d (zone s' n t)"
proof -
  note rs = listing_fits [OF fits]
  have seen: "cf_view s n t = cf_observed n t (zone s n t)" by (simp add: cf_seen_def rs)
  have ids: "distinct (map cf_id (zone s n t))" using wf by (simp add: wf_zone_def)
  have flagless: "\<not> proxiable t \<Longrightarrow> \<forall>r \<in> set (zone s n t). cf_proxied r = Some False" using wf by (simp add: wf_zone_def)
  have partial: "resumable n t e d (filter (\<lambda>r. cf_id r \<notin> D) (zone s n t) @ news)"
    if "D \<subseteq> cf_id ` set (cf_obsolete t (zone s n t) d)"
      "list_all2 (\<lambda>c r. created t c (change_ttl d) (flag_of t (change_proxied (cf_view s n t) d)) r)
         (map (content_of t) (take j (missing t (zone s n t) d))) news" for D j news
    using partial_resumable [OF m [unfolded seen] tgt keep [unfolded seen] ids flagless that [unfolded seen]] .
  from okay run show ?thesis
  proof (cases rule: cf_replace_cases)
    case (refused err)
    then show ?thesis using partial [of "{}" 0 "[]"] by simp
  next
    case (started k)
    let ?calls = "cf_calls n t (listing s n t) (cf_view s n t) d"
    obtain news j where mid: "cf_mid (zone s) n t (change_ttl d) (flag_of t (change_proxied (cf_view s n t) d)) (deleted (take k ?calls)) (patched (take k ?calls)) news (zone s')"
      and news: "list_all2 (\<lambda>c r. created t c (change_ttl d) (flag_of t (change_proxied (cf_view s n t) d)) r)
         (map (content_of t) (take j (missing t (listing s n t) d))) news"
      by (rule started_mid [OF wf started(2) tgt started(4)])
    have dv: "distinct_values t (zone s n t)" using started(2) unfolding seen by (rule supported_distinct)
    have fin: "finite (values_of d)" using target_values [OF tgt] by blast
    have del: "deleted (take k ?calls) \<subseteq> cf_id ` set (cf_obsolete t (zone s n t) d)"
      using prefix_sets(1) [of k ?calls] cf_calls_sets(1) [OF dv fin] by (simp add: rs)
    have "\<not> needs_patch t (change_ttl d) (change_proxied (cf_view s n t) d) r" if r: "r \<in> set (zone s n t)" and d: "v \<in> values_of d" for r v
    proof (cases d)
      case (Some q)
      have "zone s n t \<noteq> []" using r by auto
      from no_patches [OF m [unfolded seen] _ this flagless] keep Some r show ?thesis
        by (auto simp: seen uniform_def needs_patch_def final_flag_def change_ttl_def change_proxied_def)
    qed (use d in \<open>simp add: values_of_def\<close>)
    then have "patched ?calls = {}" using cf_calls_sets(3) [OF dv fin] by (auto simp: rs)
    then have pat: "patched (take k ?calls) = {}" using prefix_sets(2) [of k ?calls] by blast
    have "zone s' n t = filter (\<lambda>r. cf_id r \<notin> deleted (take k ?calls)) (zone s n t) @ news"
      using mid unfolding cf_mid_def pat by simp
    with partial [OF del news [unfolded rs]] show ?thesis by simp
  qed
qed

end

text \<open>The next decision about such a record carries the change on; it is not taken for an edit.\<close>

lemma resumable_decide:
  assumes "resumable n t e d rs" "mr_pending m = Some p" "pc_expected p = e" "pc_desired p = d"
  shows "decide dr (cf_observed n t rs) (Some m) now settle = NoChange
     \<or> decide dr (cf_observed n t rs) (Some m) now settle = Forget
     \<or> (\<exists>target. decide dr (cf_observed n t rs) (Some m) now settle = Apply (map_option ob_set (cf_observed n t rs)) target
          \<and> ob_matches (cf_observed n t rs) (map_option ob_set (cf_observed n t rs)))"
proof -
  have u: "(case cf_observed n t rs of None \<Rightarrow> None | Some ob \<Rightarrow> ob_unsupported ob) = None"
    and b: "is_between (map_option ob_set (cf_observed n t rs)) e d"
    using assms(1) by (auto simp: resumable_def split: option.splits)
  have "managed_stop (map_option ob_set (cf_observed n t rs)) m now settle = None"
    using assms(2-4) b by (simp add: managed_stop_def)
  then have "decide dr (cf_observed n t rs) (Some m) now settle = final_action dr (map_option ob_set (cf_observed n t rs)) True"
    using u by (simp add: decide_def Let_def)
  moreover have "ob_matches (cf_observed n t rs) (map_option ob_set (cf_observed n t rs))"
    using u by (auto simp: ob_matches_def split: option.splits)
  ultimately show ?thesis by (auto simp: final_action_def Let_def split: option.splits bool.splits if_splits)
qed

end
