(* ===== verification/Dns_Contract.thy ===== *)
theory Dns_Contract
  imports Dns_Cloudflare
begin

text \<open>
  \<open>CloudflareMock\<close> of \<open>sievetube-edge/src/dns/contract_tests.rs\<close>, on requests instead of JSON: it
  lists one record per page and refuses contents that exist. It satisfies \<open>cf_server\<close>, so that the
  properties of the adapter hold on it; they are stated here.
\<close>

subsection \<open>The mock API\<close>

datatype http_method = GET | POST | PATCH | DELETE

record mock_record =
  mk_id :: string
  mk_type :: string
  mk_name :: string
  mk_content :: string
  mk_ttl :: nat
  mk_proxied :: bool

record cf_mock =
  cm_records :: "mock_record list"
  cm_next_id :: nat
  cm_failures :: "(http_method \<times> nat \<times> nat option) list"
  cm_requests :: "http_method list"

definition MOCK_ZONE_ID :: string where "MOCK_ZONE_ID = ''zone123''"
definition MOCK_TOKEN :: string where "MOCK_TOKEN = ''test-token''"

fun method_of :: "cf_request \<Rightarrow> http_method" where
  "method_of (CfList _ _ _) = GET"
| "method_of (CfPatch _ _ _) = PATCH"
| "method_of (CfPost _ _ _ _ _) = POST"
| "method_of (CfDelete _) = DELETE"

definition api_error :: "nat \<Rightarrow> int \<Rightarrow> string \<Rightarrow> http_reply" where
  "api_error status code message =
     HttpReply status None (Inr \<lparr>ev_success = False, ev_errors = [(code, message)], ev_result = None, ev_total_pages = None\<rparr>)"

definition api_ok :: "cf_record list \<Rightarrow> nat option \<Rightarrow> http_reply" where
  "api_ok result total_pages =
     HttpReply 200 None (Inr \<lparr>ev_success = True, ev_errors = [], ev_result = Some result, ev_total_pages = total_pages\<rparr>)"

definition record_json :: "mock_record \<Rightarrow> cf_record" where
  "record_json r = \<lparr>cf_id = mk_id r, cf_content = mk_content r, cf_ttl = mk_ttl r, cf_proxied = Some (mk_proxied r)\<rparr>"

definition mock_matching :: "cf_mock \<Rightarrow> string \<Rightarrow> record_type \<Rightarrow> mock_record list" where
  "mock_matching st n t = filter (\<lambda>r. mk_type r = record_type_str t \<and> mk_name r = n) (cm_records st)"

text \<open>Insert a record as another tool would.\<close>

definition mock_insert :: "string \<Rightarrow> string \<Rightarrow> string \<Rightarrow> nat \<Rightarrow> bool \<Rightarrow> cf_mock \<Rightarrow> cf_mock" where
  "mock_insert rtype n content ttl proxied st =
     (let k = cm_next_id st + 1
      in st\<lparr>cm_next_id := k,
            cm_records := cm_records st @ [\<lparr>mk_id = ''rec'' @ show_nat k, mk_type = rtype, mk_name = n,
              mk_content = content, mk_ttl = ttl, mk_proxied = proxied\<rparr>]\<rparr>)"

primrec update_first :: "('a \<Rightarrow> bool) \<Rightarrow> ('a \<Rightarrow> 'a) \<Rightarrow> 'a list \<Rightarrow> 'a list" where
  "update_first p f [] = []"
| "update_first p f (x # xs) = (if p x then f x # xs else x # update_first p f xs)"

definition mock_serve :: "cf_request \<Rightarrow> cf_mock \<Rightarrow> http_reply \<times> cf_mock" where
  "mock_serve req st =
     (case req of
        CfList n t page \<Rightarrow>
          let matching = mock_matching st n t;
              result = (if page - 1 < length matching then [record_json (matching ! (page - 1))] else [])
          in (api_ok result (Some (max 1 (length matching))), st)
      | CfPost t n content ttl flag \<Rightarrow>
          let rtype = record_type_str t
          in if list_ex (\<lambda>r. mk_name r = n \<and> (mk_type r = ''CNAME'' \<or> rtype = ''CNAME'')) (cm_records st)
             then (api_error 400 81053 ''An A, AAAA, or CNAME record with that host already exists.'', st)
             else if list_ex (\<lambda>r. mk_name r = n \<and> mk_type r = rtype \<and> mk_content r = content) (cm_records st)
             then (api_error 400 81058 ''A record with the same settings already exists.'', st)
             else let st1 = mock_insert rtype n content ttl (case flag of Some p \<Rightarrow> p | None \<Rightarrow> False) st
                  in (api_ok [] None, st1)
      | CfPatch i ttl flag \<Rightarrow>
          if list_ex (\<lambda>r. mk_id r = i) (cm_records st)
          then (api_ok [] None,
                st\<lparr>cm_records := update_first (\<lambda>r. mk_id r = i)
                     (\<lambda>r. r\<lparr>mk_ttl := ttl, mk_proxied := (case flag of Some p \<Rightarrow> p | None \<Rightarrow> mk_proxied r)\<rparr>) (cm_records st)\<rparr>)
          else (api_error 404 81044 ''Record does not exist.'', st)
      | CfDelete i \<Rightarrow>
          if list_ex (\<lambda>r. mk_id r = i) (cm_records st)
          then (api_ok [] None, st\<lparr>cm_records := filter (\<lambda>r. mk_id r \<noteq> i) (cm_records st)\<rparr>)
          else (api_error 404 81044 ''Record does not exist.'', st))"

definition cloudflare_handle :: "string \<Rightarrow> string \<Rightarrow> cf_request \<Rightarrow> cf_mock \<Rightarrow> http_reply \<times> cf_mock" where
  "cloudflare_handle zone_id token req st0 =
     (let st = st0\<lparr>cm_requests := cm_requests st0 @ [method_of req]\<rparr>
      in if token \<noteq> MOCK_TOKEN then (api_error 403 10000 ''Authentication error'', st)
         else case cm_failures st of
                (m, status, retry_after) # rest \<Rightarrow>
                  if m = method_of req
                  then (HttpReply status retry_after
                          (Inr \<lparr>ev_success = False, ev_errors = [(1, ''injected'')], ev_result = None, ev_total_pages = None\<rparr>),
                        st\<lparr>cm_failures := rest\<rparr>)
                  else if zone_id \<noteq> MOCK_ZONE_ID then (api_error 404 7003 ''Could not route to zone'', st)
                  else mock_serve req st
              | [] \<Rightarrow>
                  if zone_id \<noteq> MOCK_ZONE_ID then (api_error 404 7003 ''Could not route to zone'', st)
                  else mock_serve req st)"

definition mock_env :: "string \<Rightarrow> string \<Rightarrow> cf_mock cf_env" where
  "mock_env zone_id token = \<lparr>ce_api = cloudflare_handle zone_id token, ce_show_status = show_nat\<rparr>"

definition mock_zone :: "cf_mock \<Rightarrow> cf_zone" where
  "mock_zone st n t = map record_json (mock_matching st n t)"

text \<open>One record per page, and a page for an empty result.\<close>

definition mock_pages :: "cf_record list \<Rightarrow> cf_record list list" where
  "mock_pages rs = (if rs = [] then [[]] else map (\<lambda>r. [r]) rs)"

definition mock_ok :: "cf_mock \<Rightarrow> bool" where
  "mock_ok st \<longleftrightarrow> distinct (map mk_id (cm_records st)) \<and> (\<forall>r \<in> set (cm_records st). \<exists>k \<le> cm_next_id st. mk_id r = ''rec'' @ show_nat k)"

lemma update_first_map:
  "distinct (map g xs) \<Longrightarrow> update_first (\<lambda>x. g x = i) f xs = map (\<lambda>x. if g x = i then f x else x) xs"
  by (induction xs) (auto simp: image_iff intro!: map_idI [symmetric])

lemma mock_call_cases:
  assumes "cf_call (mock_env zone_id token) q st = (r, st')"
  obtains (failed) e where "r = Inl e" "cm_records st' = cm_records st" "cm_next_id st' = cm_next_id st"
  | (served) env st1 where "r = Inr env" "cm_records st1 = cm_records st" "cm_next_id st1 = cm_next_id st"
      "mock_serve q st1 = (HttpReply 200 None (Inr env), st')" "ev_success env"
proof -
  define st1 where "st1 = st\<lparr>cm_requests := cm_requests st @ [method_of q]\<rparr>"
  have st1: "cm_records st1 = cm_records st" "cm_next_id st1 = cm_next_id st" "cm_failures st1 = cm_failures st"
    by (simp_all add: st1_def)
  obtain reply where reply: "cloudflare_handle zone_id token q st = (reply, st')" "r = cf_result show_nat reply"
    using assms by (cases "cloudflare_handle zone_id token q st") (auto simp: cf_call_def mock_env_def)
  have refused: "\<exists>e. cf_result show_nat (HttpReply status ra (Inr env)) = Inl e" if "\<not> ev_success env" for status ra env
    using that by (auto simp: cf_result_def Let_def)
  have serve: "(\<exists>env. reply' = HttpReply 200 None (Inr env) \<and> ev_success env)
      \<or> (\<exists>s env. reply' = HttpReply s None (Inr env) \<and> \<not> ev_success env \<and> st'' = st1)"
    if "mock_serve q st1 = (reply', st'')" for reply' st''
    using that by (cases q) (auto simp: mock_serve_def Let_def api_ok_def api_error_def split: if_splits)
  consider (served) "mock_serve q st1 = (reply, st')"
    | (err) status ra env where "reply = HttpReply status ra (Inr env)" "\<not> ev_success env"
        "cm_records st' = cm_records st" "cm_next_id st' = cm_next_id st"
    using reply(1) st1 unfolding cloudflare_handle_def st1_def [symmetric] Let_def
    by (auto simp: api_error_def split: if_splits list.splits)
  then show thesis
  proof cases
    case err
    with refused reply(2) failed show thesis by blast
  next
    case served
    from serve [OF this] consider env where "reply = HttpReply 200 None (Inr env)" "ev_success env"
      | s env where "reply = HttpReply s None (Inr env)" "\<not> ev_success env" "st' = st1" by blast
    then show thesis
    proof cases
      case 1
      with reply(2) have "r = Inr env" by (simp add: cf_result_def)
      with 1 served st1 that(2) show thesis by blast
    next
      case 2
      with refused reply(2) st1 failed show thesis by metis
    qed
  qed
qed

lemma mock_ok_ids:
  "mock_ok st \<longleftrightarrow> distinct (map mk_id (cm_records st)) \<and> (\<forall>i \<in> set (map mk_id (cm_records st)). \<exists>k \<le> cm_next_id st. i = ''rec'' @ show_nat k)"
  by (simp add: mock_ok_def)

lemma record_type_str_inj [simp]: "record_type_str t = record_type_str t' \<longleftrightarrow> t = t'"
  by (cases t; cases t') simp_all

lemma mock_ok_upd: "cm_records st' = cm_records st \<Longrightarrow> cm_next_id st' = cm_next_id st \<Longrightarrow> mock_ok st' = mock_ok st"
  by (simp add: mock_ok_def)

lemma mock_zone_upd: "cm_records st' = cm_records st \<Longrightarrow> mock_zone st' = mock_zone st"
  by (simp add: mock_zone_def mock_matching_def fun_eq_iff)

lemma mock_zone_id: "i \<in> cf_id ` set (mock_zone st n t) \<Longrightarrow> i \<in> mk_id ` set (cm_records st)"
  by (auto simp: mock_zone_def mock_matching_def record_json_def)

lemma mock_insert_effect:
  fixes t n content ttl flag
  assumes "mock_ok st"
  defines "st' \<equiv> mock_insert (record_type_str t) n content ttl (case flag of Some p \<Rightarrow> p | None \<Rightarrow> False) st"
  shows "mock_ok st' \<and> cf_effect (CfPost t n content ttl flag) (mock_zone st) (mock_zone st')"
proof -
  define r where "r = \<lparr>mk_id = ''rec'' @ show_nat (cm_next_id st + 1), mk_type = record_type_str t, mk_name = n,
    mk_content = content, mk_ttl = ttl, mk_proxied = (case flag of Some p \<Rightarrow> p | None \<Rightarrow> False)\<rparr>"
  have recs: "cm_records st' = cm_records st @ [r]" "cm_next_id st' = cm_next_id st + 1"
    by (simp_all add: st'_def mock_insert_def r_def)
  have new: "mk_id r \<notin> mk_id ` set (cm_records st)"
  proof
    assume "mk_id r \<in> mk_id ` set (cm_records st)"
    then obtain k where "k \<le> cm_next_id st" "''rec'' @ show_nat k = mk_id r" using assms(1) by (fastforce simp: mock_ok_def)
    then show False using show_nat_inj by (simp add: r_def)
  qed
  have "mock_ok st'"
    using assms(1) new unfolding mock_ok_def recs
    by (auto simp: r_def) (meson le_SucI)
  moreover have "fresh_id (cf_id (record_json r)) (mock_zone st)"
    unfolding fresh_id_def
  proof (intro allI notI)
    fix n' t' assume "cf_id (record_json r) \<in> cf_id ` set (mock_zone st n' t')"
    from mock_zone_id [OF this] new show False by (simp add: record_json_def)
  qed
  moreover have "created t content ttl flag (record_json r)" by (simp add: created_def record_json_def r_def)
  moreover have "mock_zone st' = (mock_zone st)(n := (mock_zone st n)(t := mock_zone st n t @ [record_json r]))"
  proof -
    have "mk_type r = record_type_str t' \<and> mk_name r = n' \<longleftrightarrow> t' = t \<and> n' = n" for n' t' by (auto simp: r_def)
    then have "mock_zone st' n' t' = mock_zone st n' t' @ (if t' = t \<and> n' = n then [record_json r] else [])" for n' t'
      by (simp add: mock_zone_def mock_matching_def recs)
    then show ?thesis by (simp add: fun_eq_iff)
  qed
  ultimately show ?thesis by (auto simp: cf_effect_def)
qed

lemma mock_patch_effect:
  fixes i ttl flag
  assumes "mock_ok st"
  defines "st' \<equiv> st\<lparr>cm_records := update_first (\<lambda>r. mk_id r = i)
     (\<lambda>r. r\<lparr>mk_ttl := ttl, mk_proxied := (case flag of Some p \<Rightarrow> p | None \<Rightarrow> mk_proxied r)\<rparr>) (cm_records st)\<rparr>"
  shows "mock_ok st' \<and> cf_effect (CfPatch i ttl flag) (mock_zone st) (mock_zone st')"
proof -
  let ?f = "\<lambda>r. if mk_id r = i then r\<lparr>mk_ttl := ttl, mk_proxied := (case flag of Some p \<Rightarrow> p | None \<Rightarrow> mk_proxied r)\<rparr> else r"
  have recs: "cm_records st' = map ?f (cm_records st)" "cm_next_id st' = cm_next_id st"
    using assms(1) update_first_map [of mk_id "cm_records st"] by (simp_all add: st'_def mock_ok_def)
  have id: "mk_id (?f r) = mk_id r" and mt: "mk_type (?f r) = mk_type r" "mk_name (?f r) = mk_name r"
    and js: "record_json (?f r) = cf_patched i ttl flag (record_json r)" for r
    by (auto simp: record_json_def cf_patched_def split: option.splits)
  have ids: "map mk_id (cm_records st') = map mk_id (cm_records st)" unfolding recs using id by simp
  have "mock_ok st'" using assms(1) unfolding mock_ok_ids ids recs(2) .
  moreover have "map record_json (filter (\<lambda>r. mk_type r = a \<and> mk_name r = b) (map ?f rs))
      = map (cf_patched i ttl flag) (map record_json (filter (\<lambda>r. mk_type r = a \<and> mk_name r = b) rs))" for a b rs
    using mt js by (induction rs) simp_all
  then have "mock_zone st' = (\<lambda>n t. map (cf_patched i ttl flag) (mock_zone st n t))"
    by (simp only: fun_eq_iff mock_zone_def mock_matching_def recs) simp
  ultimately show ?thesis by (simp add: cf_effect_def)
qed

lemma mock_delete_effect:
  fixes i
  assumes "mock_ok st"
  defines "st' \<equiv> st\<lparr>cm_records := filter (\<lambda>r. mk_id r \<noteq> i) (cm_records st)\<rparr>"
  shows "mock_ok st' \<and> cf_effect (CfDelete i) (mock_zone st) (mock_zone st')"
proof -
  have "mock_ok st'" using assms(1) by (auto simp: mock_ok_def st'_def distinct_map_filter)
  moreover have "mock_zone st' = (\<lambda>n t. filter (\<lambda>r. cf_id r \<noteq> i) (mock_zone st n t))"
    by (auto simp: fun_eq_iff mock_zone_def mock_matching_def st'_def filter_map o_def record_json_def conj_commute conj_left_commute
        intro!: arg_cong [where f = "map _"] filter_cong)
  ultimately show ?thesis by (simp add: cf_effect_def)
qed

lemma mock_serve_effect:
  assumes "mock_ok st" "mock_serve q st = (HttpReply 200 None (Inr env), st')" "ev_success env"
  shows "mock_ok st' \<and> cf_effect q (mock_zone st) (mock_zone st')"
proof (cases q)
  case (CfPost t n c ttl flag)
  with assms mock_insert_effect [OF assms(1), where t = t and n = n and content = c and ttl = ttl and flag = flag] show ?thesis
    by (auto simp: mock_serve_def Let_def api_error_def api_ok_def split: if_splits)
next
  case (CfPatch i ttl flag)
  with assms mock_patch_effect [OF assms(1), where i = i and ttl = ttl and flag = flag] show ?thesis
    by (auto simp: mock_serve_def api_error_def split: if_splits)
next
  case (CfDelete i)
  with assms mock_delete_effect [OF assms(1), of i] show ?thesis
    by (auto simp: mock_serve_def api_error_def split: if_splits)
qed (use assms in \<open>auto simp: mock_serve_def Let_def cf_effect_def\<close>)

lemma mock_list_reply:
  assumes "mock_serve (CfList n t p) st = (HttpReply 200 None (Inr env), st')" "1 \<le> p" "p \<le> length (mock_pages (mock_zone st n t))"
  shows "ev_result env = Some (mock_pages (mock_zone st n t) ! (p - 1)) \<and> ev_total_pages env = Some (length (mock_pages (mock_zone st n t)))"
proof (cases "mock_matching st n t = []")
  case True
  with assms show ?thesis by (auto simp: mock_serve_def mock_pages_def mock_zone_def api_ok_def Let_def)
next
  case False
  then have "p - 1 < length (mock_matching st n t)" "max 1 (length (mock_matching st n t)) = length (mock_matching st n t)"
    using assms(2,3) by (auto simp: mock_pages_def mock_zone_def Suc_le_eq)
  with False assms show ?thesis by (auto simp: mock_serve_def mock_pages_def mock_zone_def api_ok_def Let_def)
qed

interpretation mock: cf_server "mock_env zone_id token" mock_zone mock_pages mock_ok
proof
  fix st q r st'
  assume okay: "mock_ok st" and call: "cf_call (mock_env zone_id token) q st = (r, st')"
  from call show "mock_ok st'"
  proof (cases rule: mock_call_cases)
    case (served env st1)
    with okay mock_ok_upd have "mock_ok st1" by blast
    from mock_serve_effect [OF this served(4,5)] show ?thesis by blast
  qed (use okay mock_ok_upd in blast)
next
  fix rs show "concat (mock_pages rs) = rs" by (simp add: mock_pages_def)
next
  fix rs show "mock_pages rs \<noteq> []" by (simp add: mock_pages_def)
next
  fix st p n t env st'
  assume p: "1 \<le> p" "p \<le> length (mock_pages (mock_zone st n t))" and call: "cf_call (mock_env zone_id token) (CfList n t p) st = (Inr env, st')"
  from call show "ev_result env = Some (mock_pages (mock_zone st n t) ! (p - 1)) \<and> ev_total_pages env = Some (length (mock_pages (mock_zone st n t)))"
  proof (cases rule: mock_call_cases)
    case (served env' st1)
    from mock_list_reply [OF served(4) p(1)] p(2) served(1) mock_zone_upd [OF served(2)] show ?thesis by simp
  qed simp
next
  fix st q env st'
  assume okay: "mock_ok st" and call: "cf_call (mock_env zone_id token) q st = (Inr env, st')"
  from call show "cf_effect q (mock_zone st) (mock_zone st')"
  proof (cases rule: mock_call_cases)
    case (served env' st1)
    with okay mock_ok_upd have "mock_ok st1" by blast
    from mock_serve_effect [OF this served(4,5)] mock_zone_upd [OF served(2)] show ?thesis by simp
  qed simp
next
  fix st q e st'
  assume "cf_call (mock_env zone_id token) q st = (Inl e, st')"
  then show "mock_zone st' = mock_zone st \<or> cf_effect q (mock_zone st) (mock_zone st')"
  proof (cases rule: mock_call_cases)
    case (failed e')
    then show ?thesis using mock_zone_upd by blast
  qed simp
qed

subsection \<open>Properties of the adapter\<close>

text \<open>C13. A change through the Cloudflare adapter (\<open>CloudflareProvider::replace\<close>) on a service with the
  documented behaviour: when it reports success, the record set had the expected data and is now
  read back with exactly the desired data (or is gone, for a deletion); when the record set is not
  as expected, the call fails and no record of the zone changes; in every case, also when a request
  fails halfway, no record of another name or type changes.\<close>

theorem cloudflare_replace_exact:
  assumes "cf_server C zone pages ok" "ok s" "wf_zone (zone s)" "cf_fits pages (zone s) n t" "target_for cf_writable n t d"
    and "cf_replace C n t e d s = (r, s')"
  shows "(is_ok r \<longrightarrow> ob_matches (cf_observed n t (zone s n t)) e \<and> written (cf_observed n t (zone s' n t)) d)
    \<and> (\<not> ob_matches (cf_observed n t (zone s n t)) e \<longrightarrow> \<not> is_ok r \<and> zone s' = zone s)
    \<and> (\<forall>n' t'. (n', t') \<noteq> (n, t) \<longrightarrow> zone s' n' t' = zone s n' t')"
proof -
  have seen: "cf_seen pages (zone s) n t = cf_observed n t (zone s n t)"
    by (simp add: cf_seen_def cf_server.listing_fits [OF assms(1,4)])
  have "is_ok r \<longrightarrow> ob_matches (cf_observed n t (zone s n t)) e \<and> written (cf_observed n t (zone s' n t)) d"
    using cf_server.replace_exact [OF assms(1-5)] assms(6) by (auto simp: is_ok_iff seen)
  with cf_server.replace_frame [OF assms(1-3,5,6)] show ?thesis unfolding seen by blast
qed


subsection \<open>On the mock\<close>

definition empty_mock :: cf_mock where
  "empty_mock = \<lparr>cm_records = [], cm_next_id = 0, cm_failures = [], cm_requests = []\<rparr>"

definition mock_start :: cf_mock where
  "mock_start = mock_insert ''A'' ''www'' ''0.0.0.1'' 1 False empty_mock"

definition a_set :: "nat \<Rightarrow> string list \<Rightarrow> record_set" where
  "a_set ttl vs = \<lparr>rs_name = ''www'', rs_type = RA, rs_ttl = ttl, rs_values = set vs, rs_proxied = None\<rparr>"

lemma mock_start_ok: "mock_ok mock_start"
  by code_simp

lemma mock_wf_zone:
  assumes "mock_ok st" "\<forall>r \<in> set (cm_records st). mk_type r = ''TXT'' \<longrightarrow> \<not> mk_proxied r"
  shows "wf_zone (mock_zone st)"
proof -
  have inj: "inj_on mk_id (set (cm_records st))" using assms(1) by (simp add: mock_ok_def distinct_map)
  have "distinct (map mk_id (mock_matching st n t))" for n t
    using assms(1) by (simp add: mock_ok_def mock_matching_def distinct_map_filter)
  moreover have "map cf_id (mock_zone st n t) = map mk_id (mock_matching st n t)" for n t
    by (simp add: mock_zone_def record_json_def)
  ultimately have "distinct (map cf_id (mock_zone st n t))" for n t by simp
  moreover have "cf_id ` set (mock_zone st n t) \<inter> cf_id ` set (mock_zone st n' t') = {}" if "(n, t) \<noteq> (n', t')" for n t n' t'
  proof (rule ccontr)
    assume "\<not> ?thesis"
    then obtain a b where ab: "a \<in> set (mock_matching st n t)" "b \<in> set (mock_matching st n' t')" "mk_id a = mk_id b"
      by (auto simp: mock_zone_def record_json_def)
    then have "a = b" using inj by (auto simp: mock_matching_def dest: inj_onD)
    with ab that show False by (auto simp: mock_matching_def)
  qed
  moreover have "cf_proxied r = Some False" if "\<not> proxiable t" "r \<in> set (mock_zone st n t)" for n t r
  proof -
    have "t = RTxt" using that(1) by (cases t) (auto simp: proxiable_def)
    with that(2) assms(2) show ?thesis by (auto simp: mock_zone_def mock_matching_def record_json_def)
  qed
  ultimately show ?thesis by (simp add: wf_zone_def)
qed

lemma a_set_target: "list_all (storable RA) vs \<Longrightarrow> vs \<noteq> [] \<Longrightarrow> target_for cf_writable ''www'' RA (Some (a_set ttl vs))"
  by (auto simp: target_for_def cf_writable_def a_set_def list_all_iff)

lemma mock_start_wf: "wf_zone (mock_zone mock_start)"
  by (rule mock_wf_zone [OF mock_start_ok]) code_simp

lemma mock_start_fits: "cf_fits mock_pages (mock_zone st) ''www'' RA" if "length (cm_records st) \<le> 1000"
proof -
  have "length (mock_matching st ''www'' RA) \<le> 1000"
    using that unfolding mock_matching_def by (meson length_filter_le order_trans)
  then show ?thesis by (simp add: cf_fits_def mock_pages_def mock_zone_def MAX_PAGES_def)
qed

abbreviation mock_replace where
  "mock_replace \<equiv> cf_replace (mock_env MOCK_ZONE_ID MOCK_TOKEN) ''www'' RA"

theorem cloudflare_replace_exact_witness:
  "let (r, s') = mock_replace (Some (a_set 1 [''0.0.0.1''])) (Some (a_set 60 [''0.0.0.2''])) mock_start
   in is_ok r \<and> written (cf_observed ''www'' RA (mock_zone s' ''www'' RA)) (Some (a_set 60 [''0.0.0.2'']))"
proof -
  let ?e = "Some (a_set 1 [''0.0.0.1''])" and ?d = "Some (a_set 60 [''0.0.0.2''])"
  obtain r s' where run: "mock_replace ?e ?d mock_start = (r, s')" by (cases "mock_replace ?e ?d mock_start")
  have "is_ok (fst (mock_replace ?e ?d mock_start))" by code_simp
  then have ok: "is_ok r" unfolding run fst_conv .
  have "list_all (storable RA) [''0.0.0.2'']" by code_simp
  then have tgt: "target_for cf_writable ''www'' RA ?d" by (rule a_set_target) simp
  have "length (cm_records mock_start) \<le> 1000" by (simp add: mock_start_def mock_insert_def Let_def empty_mock_def)
  note fits = mock_start_fits [OF this]
  from cloudflare_replace_exact [OF mock.cf_server_axioms mock_start_ok mock_start_wf fits tgt run] ok
  show ?thesis unfolding run Let_def prod.case by blast
qed

text \<open>The deletion of the obsolete record fails; the record set is left with both values.\<close>

definition mock_delete_fails :: cf_mock where
  "mock_delete_fails = mock_start\<lparr>cm_failures := [(DELETE, 500, None)]\<rparr>"

definition interrupted :: "nat \<Rightarrow> managed_record" where
  "interrupted ttl = \<lparr>mr_name = ''www'', mr_type = RA, mr_applied = Some (a_set 1 [''0.0.0.1'']), mr_previous = None,
     mr_generation = 1,
     mr_pending = Some \<lparr>pc_expected = Some (a_set 1 [''0.0.0.1'']),
       pc_desired = Some (a_set ttl [''0.0.0.2'']), pc_ticket = None, pc_started_at = 100\<rparr>,
     mr_updated_at = 0\<rparr>"

definition wanted :: "nat \<Rightarrow> desired_record" where
  "wanted ttl = \<lparr>dr_provider = ''cf'', dr_set = a_set ttl [''0.0.0.2''], dr_import = False, dr_absent = False\<rparr>"

lemma mock_delete_fails_ok: "mock_ok mock_delete_fails"
  by code_simp

lemma mock_delete_fails_wf: "wf_zone (mock_zone mock_delete_fails)"
  by (rule mock_wf_zone [OF mock_delete_fails_ok]) code_simp


text \<open>
  The condition on the settings is needed: if the same change also sets another TTL, the record that
  was not deleted keeps the old one, the record set can no longer be read as one, and the next
  decision is a conflict.
\<close>

lemma interrupted_ttl_change_conflicts:
  "let (r, s') = mock_replace (Some (a_set 1 [''0.0.0.1''])) (Some (a_set 60 [''0.0.0.2''])) mock_delete_fails
   in \<not> is_ok r \<and> decide (wanted 60) (cf_observed ''www'' RA (mock_zone s' ''www'' RA)) (Some (interrupted 60)) 200 30
        = Conflicting (CannotManage ''records with different TTLs'')"
  by code_simp

text \<open>
  A conflict does not mean that nothing was modified: the old target of a \<open>CNAME\<close> is deleted before
  the new one is refused.
\<close>

lemma conflict_after_deletion:
  "let st = mock_insert ''TXT'' ''alias'' ''note'' 1 False (mock_insert ''CNAME'' ''alias'' ''a.b'' 1 False empty_mock);
       cname = (\<lambda>target. \<lparr>rs_name = ''alias'', rs_type = RCname, rs_ttl = 1, rs_values = {target}, rs_proxied = None\<rparr>);
       (r, s') = cf_replace (mock_env MOCK_ZONE_ID MOCK_TOKEN) ''alias'' RCname
         (Some (cname ''a.b'')) (Some (cname ''c.b'')) st
   in (case r of Inl (DnsConflict _) \<Rightarrow> True | _ \<Rightarrow> False)
      \<and> mock_zone st ''alias'' RCname \<noteq> [] \<and> mock_zone s' ''alias'' RCname = []"
  by code_simp

end
