(* ===== verification/Dns_Reconciler.thy ===== *)
theory Dns_Reconciler
  imports Dns_Provider
begin

text \<open>
  The DNS reconciler (\<open>sievetube-edge/src/dns/reconciler.rs\<close>). The world holds the providers, the
  state files and the control plane; the record \<open>rc_env\<close> has the operations on it. Leases are asked
  for with \<open>re_lease\<close>, whose answer says whether it came too late for a bounded wait. A replacement
  runs beside a timer that renews the lease: \<open>re_ticks\<close> is how often the timer fires before the
  replacement is done, and \<open>re_drop\<close> is the world after the replacement was dropped halfway.
  Numbers of writer generations do not reach their width.
\<close>

subsection \<open>The environment\<close>

datatype writer_mode = SingleWriter | ValkeyWriter

datatype disk_read = DiskMissing | DiskFailed string | DiskContent "(string, provider_state) result"

record 'w rc_env =
  re_now :: "'w \<Rightarrow> int"
  re_load :: "string \<Rightarrow> 'w \<Rightarrow> disk_read"
  re_save :: "string \<Rightarrow> provider_state \<Rightarrow> ('w, string, unit) io"
  re_lease :: "string \<Rightarrow> nat \<Rightarrow> 'w \<Rightarrow> (bool \<times> (string, nat option) result) \<times> 'w"
  re_provider :: "string \<Rightarrow> 'w provider_ops option"
  re_ticks :: "'w \<Rightarrow> nat"
  re_drop :: "string \<Rightarrow> string \<Rightarrow> record_type \<Rightarrow> record_set option \<Rightarrow> record_set option \<Rightarrow> 'w \<Rightarrow> 'w"

record reconciler =
  rc_settle_secs :: int
  rc_dry_run :: bool
  rc_compiled :: compiled_dns
  rc_writer :: writer_mode

record record_outcome =
  ro_provider :: string
  ro_key :: string
  ro_action :: dns_action
  ro_error :: "string option"

definition dns_error_text :: "dns_error \<Rightarrow> string" where
  "dns_error_text e =
     (case e of
        DnsConflict r \<Rightarrow> ''conflict: '' @ r
      | RateLimited _ \<Rightarrow> ''rate limited by provider''
      | AuthFailedDns r \<Rightarrow> ''authentication failed: '' @ r
      | TimedOut \<Rightarrow> ''provider request timed out''
      | Unsupported r \<Rightarrow> ''unsupported: '' @ r
      | ProviderError r \<Rightarrow> ''provider error: '' @ r)"

definition default_state :: provider_state where
  "default_state = \<lparr>st_writer_generation = 0, st_records = []\<rparr>"

text \<open>The texts of a failed read start with the path.\<close>

definition load_state :: "disk_read \<Rightarrow> (string, provider_state) result" where
  "load_state r =
     (case r of
        DiskContent (Inr st) \<Rightarrow> Inr st
      | DiskContent (Inl e) \<Rightarrow> Inl (''corrupt DNS state '' @ e)
      | DiskMissing \<Rightarrow> Inr default_state
      | DiskFailed e \<Rightarrow> Inl (''cannot read '' @ e))"

definition lease_resource :: "string \<Rightarrow> string" where
  "lease_resource provider = ''dns:'' @ provider"

definition provider_error :: "string \<Rightarrow> string \<Rightarrow> record_outcome" where
  "provider_error provider e =
     \<lparr>ro_provider = provider, ro_key = ''*'', ro_action = Wait ProviderUnavailable, ro_error = Some e\<rparr>"

definition records_for :: "reconciler \<Rightarrow> string \<Rightarrow> desired_record list" where
  "records_for R provider = filter (\<lambda>r. dr_provider r = provider) (cd_records (rc_compiled R))"

subsection \<open>Being the writer\<close>

definition acquire_writer ::
  "'w rc_env \<Rightarrow> writer_mode \<Rightarrow> string \<Rightarrow> provider_state \<Rightarrow> (string, nat) table \<Rightarrow> 'w
   \<Rightarrow> (string, nat option) result \<times> (string, nat) table \<times> 'w" where
  "acquire_writer E mode provider st gens w =
     (case mode of
        SingleWriter \<Rightarrow>
          (case map_of gens provider of
             Some g \<Rightarrow> (Inr (Some g), gens, w)
           | None \<Rightarrow> let g = st_writer_generation st + 1 in (Inr (Some g), t_insert provider g gens, w))
      | ValkeyWriter \<Rightarrow>
          (case re_lease E (lease_resource provider) (st_writer_generation st + 1) w of
             ((_, answer), w') \<Rightarrow> (answer, gens, w')))"

definition renew_writer :: "'w rc_env \<Rightarrow> writer_mode \<Rightarrow> string \<Rightarrow> nat \<Rightarrow> 'w \<Rightarrow> bool \<times> 'w" where
  "renew_writer E mode provider generation w =
     (case mode of
        SingleWriter \<Rightarrow> (True, w)
      | ValkeyWriter \<Rightarrow>
          (case re_lease E (lease_resource provider) generation w of
             ((late, answer), w') \<Rightarrow> (\<not> late \<and> answer = Inr (Some generation), w')))"

text \<open>The renewals while a replacement runs.\<close>

fun hold_writer :: "'w rc_env \<Rightarrow> writer_mode \<Rightarrow> string \<Rightarrow> nat \<Rightarrow> nat \<Rightarrow> 'w \<Rightarrow> bool \<times> 'w" where
  "hold_writer E mode provider generation 0 w = (True, w)"
| "hold_writer E mode provider generation (Suc k) w =
     (case renew_writer E mode provider generation w of
        (False, w') \<Rightarrow> (False, w')
      | (True, w') \<Rightarrow> hold_writer E mode provider generation k w')"

definition replace_while_writer ::
  "'w rc_env \<Rightarrow> 'w provider_ops \<Rightarrow> writer_mode \<Rightarrow> string \<Rightarrow> nat \<Rightarrow> desired_record \<Rightarrow> record_set option \<Rightarrow> record_set option \<Rightarrow> 'w
   \<Rightarrow> (unit, (dns_error, change_ticket) result) result \<times> 'w" where
  "replace_while_writer E P mode provider generation d expected target w =
     (let n = rs_name (dr_set d); t = rs_type (dr_set d)
      in case renew_writer E mode provider generation w of
           (False, w1) \<Rightarrow> (Inl (), w1)
         | (True, w1) \<Rightarrow>
             (case hold_writer E mode provider generation (re_ticks E w1) w1 of
                (False, w2) \<Rightarrow> (Inl (), re_drop E provider n t expected target w2)
              | (True, w2) \<Rightarrow>
                  (case pv_replace P n t expected target w2 of
                     (result, w3) \<Rightarrow>
                       (case renew_writer E mode provider generation w3 of
                          (False, w4) \<Rightarrow> (Inl (), w4)
                        | (True, w4) \<Rightarrow> (Inr result, w4)))))"

subsection \<open>The state of a record\<close>

definition update_entry :: "string \<Rightarrow> (managed_record \<Rightarrow> managed_record) \<Rightarrow> provider_state \<Rightarrow> provider_state" where
  "update_entry key f st =
     (case map_of (st_records st) key of
        None \<Rightarrow> st
      | Some m \<Rightarrow> st\<lparr>st_records := t_insert key (f m) (st_records st)\<rparr>)"

definition complete_change ::
  "string \<Rightarrow> record_set option \<Rightarrow> record_set option \<Rightarrow> nat \<Rightarrow> int \<Rightarrow> provider_state \<Rightarrow> provider_state" where
  "complete_change key expected desired generation now =
     update_entry key (\<lambda>m. m\<lparr>mr_previous := expected, mr_applied := desired, mr_pending := None,
                              mr_generation := generation, mr_updated_at := now\<rparr>)"

definition pending_of :: "string \<Rightarrow> provider_state \<Rightarrow> pending_change option" where
  "pending_of key st = (case map_of (st_records st) key of None \<Rightarrow> None | Some m \<Rightarrow> mr_pending m)"

definition finish_pending :: "string \<Rightarrow> nat \<Rightarrow> int \<Rightarrow> provider_state \<Rightarrow> provider_state" where
  "finish_pending key generation now st =
     (case pending_of key st of
        None \<Rightarrow> st
      | Some p \<Rightarrow> complete_change key (pc_expected p) (pc_desired p) generation now st)"

definition new_entry :: "desired_record \<Rightarrow> nat \<Rightarrow> int \<Rightarrow> record_set option \<Rightarrow> managed_record" where
  "new_entry d generation now applied =
     \<lparr>mr_name = rs_name (dr_set d), mr_type = rs_type (dr_set d), mr_applied = applied, mr_previous = None,
      mr_generation = generation, mr_pending = None, mr_updated_at = now\<rparr>"

text \<open>The entry with the intent of a change.\<close>

definition begin_change ::
  "desired_record \<Rightarrow> record_set option \<Rightarrow> record_set option \<Rightarrow> nat \<Rightarrow> int \<Rightarrow> provider_state \<Rightarrow> provider_state" where
  "begin_change d expected target generation now st =
     (let entry = (case map_of (st_records st) (dr_key d) of Some m \<Rightarrow> m | None \<Rightarrow> new_entry d generation now None)
      in st\<lparr>st_records := t_insert (dr_key d)
              (entry\<lparr>mr_pending := Some \<lparr>pc_expected = expected, pc_desired = target, pc_ticket = None, pc_started_at = now\<rparr>\<rparr>)
              (st_records st)\<rparr>)"

text \<open>A conflict takes the intent back.\<close>

definition rejected_change :: "string \<Rightarrow> provider_state \<Rightarrow> provider_state" where
  "rejected_change key st =
     (case map_of (st_records st) key of
        None \<Rightarrow> st
      | Some m \<Rightarrow>
          if mr_applied m = None \<and> mr_previous m = None
          then st\<lparr>st_records := t_remove key (st_records st)\<rparr>
          else st\<lparr>st_records := t_insert key (m\<lparr>mr_pending := None\<rparr>) (st_records st)\<rparr>)"

definition set_ticket :: "string \<Rightarrow> change_ticket \<Rightarrow> provider_state \<Rightarrow> provider_state" where
  "set_ticket key ticket =
     update_entry key (\<lambda>m. m\<lparr>mr_pending := map_option (\<lambda>p. p\<lparr>pc_ticket := Some ticket\<rparr>) (mr_pending m)\<rparr>)"

text \<open>What the provider has, if it got there by other means.\<close>

definition note_converged :: "string \<Rightarrow> record_set option \<Rightarrow> int \<Rightarrow> provider_state \<Rightarrow> provider_state" where
  "note_converged key actual now st =
     (case map_of (st_records st) key of
        None \<Rightarrow> st
      | Some m \<Rightarrow>
          if mr_pending m \<noteq> None \<or> \<not> same_optional actual (mr_applied m)
          then st\<lparr>st_records := t_insert key (m\<lparr>mr_applied := actual, mr_pending := None, mr_updated_at := now\<rparr>) (st_records st)\<rparr>
          else st)"

subsection \<open>One record\<close>

definition LOST_LEASE :: string where "LOST_LEASE = ''stop: lost the DNS writer lease''"

text \<open>After the intent was persisted: the replacement and what its result means for the entry.\<close>

definition settle_change ::
  "desired_record \<Rightarrow> nat \<Rightarrow> int \<Rightarrow> record_set option \<Rightarrow> record_set option \<Rightarrow> (dns_error, change_ticket) result \<Rightarrow> provider_state
   \<Rightarrow> (dns_action \<times> string option) \<times> provider_state" where
  "settle_change d generation now expected target result st =
     (let action = Apply expected target; key = dr_key d
      in case result of
           Inr Immediate \<Rightarrow> ((action, None), complete_change key expected target generation now st)
         | Inr (Route53Ticket c) \<Rightarrow> ((action, None), set_ticket key (Route53Ticket c) st)
         | Inl (DnsConflict reason) \<Rightarrow> ((Conflicting (ProviderConflict reason), None), rejected_change key st)
         | Inl e \<Rightarrow>
             let stop = (case e of RateLimited _ \<Rightarrow> True | AuthFailedDns _ \<Rightarrow> True | _ \<Rightarrow> False);
                 text = dns_error_text e
             in ((action, Some (if stop then ''stop: '' @ text else text)), st))"

definition apply_change ::
  "'w rc_env \<Rightarrow> writer_mode \<Rightarrow> 'w provider_ops \<Rightarrow> string \<Rightarrow> desired_record \<Rightarrow> nat \<Rightarrow> int \<Rightarrow> record_set option \<Rightarrow> record_set option
   \<Rightarrow> provider_state \<Rightarrow> 'w \<Rightarrow> (dns_action \<times> string option) \<times> provider_state \<times> 'w" where
  "apply_change E mode P provider d generation now expected target st w =
     (let action = Apply expected target
      in case renew_writer E mode provider generation w of
           (False, w1) \<Rightarrow> ((action, Some LOST_LEASE), st, w1)
         | (True, w1) \<Rightarrow>
             let st1 = begin_change d expected target generation now st
             in case re_save E provider st1 w1 of
                  (Inl e, w2) \<Rightarrow> ((action, Some (''stop: cannot persist state: '' @ e)), st1, w2)
                | (Inr _, w2) \<Rightarrow>
                    (case replace_while_writer E P mode provider generation d expected target w2 of
                       (Inl _, w3) \<Rightarrow> ((action, Some LOST_LEASE), st1, w3)
                     | (Inr result, w3) \<Rightarrow>
                         (case settle_change d generation now expected target result st1 of
                            (outcome, st2) \<Rightarrow> (outcome, st2, w3))))"

definition act ::
  "'w rc_env \<Rightarrow> writer_mode \<Rightarrow> 'w provider_ops \<Rightarrow> string \<Rightarrow> desired_record \<Rightarrow> nat \<Rightarrow> int \<Rightarrow> observed option \<Rightarrow> dns_action
   \<Rightarrow> provider_state \<Rightarrow> 'w \<Rightarrow> (dns_action \<times> string option) \<times> provider_state \<times> 'w" where
  "act E mode P provider d generation now observed action st w =
     (case action of
        NoChange \<Rightarrow> ((action, None), note_converged (dr_key d) (map_option ob_set observed) now st, w)
      | Wait _ \<Rightarrow> ((action, None), st, w)
      | Conflicting _ \<Rightarrow> ((action, None), st, w)
      | Adopt current \<Rightarrow>
          ((action, None), st\<lparr>st_records := t_insert (dr_key d) (new_entry d generation now (Some current)) (st_records st)\<rparr>, w)
      | Forget \<Rightarrow> ((action, None), st\<lparr>st_records := t_remove (dr_key d) (st_records st)\<rparr>, w)
      | Apply expected target \<Rightarrow> apply_change E mode P provider d generation now expected target st w)"

text \<open>A tracked change is finished first; \<open>Inl\<close> is an early outcome.\<close>

definition finish_tracked ::
  "'w provider_ops \<Rightarrow> string \<Rightarrow> nat \<Rightarrow> int \<Rightarrow> provider_state \<Rightarrow> 'w \<Rightarrow> (dns_action \<times> string option, provider_state) result \<times> 'w" where
  "finish_tracked P key generation now st w =
     (case pending_of key st of
        None \<Rightarrow> (Inr st, w)
      | Some p \<Rightarrow>
          (case pc_ticket p of
             Some (Route53Ticket c) \<Rightarrow>
               (case change_synced P (Route53Ticket c) w of
                  (Inr True, w') \<Rightarrow> (Inr (finish_pending key generation now st), w')
                | (Inr False, w') \<Rightarrow> (Inl (Wait ChangePending, None), w')
                | (Inl e, w') \<Rightarrow> (Inl (Wait StatusUnreadable, Some (dns_error_text e)), w'))
           | _ \<Rightarrow> (Inr st, w)))"

text \<open>An interrupted immediate change that did complete.\<close>

definition finish_interrupted :: "string \<Rightarrow> nat \<Rightarrow> int \<Rightarrow> observed option \<Rightarrow> provider_state \<Rightarrow> provider_state" where
  "finish_interrupted key generation now observed st =
     (case pending_of key st of
        None \<Rightarrow> st
      | Some p \<Rightarrow>
          if pc_ticket p = None \<and> same_optional (map_option ob_set observed) (pc_desired p)
          then finish_pending key generation now st else st)"

definition reconcile_record ::
  "'w rc_env \<Rightarrow> reconciler \<Rightarrow> 'w provider_ops \<Rightarrow> string \<Rightarrow> desired_record \<Rightarrow> provider_state \<Rightarrow> nat \<Rightarrow> 'w
   \<Rightarrow> record_outcome \<times> provider_state \<times> 'w" where
  "reconcile_record E R P provider d st generation w =
     (let key = dr_key d; now = re_now E w;
          outcome = (\<lambda>(action, e). \<lparr>ro_provider = provider, ro_key = key, ro_action = action, ro_error = e\<rparr>)
      in case finish_tracked P key generation now st w of
           (Inl early, w1) \<Rightarrow> (outcome early, st, w1)
         | (Inr st1, w1) \<Rightarrow>
             (case pv_get P (rs_name (dr_set d)) (rs_type (dr_set d)) w1 of
                (Inl e, w2) \<Rightarrow> (outcome (Wait ReadFailed, Some (dns_error_text e)), st1, w2)
              | (Inr observed, w2) \<Rightarrow>
                  let st2 = finish_interrupted key generation now observed st1;
                      action = decide d observed (map_of (st_records st2) key) now (rc_settle_secs R)
                  in case act E (rc_writer R) P provider d generation now observed action st2 w2 of
                       (result, st3, w3) \<Rightarrow> (outcome result, st3, w3)))"

subsection \<open>One provider and all of them\<close>

fun reconcile_records ::
  "'w rc_env \<Rightarrow> reconciler \<Rightarrow> 'w provider_ops \<Rightarrow> string \<Rightarrow> nat \<Rightarrow> desired_record list \<Rightarrow> provider_state \<Rightarrow> 'w
   \<Rightarrow> record_outcome list \<times> bool \<times> provider_state \<times> 'w" where
  "reconcile_records E R P provider generation [] st w = ([], False, st, w)"
| "reconcile_records E R P provider generation (d # ds) st w =
     (case reconcile_record E R P provider d st generation w of
        (out, st1, w1) \<Rightarrow>
          if (case ro_error out of Some e \<Rightarrow> starts_with ''stop:'' e | None \<Rightarrow> False)
          then ([out], ro_error out = Some LOST_LEASE, st1, w1)
          else (case reconcile_records E R P provider generation ds st1 w1 of
                  (outs, lost, st2, w2) \<Rightarrow> (out # outs, lost, st2, w2)))"

text \<open>The last write of the shared state, only by the writer.\<close>

definition persist ::
  "'w rc_env \<Rightarrow> writer_mode \<Rightarrow> string \<Rightarrow> nat \<Rightarrow> bool \<Rightarrow> provider_state \<Rightarrow> 'w \<Rightarrow> record_outcome list \<times> 'w" where
  "persist E mode provider generation lost st w =
     (if lost then ([], w)
      else case renew_writer E mode provider generation w of
             (False, w1) \<Rightarrow> ([provider_error provider ''stop: lost the DNS writer lease before persisting state''], w1)
           | (True, w1) \<Rightarrow>
               (case re_save E provider st w1 of
                  (Inl e, w2) \<Rightarrow> ([provider_error provider (''cannot persist state: '' @ e)], w2)
                | (Inr _, w2) \<Rightarrow> ([], w2)))"

definition reconcile_provider ::
  "'w rc_env \<Rightarrow> reconciler \<Rightarrow> string \<Rightarrow> (string, nat) table \<Rightarrow> 'w \<Rightarrow> record_outcome list \<times> (string, nat) table \<times> 'w" where
  "reconcile_provider E R provider gens w =
     (case re_provider E provider of
        None \<Rightarrow> ([], gens, w)
      | Some P \<Rightarrow>
          (case load_state (re_load E provider w) of
             Inl e \<Rightarrow> ([provider_error provider (''cannot read state; not changing records: '' @ e)], gens, w)
           | Inr st \<Rightarrow>
               (case acquire_writer E (rc_writer R) provider st gens w of
                  (Inl e, gens1, w1) \<Rightarrow>
                    ([provider_error provider (''control plane unavailable; DNS changes paused: '' @ e)], gens1, w1)
                | (Inr None, gens1, w1) \<Rightarrow> ([], gens1, w1)
                | (Inr (Some generation), gens1, w1) \<Rightarrow>
                    if st_writer_generation st > generation
                    then ([provider_error provider ''a newer writer updated this zone; stopping''], gens1, w1)
                    else
                      (case reconcile_records E R P provider generation (records_for R provider)
                              (st\<lparr>st_writer_generation := generation\<rparr>) w1 of
                         (outs, lost, st2, w2) \<Rightarrow>
                           (case persist E (rc_writer R) provider generation lost st2 w2 of
                              (extra, w3) \<Rightarrow> (outs @ extra, gens1, w3))))))"

fun reconcile_all ::
  "'w rc_env \<Rightarrow> reconciler \<Rightarrow> provider_spec list \<Rightarrow> (string, nat) table \<Rightarrow> 'w \<Rightarrow> record_outcome list \<times> (string, nat) table \<times> 'w" where
  "reconcile_all E R [] gens w = ([], gens, w)"
| "reconcile_all E R (spec # specs) gens w =
     (case reconcile_provider E R (ps_name spec) gens w of
        (outs, gens1, w1) \<Rightarrow>
          (case reconcile_all E R specs gens1 w1 of (extra, gens2, w2) \<Rightarrow> (outs @ extra, gens2, w2)))"

definition reconcile_once ::
  "'w rc_env \<Rightarrow> reconciler \<Rightarrow> (string, nat) table \<Rightarrow> 'w \<Rightarrow> record_outcome list \<times> (string, nat) table \<times> 'w" where
  "reconcile_once E R = reconcile_all E R (cd_providers (rc_compiled R))"

text \<open>\<open>plan\<close>: the decisions without acting on them.\<close>

definition plan_record ::
  "reconciler \<Rightarrow> 'w provider_ops \<Rightarrow> string \<Rightarrow> int \<Rightarrow> provider_state \<Rightarrow> desired_record \<Rightarrow> 'w \<Rightarrow> record_outcome \<times> 'w" where
  "plan_record R P provider now st d w =
     (case pv_get P (rs_name (dr_set d)) (rs_type (dr_set d)) w of
        (Inr observed, w') \<Rightarrow>
          (\<lparr>ro_provider = provider, ro_key = dr_key d,
            ro_action = decide d observed (map_of (st_records st) (dr_key d)) now (rc_settle_secs R), ro_error = None\<rparr>, w')
      | (Inl e, w') \<Rightarrow>
          (\<lparr>ro_provider = provider, ro_key = dr_key d, ro_action = Wait ReadFailed, ro_error = Some (dns_error_text e)\<rparr>, w'))"

fun plan_records ::
  "reconciler \<Rightarrow> 'w provider_ops \<Rightarrow> string \<Rightarrow> int \<Rightarrow> provider_state \<Rightarrow> desired_record list \<Rightarrow> 'w \<Rightarrow> record_outcome list \<times> 'w" where
  "plan_records R P provider now st [] w = ([], w)"
| "plan_records R P provider now st (d # ds) w =
     (case plan_record R P provider now st d w of
        (out, w1) \<Rightarrow> (case plan_records R P provider now st ds w1 of (outs, w2) \<Rightarrow> (out # outs, w2)))"

fun plan_providers :: "'w rc_env \<Rightarrow> reconciler \<Rightarrow> int \<Rightarrow> provider_spec list \<Rightarrow> 'w \<Rightarrow> record_outcome list \<times> 'w" where
  "plan_providers E R now [] w = ([], w)"
| "plan_providers E R now (spec # specs) w =
     (case re_provider E (ps_name spec) of
        None \<Rightarrow> plan_providers E R now specs w
      | Some P \<Rightarrow>
          (case (case load_state (re_load E (ps_name spec) w) of
                   Inl e \<Rightarrow> ([provider_error (ps_name spec) (''cannot read state: '' @ e)], w)
                 | Inr st \<Rightarrow> plan_records R P (ps_name spec) now st (records_for R (ps_name spec)) w) of
             (outs, w1) \<Rightarrow> (case plan_providers E R now specs w1 of (extra, w2) \<Rightarrow> (outs @ extra, w2))))"

definition plan :: "'w rc_env \<Rightarrow> reconciler \<Rightarrow> 'w \<Rightarrow> record_outcome list \<times> 'w" where
  "plan E R w = plan_providers E R (re_now E w) (cd_providers (rc_compiled R)) w"

text \<open>One round of \<open>run\<close>.\<close>

definition run_round ::
  "'w rc_env \<Rightarrow> reconciler \<Rightarrow> (string, nat) table \<Rightarrow> 'w \<Rightarrow> record_outcome list \<times> (string, nat) table \<times> 'w" where
  "run_round E R gens w =
     (if rc_dry_run R then case plan E R w of (outs, w') \<Rightarrow> (outs, gens, w') else reconcile_once E R gens w)"

subsection \<open>The intent is on disk before the provider is touched\<close>

text \<open>What a run does to the outside, newest first.\<close>

datatype rc_event =
    EvLease string nat "bool \<times> (string, nat option) result"
  | EvSave string provider_state bool
  | EvReplace string string record_type "record_set option" "record_set option"
  | EvDropped string string record_type "record_set option" "record_set option"

definition traced_ops :: "string \<Rightarrow> 'w provider_ops \<Rightarrow> ('w \<times> rc_event list) provider_ops" where
  "traced_ops provider P =
     \<lparr>pv_get = (\<lambda>n t (w, l). case pv_get P n t w of (r, w') \<Rightarrow> (r, w', l)),
      pv_replace = (\<lambda>n t e d (w, l). case pv_replace P n t e d w of (r, w') \<Rightarrow> (r, w', EvReplace provider n t e d # l)),
      pv_synced = (\<lambda>c (w, l). case pv_synced P c w of (r, w') \<Rightarrow> (r, w', l))\<rparr>"

definition traced :: "'w rc_env \<Rightarrow> ('w \<times> rc_event list) rc_env" where
  "traced E =
     \<lparr>re_now = (\<lambda>(w, l). re_now E w),
      re_load = (\<lambda>p (w, l). re_load E p w),
      re_save = (\<lambda>p st (w, l). case re_save E p st w of (r, w') \<Rightarrow> (r, w', EvSave p st (is_ok r) # l)),
      re_lease = (\<lambda>resource g (w, l). case re_lease E resource g w of (a, w') \<Rightarrow> (a, w', EvLease resource g a # l)),
      re_provider = (\<lambda>p. map_option (traced_ops p) (re_provider E p)),
      re_ticks = (\<lambda>(w, l). re_ticks E w),
      re_drop = (\<lambda>p n t e d (w, l). (re_drop E p n t e d w, EvDropped p n t e d # l))\<rparr>"

text \<open>
  The lease was confirmed with the writer's generation since the state was written, and that state
  has the intent of this very change and the writer's generation.
\<close>

definition may_touch ::
  "writer_mode \<Rightarrow> string \<Rightarrow> string \<Rightarrow> record_type \<Rightarrow> record_set option \<Rightarrow> record_set option \<Rightarrow> rc_event list \<Rightarrow> bool" where
  "may_touch mode p n t e d log \<longleftrightarrow>
     (\<exists>g leases st rest m c.
        log = leases @ EvSave p st True # rest
        \<and> (\<forall>x \<in> set leases. x = EvLease (lease_resource p) g (False, Inr (Some g)))
        \<and> (mode = ValkeyWriter \<longrightarrow> leases \<noteq> [])
        \<and> st_writer_generation st = g
        \<and> map_of (st_records st) (record_key n t) = Some m \<and> mr_pending m = Some c
        \<and> pc_expected c = e \<and> pc_desired c = d \<and> pc_ticket c = None)"

fun intent_first :: "writer_mode \<Rightarrow> rc_event list \<Rightarrow> bool" where
  "intent_first mode [] \<longleftrightarrow> True"
| "intent_first mode (x # l) \<longleftrightarrow> intent_first mode l \<and>
     (case x of
        EvReplace p n t e d \<Rightarrow> may_touch mode p n t e d l
      | EvDropped p n t e d \<Rightarrow> may_touch mode p n t e d (tl l)
      | _ \<Rightarrow> True)"

definition renewal :: "string \<Rightarrow> nat \<Rightarrow> rc_event" where
  "renewal p g = EvLease (lease_resource p) g (False, Inr (Some g))"

lemma renew_traced:
  assumes "renew_writer (traced E) mode p g (w, l) = (b, w', l')"
  shows "intent_first mode l' = intent_first mode l"
    and "b \<Longrightarrow> l' = (if mode = ValkeyWriter then [renewal p g] else []) @ l"
    and "\<not> b \<Longrightarrow> mode = ValkeyWriter \<and> tl l' = l"
  using assms by (auto simp: renew_writer_def traced_def renewal_def split: writer_mode.splits prod.splits)

lemma hold_traced:
  "hold_writer (traced E) mode p g k (w, l) = (b, w', l') \<Longrightarrow>
     intent_first mode l' = intent_first mode l
     \<and> (\<exists>j. (if b then l' else tl l') = replicate j (renewal p g) @ l)"
proof (induction k arbitrary: w l)
  case 0
  then show ?case by (auto intro: exI [of _ 0])
next
  case (Suc k)
  obtain b1 w1 l1 where r: "renew_writer (traced E) mode p g (w, l) = (b1, w1, l1)"
    by (cases "renew_writer (traced E) mode p g (w, l)") auto
  show ?case
  proof (cases b1)
    case False
    with Suc.prems r have "b = b1" "l' = l1" by auto
    with renew_traced [OF r] False show ?thesis by (auto intro: exI [of _ 0])
  next
    case True
    with Suc.prems r have "hold_writer (traced E) mode p g k (w1, l1) = (b, w', l')" by auto
    from Suc.IH [OF this] obtain j where
      j: "intent_first mode l' = intent_first mode l1" "(if b then l' else tl l') = replicate j (renewal p g) @ l1" by blast
    have "l1 = replicate (if mode = ValkeyWriter then 1 else 0) (renewal p g) @ l" using renew_traced(2) [OF r True] by simp
    with j renew_traced(1) [OF r] show ?thesis
      by (metis append.assoc replicate_add)
  qed
qed

lemma may_touch_renewals:
  assumes "st_writer_generation st = g" "map_of (st_records st) (record_key n t) = Some m" "mr_pending m = Some c"
    "pc_expected c = e" "pc_desired c = d" "pc_ticket c = None" "mode = ValkeyWriter \<longrightarrow> 0 < k"
  shows "may_touch mode p n t e d (replicate k (renewal p g) @ EvSave p st True # rest)"
  unfolding may_touch_def using assms by (fastforce simp: renewal_def)

lemma replace_while_writer_traced:
  assumes run: "replace_while_writer (traced E) (traced_ops p P) mode p g d e t (w, EvSave p st True # rest) = (r, w', l')"
    and good: "intent_first mode rest"
    and st: "st_writer_generation st = g" "map_of (st_records st) (dr_key d) = Some m" "mr_pending m = Some c"
      "pc_expected c = e" "pc_desired c = t" "pc_ticket c = None"
  shows "intent_first mode l'"
proof -
  let ?l = "EvSave p st True # rest"
  obtain b1 w1 l1 where r1: "renew_writer (traced E) mode p g (w, ?l) = (b1, w1, l1)"
    by (cases "renew_writer (traced E) mode p g (w, ?l)") auto
  have g1: "intent_first mode l1" using renew_traced(1) [OF r1] good by simp
  show ?thesis
  proof (cases b1)
    case False
    with run r1 g1 show ?thesis by (auto simp: replace_while_writer_def)
  next
    case True
    obtain b2 w2 l2 where h: "hold_writer (traced E) mode p g (re_ticks E w1) (w1, l1) = (b2, w2, l2)"
      by (cases "hold_writer (traced E) mode p g (re_ticks E w1) (w1, l1)") auto
    from hold_traced [OF h] obtain j where g2: "intent_first mode l2" and j: "(if b2 then l2 else tl l2) = replicate j (renewal p g) @ l1"
      using g1 by blast
    define k where "k = j + (if mode = ValkeyWriter then 1 else 0)"
    have "l1 = replicate (if mode = ValkeyWriter then 1 else 0) (renewal p g) @ ?l" using renew_traced(2) [OF r1 True] by simp
    then have k: "(if b2 then l2 else tl l2) = replicate k (renewal p g) @ ?l" "mode = ValkeyWriter \<longrightarrow> 0 < k"
      unfolding j k_def by (simp_all add: replicate_add)
    have touch: "may_touch mode p (rs_name (dr_set d)) (rs_type (dr_set d)) e t (if b2 then l2 else tl l2)"
      unfolding k(1) using st k(2) by (intro may_touch_renewals) (auto simp: dr_key_def)
    have ticks: "re_ticks (traced E) (w1, l1) = re_ticks E w1" by (simp add: traced_def)
    show ?thesis
    proof (cases b2)
      case False
      with run r1 True h have "l' = EvDropped p (rs_name (dr_set d)) (rs_type (dr_set d)) e t # l2"
        by (auto simp: replace_while_writer_def ticks Let_def traced_def)
      with g2 touch False show ?thesis by simp
    next
      case b2: True
      obtain res w3 where pr: "pv_replace P (rs_name (dr_set d)) (rs_type (dr_set d)) e t w2 = (res, w3)" by fastforce
      let ?l3 = "EvReplace p (rs_name (dr_set d)) (rs_type (dr_set d)) e t # l2"
      have g3: "intent_first mode ?l3" using g2 touch b2 by simp
      obtain b4 w4 l4 where r4: "renew_writer (traced E) mode p g (w3, ?l3) = (b4, w4, l4)"
        by (cases "renew_writer (traced E) mode p g (w3, ?l3)") auto
      with run r1 True h b2 pr have "l' = l4"
        by (auto simp: replace_while_writer_def ticks Let_def traced_ops_def split: bool.splits)
      with renew_traced(1) [OF r4] g3 show ?thesis by simp
    qed
  qed
qed

lemma state_generation [simp]:
  "st_writer_generation (update_entry k f st) = st_writer_generation st"
  "st_writer_generation (complete_change k a b g now st) = st_writer_generation st"
  "st_writer_generation (finish_pending k g now st) = st_writer_generation st"
  "st_writer_generation (finish_interrupted k g now ob st) = st_writer_generation st"
  "st_writer_generation (begin_change d a b g now st) = st_writer_generation st"
  "st_writer_generation (rejected_change k st) = st_writer_generation st"
  "st_writer_generation (set_ticket k tk st) = st_writer_generation st"
  "st_writer_generation (note_converged k c now st) = st_writer_generation st"
  by (simp_all add: update_entry_def complete_change_def finish_pending_def finish_interrupted_def begin_change_def
      rejected_change_def set_ticket_def note_converged_def Let_def split: option.splits)

lemma settle_generation: "settle_change d g now e t result st = (out, st') \<Longrightarrow> st_writer_generation st' = st_writer_generation st"
  by (auto simp: settle_change_def Let_def split: sum.splits change_ticket.splits dns_error.splits)

lemma begin_change_pending:
  "\<exists>m. map_of (st_records (begin_change d e t g now st)) (dr_key d) = Some m
     \<and> mr_pending m = Some \<lparr>pc_expected = e, pc_desired = t, pc_ticket = None, pc_started_at = now\<rparr>"
  by (simp add: begin_change_def Let_def tab_simps)

lemma apply_change_traced:
  assumes run: "apply_change (traced E) mode (traced_ops p P) p d g now e t st (w, l) = (out, st', w', l')"
    and good: "intent_first mode l" and gen: "st_writer_generation st = g"
  shows "intent_first mode l' \<and> st_writer_generation st' = g"
proof -
  let ?st1 = "begin_change d e t g now st"
  obtain b1 w1 l1 where r1: "renew_writer (traced E) mode p g (w, l) = (b1, w1, l1)"
    by (cases "renew_writer (traced E) mode p g (w, l)") auto
  have g1: "intent_first mode l1" using renew_traced(1) [OF r1] good by simp
  obtain sv w2 where sv: "re_save E p ?st1 w1 = (sv, w2)" by fastforce
  have sv': "re_save (traced E) p ?st1 (w1, l1) = (sv, w2, EvSave p ?st1 (is_ok sv) # l1)" by (simp add: traced_def sv)
  show ?thesis
  proof (cases "b1 \<and> is_ok sv")
    case False
    with run r1 sv' g1 gen show ?thesis
      by (auto simp: apply_change_def Let_def is_ok_def split: bool.splits sum.splits)
  next
    case True
    then obtain u where u: "sv = Inr u" by (auto simp: is_ok_iff)
    obtain r w3 l3 where rw: "replace_while_writer (traced E) (traced_ops p P) mode p g d e t (w2, EvSave p ?st1 True # l1) = (r, w3, l3)"
      by (cases "replace_while_writer (traced E) (traced_ops p P) mode p g d e t (w2, EvSave p ?st1 True # l1)") auto
    obtain m where m: "map_of (st_records ?st1) (dr_key d) = Some m"
      "mr_pending m = Some \<lparr>pc_expected = e, pc_desired = t, pc_ticket = None, pc_started_at = now\<rparr>"
      using begin_change_pending by blast
    have "intent_first mode l3"
      by (rule replace_while_writer_traced [OF rw g1 _ m(1,2)]) (simp_all add: gen)
    with run r1 sv' True u rw gen show ?thesis
      by (auto simp: apply_change_def Let_def split: sum.splits prod.splits dest: settle_generation)
  qed
qed

lemma act_traced:
  assumes "act (traced E) mode (traced_ops p P) p d g now ob action st (w, l) = (out, st', w', l')"
    and "intent_first mode l" "st_writer_generation st = g"
  shows "intent_first mode l' \<and> st_writer_generation st' = g"
  using assms apply_change_traced [of E mode p P d g now _ _ st w l out st' w' l']
  by (cases action) (auto simp: act_def)

lemma traced_reads:
  "pv_get (traced_ops p P) n t (w, l) = (r, w', l') \<Longrightarrow> l' = l"
  "pv_synced (traced_ops p P) c (w, l) = (b, w', l') \<Longrightarrow> l' = l"
  by (auto simp: traced_ops_def split: prod.splits)

lemma finish_tracked_traced:
  assumes "finish_tracked (traced_ops p P) key g now st (w, l) = (r, w', l')"
  shows "l' = l \<and> (\<forall>st'. r = Inr st' \<longrightarrow> st_writer_generation st' = st_writer_generation st)"
  using assms traced_reads(2)
  by (auto simp: finish_tracked_def change_synced_def split: option.splits change_ticket.splits prod.splits sum.splits bool.splits)

lemma reconcile_record_traced:
  assumes run: "reconcile_record (traced E) R (traced_ops p P) p d st g (w, l) = (out, st', w', l')"
    and good: "intent_first (rc_writer R) l" "st_writer_generation st = g"
  shows "intent_first (rc_writer R) l' \<and> st_writer_generation st' = g"
proof -
  let ?now = "re_now (traced E) (w, l)" and ?key = "dr_key d" and ?P = "traced_ops p P"
  obtain f w1 l1 where f: "finish_tracked ?P ?key g ?now st (w, l) = (f, w1, l1)"
    by (cases "finish_tracked ?P ?key g ?now st (w, l)") auto
  note ff = finish_tracked_traced [OF f]
  show ?thesis
  proof (cases f)
    case (Inl early)
    with run f ff good show ?thesis by (auto simp: reconcile_record_def Let_def)
  next
    case (Inr st1)
    obtain r w2 l2 where r: "pv_get ?P (rs_name (dr_set d)) (rs_type (dr_set d)) (w1, l1) = (r, w2, l2)"
      by (cases "pv_get ?P (rs_name (dr_set d)) (rs_type (dr_set d)) (w1, l1)") auto
    note l2 = traced_reads(1) [OF r]
    show ?thesis
    proof (cases r)
      case (Inl e)
      with run f Inr ff r l2 good show ?thesis by (auto simp: reconcile_record_def Let_def)
    next
      case ob: (Inr ob)
      let ?st2 = "finish_interrupted ?key g ?now ob st1"
      let ?action = "decide d ob (map_of (st_records ?st2) ?key) ?now (rc_settle_secs R)"
      obtain res st3 w3 l3 where a: "act (traced E) (rc_writer R) ?P p d g ?now ob ?action ?st2 (w2, l2) = (res, st3, w3, l3)"
        by (cases "act (traced E) (rc_writer R) ?P p d g ?now ob ?action ?st2 (w2, l2)") auto
      have "intent_first (rc_writer R) l3 \<and> st_writer_generation st3 = g"
        by (rule act_traced [OF a]) (simp_all add: good ff l2, simp add: ff [unfolded Inr, THEN conjunct2, rule_format, OF refl] good)
      moreover have "snd (reconcile_record (traced E) R ?P p d st g (w, l)) = (st3, w3, l3)"
        by (simp only: reconcile_record_def Let_def f Inr r ob a prod.case sum.case snd_conv)
      ultimately show ?thesis using run by simp
    qed
  qed
qed

lemma reconcile_records_traced:
  "reconcile_records (traced E) R (traced_ops p P) p g ds st (w, l) = (outs, lost, st', w', l') \<Longrightarrow>
     intent_first (rc_writer R) l \<Longrightarrow> st_writer_generation st = g \<Longrightarrow>
     intent_first (rc_writer R) l' \<and> st_writer_generation st' = g"
proof (induction ds arbitrary: st w l outs lost st' w' l')
  case (Cons d ds)
  obtain out st1 w1 l1 where r: "reconcile_record (traced E) R (traced_ops p P) p d st g (w, l) = (out, st1, w1, l1)"
    by (cases "reconcile_record (traced E) R (traced_ops p P) p d st g (w, l)") auto
  note good = reconcile_record_traced [OF r Cons.prems(2,3)]
  show ?case
  proof (cases "case ro_error out of Some e \<Rightarrow> starts_with ''stop:'' e | None \<Rightarrow> False")
    case True
    have "snd (snd (reconcile_records (traced E) R (traced_ops p P) p g (d # ds) st (w, l))) = (st1, w1, l1)"
      by (simp only: reconcile_records.simps r True prod.case if_True snd_conv)
    with Cons.prems(1) good show ?thesis by simp
  next
    case False
    obtain outs2 lost2 st2 w2 l2 where rest: "reconcile_records (traced E) R (traced_ops p P) p g ds st1 (w1, l1) = (outs2, lost2, st2, w2, l2)"
      by (cases "reconcile_records (traced E) R (traced_ops p P) p g ds st1 (w1, l1)") auto
    have "snd (snd (reconcile_records (traced E) R (traced_ops p P) p g (d # ds) st (w, l))) = (st2, w2, l2)"
      by (simp only: reconcile_records.simps r rest False prod.case if_False snd_conv)
    with Cons.prems(1) have "st' = st2" "l' = l2" by simp_all
    with Cons.IH [OF rest] good show ?thesis by simp
  qed
qed simp

lemma persist_traced:
  assumes "persist (traced E) mode p g lost st (w, l) = (outs, w', l')" "intent_first mode l"
  shows "intent_first mode l'"
proof -
  obtain b1 w1 l1 where r1: "renew_writer (traced E) mode p g (w, l) = (b1, w1, l1)"
    by (cases "renew_writer (traced E) mode p g (w, l)") auto
  have "intent_first mode l1" using renew_traced(1) [OF r1] assms(2) by simp
  with assms r1 show ?thesis
    by (auto simp: persist_def traced_def split: if_splits bool.splits prod.splits sum.splits)
qed

lemma acquire_traced:
  assumes "acquire_writer (traced E) mode p st gens (w, l) = (a, gens', w', l')" "intent_first mode l"
  shows "intent_first mode l'"
  using assms by (auto simp: acquire_writer_def traced_def split: writer_mode.splits option.splits prod.splits)

lemma reconcile_provider_traced:
  assumes run: "reconcile_provider (traced E) R p gens (w, l) = (outs, gens', w', l')" and good: "intent_first (rc_writer R) l"
  shows "intent_first (rc_writer R) l'"
proof (cases "re_provider E p")
  case None
  with run good show ?thesis by (simp add: reconcile_provider_def traced_def)
next
  case (Some P)
  then have P: "re_provider (traced E) p = Some (traced_ops p P)" by (simp add: traced_def)
  show ?thesis
  proof (cases "load_state (re_load (traced E) p (w, l))")
    case (Inl e)
    with run good P show ?thesis by (simp add: reconcile_provider_def)
  next
    case (Inr st)
    obtain a gens1 w1 l1 where a: "acquire_writer (traced E) (rc_writer R) p st gens (w, l) = (a, gens1, w1, l1)"
      by (cases "acquire_writer (traced E) (rc_writer R) p st gens (w, l)") auto
    note good1 = acquire_traced [OF a good]
    show ?thesis
    proof (cases "\<exists>g. a = Inr (Some g) \<and> \<not> st_writer_generation st > g")
      case False
      with run good1 P Inr a show ?thesis
        by (auto simp: reconcile_provider_def split: sum.splits option.splits)
    next
      case True
      then obtain g where g: "a = Inr (Some g)" "\<not> st_writer_generation st > g" by blast
      let ?st = "st\<lparr>st_writer_generation := g\<rparr>"
      obtain os lost st2 w2 l2 where rs: "reconcile_records (traced E) R (traced_ops p P) p g (records_for R p) ?st (w1, l1) = (os, lost, st2, w2, l2)"
        by (cases "reconcile_records (traced E) R (traced_ops p P) p g (records_for R p) ?st (w1, l1)") auto
      have good2: "intent_first (rc_writer R) l2" using reconcile_records_traced [OF rs good1] by simp
      obtain ms w3 l3 where pe: "persist (traced E) (rc_writer R) p g lost st2 (w2, l2) = (ms, w3, l3)"
        by (cases "persist (traced E) (rc_writer R) p g lost st2 (w2, l2)") auto
      have "l' = l3" using run P Inr a g rs pe by (simp add: reconcile_provider_def)
      with persist_traced [OF pe good2] show ?thesis by simp
    qed
  qed
qed

text \<open>The trace does not influence the run.\<close>

lemma erase_renew: "renew_writer (traced E) mode p g (w, l) = (b, w', l') \<Longrightarrow> renew_writer E mode p g w = (b, w')"
  by (auto simp: renew_writer_def traced_def split: writer_mode.splits prod.splits)

lemma erase_hold: "hold_writer (traced E) mode p g k (w, l) = (b, w', l') \<Longrightarrow> hold_writer E mode p g k w = (b, w')"
  by (induction k arbitrary: w l) (auto split: prod.splits bool.splits dest!: erase_renew)

lemma erase_fields [simp]:
  "re_now (traced E) (w, l) = re_now E w" "re_load (traced E) p (w, l) = re_load E p w" "re_ticks (traced E) (w, l) = re_ticks E w"
  "re_provider (traced E) p = map_option (traced_ops p) (re_provider E p)"
  by (simp_all add: traced_def)

lemma erase_save: "re_save (traced E) p st (w, l) = (r, w', l') \<Longrightarrow> re_save E p st w = (r, w')"
  by (auto simp: traced_def split: prod.splits)

lemma erase_ops:
  "pv_get (traced_ops p P) n t (w, l) = (r, w', l') \<Longrightarrow> pv_get P n t w = (r, w')"
  "pv_replace (traced_ops p P) n t e d (w, l) = (k, w', l') \<Longrightarrow> pv_replace P n t e d w = (k, w')"
  "change_synced (traced_ops p P) tk (w, l) = (b, w', l') \<Longrightarrow> change_synced P tk w = (b, w')"
  by (auto simp: traced_ops_def change_synced_def io_return_def split: prod.splits change_ticket.splits)

lemma erase_replace_while:
  assumes "replace_while_writer (traced E) (traced_ops p P) mode p g d e t (w, l) = (r, w', l')"
  shows "replace_while_writer E P mode p g d e t w = (r, w')"
proof -
  obtain b1 w1 l1 where r1: "renew_writer (traced E) mode p g (w, l) = (b1, w1, l1)"
    by (cases "renew_writer (traced E) mode p g (w, l)") auto
  obtain b2 w2 l2 where h: "hold_writer (traced E) mode p g (re_ticks E w1) (w1, l1) = (b2, w2, l2)"
    by (cases "hold_writer (traced E) mode p g (re_ticks E w1) (w1, l1)") auto
  obtain res w3 l3 where pr: "pv_replace (traced_ops p P) (rs_name (dr_set d)) (rs_type (dr_set d)) e t (w2, l2) = (res, w3, l3)"
    by (cases "pv_replace (traced_ops p P) (rs_name (dr_set d)) (rs_type (dr_set d)) e t (w2, l2)") auto
  obtain b4 w4 l4 where r4: "renew_writer (traced E) mode p g (w3, l3) = (b4, w4, l4)"
    by (cases "renew_writer (traced E) mode p g (w3, l3)") auto
  show ?thesis
    using assms r1 h pr r4 erase_renew [OF r1] erase_hold [OF h] erase_ops(2) [OF pr] erase_renew [OF r4]
    by (cases b1; cases b2; cases b4) (auto simp: replace_while_writer_def Let_def traced_def)
qed

lemma erase_apply:
  assumes "apply_change (traced E) mode (traced_ops p P) p d g now e t st (w, l) = (out, st', w', l')"
  shows "apply_change E mode P p d g now e t st w = (out, st', w')"
proof -
  let ?st1 = "begin_change d e t g now st"
  obtain b1 w1 l1 where r1: "renew_writer (traced E) mode p g (w, l) = (b1, w1, l1)"
    by (cases "renew_writer (traced E) mode p g (w, l)") auto
  obtain sv w2 l2 where sv: "re_save (traced E) p ?st1 (w1, l1) = (sv, w2, l2)"
    by (cases "re_save (traced E) p ?st1 (w1, l1)") auto
  obtain r w3 l3 where rw: "replace_while_writer (traced E) (traced_ops p P) mode p g d e t (w2, l2) = (r, w3, l3)"
    by (cases "replace_while_writer (traced E) (traced_ops p P) mode p g d e t (w2, l2)") auto
  show ?thesis
    using assms r1 sv rw erase_renew [OF r1] erase_save [OF sv] erase_replace_while [OF rw]
    by (cases b1; cases sv; cases r) (auto simp: apply_change_def Let_def split: prod.splits)
qed

lemma erase_act:
  assumes "act (traced E) mode (traced_ops p P) p d g now ob action st (w, l) = (out, st', w', l')"
  shows "act E mode P p d g now ob action st w = (out, st', w')"
  using assms erase_apply by (cases action) (fastforce simp: act_def)+

lemma erase_finish_tracked:
  assumes "finish_tracked (traced_ops p P) key g now st (w, l) = (r, w', l')"
  shows "finish_tracked P key g now st w = (r, w')"
proof (cases "\<exists>pc c. pending_of key st = Some pc \<and> pc_ticket pc = Some (Route53Ticket c)")
  case True
  then obtain pc c where pc: "pending_of key st = Some pc" "pc_ticket pc = Some (Route53Ticket c)" by blast
  obtain b w1 l1 where b: "change_synced (traced_ops p P) (Route53Ticket c) (w, l) = (b, w1, l1)"
    by (cases "change_synced (traced_ops p P) (Route53Ticket c) (w, l)") auto
  from erase_ops(3) [OF b] assms pc b show ?thesis
    by (auto simp: finish_tracked_def split: sum.splits bool.splits)
next
  case False
  with assms show ?thesis
    by (auto simp: finish_tracked_def split: option.splits change_ticket.splits)
qed

lemma erase_record:
  assumes run: "reconcile_record (traced E) R (traced_ops p P) p d st g (w, l) = (out, st', w', l')"
  shows "reconcile_record E R P p d st g w = (out, st', w')"
proof -
  let ?key = "dr_key d" and ?now = "re_now E w"
  obtain f w1 l1 where f: "finish_tracked (traced_ops p P) ?key g ?now st (w, l) = (f, w1, l1)"
    by (cases "finish_tracked (traced_ops p P) ?key g ?now st (w, l)") auto
  obtain r w2 l2 where r: "pv_get (traced_ops p P) (rs_name (dr_set d)) (rs_type (dr_set d)) (w1, l1) = (r, w2, l2)"
    by (cases "pv_get (traced_ops p P) (rs_name (dr_set d)) (rs_type (dr_set d)) (w1, l1)") auto
  note ef = erase_finish_tracked [OF f] and er = erase_ops(1) [OF r]
  show ?thesis
  proof (cases "is_ok f \<and> is_ok r")
    case False
    with run f r ef er show ?thesis by (auto simp: reconcile_record_def Let_def is_ok_def split: sum.splits)
  next
    case True
    then obtain st1 ob where fr: "f = Inr st1" "r = Inr ob" by (auto simp: is_ok_iff)
    let ?st2 = "finish_interrupted ?key g ?now ob st1"
    let ?action = "decide d ob (map_of (st_records ?st2) ?key) ?now (rc_settle_secs R)"
    obtain res st3 w3 l3 where a: "act (traced E) (rc_writer R) (traced_ops p P) p d g ?now ob ?action ?st2 (w2, l2) = (res, st3, w3, l3)"
      by (cases "act (traced E) (rc_writer R) (traced_ops p P) p d g ?now ob ?action ?st2 (w2, l2)") auto
    let ?out = "\<lambda>(action, e). \<lparr>ro_provider = p, ro_key = ?key, ro_action = action, ro_error = e\<rparr>"
    have "reconcile_record (traced E) R (traced_ops p P) p d st g (w, l) = (?out res, st3, w3, l3)"
      by (simp only: reconcile_record_def Let_def erase_fields f r fr a prod.case sum.case)
    moreover have "reconcile_record E R P p d st g w = (?out res, st3, w3)"
      by (simp only: reconcile_record_def Let_def ef er fr erase_act [OF a] prod.case sum.case)
    ultimately show ?thesis using run by simp
  qed
qed

lemma erase_records:
  "reconcile_records (traced E) R (traced_ops p P) p g ds st (w, l) = (outs, lost, st', w', l') \<Longrightarrow>
     reconcile_records E R P p g ds st w = (outs, lost, st', w')"
proof (induction ds arbitrary: st w l outs lost st' w' l')
  case (Cons d ds)
  obtain out st1 w1 l1 where r: "reconcile_record (traced E) R (traced_ops p P) p d st g (w, l) = (out, st1, w1, l1)"
    by (cases "reconcile_record (traced E) R (traced_ops p P) p d st g (w, l)") auto
  obtain os lo st2 w2 l2 where rest: "reconcile_records (traced E) R (traced_ops p P) p g ds st1 (w1, l1) = (os, lo, st2, w2, l2)"
    by (cases "reconcile_records (traced E) R (traced_ops p P) p g ds st1 (w1, l1)") auto
  show ?case
    using Cons.prems unfolding reconcile_records.simps r rest erase_record [OF r] Cons.IH [OF rest] prod.case
    by (auto split: if_split_asm)
qed simp

lemma erase_provider:
  assumes run: "reconcile_provider (traced E) R p gens (w, l) = (outs, gens', w', l')"
  shows "reconcile_provider E R p gens w = (outs, gens', w')"
proof (cases "re_provider E p")
  case None
  with run show ?thesis by (simp add: reconcile_provider_def)
next
  case (Some P)
  show ?thesis
  proof (cases "load_state (re_load E p w)")
    case (Inl e)
    with run Some show ?thesis by (simp add: reconcile_provider_def)
  next
    case (Inr st)
    obtain a gens1 w1 l1 where a: "acquire_writer (traced E) (rc_writer R) p st gens (w, l) = (a, gens1, w1, l1)"
      by (cases "acquire_writer (traced E) (rc_writer R) p st gens (w, l)") auto
    then have ea: "acquire_writer E (rc_writer R) p st gens w = (a, gens1, w1)"
      by (auto simp: acquire_writer_def traced_def split: writer_mode.splits option.splits prod.splits)
    show ?thesis
    proof (cases "\<exists>g. a = Inr (Some g) \<and> \<not> st_writer_generation st > g")
      case False
      with run Some Inr a ea show ?thesis by (auto simp: reconcile_provider_def split: sum.splits option.splits)
    next
      case True
      then obtain g where g: "a = Inr (Some g)" "\<not> st_writer_generation st > g" by blast
      let ?st = "st\<lparr>st_writer_generation := g\<rparr>"
      obtain os lost st2 w2 l2 where rs: "reconcile_records (traced E) R (traced_ops p P) p g (records_for R p) ?st (w1, l1) = (os, lost, st2, w2, l2)"
        by (cases "reconcile_records (traced E) R (traced_ops p P) p g (records_for R p) ?st (w1, l1)") auto
      obtain ms w3 l3 where pe: "persist (traced E) (rc_writer R) p g lost st2 (w2, l2) = (ms, w3, l3)"
        by (cases "persist (traced E) (rc_writer R) p g lost st2 (w2, l2)") auto
      obtain b1 w4 l4 where r1: "renew_writer (traced E) (rc_writer R) p g (w2, l2) = (b1, w4, l4)"
        by (cases "renew_writer (traced E) (rc_writer R) p g (w2, l2)") auto
      have "persist E (rc_writer R) p g lost st2 w2 = (ms, w3)"
        using pe r1 erase_renew [OF r1]
        by (auto simp: persist_def split: if_splits bool.splits prod.splits sum.splits dest!: erase_save)
      with erase_records [OF rs] run Some Inr a ea g rs pe show ?thesis by (simp add: reconcile_provider_def)
    qed
  qed
qed

lemma reconcile_all_traced:
  "reconcile_all (traced E) R specs gens (w, l) = (outs, gens', w', l') \<Longrightarrow> intent_first (rc_writer R) l \<Longrightarrow>
     intent_first (rc_writer R) l' \<and> reconcile_all E R specs gens w = (outs, gens', w')"
proof (induction specs arbitrary: gens w l outs gens' w' l')
  case (Cons spec specs)
  obtain os g1 w1 l1 where r: "reconcile_provider (traced E) R (ps_name spec) gens (w, l) = (os, g1, w1, l1)"
    by (cases "reconcile_provider (traced E) R (ps_name spec) gens (w, l)") auto
  obtain ms g2 w2 l2 where rest: "reconcile_all (traced E) R specs g1 (w1, l1) = (ms, g2, w2, l2)"
    by (cases "reconcile_all (traced E) R specs g1 (w1, l1)") auto
  from Cons.IH [OF rest reconcile_provider_traced [OF r Cons.prems(2)]] erase_provider [OF r] r rest Cons.prems(1)
  show ?case by auto
qed simp

text \<open>C11. The reconciler never touches a provider without having recorded why. In every round, whatever the
  control plane, the disk and the providers answer: whenever a replacement is sent to a provider,
  the last write of its state file succeeded and holds the intent of exactly this change (the set
  that is expected and the one that is desired) under the generation of this writer, and since then,
  with a coordinated writer, the lease was confirmed with that generation in time, and nothing else
  happened. The same holds for a replacement that is dropped halfway, up to the renewal that failed.
  The first part says that the recorded run is the run itself.\<close>

theorem reconcile_intent_first:
  assumes "reconcile_once (traced E) R gens (w, []) = (outs, gens', w', log)"
  shows "reconcile_once E R gens w = (outs, gens', w') \<and> intent_first (rc_writer R) log"
  using reconcile_all_traced [of E R _ gens w "[]"] assms by (simp add: reconcile_once_def)

subsection \<open>Nothing that others changed is overwritten\<close>

text \<open>
  The world of a provider that checks its condition: writing files and asking for leases leaves the
  records alone, and a replacement that is dropped halfway was subject to the same condition.
\<close>

locale dns_world = guarded_store P view inv writable
  for P :: "'w provider_ops" and view :: "'w \<Rightarrow> string \<Rightarrow> record_type \<Rightarrow> observed option"
    and inv :: "'w \<Rightarrow> bool" and writable :: "record_set \<Rightarrow> bool" +
  fixes E :: "'w rc_env" and pn :: string
  assumes provider: "re_provider E pn = Some P"
    and save_frame: "inv w \<Longrightarrow> re_save E p st w = (r, w') \<Longrightarrow> inv w' \<and> view w' = view w"
    and lease_frame: "inv w \<Longrightarrow> re_lease E res g w = (a, w') \<Longrightarrow> inv w' \<and> view w' = view w"
    and drop_inv: "inv w \<Longrightarrow> target_for writable n t d \<Longrightarrow> inv (re_drop E p n t e d w)"
    and drop_other: "inv w \<Longrightarrow> target_for writable n t d \<Longrightarrow> (n', t') \<noteq> (n, t) \<Longrightarrow> view (re_drop E p n t e d w) n' t' = view w n' t'"
    and drop_refused: "inv w \<Longrightarrow> \<not> ob_matches (view w n t) e \<Longrightarrow> view (re_drop E p n t e d w) = view w"

text \<open>The targets that a desired record can have.\<close>

definition writable_record :: "(record_set \<Rightarrow> bool) \<Rightarrow> desired_record \<Rightarrow> bool" where
  "writable_record writable d \<longleftrightarrow> dr_absent d \<or> (\<forall>p. writable ((dr_set d)\<lparr>rs_proxied := p\<rparr>))"

lemma decide_target:
  assumes "writable_record writable d" "decide d ob m now settle = Apply e t"
  shows "target_for writable (rs_name (dr_set d)) (rs_type (dr_set d)) t"
proof (cases "dr_absent d")
  case True
  with decide_Apply [OF assms(2)] show ?thesis by (simp add: target_for_def)
next
  case False
  then have t: "t = Some (with_current_proxied (dr_set d) (map_option ob_set ob))" using decide_Apply [OF assms(2)] by simp
  obtain p where "with_current_proxied (dr_set d) (map_option ob_set ob) = (dr_set d)\<lparr>rs_proxied := p\<rparr>"
    by (metis record_set.surjective record_set.update_convs(5) with_current_proxied_def)
  with t False assms(1) show ?thesis by (simp add: target_for_def writable_record_def)
qed

text \<open>Only the given record set may differ, and only if it was as expected.\<close>

definition guarded_change ::
  "(string \<Rightarrow> record_type \<Rightarrow> observed option) \<Rightarrow> string \<Rightarrow> record_type \<Rightarrow> record_set option \<Rightarrow> (string \<Rightarrow> record_type \<Rightarrow> observed option) \<Rightarrow> bool" where
  "guarded_change v n t e v' \<longleftrightarrow> (\<forall>n' t'. (n', t') \<noteq> (n, t) \<longrightarrow> v' n' t' = v n' t') \<and> (\<not> ob_matches (v n t) e \<longrightarrow> v' = v)"

lemma guarded_change_refl [simp]: "guarded_change v n t e v"
  by (simp add: guarded_change_def)

context dns_world
begin

lemma renew_frame: "inv w \<Longrightarrow> renew_writer E mode p g w = (b, w') \<Longrightarrow> inv w' \<and> view w' = view w"
  by (auto simp: renew_writer_def split: writer_mode.splits prod.splits dest: lease_frame)

lemma hold_frame: "inv w \<Longrightarrow> hold_writer E mode p g k w = (b, w') \<Longrightarrow> inv w' \<and> view w' = view w"
proof (induction k arbitrary: w)
  case (Suc k)
  obtain b1 w1 where r: "renew_writer E mode p g w = (b1, w1)" by fastforce
  with renew_frame [OF Suc.prems(1) r] Suc show ?case by (cases b1) auto
qed simp

lemma replace_guarded:
  assumes "inv w" "target_for writable n t d" "pv_replace P n t e d w = (k, w')"
  shows "inv w' \<and> guarded_change (view w) n t e (view w')"
  using replace_inv [OF assms] replace_other [OF assms] replace_refused [OF assms(1) _ assms(3)]
  by (auto simp: guarded_change_def)

lemma replace_while_frame:
  assumes inv: "inv w" and tgt: "target_for writable (rs_name (dr_set d)) (rs_type (dr_set d)) t"
    and run: "replace_while_writer E P mode p g d e t w = (r, w')"
  shows "inv w' \<and> guarded_change (view w) (rs_name (dr_set d)) (rs_type (dr_set d)) e (view w')"
proof -
  let ?n = "rs_name (dr_set d)" and ?t = "rs_type (dr_set d)"
  obtain b1 w1 where r1: "renew_writer E mode p g w = (b1, w1)" by fastforce
  note f1 = renew_frame [OF inv r1]
  obtain b2 w2 where h: "hold_writer E mode p g (re_ticks E w1) w1 = (b2, w2)" by fastforce
  note f2 = hold_frame [OF _ h]
  obtain res w3 where pr: "pv_replace P ?n ?t e t w2 = (res, w3)" by fastforce
  obtain b4 w4 where r4: "renew_writer E mode p g w3 = (b4, w4)" by fastforce
  have v2: "inv w2" "view w2 = view w" using f1 f2 by auto
  note f3 = replace_guarded [OF v2(1) tgt pr]
  have f4: "inv w4 \<and> view w4 = view w3" using renew_frame [OF _ r4] f3 by blast
  have drop: "inv (re_drop E p ?n ?t e t w2) \<and> guarded_change (view w) ?n ?t e (view (re_drop E p ?n ?t e t w2))"
    using drop_inv [OF v2(1) tgt] drop_other [OF v2(1) tgt] drop_refused [OF v2(1)] v2(2) by (auto simp: guarded_change_def)
  show ?thesis
    using run r1 h pr r4 f1 f3 f4 v2 drop
    by (cases b1; cases b2; cases b4) (auto simp: replace_while_writer_def Let_def)
qed

lemma apply_frame:
  assumes inv: "inv w" and tgt: "target_for writable (rs_name (dr_set d)) (rs_type (dr_set d)) t"
    and run: "apply_change E mode P p d g now e t st w = (out, st', w')"
  shows "inv w' \<and> guarded_change (view w) (rs_name (dr_set d)) (rs_type (dr_set d)) e (view w')"
proof -
  let ?st1 = "begin_change d e t g now st"
  obtain b1 w1 where r1: "renew_writer E mode p g w = (b1, w1)" by fastforce
  note f1 = renew_frame [OF inv r1]
  obtain sv w2 where sv: "re_save E p ?st1 w1 = (sv, w2)" by fastforce
  have f2: "inv w2 \<and> view w2 = view w" using save_frame [OF _ sv] f1 by simp
  obtain r w3 where rw: "replace_while_writer E P mode p g d e t w2 = (r, w3)" by fastforce
  note f3 = replace_while_frame [OF conjunct1 [OF f2] tgt rw]
  show ?thesis
    using run r1 sv rw f1 f2 f3 by (cases b1; cases sv; cases r) (auto simp: apply_change_def Let_def split: prod.splits)
qed

lemma act_frame:
  assumes inv: "inv w" and d: "writable_record writable d" and dec: "decide d ob m now settle = action"
    and run: "act E mode P p d g now' ob action st w = (out, st', w')"
  shows "inv w' \<and> (case action of
      Apply e t \<Rightarrow> guarded_change (view w) (rs_name (dr_set d)) (rs_type (dr_set d)) e (view w')
    | _ \<Rightarrow> view w' = view w)"
proof (cases "\<exists>e t. action = Apply e t")
  case True
  then obtain e t where a: "action = Apply e t" by blast
  from apply_frame [OF inv decide_target [OF d dec [unfolded a]]] run a show ?thesis by (simp add: act_def)
next
  case False
  with run inv show ?thesis by (cases action) (auto simp: act_def)
qed

lemma finish_tracked_frame:
  assumes "inv w" "finish_tracked P key g now st w = (r, w')"
  shows "inv w' \<and> view w' = view w"
proof (cases "\<exists>pc c. pending_of key st = Some pc \<and> pc_ticket pc = Some (Route53Ticket c)")
  case True
  then obtain pc c where pc: "pending_of key st = Some pc" "pc_ticket pc = Some (Route53Ticket c)" by blast
  obtain b w1 where b: "change_synced P (Route53Ticket c) w = (b, w1)" by fastforce
  from change_synced_frame [OF assms(1) b] assms(2) pc b show ?thesis
    by (auto simp: finish_tracked_def split: sum.splits bool.splits)
next
  case False
  with assms show ?thesis by (auto simp: finish_tracked_def split: option.splits change_ticket.splits)
qed

end

lemma record_key_inj: "record_key n t = record_key n' t' \<longleftrightarrow> n = n' \<and> t = t'"
proof
  assume eq: "record_key n t = record_key n' t'"
  have no: "CHR ''/'' \<notin> set (record_type_str u)" for u by (cases u) auto
  have split: "takeWhile (\<lambda>c. c \<noteq> CHR ''/'') (rev (record_key m u)) = rev (record_type_str u)" for m u
    using no [of u] by (cases u) (simp_all add: record_key_def takeWhile_tail)
  have "rev (record_type_str t) = rev (record_type_str t')" using split [of n t] split [of n' t'] eq by simp
  then have "t = t'" by (cases t; cases t') simp_all
  with eq show "n = n' \<and> t = t'" by (simp add: record_key_def)
qed simp

text \<open>Everything but the entry of the key is kept, and that entry allows no more than before.\<close>

definition entry_kept :: "string \<Rightarrow> provider_state \<Rightarrow> provider_state \<Rightarrow> bool" where
  "entry_kept key st st' \<longleftrightarrow>
     (\<forall>k. k \<noteq> key \<longrightarrow> map_of (st_records st') k = map_of (st_records st) k)
     \<and> (case map_of (st_records st) key of
          None \<Rightarrow> map_of (st_records st') key = None
        | Some m \<Rightarrow> (\<exists>m'. map_of (st_records st') key = Some m' \<and> (\<forall>a. own_state a m' \<longrightarrow> own_state a m)))"

lemma entry_kept_refl [simp]: "entry_kept key st st"
  by (auto simp: entry_kept_def split: option.splits)

lemma entry_kept_trans: "entry_kept key a b \<Longrightarrow> entry_kept key b c \<Longrightarrow> entry_kept key a c"
  by (auto simp: entry_kept_def split: option.splits)

lemma same_optional_between: "same_optional a d \<Longrightarrow> is_between a e d"
  by (cases a; cases d) (auto simp: is_between_def values_of_def same_data_def)

lemma finish_pending_kept: "entry_kept key st (finish_pending key g now st)"
proof (cases "map_of (st_records st) key")
  case None
  then show ?thesis by (simp add: finish_pending_def pending_of_def)
next
  case (Some m)
  show ?thesis
  proof (cases "mr_pending m")
    case None
    with Some show ?thesis by (simp add: finish_pending_def pending_of_def)
  next
    case pend: (Some p)
    with Some show ?thesis
      by (auto simp: finish_pending_def pending_of_def complete_change_def update_entry_def entry_kept_def tab_simps own_state_def
          intro: same_optional_between)
  qed
qed

lemma finish_tracked_kept: "finish_tracked P key g now st w = (Inr st', w') \<Longrightarrow> entry_kept key st st'"
  by (auto simp: finish_tracked_def finish_pending_kept split: option.splits change_ticket.splits prod.splits sum.splits bool.splits)

lemma finish_interrupted_kept: "entry_kept key st (finish_interrupted key g now ob st)"
  by (auto simp: finish_interrupted_def finish_pending_kept split: option.splits)

lemma update_entry_other: "k \<noteq> key \<Longrightarrow> map_of (st_records (update_entry key f st)) k = map_of (st_records st) k"
  by (simp add: update_entry_def tab_simps split: option.splits)

lemma settle_other:
  "settle_change d g now e t res st = (out, st') \<Longrightarrow> k \<noteq> dr_key d \<Longrightarrow> map_of (st_records st') k = map_of (st_records st) k"
  by (auto simp: settle_change_def Let_def complete_change_def set_ticket_def rejected_change_def update_entry_other tab_simps
      split: sum.splits change_ticket.splits dns_error.splits option.splits if_splits)

lemma begin_other: "k \<noteq> dr_key d \<Longrightarrow> map_of (st_records (begin_change d e t g now st)) k = map_of (st_records st) k"
  by (simp add: begin_change_def Let_def tab_simps)

lemma act_other:
  assumes "act E mode P p d g now ob action st w = (out, st', w')" "k \<noteq> dr_key d"
  shows "map_of (st_records st') k = map_of (st_records st) k"
proof (cases action)
  case (Apply e t)
  with assms have run: "apply_change E mode P p d g now e t st w = (out, st', w')" by (simp add: act_def)
  have "st' = st \<or> st' = begin_change d e t g now st
      \<or> (\<exists>res o'. settle_change d g now e t res (begin_change d e t g now st) = (o', st'))"
    using run by (cases out) (auto simp: apply_change_def Let_def split: prod.splits bool.splits sum.splits)
  then show ?thesis using settle_other [OF _ assms(2)] begin_other [OF assms(2)] by metis
qed (use assms in \<open>auto simp: act_def note_converged_def tab_simps split: option.splits if_splits\<close>)

text \<open>When a record may be changed, given what the provider has and what the state says about it.\<close>

definition may_change :: "observed option \<Rightarrow> desired_record \<Rightarrow> managed_record option \<Rightarrow> bool" where
  "may_change ob d managed \<longleftrightarrow>
     (\<forall>o'. ob = Some o' \<longrightarrow> ob_unsupported o' = None)
     \<and> (case managed of
          None \<Rightarrow> \<not> dr_absent d \<and> (ob = None \<or> dr_import d)
        | Some m \<Rightarrow> own_state (map_option ob_set ob) m)"

context dns_world
begin

lemma reconcile_record_safe:
  assumes inv: "inv w" and d: "writable_record writable d" and run: "reconcile_record E R P p d st g w = (out, st', w')"
  defines "n \<equiv> rs_name (dr_set d)" and "t \<equiv> rs_type (dr_set d)"
  shows "inv w' \<and> (\<forall>n' t'. (n', t') \<noteq> (n, t) \<longrightarrow> view w' n' t' = view w n' t')
    \<and> (view w' n t \<noteq> view w n t \<longrightarrow> may_change (view w n t) d (map_of (st_records st) (dr_key d)))
    \<and> (\<forall>k. k \<noteq> dr_key d \<longrightarrow> map_of (st_records st') k = map_of (st_records st) k)"
proof -
  let ?now = "re_now E w" and ?key = "dr_key d"
  obtain f w1 where f: "finish_tracked P ?key g ?now st w = (f, w1)" by fastforce
  note v1 = finish_tracked_frame [OF inv f]
  show ?thesis
  proof (cases f)
    case (Inl early)
    with run f v1 show ?thesis by (auto simp: reconcile_record_def Let_def)
  next
    case (Inr st1)
    obtain r w2 where r: "pv_get P n t w1 = (r, w2)" by fastforce
    have v2: "inv w2 \<and> view w2 = view w" using get_frame [OF _ r] v1 by simp
    note k1 = finish_tracked_kept [OF f [unfolded Inr]]
    show ?thesis
    proof (cases r)
      case (Inl e)
      with run f Inr r v2 k1 show ?thesis by (auto simp: reconcile_record_def Let_def n_def t_def entry_kept_def)
    next
      case ob: (Inr ob)
      have obv: "ob = view w n t" using get_view [of w1 n t ob w2] r ob v1 by simp
      let ?st2 = "finish_interrupted ?key g ?now ob st1"
      let ?m = "map_of (st_records ?st2) ?key"
      let ?action = "decide d ob ?m ?now (rc_settle_secs R)"
      obtain res st3 w3 where a: "act E (rc_writer R) P p d g ?now ob ?action ?st2 w2 = (res, st3, w3)"
        by (cases "act E (rc_writer R) P p d g ?now ob ?action ?st2 w2") auto
      have "snd (reconcile_record E R P p d st g w) = (st3, w3)"
        by (simp only: reconcile_record_def Let_def f Inr r [unfolded n_def t_def] ob a prod.case sum.case snd_conv)
      with run have out: "st' = st3" "w' = w3" by simp_all
      have kept: "entry_kept ?key st ?st2" using k1 finish_interrupted_kept by (rule entry_kept_trans)
      note af = act_frame [OF conjunct1 [OF v2] d refl a]
      have "map_of (st_records st') k = map_of (st_records st) k" if "k \<noteq> ?key" for k
        using act_other [OF a that] kept that by (simp add: out entry_kept_def)
      moreover have "may_change (view w n t) d (map_of (st_records st) ?key)"
        if change: "?action = Apply e tg" for e tg
        using decide_Apply [OF change] kept
        by (auto simp: may_change_def obv entry_kept_def split: option.splits)
      moreover have "guarded_change (view w) n t e (view w')" if "?action = Apply e tg" for e tg
        using af that v2 by (simp add: out n_def t_def)
      moreover have "view w' = view w" if "\<nexists>e tg. ?action = Apply e tg"
        using af that v2 by (cases ?action) (auto simp: out)
      ultimately show ?thesis
        using af by (cases "\<exists>e tg. ?action = Apply e tg") (auto simp: out guarded_change_def)
    qed
  qed
qed

lemma reconcile_records_safe:
  "reconcile_records E R P p g ds st w = (outs, lost, st', w') \<Longrightarrow> inv w \<Longrightarrow> \<forall>d \<in> set ds. writable_record writable d
   \<Longrightarrow> distinct (map dr_key ds) \<Longrightarrow>
     inv w' \<and> (\<forall>n t. view w' n t \<noteq> view w n t \<longrightarrow>
       (\<exists>d \<in> set ds. rs_name (dr_set d) = n \<and> rs_type (dr_set d) = t \<and> may_change (view w n t) d (map_of (st_records st) (dr_key d))))"
proof (induction ds arbitrary: st w outs lost)
  case (Cons d ds)
  obtain out st1 w1 where r: "reconcile_record E R P p d st g w = (out, st1, w1)"
    by (cases "reconcile_record E R P p d st g w") auto
  have dw: "writable_record writable d" using Cons.prems(3) by simp
  note safe = reconcile_record_safe [OF Cons.prems(2) dw r]
  let ?n = "rs_name (dr_set d)" and ?t = "rs_type (dr_set d)"
  show ?case
  proof (cases "w' = w1")
    case True
    with safe show ?thesis by (metis list.set_intros(1) prod.inject)
  next
    case False
    obtain os lo st2 w2 where rest: "reconcile_records E R P p g ds st1 w1 = (os, lo, st2, w2)"
      by (cases "reconcile_records E R P p g ds st1 w1") auto
    have "w' = w2" "st' = st2" using Cons.prems(1) False unfolding reconcile_records.simps r rest prod.case by (auto split: if_split_asm)
    with Cons.IH [OF rest [folded this]] safe Cons.prems(3,4) have inv': "inv w'" and
      later: "\<And>n t. view w' n t \<noteq> view w1 n t \<Longrightarrow> \<exists>d' \<in> set ds. rs_name (dr_set d') = n \<and> rs_type (dr_set d') = t
         \<and> may_change (view w1 n t) d' (map_of (st_records st1) (dr_key d'))" by auto
    have "\<exists>d' \<in> set (d # ds). rs_name (dr_set d') = n \<and> rs_type (dr_set d') = t \<and> may_change (view w n t) d' (map_of (st_records st) (dr_key d'))"
      if ch: "view w' n t \<noteq> view w n t" for n t
    proof (cases "view w1 n t = view w n t")
      case True
      with ch later [of n t] obtain d' where d': "d' \<in> set ds" "rs_name (dr_set d') = n" "rs_type (dr_set d') = t"
        "may_change (view w1 n t) d' (map_of (st_records st1) (dr_key d'))" by auto
      have "dr_key d' \<noteq> dr_key d" using d'(1) Cons.prems(4) by (metis distinct.simps(2) image_eqI list.set_map list.simps(9))
      with d' safe True show ?thesis by auto
    next
      case False
      then have "n = ?n" "t = ?t" using safe by auto
      with False safe show ?thesis by auto
    qed
    with inv' show ?thesis by blast
  qed
qed simp

end

subsection \<open>A change that was made stays made\<close>

locale exact_world = dns_world P view inv writable E pn + dns_store P view inv writable
  for P :: "'w provider_ops" and view :: "'w \<Rightarrow> string \<Rightarrow> record_type \<Rightarrow> observed option"
    and inv :: "'w \<Rightarrow> bool" and writable :: "record_set \<Rightarrow> bool" and E :: "'w rc_env" and pn :: string

lemma written_reached:
  assumes "written ob t" "if dr_absent d then t = None else t = Some (with_current_proxied (dr_set d) cur)"
  shows "reached d (map_option ob_set ob)" "\<forall>o'. ob = Some o' \<longrightarrow> ob_unsupported o' = None"
proof -
  show "\<forall>o'. ob = Some o' \<longrightarrow> ob_unsupported o' = None"
    using assms by (auto simp: written_def split: option.splits if_splits)
  show "reached d (map_option ob_set ob)"
  proof (cases "dr_absent d")
    case True
    with assms show ?thesis by (simp add: written_def reached_def)
  next
    case False
    with assms obtain o' where o': "ob = Some o'" and same: "same_data (ob_set o') (with_current_proxied (dr_set d) cur)"
      by (auto simp: written_def split: option.splits)
    from same have "same_data (ob_set o') (with_current_proxied (dr_set d) (Some (ob_set o')))"
      unfolding same_data_target
      by (cases "rs_proxied (dr_set d)"; cases "rs_proxied (ob_set o')") (auto simp: same_data_def with_current_proxied_def)
    with False o' show ?thesis by (simp add: reached_def)
  qed
qed

lemma settle_entry:
  assumes "settle_change d g now e t res st = ((Apply e' t', None), st')" "map_of (st_records st) (dr_key d) = Some m"
  shows "is_ok res \<and> e' = e \<and> t' = t \<and> map_of (st_records st') (dr_key d) \<noteq> None"
  using assms
  by (auto simp: settle_change_def Let_def complete_change_def set_ticket_def update_entry_def tab_simps is_ok_iff
      split: sum.splits change_ticket.splits dns_error.splits)

lemma finish_tracked_early:
  "finish_tracked P key g now st w = (Inl early, w') \<Longrightarrow> \<exists>reason. fst early = Wait reason"
  by (auto simp: finish_tracked_def split: option.splits change_ticket.splits prod.splits sum.splits bool.splits)

context exact_world
begin

lemma replace_while_writes:
  assumes inv: "inv w" and tgt: "target_for writable (rs_name (dr_set d)) (rs_type (dr_set d)) t"
    and run: "replace_while_writer E P mode p g d e t w = (Inr (Inr k), w')"
  shows "written (view w' (rs_name (dr_set d)) (rs_type (dr_set d))) t"
proof -
  let ?n = "rs_name (dr_set d)" and ?t = "rs_type (dr_set d)"
  obtain b1 w1 where r1: "renew_writer E mode p g w = (b1, w1)" by fastforce
  obtain b2 w2 where h: "hold_writer E mode p g (re_ticks E w1) w1 = (b2, w2)" by fastforce
  obtain res w3 where pr: "pv_replace P ?n ?t e t w2 = (res, w3)" by fastforce
  obtain b4 w4 where r4: "renew_writer E mode p g w3 = (b4, w4)" by fastforce
  have inv2: "inv w2" using hold_frame [OF _ h] renew_frame [OF inv r1] by simp
  have "res = Inr k" "w' = w4"
    using run r1 h pr r4 by (cases b1; cases b2; cases b4; simp add: replace_while_writer_def Let_def)+
  moreover have "view w4 = view w3" using renew_frame [OF _ r4] replace_inv [OF inv2 tgt pr] by simp
  ultimately show ?thesis using replace_ok [OF inv2 tgt] pr by simp
qed

lemma apply_writes:
  assumes inv: "inv w" and tgt: "target_for writable (rs_name (dr_set d)) (rs_type (dr_set d)) t"
    and run: "apply_change E mode P p d g now e t st w = ((Apply e' t', None), st', w')"
  shows "e' = e \<and> t' = t \<and> written (view w' (rs_name (dr_set d)) (rs_type (dr_set d))) t \<and> map_of (st_records st') (dr_key d) \<noteq> None"
proof -
  let ?st1 = "begin_change d e t g now st"
  obtain b1 w1 where r1: "renew_writer E mode p g w = (b1, w1)" by fastforce
  obtain sv w2 where sv: "re_save E p ?st1 w1 = (sv, w2)" by fastforce
  have inv2: "inv w2" using save_frame [OF _ sv] renew_frame [OF inv r1] by simp
  obtain r w3 where rw: "replace_while_writer E P mode p g d e t w2 = (r, w3)" by fastforce
  obtain res where res: "r = Inr res" "w' = w3" "settle_change d g now e t res ?st1 = ((Apply e' t', None), st')"
    using run r1 sv rw by (cases b1; cases sv; cases r) (auto simp: apply_change_def Let_def split: prod.splits)
  obtain m where "map_of (st_records ?st1) (dr_key d) = Some m" by (auto simp: begin_change_def Let_def tab_simps)
  note entry = settle_entry [OF res(3) this]
  then obtain k where "res = Inr k" by (auto simp: is_ok_iff)
  with replace_while_writes [OF inv2 tgt] rw res entry show ?thesis by simp
qed

lemma reconcile_record_writes:
  assumes inv: "inv w" and d: "writable_record writable d" and run: "reconcile_record E R P p d st g w = (out, st', w')"
    and ok: "ro_error out = None" "ro_action out = Apply e t"
  shows "written (view w' (rs_name (dr_set d)) (rs_type (dr_set d))) t
    \<and> (\<forall>now settle. decide d (view w' (rs_name (dr_set d)) (rs_type (dr_set d))) (map_of (st_records st') (dr_key d)) now settle
         = (if dr_absent d then Forget else NoChange))"
proof -
  let ?now = "re_now E w" and ?key = "dr_key d" and ?n = "rs_name (dr_set d)" and ?t = "rs_type (dr_set d)"
  obtain f w1 where f: "finish_tracked P ?key g ?now st w = (f, w1)" by fastforce
  obtain r w2 where r: "pv_get P ?n ?t w1 = (r, w2)" by fastforce
  have inv2: "inv w2" using get_frame [OF _ r] finish_tracked_frame [OF inv f] by simp
  have "f \<noteq> Inl early" for early
  proof
    assume "f = Inl early"
    with run f have "ro_action out = fst early"
      by (auto simp: reconcile_record_def Let_def case_prod_beta)
    with finish_tracked_early [of P ?key g ?now st w early w1] f \<open>f = Inl early\<close> ok(2) show False by auto
  qed
  then obtain st1 where st1: "f = Inr st1" by (cases f) auto
  have "ro_error out \<noteq> None" if "r = Inl er" for er
    using run unfolding reconcile_record_def Let_def f st1 r that prod.case sum.case by auto
  then obtain ob where ob: "r = Inr ob" using ok(1) by (cases r) auto
  let ?st2 = "finish_interrupted ?key g ?now ob st1"
  let ?action = "decide d ob (map_of (st_records ?st2) ?key) ?now (rc_settle_secs R)"
  obtain a x st3 w3 where a: "act E (rc_writer R) P p d g ?now ob ?action ?st2 w2 = ((a, x), st3, w3)"
    by (cases "act E (rc_writer R) P p d g ?now ob ?action ?st2 w2") auto
  have "reconcile_record E R P p d st g w
      = (\<lparr>ro_provider = p, ro_key = ?key, ro_action = a, ro_error = x\<rparr>, st3, w3)"
    by (simp only: reconcile_record_def Let_def f st1 r ob a prod.case sum.case)
  with run ok have res: "a = Apply e t" "x = None" "st' = st3" "w' = w3" by auto
  then obtain e0 t0 where act: "?action = Apply e0 t0" using a by (cases ?action) (auto simp: act_def)
  then have ap: "apply_change E (rc_writer R) P p d g ?now e0 t0 ?st2 w2 = ((Apply e t, None), st', w')"
    using a by (simp add: act_def res)
  note wr = apply_writes [OF inv2 decide_target [OF d act] ap]
  have tgt: "if dr_absent d then t = None else t = Some (with_current_proxied (dr_set d) (map_option ob_set ob))"
    using decide_Apply [OF act] wr by simp
  note reach = written_reached [OF conjunct1 [OF conjunct2 [OF conjunct2 [OF wr]], folded conjunct1 [OF conjunct2 [OF wr]]] tgt]
  from wr decide_reached [OF reach] show ?thesis by simp
qed

end

context dns_world
begin

lemma acquire_frame: "inv w \<Longrightarrow> acquire_writer E mode p st gens w = (a, gens', w') \<Longrightarrow> inv w' \<and> view w' = view w"
  by (auto simp: acquire_writer_def Let_def split: writer_mode.splits option.splits prod.splits dest: lease_frame)

lemma persist_frame:
  assumes inv: "inv w" and run: "persist E mode p g lost st w = (outs, w')"
  shows "inv w' \<and> view w' = view w"
proof (cases lost)
  case False
  obtain b w1 where r: "renew_writer E mode p g w = (b, w1)" by fastforce
  obtain s w2 where s: "re_save E p st w1 = (s, w2)" by fastforce
  have "w' = w1 \<or> w' = w2" using run False r s by (cases b; cases s) (auto simp: persist_def)
  with renew_frame [OF inv r] save_frame [OF _ s] show ?thesis by auto
qed (use assms in \<open>simp add: persist_def\<close>)

lemma reconcile_provider_safe:
  assumes inv: "inv w" and run: "reconcile_provider E R pn gens w = (outs, gens', w')"
    and st: "load_state (re_load E pn w) = Inr st"
    and ds: "distinct (map dr_key (records_for R pn))" "\<forall>d \<in> set (records_for R pn). writable_record writable d"
  shows "inv w' \<and> (\<forall>n t. view w' n t \<noteq> view w n t \<longrightarrow>
    (\<exists>d \<in> set (records_for R pn). rs_name (dr_set d) = n \<and> rs_type (dr_set d) = t
       \<and> may_change (view w n t) d (map_of (st_records st) (dr_key d))))"
proof -
  obtain a gens1 w1 where a: "acquire_writer E (rc_writer R) pn st gens w = (a, gens1, w1)"
    by (cases "acquire_writer E (rc_writer R) pn st gens w") auto
  note f1 = acquire_frame [OF inv a]
  show ?thesis
  proof (cases "\<exists>g. a = Inr (Some g) \<and> \<not> st_writer_generation st > g")
    case False
    with run provider st a have "w' = w1" by (auto simp: reconcile_provider_def split: sum.splits option.splits)
    with f1 show ?thesis by simp
  next
    case True
    then obtain g where g: "a = Inr (Some g)" "\<not> st_writer_generation st > g" by blast
    let ?st = "st\<lparr>st_writer_generation := g\<rparr>"
    obtain os lost st2 w2 where rs: "reconcile_records E R P pn g (records_for R pn) ?st w1 = (os, lost, st2, w2)"
      by (cases "reconcile_records E R P pn g (records_for R pn) ?st w1") auto
    obtain ms w3 where pe: "persist E (rc_writer R) pn g lost st2 w2 = (ms, w3)" by fastforce
    have "w' = w3" using run provider st a g rs pe by (simp add: reconcile_provider_def)
    moreover note safe = reconcile_records_safe [OF rs conjunct1 [OF f1] ds(2,1)]
    moreover note persist_frame [OF conjunct1 [OF safe] pe]
    ultimately show ?thesis using f1 by simp
  qed
qed

end
subsection \<open>A directory and the provider in memory\<close>

text \<open>
  The setting of the tests of \<open>reconciler.rs\<close>: the state files of a directory, a provider that keeps
  its records in memory, a single writer and a clock.
\<close>

record memory_world =
  mw_now :: int
  mw_files :: "(string, provider_state) table"
  mw_memory :: mem_provider

definition memory_world_ops :: "memory_world provider_ops" where
  "memory_world_ops = lift_ops mw_memory (\<lambda>m w. w\<lparr>mw_memory := m\<rparr>) memory_ops"

definition memory_world_env :: "memory_world rc_env" where
  "memory_world_env =
     \<lparr>re_now = mw_now,
      re_load = (\<lambda>p w. case map_of (mw_files w) p of None \<Rightarrow> DiskMissing | Some st \<Rightarrow> DiskContent (Inr st)),
      re_save = (\<lambda>p st w. (Inr (), w\<lparr>mw_files := t_insert p st (mw_files w)\<rparr>)),
      re_lease = (\<lambda>_ _ w. ((False, Inr None), w)),
      re_provider = (\<lambda>p. if p = ''mem'' then Some memory_world_ops else None),
      re_ticks = (\<lambda>_. 0),
      re_drop = (\<lambda>_ _ _ _ _ w. w)\<rparr>"

abbreviation mw_view :: "memory_world \<Rightarrow> string \<Rightarrow> record_type \<Rightarrow> observed option" where
  "mw_view w \<equiv> mem_view (mw_memory w)"

abbreviation mw_inv :: "memory_world \<Rightarrow> bool" where
  "mw_inv w \<equiv> mem_inv (mw_memory w)"

lemma memory_world_store: "atomic_store memory_world_ops mw_view mw_inv (\<lambda>_. True)"
  unfolding memory_world_ops_def by (rule lift_atomic [OF memory.atomic_store_axioms]) simp

interpretation memory_world: exact_world memory_world_ops mw_view mw_inv "\<lambda>_. True" memory_world_env "''mem''"
proof (intro exact_world.intro dns_world.intro dns_world_axioms.intro)
  show "dns_store memory_world_ops mw_view mw_inv (\<lambda>_. True)"
    using memory_world_store by (rule atomic_store.axioms)
  then show "guarded_store memory_world_ops mw_view mw_inv (\<lambda>_. True)" by (rule dns_store.axioms)
qed (auto simp: memory_world_env_def)

subsection \<open>Properties of a round\<close>

definition changed_by_others_kept ::
  "(string \<Rightarrow> record_type \<Rightarrow> observed option) \<Rightarrow> (string \<Rightarrow> record_type \<Rightarrow> observed option) \<Rightarrow> provider_state \<Rightarrow> desired_record list \<Rightarrow> bool" where
  "changed_by_others_kept v v' st ds \<longleftrightarrow>
     (\<forall>n t. v' n t \<noteq> v n t \<longrightarrow>
        (\<exists>d \<in> set ds. rs_name (dr_set d) = n \<and> rs_type (dr_set d) = t \<and> may_change (v n t) d (map_of (st_records st) (dr_key d))))"

text \<open>C7. A round never overwrites what others put at the provider, for every provider that checks the
  condition of a replacement. If a record set is different after \<open>reconcile_provider\<close>, then it is one of
  the configured records of this provider, what was there before has no unsupported settings, and either
  the state file had an entry and the provider held exactly what was last applied or a state that
  the recorded unfinished change passes through, or there was no entry, the record is to exist, and there was
  nothing at the provider or the record allows to import it. This holds in the presence of failed
  requests, lost leases and replacements that are dropped halfway.\<close>

theorem reconcile_never_overwrites:
  assumes "dns_world P view ok writable E p" "ok w"
    and "load_state (re_load E p w) = Inr st"
    and "distinct (map dr_key (records_for R p))" "\<forall>d \<in> set (records_for R p). writable_record writable d"
    and "reconcile_provider E R p gens w = (outs, gens', w')"
  shows "ok w' \<and> changed_by_others_kept (view w) (view w') st (records_for R p)"
  using dns_world.reconcile_provider_safe [OF assms(1,2,6,3,4,5)] by (simp add: changed_by_others_kept_def)

definition test_record :: "string set \<Rightarrow> desired_record" where
  "test_record vs =
     \<lparr>dr_provider = ''mem'', dr_set = \<lparr>rs_name = ''w.x'', rs_type = RA, rs_ttl = 60, rs_values = vs, rs_proxied = None\<rparr>,
      dr_import = False, dr_absent = False\<rparr>"

definition test_provider :: provider_spec where
  "test_provider =
     \<lparr>ps_name = ''mem'', ps_kind = Cloudflare, ps_zone = ''x'',
      ps_config = \<lparr>dpc_name = ''mem'', dpc_kind = Cloudflare, dpc_zone = ''x'', dpc_zone_id = Some ''z'', dpc_api_token_env = None,
                    dpc_api_token_file = None, dpc_api_base_url = None, dpc_hosted_zone_id = None, dpc_endpoint_url = None,
                    dpc_region = None, dpc_request_timeout_secs = 5\<rparr>\<rparr>"

definition test_reconciler :: reconciler where
  "test_reconciler =
     \<lparr>rc_settle_secs = 0, rc_dry_run = False, rc_compiled = \<lparr>cd_allowed_zones = [''x''], cd_providers = [test_provider], cd_records = [test_record {''0.0.0.1''}]\<rparr>, rc_writer = SingleWriter\<rparr>"

definition test_world :: memory_world where
  "test_world = \<lparr>mw_now = 0, mw_files = [], mw_memory = new_memory\<rparr>"

lemma test_world_inv: "mw_inv test_world"
  by (simp add: test_world_def new_memory_def mem_inv_def)

lemma test_records: "records_for test_reconciler ''mem'' = [test_record {''0.0.0.1''}]"
  by (simp add: records_for_def test_reconciler_def test_record_def)

theorem reconcile_never_overwrites_witness:
  "case reconcile_provider memory_world_env test_reconciler ''mem'' [] test_world of
     (outs, gens', w') \<Rightarrow> mw_inv w' \<and> changed_by_others_kept (mw_view test_world) (mw_view w') default_state [test_record {''0.0.0.1''}]"
proof -
  obtain outs gens' w' where run: "reconcile_provider memory_world_env test_reconciler ''mem'' [] test_world = (outs, gens', w')"
    by (cases "reconcile_provider memory_world_env test_reconciler ''mem'' [] test_world") auto
  have st: "load_state (re_load memory_world_env ''mem'' test_world) = Inr default_state"
    by (simp add: load_state_def memory_world_env_def test_world_def)
  have "mw_inv w' \<and> changed_by_others_kept (mw_view test_world) (mw_view w') default_state (records_for test_reconciler ''mem'')"
    by (rule reconcile_never_overwrites [OF memory_world.dns_world_axioms test_world_inv st _ _ run])
      (simp_all add: test_records writable_record_def)
  then show ?thesis unfolding run prod.case test_records .
qed

theorem reconcile_intent_first_witness:
  "case reconcile_once (traced memory_world_env) test_reconciler [] (test_world, []) of
     (outs, gens', w', events) \<Rightarrow>
       reconcile_once memory_world_env test_reconciler [] test_world = (outs, gens', w') \<and> intent_first SingleWriter events"
proof -
  obtain outs gens' w' events
    where run: "reconcile_once (traced memory_world_env) test_reconciler [] (test_world, []) = (outs, gens', w', events)"
    by (cases "reconcile_once (traced memory_world_env) test_reconciler [] (test_world, [])") auto
  have "rc_writer test_reconciler = SingleWriter" by (simp add: test_reconciler_def)
  with reconcile_intent_first [OF run] show ?thesis unfolding run prod.case by simp
qed

text \<open>C28. A change that was made stays made, for every provider that writes what it confirms. If the outcome
  of a record is a change without an error, then the provider now has the target, and at any later time
  the decision for the record, with the state that the round left, is that there is nothing to do, or,
  for a record that was to be removed, to forget it. So the next round does not change it again.\<close>

theorem reconcile_converges:
  assumes "exact_world P view ok writable E pn" "ok w" "writable_record writable d"
    and "reconcile_record E R P p d st g w = (out, st', w')" "ro_error out = None" "ro_action out = Apply e t"
  shows "written (view w' (rs_name (dr_set d)) (rs_type (dr_set d))) t
    \<and> (\<forall>now settle. decide d (view w' (rs_name (dr_set d)) (rs_type (dr_set d))) (map_of (st_records st') (dr_key d)) now settle
         = (if dr_absent d then Forget else NoChange))"
  by (rule exact_world.reconcile_record_writes [OF assms])

lemma test_run:
  obtains out st' w' where
    "reconcile_record memory_world_env test_reconciler memory_world_ops ''mem'' (test_record {''0.0.0.1''}) default_state 1 test_world = (out, st', w')"
    "ro_error out = None" "ro_action out = Apply None (Some (dr_set (test_record {''0.0.0.1''})))"
proof -
  let ?d = "test_record {''0.0.0.1''}"
  let ?run = "reconcile_record memory_world_env test_reconciler memory_world_ops ''mem'' ?d default_state 1 test_world"
  have "ro_error (fst ?run) = None \<and> ro_action (fst ?run) = Apply None (Some (dr_set ?d))" by code_simp
  with that show thesis by (cases ?run) auto
qed

theorem reconcile_converges_witness:
  "\<exists>out st' w'.
     reconcile_record memory_world_env test_reconciler memory_world_ops ''mem'' (test_record {''0.0.0.1''}) default_state 1 test_world = (out, st', w')
     \<and> written (mw_view w' ''w.x'' RA) (Some (dr_set (test_record {''0.0.0.1''})))
     \<and> decide (test_record {''0.0.0.1''}) (mw_view w' ''w.x'' RA)
         (map_of (st_records st') (dr_key (test_record {''0.0.0.1''}))) 5 0 = NoChange"
proof -
  obtain out st' w' where run:
    "reconcile_record memory_world_env test_reconciler memory_world_ops ''mem'' (test_record {''0.0.0.1''}) default_state 1 test_world = (out, st', w')"
    "ro_error out = None" "ro_action out = Apply None (Some (dr_set (test_record {''0.0.0.1''})))"
    by (rule test_run)
  have wr: "writable_record (\<lambda>_. True) (test_record {''0.0.0.1''})" by (simp add: writable_record_def)
  have "rs_name (dr_set (test_record {''0.0.0.1''})) = ''w.x''" "rs_type (dr_set (test_record {''0.0.0.1''})) = RA"
    "\<not> dr_absent (test_record {''0.0.0.1''})"
    by (simp_all add: test_record_def)
  with reconcile_converges [OF memory_world.exact_world_axioms test_world_inv wr run] run(1) show ?thesis by simp
qed

end
