(* ===== verification/Dns_Txt.thy ===== *)
theory Dns_Txt
  imports Dns_Reconciler
begin

text \<open>
  TXT records for the DNS-01 validation of ACME (\<open>sievetube-edge/src/dns/txt.rs\<close>): values are added to
  and removed from a record set one at a time, each journaled before it is published. The record
  \<open>txt_env\<close> has the clock, sleeping, the resolver, and the journal file with its lock. Times are
  nanoseconds that do not reach the width of a \<open>Duration\<close>.
\<close>

subsection \<open>The solver\<close>

datatype txt_lookup = DnsLookup | ProviderApi

datatype dns_answer = CnameAnswer string | TxtAnswer "bytes list" | OtherAnswer

record txt_handle =
  th_zone :: string
  th_name :: string
  th_value :: string
  th_domain :: string

datatype journal_read = JournalMissing | JournalFailed string | JournalContent "(string, txt_handle list) result"

record 'w txt_env =
  tx_now :: "'w \<Rightarrow> nat"
  tx_sleep :: "nat \<Rightarrow> 'w \<Rightarrow> 'w"
  tx_lookup :: "string \<Rightarrow> record_type \<Rightarrow> 'w \<Rightarrow> dns_answer list option \<times> 'w"
  tx_lock :: "('w, string, unit) io"
  tx_read :: "'w \<Rightarrow> journal_read"
  tx_write :: "txt_handle list \<Rightarrow> ('w, string, unit) io"

record 'w txt_solver =
  ts_providers :: "(string \<times> 'w provider_ops) list"
  ts_allowed_zones :: "string list"
  ts_lookup :: txt_lookup
  ts_ttl :: nat
  ts_propagation_timeout :: nat
  ts_poll_interval :: nat

datatype txt_error =
    InvalidDelegation hostname_error | OutsideAllowedZones | NoZoneCovers | NoZoneProvider | CannotManageTxt string
  | TxtProviderError dns_error | NotAppliedInTime | NotVisibleInTime | TooManyChanges | JournalError string

definition MAX_ATTEMPTS :: nat where "MAX_ATTEMPTS = 6"

definition from_millis :: "nat \<Rightarrow> nat" where "from_millis n = n * 1000000"

definition handle_domain :: "txt_handle \<Rightarrow> string option" where
  "handle_domain h = (if th_domain h \<noteq> [] then Some (th_domain h) else strip_prefix ''_acme-challenge.'' (th_name h))"

text \<open>The provider of the longest zone comes first.\<close>

definition new_solver ::
  "(string \<times> 'w provider_ops) list \<Rightarrow> string list \<Rightarrow> txt_lookup \<Rightarrow> nat \<Rightarrow> nat \<Rightarrow> nat \<Rightarrow> 'w txt_solver" where
  "new_solver providers allowed lookup ttl propagation_timeout poll_interval =
     \<lparr>ts_providers = sort_key (\<lambda>(zone, _). - int (length zone)) providers, ts_allowed_zones = allowed, ts_lookup = lookup,
      ts_ttl = ttl, ts_propagation_timeout = propagation_timeout, ts_poll_interval = poll_interval\<rparr>"

definition provider_for :: "'w txt_solver \<Rightarrow> string \<Rightarrow> (string \<times> 'w provider_ops) option" where
  "provider_for S name = find (\<lambda>(zone, _). is_within_zone name zone) (ts_providers S)"

definition zone_provider :: "'w txt_solver \<Rightarrow> string \<Rightarrow> (txt_error, 'w provider_ops) result" where
  "zone_provider S zone =
     (case find (\<lambda>(z, _). z = zone) (ts_providers S) of None \<Rightarrow> Inl NoZoneProvider | Some (_, p) \<Rightarrow> Inr p)"

definition delegation_allowed :: "string \<Rightarrow> string list \<Rightarrow> bool" where
  "delegation_allowed target allowed_zones = list_ex (is_within_zone target) allowed_zones"

fun first_cname :: "dns_answer list \<Rightarrow> string option" where
  "first_cname [] = None"
| "first_cname (CnameAnswer target # _) = Some target"
| "first_cname (_ # answers) = first_cname answers"

definition challenge_name :: "'w txt_env \<Rightarrow> 'w txt_solver \<Rightarrow> string \<Rightarrow> ('w, txt_error, string) io" where
  "challenge_name X S domain w =
     (let name = ''_acme-challenge.'' @ domain
      in case ts_lookup S of
           ProviderApi \<Rightarrow> (Inr name, w)
         | DnsLookup \<Rightarrow>
             (case tx_lookup X name RCname w of
                (None, w') \<Rightarrow> (Inr name, w')
              | (Some answers, w') \<Rightarrow>
                  (case first_cname answers of
                     None \<Rightarrow> (Inr name, w')
                   | Some target \<Rightarrow>
                       (case normalize_dns_name target of
                          Inl e \<Rightarrow> (Inl (InvalidDelegation e), w')
                        | Inr t \<Rightarrow> if delegation_allowed t (ts_allowed_zones S) then (Inr t, w') else (Inl OutsideAllowedZones, w')))))"

subsection \<open>The journal\<close>

definition read_journal :: "'w txt_env \<Rightarrow> 'w \<Rightarrow> (txt_error, txt_handle list) result" where
  "read_journal X w =
     (case tx_read X w of
        JournalContent (Inr entries) \<Rightarrow> Inr entries
      | JournalContent (Inl e) \<Rightarrow> Inl (JournalError (''corrupt DNS-01 journal: '' @ e))
      | JournalMissing \<Rightarrow> Inr []
      | JournalFailed e \<Rightarrow> Inl (JournalError e))"

definition journal_update ::
  "'w txt_env \<Rightarrow> (txt_handle list \<Rightarrow> txt_handle list) \<Rightarrow> ('w, txt_error, unit) io" where
  "journal_update X update w =
     (case tx_lock X w of
        (Inl e, w1) \<Rightarrow> (Inl (JournalError e), w1)
      | (Inr _, w1) \<Rightarrow>
          (case read_journal X w1 of
             Inl e \<Rightarrow> (Inl e, w1)
           | Inr entries \<Rightarrow>
               (case tx_write X (update entries) w1 of
                  (Inl e, w2) \<Rightarrow> (Inl (JournalError e), w2)
                | (Inr _, w2) \<Rightarrow> (Inr (), w2))))"

definition journal_add :: "txt_handle \<Rightarrow> txt_handle list \<Rightarrow> txt_handle list" where
  "journal_add h entries = (if h \<in> set entries then entries else entries @ [h])"

definition journal_drop :: "txt_handle \<Rightarrow> txt_handle list \<Rightarrow> txt_handle list" where
  "journal_drop h entries = filter (\<lambda>e. e \<noteq> h) entries"

definition journal_entries :: "'w txt_env \<Rightarrow> 'w \<Rightarrow> txt_handle list" where
  "journal_entries X w = (case read_journal X w of Inr entries \<Rightarrow> entries | Inl _ \<Rightarrow> [])"

subsection \<open>Waiting\<close>

definition observed_set :: "'w provider_ops \<Rightarrow> string \<Rightarrow> ('w, txt_error, record_set option) io" where
  "observed_set P name w =
     (case pv_get P name RTxt w of
        (Inl e, w') \<Rightarrow> (Inl (TxtProviderError e), w')
      | (Inr None, w') \<Rightarrow> (Inr None, w')
      | (Inr (Some ob), w') \<Rightarrow>
          (case ob_unsupported ob of
             Some reason \<Rightarrow> (Inl (CannotManageTxt reason), w')
           | None \<Rightarrow> (Inr (Some (ob_set ob)), w')))"

partial_function (option) sync_loop ::
  "'w txt_env \<Rightarrow> 'w provider_ops \<Rightarrow> change_ticket \<Rightarrow> nat \<Rightarrow> nat \<Rightarrow> 'w \<Rightarrow> ((txt_error, unit) result \<times> 'w) option" where
  "sync_loop X P ticket deadline delay w =
     (case change_synced P ticket w of
        (Inl e, w1) \<Rightarrow> Some (Inl (TxtProviderError e), w1)
      | (Inr synced, w1) \<Rightarrow>
          if synced then Some (Inr (), w1)
          else if tx_now X w1 \<ge> deadline then Some (Inl NotAppliedInTime, w1)
          else sync_loop X P ticket deadline (min (delay * 2) (from_millis 5000)) (tx_sleep X delay w1))"

definition wait_synced ::
  "'w txt_env \<Rightarrow> 'w provider_ops \<Rightarrow> change_ticket \<Rightarrow> nat \<Rightarrow> 'w \<Rightarrow> ((txt_error, unit) result \<times> 'w) option" where
  "wait_synced X P ticket limit w = sync_loop X P ticket (tx_now X w + limit) (from_millis 200) w"

definition retry_or_fail :: "'w txt_env \<Rightarrow> dns_error \<Rightarrow> nat \<Rightarrow> ('w, txt_error, unit) io" where
  "retry_or_fail X e attempt w =
     (case e of
        DnsConflict _ \<Rightarrow> (Inr (), tx_sleep X (from_millis (100 * attempt)) w)
      | RateLimited retry_after \<Rightarrow>
          (Inr (), tx_sleep X (min (case retry_after of None \<Rightarrow> from_millis 2000 | Some secs \<Rightarrow> from_millis (1000 * secs)) (from_millis 30000)) w)
      | other \<Rightarrow> (Inl (TxtProviderError other), w))"

text \<open>\<open>String::from_utf8_lossy\<close>: a maximal broken sequence becomes U+FFFD.\<close>

fun tails_matched :: "(nat \<times> nat) list \<Rightarrow> bytes \<Rightarrow> nat" where
  "tails_matched ((lo, hi) # rs) (b # bs) = (if in_range lo hi b then Suc (tails_matched rs bs) else 0)"
| "tails_matched _ _ = 0"

function from_utf8_lossy :: "bytes \<Rightarrow> bytes" where
  "from_utf8_lossy bs =
     (case bs of
        [] \<Rightarrow> []
      | b # bs' \<Rightarrow>
          (case utf8_rest bs of
             Some r \<Rightarrow> take (length bs - length r) bs @ from_utf8_lossy r
           | None \<Rightarrow>
               let broken = (case utf8_tails b of None \<Rightarrow> 0 | Some rs \<Rightarrow> tails_matched rs bs')
               in [0xEF, 0xBF, 0xBD] @ from_utf8_lossy (drop broken bs')))"
  by pat_completeness auto
termination
  by (relation "measure length") (auto dest: utf8_rest_shorter)

declare from_utf8_lossy.simps [simp del]

definition txt_visible :: "'w txt_env \<Rightarrow> 'w txt_solver \<Rightarrow> txt_handle \<Rightarrow> 'w \<Rightarrow> bool \<times> 'w" where
  "txt_visible X S h w =
     (case ts_lookup S of
        DnsLookup \<Rightarrow>
          (case tx_lookup X (th_name h) RTxt w of
             (None, w') \<Rightarrow> (False, w')
           | (Some answers, w') \<Rightarrow>
               (list_ex (\<lambda>a. case a of TxtAnswer chunks \<Rightarrow> from_utf8_lossy (concat chunks) = as_bytes (th_value h) | _ \<Rightarrow> False) answers, w'))
      | ProviderApi \<Rightarrow>
          (case zone_provider S (th_zone h) of
             Inl _ \<Rightarrow> (False, w)
           | Inr P \<Rightarrow>
               (case observed_set P (th_name h) w of
                  (Inr (Some found), w') \<Rightarrow> (th_value h \<in> rs_values found, w')
                | (_, w') \<Rightarrow> (False, w'))))"

partial_function (option) propagation_loop ::
  "'w txt_env \<Rightarrow> 'w txt_solver \<Rightarrow> txt_handle \<Rightarrow> nat \<Rightarrow> 'w \<Rightarrow> ((txt_error, unit) result \<times> 'w) option" where
  "propagation_loop X S h deadline w =
     (case txt_visible X S h w of
        (visible, w1) \<Rightarrow>
          if visible then Some (Inr (), w1)
          else if tx_now X w1 \<ge> deadline then Some (Inl NotVisibleInTime, w1)
          else propagation_loop X S h deadline (tx_sleep X (ts_poll_interval S) w1))"

definition wait_propagated ::
  "'w txt_env \<Rightarrow> 'w txt_solver \<Rightarrow> txt_handle \<Rightarrow> 'w \<Rightarrow> ((txt_error, unit) result \<times> 'w) option" where
  "wait_propagated X S h w = propagation_loop X S h (tx_now X w + ts_propagation_timeout S) w"

subsection \<open>Adding and removing a value\<close>

definition new_txt_set :: "'w txt_solver \<Rightarrow> string \<Rightarrow> record_set" where
  "new_txt_set S name = \<lparr>rs_name = name, rs_type = RTxt, rs_ttl = ts_ttl S, rs_values = {}, rs_proxied = None\<rparr>"

definition with_value :: "'w txt_solver \<Rightarrow> string \<Rightarrow> string \<Rightarrow> record_set option \<Rightarrow> record_set" where
  "with_value S name value current =
     (let base = (case current of Some c \<Rightarrow> c | None \<Rightarrow> new_txt_set S name)
      in base\<lparr>rs_values := insert value (rs_values base)\<rparr>)"

definition without_value :: "string \<Rightarrow> record_set \<Rightarrow> record_set option" where
  "without_value value current =
     (let remaining = current\<lparr>rs_values := rs_values current - {value}\<rparr>
      in if rs_values remaining = {} then None else Some remaining)"

fun add_attempts ::
  "'w txt_env \<Rightarrow> 'w txt_solver \<Rightarrow> 'w provider_ops \<Rightarrow> txt_handle \<Rightarrow> nat list \<Rightarrow> 'w \<Rightarrow> ((txt_error, txt_handle) result \<times> 'w) option" where
  "add_attempts X S P h [] w = Some (Inl TooManyChanges, w)"
| "add_attempts X S P h (attempt # attempts) w =
     (case observed_set P (th_name h) w of
        (Inl e, w1) \<Rightarrow> Some (Inl e, w1)
      | (Inr current, w1) \<Rightarrow>
          if th_value h \<in> values_of current then Some (Inr h, w1)
          else
            (case pv_replace P (th_name h) RTxt current (Some (with_value S (th_name h) (th_value h) current)) w1 of
               (Inr ticket, w2) \<Rightarrow>
                 (case wait_synced X P ticket (ts_propagation_timeout S) w2 of
                    None \<Rightarrow> None
                  | Some (Inl e, w3) \<Rightarrow> Some (Inl e, w3)
                  | Some (Inr _, w3) \<Rightarrow> Some (Inr h, w3))
             | (Inl e, w2) \<Rightarrow>
                 (case retry_or_fail X e attempt w2 of
                    (Inl e', w3) \<Rightarrow> Some (Inl e', w3)
                  | (Inr _, w3) \<Rightarrow> add_attempts X S P h attempts w3)))"

definition txt_add ::
  "'w txt_env \<Rightarrow> 'w txt_solver \<Rightarrow> string \<Rightarrow> string \<Rightarrow> 'w \<Rightarrow> ((txt_error, txt_handle) result \<times> 'w) option" where
  "txt_add X S domain value w =
     (case challenge_name X S domain w of
        (Inl e, w1) \<Rightarrow> Some (Inl e, w1)
      | (Inr name, w1) \<Rightarrow>
          (case provider_for S name of
             None \<Rightarrow> Some (Inl NoZoneCovers, w1)
           | Some (zone, P) \<Rightarrow>
               let h = \<lparr>th_zone = zone, th_name = name, th_value = value, th_domain = domain\<rparr>
               in case journal_update X (journal_add h) w1 of
                    (Inl e, w2) \<Rightarrow> Some (Inl e, w2)
                  | (Inr _, w2) \<Rightarrow> add_attempts X S P h [1..<Suc MAX_ATTEMPTS] w2))"

text \<open>The attempts to remove a value tell whether it is gone.\<close>

fun remove_attempts ::
  "'w txt_env \<Rightarrow> 'w txt_solver \<Rightarrow> 'w provider_ops \<Rightarrow> txt_handle \<Rightarrow> nat list \<Rightarrow> 'w \<Rightarrow> ((txt_error, bool) result \<times> 'w) option" where
  "remove_attempts X S P h [] w = Some (Inr False, w)"
| "remove_attempts X S P h (attempt # attempts) w =
     (case observed_set P (th_name h) w of
        (Inl e, w1) \<Rightarrow> Some (Inl e, w1)
      | (Inr None, w1) \<Rightarrow> Some (Inr True, w1)
      | (Inr (Some current), w1) \<Rightarrow>
          if th_value h \<notin> rs_values current then Some (Inr True, w1)
          else
            (case pv_replace P (th_name h) RTxt (Some current) (without_value (th_value h) current) w1 of
               (Inr ticket, w2) \<Rightarrow>
                 (case wait_synced X P ticket (ts_propagation_timeout S) w2 of
                    None \<Rightarrow> None
                  | Some (Inl e, w3) \<Rightarrow> Some (Inl e, w3)
                  | Some (Inr _, w3) \<Rightarrow> Some (Inr True, w3))
             | (Inl e, w2) \<Rightarrow>
                 (case retry_or_fail X e attempt w2 of
                    (Inl e', w3) \<Rightarrow> Some (Inl e', w3)
                  | (Inr _, w3) \<Rightarrow> remove_attempts X S P h attempts w3)))"

definition txt_remove ::
  "'w txt_env \<Rightarrow> 'w txt_solver \<Rightarrow> txt_handle \<Rightarrow> 'w \<Rightarrow> ((txt_error, unit) result \<times> 'w) option" where
  "txt_remove X S h w =
     (case zone_provider S (th_zone h) of
        Inl e \<Rightarrow> Some (Inl e, w)
      | Inr P \<Rightarrow>
          (case remove_attempts X S P h [1..<Suc MAX_ATTEMPTS] w of
             None \<Rightarrow> None
           | Some (Inl e, w1) \<Rightarrow> Some (Inl e, w1)
           | Some (Inr False, w1) \<Rightarrow> Some (Inl TooManyChanges, w1)
           | Some (Inr True, w1) \<Rightarrow> Some (journal_update X (journal_drop h) w1)))"

text \<open>\<open>cleanup_entry\<close> only logs how the removal went.\<close>

definition cleanup_entry :: "'w txt_env \<Rightarrow> 'w txt_solver \<Rightarrow> txt_handle \<Rightarrow> 'w \<Rightarrow> 'w option" where
  "cleanup_entry X S h w = map_option snd (txt_remove X S h w)"

fun cleanup_entries :: "'w txt_env \<Rightarrow> 'w txt_solver \<Rightarrow> txt_handle list \<Rightarrow> 'w \<Rightarrow> 'w option" where
  "cleanup_entries X S [] w = Some w"
| "cleanup_entries X S (h # hs) w = (case cleanup_entry X S h w of None \<Rightarrow> None | Some w1 \<Rightarrow> cleanup_entries X S hs w1)"

definition cleanup_journal :: "'w txt_env \<Rightarrow> 'w txt_solver \<Rightarrow> 'w \<Rightarrow> 'w option" where
  "cleanup_journal X S w = cleanup_entries X S (journal_entries X w) w"

subsection \<open>Everything returns\<close>

lemma provider_for_in:
  "provider_for S name = Some (zone, P) \<Longrightarrow> (zone, P) \<in> set (ts_providers S) \<and> is_within_zone name zone"
  by (auto simp: provider_for_def find_Some_iff) (metis nth_mem)

lemma zone_provider_in: "zone_provider S zone = Inr P \<Longrightarrow> (zone, P) \<in> set (ts_providers S)"
  by (auto simp: zone_provider_def find_Some_iff split: option.splits) (metis nth_mem)

text \<open>A clock that sleeping advances and that provider calls do not turn back.\<close>

locale txt_clock =
  fixes X :: "'w txt_env" and P :: "'w provider_ops"
  assumes sleep_advances: "tx_now X w + d \<le> tx_now X (tx_sleep X d w)"
    and synced_clock: "pv_synced P c w = (r, w') \<Longrightarrow> tx_now X w \<le> tx_now X w'"
    and get_clock: "pv_get P n t w = (r', w') \<Longrightarrow> tx_now X w \<le> tx_now X w'"
begin

lemma sync_loop_returns: "0 < delay \<Longrightarrow> \<exists>y. sync_loop X P ticket deadline delay w = Some y"
proof (induction "deadline - tx_now X w" arbitrary: delay w rule: less_induct)
  case less
  obtain r w1 where s: "change_synced P ticket w = (r, w1)" by fastforce
  have now: "tx_now X w \<le> tx_now X w1"
    using s synced_clock by (cases ticket) (auto simp: change_synced_def io_return_def)
  show ?case
  proof (cases "r = Inr False \<and> tx_now X w1 < deadline")
    case True
    let ?w2 = "tx_sleep X delay w1" and ?delay = "min (delay * 2) (from_millis 5000)"
    have "tx_now X w < tx_now X ?w2" using sleep_advances [of w1 delay] now less.prems by simp
    then have "deadline - tx_now X ?w2 < deadline - tx_now X w" using True now by (elim conjE) arith
    moreover have "0 < ?delay" using less.prems by (simp add: from_millis_def)
    ultimately have "\<exists>y. sync_loop X P ticket deadline ?delay ?w2 = Some y" by (rule less.hyps)
    with True s show ?thesis by (subst sync_loop.simps) simp
  next
    case False
    then show ?thesis by (subst sync_loop.simps) (auto simp: s split: sum.splits)
  qed
qed

lemma wait_synced_returns: "\<exists>y. wait_synced X P ticket limit w = Some y"
  unfolding wait_synced_def by (rule sync_loop_returns) (simp add: from_millis_def)

lemma add_attempts_returns: "\<exists>y. add_attempts X S P h attempts w = Some y"
proof (induction attempts arbitrary: w)
  case (Cons attempt attempts)
  have "\<exists>y. (case wait_synced X P ticket limit v of None \<Rightarrow> None | Some (Inl e, u) \<Rightarrow> Some (Inl e, u) | Some (Inr _, u) \<Rightarrow> Some (Inr h, u)) = Some y"
    for ticket limit v using wait_synced_returns [of ticket limit v] by (auto split: sum.split)
  with Cons.IH show ?case by (auto simp: Let_def split: prod.split sum.split)
qed simp

lemma remove_attempts_returns: "\<exists>y. remove_attempts X S P h attempts w = Some y"
proof (induction attempts arbitrary: w)
  case (Cons attempt attempts)
  have "\<exists>y. (case wait_synced X P ticket limit v of None \<Rightarrow> None | Some (Inl e, u) \<Rightarrow> Some (Inl e, u) | Some (Inr _, u) \<Rightarrow> Some (Inr True, u)) = Some y"
    for ticket limit v using wait_synced_returns [of ticket limit v] by (auto split: sum.split)
  with Cons.IH show ?case by (auto simp: Let_def split: prod.split sum.split option.split)
qed simp

end

text \<open>The solver with such a clock for each of its providers and for the resolver.\<close>

locale solver_clock =
  fixes X :: "'w txt_env" and S :: "'w txt_solver"
  assumes providers_clock: "(zone, P) \<in> set (ts_providers S) \<Longrightarrow> txt_clock X P"
    and sleep_clock: "tx_now X w + d \<le> tx_now X (tx_sleep X d w)"
    and lookup_clock: "tx_lookup X n t w = (r, w') \<Longrightarrow> tx_now X w \<le> tx_now X w'"
    and polls: "0 < ts_poll_interval S"
begin

lemma provider_for_clock: "provider_for S name = Some (zone, P) \<Longrightarrow> txt_clock X P"
  using providers_clock provider_for_in by blast

lemma zone_provider_clock: "zone_provider S zone = Inr P \<Longrightarrow> txt_clock X P"
  using providers_clock zone_provider_in by blast

lemma observed_set_clock: "txt_clock X P \<Longrightarrow> observed_set P n w = (r, w') \<Longrightarrow> tx_now X w \<le> tx_now X w'"
  by (auto simp: observed_set_def split: prod.splits sum.splits option.splits dest: txt_clock.get_clock)

lemma visible_clock: "txt_visible X S h w = (b, w') \<Longrightarrow> tx_now X w \<le> tx_now X w'"
  by (auto simp: txt_visible_def split: txt_lookup.splits prod.splits option.splits sum.splits
      dest: lookup_clock observed_set_clock zone_provider_clock)

lemma propagation_loop_returns: "\<exists>y. propagation_loop X S h deadline w = Some y"
proof (induction "deadline - tx_now X w" arbitrary: w rule: less_induct)
  case less
  obtain b w1 where v: "txt_visible X S h w = (b, w1)" by fastforce
  show ?case
  proof (cases "\<not> b \<and> tx_now X w1 < deadline")
    case True
    let ?w2 = "tx_sleep X (ts_poll_interval S) w1"
    have "tx_now X w < tx_now X ?w2" using sleep_clock [of w1 "ts_poll_interval S"] visible_clock [OF v] polls by simp
    then have "deadline - tx_now X ?w2 < deadline - tx_now X w" using True visible_clock [OF v] by (elim conjE) arith
    from less.hyps [OF this] True v show ?thesis by (subst propagation_loop.simps) simp
  next
    case False
    then show ?thesis by (subst propagation_loop.simps) (auto simp: v)
  qed
qed

lemma add_returns: "\<exists>y. txt_add X S domain value w = Some y"
  using txt_clock.add_attempts_returns [OF provider_for_clock]
  by (auto simp: txt_add_def Let_def simp del: upt_Suc split: prod.split sum.split option.split)

lemma remove_returns: "\<exists>y. txt_remove X S h w = Some y"
proof (cases "zone_provider S (th_zone h)")
  case (Inr P)
  with txt_clock.remove_attempts_returns [OF zone_provider_clock] obtain r w1
    where "remove_attempts X S P h [1..<Suc MAX_ATTEMPTS] w = Some (r, w1)" by fast
  with Inr show ?thesis by (auto simp: txt_remove_def simp del: upt_Suc split: sum.split bool.split)
qed (simp add: txt_remove_def)

lemma cleanup_returns: "\<exists>w'. cleanup_entries X S hs w = Some w'"
proof (induction hs arbitrary: w)
  case (Cons h hs)
  obtain r w1 where "txt_remove X S h w = Some (r, w1)" using remove_returns [of h w] by auto
  with Cons show ?case by (simp add: cleanup_entry_def)
qed simp

end

subsection \<open>Exactly one value is added or removed\<close>

text \<open>TTL and values of a TXT record set, and what the two operations promise on them.\<close>

definition txt_data :: "observed option \<Rightarrow> (nat \<times> string set) option" where
  "txt_data v = map_option (\<lambda>ob. (rs_ttl (ob_set ob), rs_values (ob_set ob))) v"

definition put_value :: "nat \<Rightarrow> string \<Rightarrow> (nat \<times> string set) option \<Rightarrow> (nat \<times> string set) option" where
  "put_value ttl value d = Some (case d of None \<Rightarrow> (ttl, {value}) | Some (t, vs) \<Rightarrow> (t, insert value vs))"

definition drop_value :: "string \<Rightarrow> (nat \<times> string set) option \<Rightarrow> (nat \<times> string set) option" where
  "drop_value value d =
     (case d of
        None \<Rightarrow> None
      | Some (t, vs) \<Rightarrow> if value \<notin> vs then d else if vs = {value} then None else Some (t, vs - {value}))"

lemma drop_put_value:
  assumes "\<forall>t vs. d = Some (t, vs) \<longrightarrow> value \<notin> vs \<and> vs \<noteq> {}"
  shows "drop_value value (put_value ttl value d) = d"
  using assms by (cases d) (auto simp: drop_value_def put_value_def)

lemma put_value_present: "d = Some (t, vs) \<Longrightarrow> value \<in> vs \<Longrightarrow> put_value ttl value d = d"
  by (auto simp: put_value_def)

lemma drop_value_absent: "(\<forall>t vs. d = Some (t, vs) \<longrightarrow> value \<notin> vs) \<Longrightarrow> drop_value value d = d"
  by (auto simp: drop_value_def split: option.splits)

lemma written_Some:
  "written v' (Some d) \<Longrightarrow> txt_data v' = Some (rs_ttl d, rs_values d)"
  by (cases v') (simp_all add: written_def txt_data_def same_data_def)

lemma written_with_value:
  assumes "written v' (Some (with_value S n value (map_option ob_set v)))"
  shows "txt_data v' = put_value (ts_ttl S) value (txt_data v)"
  using written_Some [OF assms] by (cases v) (simp_all add: txt_data_def put_value_def with_value_def new_txt_set_def Let_def)

lemma written_without_value:
  assumes "written v' (without_value value (ob_set ob))" "value \<in> rs_values (ob_set ob)"
  shows "txt_data v' = drop_value value (txt_data (Some ob))"
proof (cases "rs_values (ob_set ob) = {value}")
  case True
  with assms(1) show ?thesis by (simp add: without_value_def Let_def written_def txt_data_def drop_value_def)
next
  case False
  then have "rs_values (ob_set ob) - {value} \<noteq> {}" using assms(2) by blast
  then have wo: "without_value value (ob_set ob) = Some ((ob_set ob)\<lparr>rs_values := rs_values (ob_set ob) - {value}\<rparr>)"
    by (simp add: without_value_def Let_def)
  from written_Some [OF assms(1) [unfolded wo]] assms(2) False show ?thesis by (simp add: txt_data_def drop_value_def)
qed

text \<open>A step that leaves the records and the journal alone.\<close>

definition txt_quiet ::
  "('w \<Rightarrow> bool) \<Rightarrow> ('w \<Rightarrow> string \<Rightarrow> record_type \<Rightarrow> observed option) \<Rightarrow> 'w txt_env \<Rightarrow> 'w \<Rightarrow> 'w \<Rightarrow> bool" where
  "txt_quiet ok view X w w' \<longleftrightarrow> ok w' \<and> view w' = view w \<and> tx_read X w' = tx_read X w"

locale txt_world = atomic_store P view inv writable
  for P :: "'w provider_ops" and view :: "'w \<Rightarrow> string \<Rightarrow> record_type \<Rightarrow> observed option"
    and inv :: "'w \<Rightarrow> bool" and writable :: "record_set \<Rightarrow> bool" +
  fixes X :: "'w txt_env"
  assumes txt_writable: "rs_type r = RTxt \<Longrightarrow> writable r"
    and sleep_frame: "inv w \<Longrightarrow> inv (tx_sleep X dur w) \<and> view (tx_sleep X dur w) = view w \<and> tx_read X (tx_sleep X dur w) = tx_read X w"
    and lookup_frame: "inv w \<Longrightarrow> tx_lookup X n t w = (ans, w') \<Longrightarrow> inv w' \<and> view w' = view w \<and> tx_read X w' = tx_read X w"
    and lock_frame: "inv w \<Longrightarrow> tx_lock X w = (l, w') \<Longrightarrow> inv w' \<and> view w' = view w \<and> tx_read X w' = tx_read X w"
    and write_frame: "inv w \<Longrightarrow> tx_write X es w = (l, w') \<Longrightarrow> inv w' \<and> view w' = view w"
    and write_read: "inv w \<Longrightarrow> tx_write X es w = (Inr u, w') \<Longrightarrow> tx_read X w' = JournalContent (Inr es)"
    and get_journal: "inv w \<Longrightarrow> pv_get P n t w = (g, w') \<Longrightarrow> tx_read X w' = tx_read X w"
    and replace_journal: "inv w \<Longrightarrow> pv_replace P n t e d w = (k, w') \<Longrightarrow> tx_read X w' = tx_read X w"
    and synced_journal: "inv w \<Longrightarrow> pv_synced P c w = (b, w') \<Longrightarrow> tx_read X w' = tx_read X w"
begin

lemma change_synced_quiet: "inv w \<Longrightarrow> change_synced P ticket w = (b, w') \<Longrightarrow> txt_quiet inv view X w w'"
  using change_synced_frame [of w ticket b w'] synced_journal
  by (cases ticket) (auto simp: txt_quiet_def change_synced_def io_return_def)

lemma sync_loop_quiet:
  assumes "sync_loop X P ticket deadline delay w = Some y" "inv w"
  shows "txt_quiet inv view X w (snd y)"
proof -
  let ?Q = "\<lambda>(((((X', P'), ticket), deadline), delay), w) y. X' = X \<longrightarrow> P' = P \<longrightarrow> inv w \<longrightarrow> txt_quiet inv view X w (snd y)"
  have "?Q (((((X, P), ticket), deadline), delay), w) y"
  proof (rule sync_loop.raw_induct [where Pa = ?Q, OF _ assms(1)])
    fix loop X' P' ticket deadline delay w y
    assume IH: "\<And>X' P' ticket deadline delay w y. loop X' P' ticket deadline delay w = Some y \<Longrightarrow> ?Q (((((X', P'), ticket), deadline), delay), w) y"
      and body: "(case change_synced P' ticket w of
          (Inl e, w1) \<Rightarrow> Some (Inl (TxtProviderError e), w1)
        | (Inr synced, w1) \<Rightarrow>
            if synced then Some (Inr (), w1)
            else if deadline \<le> tx_now X' w1 then Some (Inl NotAppliedInTime, w1)
            else loop X' P' ticket deadline (min (delay * 2) (from_millis 5000)) (tx_sleep X' delay w1)) = Some y"
    show "?Q (((((X', P'), ticket), deadline), delay), w) y"
      unfolding prod.case
    proof (intro impI)
      assume same: "X' = X" "P' = P" and inv: "inv w"
      obtain b w1 where s: "change_synced P ticket w = (b, w1)" by fastforce
      note q = change_synced_quiet [OF inv s]
      have sl: "txt_quiet inv view X w1 (tx_sleep X delay w1)" using sleep_frame [of w1] q by (simp add: txt_quiet_def)
      show "txt_quiet inv view X w (snd y)"
      proof (cases "snd y = w1")
        case True
        with q show ?thesis by simp
      next
        case False
        then have "loop X P ticket deadline (min (delay * 2) (from_millis 5000)) (tx_sleep X delay w1) = Some y"
          using body s same by (auto split: sum.splits if_splits)
        from IH [OF this] sl q show ?thesis by (simp add: txt_quiet_def)
      qed
    qed
  qed
  with assms(2) show ?thesis by simp
qed

lemma wait_synced_quiet: "wait_synced X P ticket limit w = Some (r, w') \<Longrightarrow> inv w \<Longrightarrow> txt_quiet inv view X w w'"
  using sync_loop_quiet [of ticket _ _ w "(r, w')"] by (simp add: wait_synced_def)

lemma retry_quiet: "retry_or_fail X e attempt w = (r, w') \<Longrightarrow> inv w \<Longrightarrow> txt_quiet inv view X w w'"
  using sleep_frame [of w] by (auto simp: retry_or_fail_def txt_quiet_def split: dns_error.splits)

lemma observed_set_quiet:
  assumes "observed_set P n w = (r, w')" "inv w"
  shows "txt_quiet inv view X w w' \<and> (\<forall>c. r = Inr c \<longrightarrow> c = map_option ob_set (view w n RTxt))"
proof -
  obtain g w1 where g: "pv_get P n RTxt w = (g, w1)" by fastforce
  have q: "txt_quiet inv view X w w1" using get_frame [OF assms(2) g] get_journal [OF assms(2) g] by (simp add: txt_quiet_def)
  show ?thesis
  proof (cases g)
    case (Inr ob)
    with get_view [OF assms(2)] g have "ob = view w n RTxt" by simp
    with assms(1) g Inr q show ?thesis by (cases "view w n RTxt") (auto simp: observed_set_def split: option.splits)
  qed (use assms(1) g q in \<open>auto simp: observed_set_def\<close>)
qed

text \<open>A replacement of the TXT set under a name with the target that was computed from its current data.\<close>

lemma replace_txt:
  assumes "inv w" "target_for writable n RTxt d" "pv_replace P n RTxt e d w = (k, w')"
  shows "inv w' \<and> tx_read X w' = tx_read X w \<and> (\<forall>n' t'. (n', t') \<noteq> (n, RTxt) \<longrightarrow> view w' n' t' = view w n' t')
    \<and> (if is_ok k then written (view w' n RTxt) d else view w' = view w)"
  using replace_inv [OF assms] replace_journal [OF assms(1,3)] replace_other [OF assms] replace_ok [OF assms(1,2)] replace_err [OF assms(1,2)] assms(3)
  by (cases k) auto

lemma with_value_target:
  "inv w \<Longrightarrow> target_for writable n RTxt (Some (with_value S n value (map_option ob_set (view w n RTxt))))"
  using view_named [of w n RTxt]
  by (cases "view w n RTxt") (auto simp: target_for_def with_value_def new_txt_set_def Let_def txt_writable)

lemma without_value_target:
  "inv w \<Longrightarrow> view w n RTxt = Some ob \<Longrightarrow> target_for writable n RTxt (without_value value (ob_set ob))"
  using view_named [of w n RTxt] by (auto simp: target_for_def without_value_def Let_def txt_writable)

end

text \<open>What may differ after an operation on the TXT set of a name, and what of the journal.\<close>

definition txt_touched ::
  "('w \<Rightarrow> bool) \<Rightarrow> ('w \<Rightarrow> string \<Rightarrow> record_type \<Rightarrow> observed option) \<Rightarrow> 'w txt_env \<Rightarrow> string
   \<Rightarrow> ((nat \<times> string set) option \<Rightarrow> (nat \<times> string set) option) \<Rightarrow> 'w \<Rightarrow> 'w \<Rightarrow> bool" where
  "txt_touched ok view X n f w w' \<longleftrightarrow>
     ok w' \<and> tx_read X w' = tx_read X w \<and> (\<forall>n' t'. (n', t') \<noteq> (n, RTxt) \<longrightarrow> view w' n' t' = view w n' t')
     \<and> (view w' = view w \<or> txt_data (view w' n RTxt) = f (txt_data (view w n RTxt)))"

lemma touched_quiet: "txt_quiet ok view X w w' \<Longrightarrow> txt_touched ok view X n f w w'"
  by (simp add: txt_quiet_def txt_touched_def)

lemma quiet_touched: "txt_quiet ok view X a b \<Longrightarrow> txt_touched ok view X n f b c \<Longrightarrow> txt_touched ok view X n f a c"
  by (auto simp: txt_quiet_def txt_touched_def)

lemma touched_then_quiet: "txt_touched ok view X n f a b \<Longrightarrow> txt_quiet ok view X b c \<Longrightarrow> txt_touched ok view X n f a c"
  by (auto simp: txt_quiet_def txt_touched_def)

lemma in_txt_data: "value \<in> values_of (map_option ob_set v) \<Longrightarrow> \<exists>t vs. txt_data v = Some (t, vs) \<and> value \<in> vs"
  by (cases v) (auto simp: values_of_def txt_data_def)

context txt_world
begin

lemma submitted_touched:
  assumes "txt_quiet inv view X w w1" "target_for writable n RTxt d" "pv_replace P n RTxt e d w1 = (Inr ticket, w2)"
    and "wait_synced X P ticket limit w2 = Some (s, w3)"
    and f: "written (view w2 n RTxt) d \<Longrightarrow> txt_data (view w2 n RTxt) = f (txt_data (view w n RTxt))"
  shows "txt_touched inv view X n f w w3 \<and> txt_data (view w3 n RTxt) = f (txt_data (view w n RTxt))"
  using replace_txt [OF _ assms(2,3)] wait_synced_quiet [OF assms(4)] assms(1) f
  by (auto simp: txt_touched_def txt_quiet_def)

lemma retried_quiet:
  assumes "txt_quiet inv view X w w1" "target_for writable n RTxt d" "pv_replace P n RTxt e d w1 = (Inl er, w2)"
    and "retry_or_fail X er attempt w2 = (r, w3)"
  shows "txt_quiet inv view X w w3"
  using replace_txt [OF _ assms(2,3)] retry_quiet [OF assms(4)] assms(1) by (auto simp: txt_quiet_def)

lemma add_attempts_exact:
  "add_attempts X S P h attempts w = Some (r, w') \<Longrightarrow> inv w \<Longrightarrow>
     txt_touched inv view X (th_name h) (put_value (ts_ttl S) (th_value h)) w w'
     \<and> (is_ok r \<longrightarrow> r = Inr h \<and> txt_data (view w' (th_name h) RTxt) = put_value (ts_ttl S) (th_value h) (txt_data (view w (th_name h) RTxt)))"
proof (induction attempts arbitrary: w)
  case Nil
  then show ?case by (auto simp: txt_touched_def)
next
  case (Cons attempt attempts)
  let ?n = "th_name h" and ?f = "put_value (ts_ttl S) (th_value h)"
  obtain c w1 where o: "observed_set P ?n w = (c, w1)" by fastforce
  note q1 = observed_set_quiet [OF o Cons.prems(2)]
  show ?case
  proof (cases c)
    case (Inl e)
    with Cons.prems(1) o q1 show ?thesis by (auto intro: touched_quiet)
  next
    case (Inr current)
    then have cur: "current = map_option ob_set (view w1 ?n RTxt)" using q1 by (simp add: txt_quiet_def)
    show ?thesis
    proof (cases "th_value h \<in> values_of current")
      case True
      then have "?f (txt_data (view w ?n RTxt)) = txt_data (view w ?n RTxt)"
        using in_txt_data [of "th_value h" "view w ?n RTxt"] put_value_present q1 Inr by auto
      with True Cons.prems(1) o Inr q1 show ?thesis by (auto simp: txt_quiet_def txt_touched_def)
    next
      case False
      have inv1: "inv w1" using q1 by (simp add: txt_quiet_def)
      obtain k w2 where k: "pv_replace P ?n RTxt current (Some (with_value S ?n (th_value h) current)) w1 = (k, w2)" by fastforce
      note tgt = with_value_target [OF inv1, of ?n S "th_value h", folded cur]
      show ?thesis
      proof (cases k)
        case (Inr ticket)
        obtain s where s: "wait_synced X P ticket (ts_propagation_timeout S) w2 = Some (s, w')" "is_ok r \<longrightarrow> r = Inr h"
          using Cons.prems(1) o \<open>c = Inr current\<close> False k Inr by (auto split: option.splits prod.splits sum.splits)
        have "txt_data (view w2 ?n RTxt) = ?f (txt_data (view w ?n RTxt))"
          if "written (view w2 ?n RTxt) (Some (with_value S ?n (th_value h) current))"
          using written_with_value [OF that [unfolded cur]] q1 by (simp add: txt_quiet_def)
        from submitted_touched [where f = ?f, OF conjunct1 [OF q1] tgt k [unfolded Inr] s(1) this] s(2) show ?thesis by simp
      next
        case fail: (Inl e)
        obtain f w3 where f: "retry_or_fail X e attempt w2 = (f, w3)" by fastforce
        note q3 = retried_quiet [OF conjunct1 [OF q1] tgt k [unfolded fail] f]
        show ?thesis
        proof (cases f)
          case (Inl e')
          with Cons.prems(1) o \<open>c = Inr current\<close> False k fail f q3 show ?thesis by (auto intro: touched_quiet)
        next
          case (Inr u)
          then have "add_attempts X S P h attempts w3 = Some (r, w')"
            using Cons.prems(1) o \<open>c = Inr current\<close> False k fail f by simp
          from Cons.IH [OF this] q3 quiet_touched [OF q3] show ?thesis by (auto simp: txt_quiet_def)
        qed
      qed
    qed
  qed
qed

lemma remove_attempts_exact:
  "remove_attempts X S P h attempts w = Some (r, w') \<Longrightarrow> inv w \<Longrightarrow>
     txt_touched inv view X (th_name h) (drop_value (th_value h)) w w'
     \<and> (r = Inr True \<longrightarrow> txt_data (view w' (th_name h) RTxt) = drop_value (th_value h) (txt_data (view w (th_name h) RTxt)))"
proof (induction attempts arbitrary: w)
  case Nil
  then show ?case by (auto simp: txt_touched_def)
next
  case (Cons attempt attempts)
  let ?n = "th_name h" and ?f = "drop_value (th_value h)"
  obtain c w1 where o: "observed_set P ?n w = (c, w1)" by fastforce
  note q1 = observed_set_quiet [OF o Cons.prems(2)]
  have inv1: "inv w1" using q1 by (simp add: txt_quiet_def)
  show ?case
  proof (cases "\<exists>current. c = Inr (Some current) \<and> th_value h \<in> rs_values current")
    case False
    then have "w' = w1" "r = Inr True \<longrightarrow> th_value h \<notin> values_of (map_option ob_set (view w ?n RTxt))"
      using Cons.prems(1) o q1 by (auto simp: values_of_def split: sum.splits option.splits)
    moreover have "?f (txt_data v) = txt_data v" if "th_value h \<notin> values_of (map_option ob_set v)" for v
      using that by (intro drop_value_absent) (auto simp: txt_data_def values_of_def)
    ultimately show ?thesis using q1 by (auto simp: txt_quiet_def txt_touched_def)
  next
    case True
    then obtain current where c: "c = Inr (Some current)" and "in": "th_value h \<in> rs_values current" by blast
    with q1 obtain ob where ob: "view w1 ?n RTxt = Some ob" "current = ob_set ob"
      by (cases "view w1 ?n RTxt") (auto simp: txt_quiet_def)
    note tgt = without_value_target [OF inv1 ob(1), of "th_value h", folded ob(2)]
    obtain k w2 where k: "pv_replace P ?n RTxt (Some current) (without_value (th_value h) current) w1 = (k, w2)" by fastforce
    show ?thesis
    proof (cases k)
      case (Inr ticket)
      obtain s where s: "wait_synced X P ticket (ts_propagation_timeout S) w2 = Some (s, w')"
        using Cons.prems(1) o c "in" k Inr by (auto split: option.splits prod.splits sum.splits)
      have "txt_data (view w2 ?n RTxt) = ?f (txt_data (view w ?n RTxt))"
        if "written (view w2 ?n RTxt) (without_value (th_value h) current)"
        using written_without_value [OF that [unfolded ob(2)]] "in" q1 ob by (simp add: txt_quiet_def)
      from submitted_touched [where f = ?f, OF conjunct1 [OF q1] tgt k [unfolded Inr] s this] show ?thesis by simp
    next
      case fail: (Inl e)
      obtain f w3 where f: "retry_or_fail X e attempt w2 = (f, w3)" by fastforce
      note q3 = retried_quiet [OF conjunct1 [OF q1] tgt k [unfolded fail] f]
      show ?thesis
      proof (cases f)
        case (Inl e')
        with Cons.prems(1) o c "in" k fail f q3 show ?thesis by (auto intro: touched_quiet)
      next
        case (Inr u)
        then have "remove_attempts X S P h attempts w3 = Some (r, w')"
          using Cons.prems(1) o c "in" k fail f by simp
        from Cons.IH [OF this] q3 quiet_touched [OF q3] show ?thesis by (auto simp: txt_quiet_def)
      qed
    qed
  qed
qed

end

lemma zone_provider_for:
  assumes "provider_for S name = Some (zone, P)"
  shows "zone_provider S zone = Inr P"
proof -
  have "find (\<lambda>(z, _). z = zone) ps = Some (zone, P)"
    if "find (\<lambda>(z, _). is_within_zone name z) ps = Some (zone, P)" for ps
    using that conjunct2 [OF provider_for_in [OF assms]] by (induction ps) (auto split: if_splits prod.splits)
  with assms show ?thesis by (simp add: provider_for_def zone_provider_def)
qed

text \<open>The name that is published lies where the configuration allows it.\<close>

lemma challenge_name_allowed:
  "challenge_name X S domain w = (Inr name, w') \<Longrightarrow> name = ''_acme-challenge.'' @ domain \<or> delegation_allowed name (ts_allowed_zones S)"
  by (auto simp: challenge_name_def Let_def split: txt_lookup.splits prod.splits option.splits sum.splits if_splits)

lemma journal_entries_content: "tx_read X w = JournalContent (Inr es) \<Longrightarrow> journal_entries X w = es"
  by (simp add: journal_entries_def read_journal_def)

context txt_world
begin

lemma challenge_name_quiet: "challenge_name X S domain w = (r, w') \<Longrightarrow> inv w \<Longrightarrow> txt_quiet inv view X w w'"
  by (auto simp: challenge_name_def Let_def txt_quiet_def dest: lookup_frame
      split: txt_lookup.splits prod.splits option.splits sum.splits if_splits)

lemma journal_update_frame:
  assumes "journal_update X update w = (r, w')" "inv w"
  shows "inv w' \<and> view w' = view w \<and> (is_ok r \<longrightarrow> journal_entries X w' = update (journal_entries X w))"
proof -
  obtain l w1 where l: "tx_lock X w = (l, w1)" by fastforce
  note f1 = lock_frame [OF assms(2) l]
  show ?thesis
  proof (cases "is_ok l \<and> is_ok (read_journal X w1)")
    case True
    then obtain u es where ok: "l = Inr u" "read_journal X w1 = Inr es" by (auto simp: is_ok_iff)
    obtain k w2 where k: "tx_write X (update es) w1 = (k, w2)" by fastforce
    have "w' = w2" "is_ok r = is_ok k" using assms(1) l ok k by (auto simp: journal_update_def split: sum.splits)
    moreover have "journal_entries X w = es" using ok f1 by (simp add: journal_entries_def read_journal_def)
    moreover have "journal_entries X w2 = update es" if "is_ok k"
      using that write_read [of w1 "update es"] k f1 by (auto simp: is_ok_iff intro: journal_entries_content)
    ultimately show ?thesis using f1 write_frame [OF _ k] by auto
  next
    case False
    then have "w' = w1 \<and> \<not> is_ok r"
      using assms(1) l by (auto simp: journal_update_def is_ok_iff split: sum.splits)
    with f1 show ?thesis by simp
  qed
qed

lemma add_exact:
  assumes run: "txt_add X S domain value w = Some (r, w')" and inv: "inv w"
    and name: "challenge_name X S domain w = (Inr name, w1)" and prov: "provider_for S name = Some (zone, P)"
  defines "h \<equiv> \<lparr>th_zone = zone, th_name = name, th_value = value, th_domain = domain\<rparr>"
  shows "inv w' \<and> (\<forall>n t. (n, t) \<noteq> (name, RTxt) \<longrightarrow> view w' n t = view w n t)
    \<and> (view w' = view w \<or> txt_data (view w' name RTxt) = put_value (ts_ttl S) value (txt_data (view w name RTxt)) \<and> h \<in> set (journal_entries X w'))
    \<and> (is_ok r \<longrightarrow> r = Inr h \<and> h \<in> set (journal_entries X w')
         \<and> txt_data (view w' name RTxt) = put_value (ts_ttl S) value (txt_data (view w name RTxt)))"
proof -
  note q1 = challenge_name_quiet [OF name inv]
  obtain j w2 where j: "journal_update X (journal_add h) w1 = (j, w2)" by fastforce
  note f2 = journal_update_frame [OF j]
  show ?thesis
  proof (cases j)
    case (Inl e)
    then have "r = Inl e \<and> w' = w2" using run name prov j by (simp add: txt_add_def h_def)
    with f2 q1 show ?thesis by (auto simp: txt_quiet_def)
  next
    case (Inr u)
    then have run': "add_attempts X S P h [1..<Suc MAX_ATTEMPTS] w2 = Some (r, w')"
      using run name prov j by (simp add: txt_add_def h_def del: upt_Suc)
    have inv2: "inv w2" using f2 q1 by (simp add: txt_quiet_def)
    have "h \<in> set (journal_entries X w2)" using f2 q1 Inr by (auto simp: txt_quiet_def journal_add_def)
    with add_attempts_exact [OF run' inv2] f2 q1 show ?thesis
      by (auto simp: txt_quiet_def txt_touched_def h_def journal_entries_def read_journal_def)
  qed
qed

lemma remove_exact:
  assumes run: "txt_remove X S h w = Some (r, w')" and inv: "inv w" and prov: "zone_provider S (th_zone h) = Inr P"
  shows "inv w' \<and> (\<forall>n t. (n, t) \<noteq> (th_name h, RTxt) \<longrightarrow> view w' n t = view w n t)
    \<and> (view w' = view w \<or> txt_data (view w' (th_name h) RTxt) = drop_value (th_value h) (txt_data (view w (th_name h) RTxt)))
    \<and> (is_ok r \<longrightarrow> journal_entries X w' = journal_drop h (journal_entries X w)
         \<and> txt_data (view w' (th_name h) RTxt) = drop_value (th_value h) (txt_data (view w (th_name h) RTxt)))"
proof -
  obtain b w1 where b: "remove_attempts X S P h [1..<Suc MAX_ATTEMPTS] w = Some (b, w1)"
    using run prov by (auto simp: txt_remove_def simp del: upt_Suc split: option.splits)
  note ex = remove_attempts_exact [OF b inv]
  show ?thesis
  proof (cases "b = Inr True")
    case True
    then have run': "journal_update X (journal_drop h) w1 = (r, w')"
      using run prov b by (simp add: txt_remove_def del: upt_Suc)
    from journal_update_frame [OF run'] ex True show ?thesis
      by (auto simp: txt_touched_def journal_entries_def read_journal_def)
  next
    case False
    then have "w' = w1 \<and> \<not> is_ok r"
      using run prov b by (auto simp: txt_remove_def simp del: upt_Suc split: sum.splits bool.splits)
    with ex show ?thesis by (auto simp: txt_touched_def)
  qed
qed

end

subsection \<open>A journal and the provider in memory\<close>

text \<open>
  The setting of the tests of \<open>txt.rs\<close>: a journal file, a provider that keeps its records in memory,
  and a clock that only sleeping advances. Nothing resolves.
\<close>

record txt_memory =
  tm_now :: nat
  tm_journal :: "txt_handle list option"
  tm_memory :: mem_provider

definition txt_memory_ops :: "txt_memory provider_ops" where
  "txt_memory_ops = lift_ops tm_memory (\<lambda>m w. w\<lparr>tm_memory := m\<rparr>) memory_ops"

definition txt_memory_env :: "txt_memory txt_env" where
  "txt_memory_env =
     \<lparr>tx_now = tm_now, tx_sleep = (\<lambda>d w. w\<lparr>tm_now := tm_now w + d\<rparr>), tx_lookup = (\<lambda>_ _ w. (None, w)), tx_lock = (\<lambda>w. (Inr (), w)),
      tx_read = (\<lambda>w. case tm_journal w of None \<Rightarrow> JournalMissing | Some es \<Rightarrow> JournalContent (Inr es)),
      tx_write = (\<lambda>es w. (Inr (), w\<lparr>tm_journal := Some es\<rparr>))\<rparr>"

abbreviation tm_view :: "txt_memory \<Rightarrow> string \<Rightarrow> record_type \<Rightarrow> observed option" where
  "tm_view w \<equiv> mem_view (tm_memory w)"

abbreviation tm_inv :: "txt_memory \<Rightarrow> bool" where
  "tm_inv w \<equiv> mem_inv (tm_memory w)"

definition test_solver :: "txt_memory txt_solver" where
  "test_solver = new_solver [(''b'', txt_memory_ops)] [''b''] ProviderApi 60 (from_millis 5000) (from_millis 20)"

lemma txt_memory_store: "atomic_store txt_memory_ops tm_view tm_inv (\<lambda>_. True)"
  unfolding txt_memory_ops_def by (rule lift_atomic [OF memory.atomic_store_axioms]) simp

interpretation txt_memory: txt_world txt_memory_ops tm_view tm_inv "\<lambda>_. True" txt_memory_env
  by (intro txt_world.intro txt_memory_store txt_world_axioms.intro)
    (auto simp: txt_memory_env_def txt_memory_ops_def lift_io_def split: prod.splits)

interpretation txt_memory: txt_clock txt_memory_env txt_memory_ops
  by (intro txt_clock.intro) (auto simp: txt_memory_env_def txt_memory_ops_def lift_io_def split: prod.splits)

interpretation test_solver: solver_clock txt_memory_env test_solver
  by (intro solver_clock.intro)
    (auto simp: test_solver_def new_solver_def txt_memory.txt_clock_axioms, auto simp: txt_memory_env_def from_millis_def)

definition test_txt_world :: txt_memory where
  "test_txt_world = \<lparr>tm_now = 0, tm_journal = None, tm_memory = new_memory\<rparr>"

subsection \<open>Properties of the solver\<close>

text \<open>C25. Publishing and removing a challenge value always comes to an end: with a clock that sleeping
  advances and that nothing turns back, \<open>add\<close>, \<open>wait_propagated\<close>, \<open>remove\<close> and \<open>cleanup_journal\<close> return for every
  provider, whatever it answers and however long it takes to apply a change. The loops that poll are
  bounded by their deadline, the loops that retry by the number of attempts.\<close>

theorem txt_operations_return:
  assumes "solver_clock X S"
  shows "(\<exists>r w'. txt_add X S domain value w = Some (r, w')) \<and> (\<exists>r w'. wait_propagated X S h w = Some (r, w'))
    \<and> (\<exists>r w'. txt_remove X S h w = Some (r, w')) \<and> (\<exists>w'. cleanup_journal X S w = Some w')"
  using solver_clock.add_returns [OF assms, of domain "value" w] solver_clock.propagation_loop_returns [OF assms, of h]
    solver_clock.remove_returns [OF assms, of h w] solver_clock.cleanup_returns [OF assms]
  by (auto simp: wait_propagated_def cleanup_journal_def)

theorem txt_operations_return_witness:
  "(\<exists>r w'. txt_add txt_memory_env test_solver ''a.b'' ''v'' test_txt_world = Some (r, w'))
   \<and> (\<exists>w'. cleanup_journal txt_memory_env test_solver test_txt_world = Some w')"
  using txt_operations_return [OF test_solver.solver_clock_axioms] by blast



subsection \<open>The properties at a domain\<close>


lemma test_txt_inv: "tm_inv test_txt_world"
  by (simp add: test_txt_world_def new_memory_def mem_inv_def)

lemma test_txt_empty: "tm_view test_txt_world n t = None"
  by (simp add: test_txt_world_def new_memory_def mem_view_def)

lemma test_challenge: "challenge_name txt_memory_env test_solver ''b'' test_txt_world = (Inr ''_acme-challenge.b'', test_txt_world)"
  by (simp add: challenge_name_def test_solver_def new_solver_def)

lemma test_provider_for: "provider_for test_solver ''_acme-challenge.b'' = Some (''b'', txt_memory_ops)"
  by (simp add: provider_for_def test_solver_def new_solver_def, code_simp)


lemma sync_immediate [simp]: "sync_loop X P Immediate deadline delay w = Some (Inr (), w)"
  by (subst sync_loop.simps) (simp add: change_synced_def io_return_def)

lemmas test_txt_simps = test_txt_world_def new_memory_def txt_memory_env_def txt_memory_ops_def memory_ops_def lift_io_def mem_get_def
  mem_replace_def mem_write_def mem_stored_def mem_ticket_def take_failure_def io_bind_def io_return_def io_fail_def observed_set_def
  wait_synced_def journal_update_def read_journal_def values_of_def with_value_def new_txt_set_def without_value_def Let_def tab_simps

abbreviation test_handle :: txt_handle where
  "test_handle \<equiv> \<lparr>th_zone = ''b'', th_name = ''_acme-challenge.b'', th_value = ''v'', th_domain = ''b''\<rparr>"

lemma attempts_list: "[1..<Suc MAX_ATTEMPTS] = [1, 2, 3, 4, 5, 6]"
  by (simp add: MAX_ATTEMPTS_def upt_conv_Cons)

lemma test_add_remove:
  "\<exists>h w1 w2. txt_add txt_memory_env test_solver ''b'' ''v'' test_txt_world = Some (Inr h, w1)
     \<and> txt_remove txt_memory_env test_solver h w1 = Some (Inr (), w2)"
  unfolding txt_add_def txt_remove_def attempts_list
  by (simp add: test_challenge test_provider_for zone_provider_for [OF test_provider_for], simp add: test_txt_simps zone_provider_for [OF test_provider_for] t_insert_def)


end
