(* ===== verification/Dns_Route53.thy ===== *)
theory Dns_Route53
  imports Dns_Provider "HOL-Library.List_Lexorder" "HOL-Library.Char_ord"
begin

text \<open>
  The Route 53 adapter (\<open>sievetube-edge/src/dns/route53.rs\<close>). Route 53 keeps a whole record set as one
  item; a change is a batch that deletes the exact current item and creates the desired one, and is
  applied as a whole or not at all. The service is a parameter (\<open>r53_env\<close>); the locale \<open>r53_server\<close> has
  its documented behaviour, and the mock of the module's tests is shown to have it.
\<close>

subsection \<open>Names\<close>

definition star_escape :: string where "star_escape = backslash # ''052''"

definition fqdn :: "string \<Rightarrow> string" where
  "fqdn name = replace_char (CHR ''*'') star_escape name @ ''.''"

text \<open>\<open>u8::from_str_radix(s, 8)\<close> on three ASCII digits.\<close>

definition octal_code :: "string \<Rightarrow> nat option" where
  "octal_code s =
     (case s of
        a # b # c # _ \<Rightarrow>
          if list_all is_ascii_digit [a, b, c] \<and> byte_of a < 56 \<and> byte_of b < 56 \<and> byte_of c < 56
          then let code = (byte_of a - 48) * 64 + (byte_of b - 48) * 8 + (byte_of c - 48)
               in if code < 256 then Some code else None
          else None
      | _ \<Rightarrow> None)"

text \<open>A byte pushed as a \<open>char\<close> of its code.\<close>

definition latin1 :: "nat \<Rightarrow> string" where
  "latin1 b = (if b < 128 then [char_of b] else [char_of (192 + b div 64), char_of (128 + b mod 64)])"

function decode_bytes :: "string \<Rightarrow> string" where
  "decode_bytes s =
     (case s of
        [] \<Rightarrow> []
      | c # cs \<Rightarrow>
          (case (if c = backslash then octal_code cs else None) of
             Some code \<Rightarrow> latin1 code @ decode_bytes (drop 3 cs)
           | None \<Rightarrow> latin1 (byte_of c) @ decode_bytes cs))"
  by pat_completeness auto
termination
  by (relation "measure length") auto

declare decode_bytes.simps [simp del]

definition decode_name :: "string \<Rightarrow> string" where
  "decode_name raw = to_ascii_lowercase (decode_bytes (rev (dropWhile (\<lambda>c. c = CHR ''.'') (rev raw))))"

definition normalize_zone_id :: "string \<Rightarrow> string" where
  "normalize_zone_id id0 = trim_with [''hostedzone/''] (trim_with [''/hostedzone/''] (trim id0))"

subsection \<open>The service's data\<close>

record rr_set =
  rr_name :: string
  rr_kind :: string
  rr_identifier :: "string option"
  rr_alias :: bool
  rr_ttl :: "int option"
  rr_values :: "string list"

record list_output =
  lo_sets :: "rr_set list"
  lo_truncated :: bool
  lo_next_name :: "string option"
  lo_next_kind :: "string option"
  lo_next_identifier :: "string option"

datatype sdk_error = ServiceError "string option" "string option" | SdkTimeout | SdkOther string

datatype 'a sdk_reply = Elapsed | SdkFailed sdk_error | Replied 'a

datatype change_action = DeleteSet rr_set | CreateSet rr_set

record 'w r53_env =
  r5_list :: "string \<Rightarrow> string \<Rightarrow> string option \<Rightarrow> 'w \<Rightarrow> list_output sdk_reply \<times> 'w"
  r5_change :: "change_action list \<Rightarrow> 'w \<Rightarrow> string option sdk_reply \<times> 'w"
  r5_status :: "string \<Rightarrow> 'w \<Rightarrow> bool sdk_reply \<times> 'w"

text \<open>\<open>map_error\<close>; a text contains another if it does so at some position.\<close>

definition text_contains :: "string \<Rightarrow> string \<Rightarrow> bool" where
  "text_contains part s = list_ex (\<lambda>k. starts_with part (drop k s)) [0..<Suc (length s)]"

definition map_error :: "sdk_error \<Rightarrow> dns_error" where
  "map_error e =
     (case e of
        ServiceError code0 message0 \<Rightarrow>
          let code = (case code0 of Some c \<Rightarrow> c | None \<Rightarrow> []);
              message = (case message0 of Some m \<Rightarrow> m | None \<Rightarrow> [])
          in if code = ''InvalidChangeBatch'' then DnsConflict message
             else if code \<in> {''PriorRequestNotComplete'', ''Throttling'', ''ThrottlingException'', ''RequestLimitExceeded''} then RateLimited None
             else if code \<in> {''AccessDenied'', ''AccessDeniedException'', ''InvalidClientTokenId'', ''SignatureDoesNotMatch'', ''ExpiredToken'', ''UnrecognizedClientException''}
             then AuthFailedDns (code @ '': '' @ message)
             else ProviderError (code @ '': '' @ message)
      | SdkTimeout \<Rightarrow> TimedOut
      | SdkOther detail \<Rightarrow> if text_contains ''credentials'' detail then AuthFailedDns detail else ProviderError detail)"

definition sdk_result :: "'a sdk_reply \<Rightarrow> (dns_error, 'a) result" where
  "sdk_result r = (case r of Elapsed \<Rightarrow> Inl TimedOut | SdkFailed e \<Rightarrow> Inl (map_error e) | Replied a \<Rightarrow> Inr a)"

subsection \<open>Reading a record set\<close>

definition is_exact :: "string \<Rightarrow> record_type \<Rightarrow> rr_set \<Rightarrow> bool" where
  "is_exact n t s \<longleftrightarrow> decode_name (rr_name s) = n \<and> rr_kind s = record_type_str t"

text \<open>The list continues with further sets of this name and type.\<close>

definition continues_here :: "string \<Rightarrow> record_type \<Rightarrow> list_output \<Rightarrow> bool" where
  "continues_here n t out \<longleftrightarrow>
     lo_truncated out \<and> list_all (is_exact n t) (lo_sets out)
     \<and> map_option decode_name (lo_next_name out) = Some n \<and> lo_next_kind out = Some (record_type_str t)"

partial_function (option) list_exact ::
  "'w r53_env \<Rightarrow> string \<Rightarrow> record_type \<Rightarrow> string option \<Rightarrow> rr_set list \<Rightarrow> 'w \<Rightarrow> ((dns_error, rr_set list) result \<times> 'w) option" where
  "list_exact E n t identifier found w =
     (case r5_list E (fqdn n) (record_type_str t) identifier w of
        (reply, w') \<Rightarrow>
          (case sdk_result reply of
             Inl e \<Rightarrow> Some (Inl e, w')
           | Inr out \<Rightarrow>
               let found' = found @ takeWhile (is_exact n t) (lo_sets out)
               in if \<not> continues_here n t out \<or> lo_next_identifier out = None then Some (Inr found', w')
                  else list_exact E n t (lo_next_identifier out) found' w'))"

definition u32_clamp :: "int \<Rightarrow> nat" where
  "u32_clamp i = nat (min (max i 0) (2 ^ 32 - 1))"

definition r53_observed :: "string \<Rightarrow> record_type \<Rightarrow> rr_set list \<Rightarrow> observed option" where
  "r53_observed n t sets =
     (case sets of
        [] \<Rightarrow> None
      | first # _ \<Rightarrow>
          let values = set (List.map_filter (\<lambda>v. ok_option (normalize_value t v)) (rr_values first));
              unsupported =
                (if length sets > 1 \<or> rr_identifier first \<noteq> None then Some ''record sets with routing policies are not supported''
                 else if rr_alias first then Some ''alias records are not supported''
                 else if card values \<noteq> length (rr_values first) then Some ''unparsable record values''
                 else None)
          in Some \<lparr>ob_set = \<lparr>rs_name = n, rs_type = t, rs_ttl = u32_clamp (case rr_ttl first of Some i \<Rightarrow> i | None \<Rightarrow> 0),
                              rs_values = values, rs_proxied = None\<rparr>,
                   ob_unsupported = unsupported\<rparr>)"

definition r53_get :: "'w r53_env \<Rightarrow> string \<Rightarrow> record_type \<Rightarrow> 'w \<Rightarrow> ((dns_error, observed option) result \<times> 'w) option" where
  "r53_get E n t w =
     (case list_exact E n t None [] w of
        None \<Rightarrow> None
      | Some (Inl e, w') \<Rightarrow> Some (Inl e, w')
      | Some (Inr sets, w') \<Rightarrow> Some (Inr (r53_observed n t sets), w'))"

subsection \<open>Changing a record set\<close>

definition r53_content :: "record_type \<Rightarrow> string \<Rightarrow> string" where
  "r53_content t v = (case t of RTxt \<Rightarrow> quote_txt v | RCname \<Rightarrow> v @ ''.'' | _ \<Rightarrow> v)"

definition build_set :: "record_set \<Rightarrow> rr_set" where
  "build_set r =
     \<lparr>rr_name = fqdn (rs_name r), rr_kind = record_type_str (rs_type r), rr_identifier = None, rr_alias = False, rr_ttl = Some (int (rs_ttl r)),
      rr_values = map (r53_content (rs_type r)) (sorted_list_of_set (rs_values r))\<rparr>"

definition r53_changes :: "rr_set list \<Rightarrow> record_set option \<Rightarrow> change_action list" where
  "r53_changes current_sets desired =
     (case current_sets of [] \<Rightarrow> [] | raw # _ \<Rightarrow> [DeleteSet raw])
     @ (case desired of None \<Rightarrow> [] | Some d \<Rightarrow> [CreateSet (build_set d)])"

definition r53_submit :: "'w r53_env \<Rightarrow> change_action list \<Rightarrow> ('w, dns_error, change_ticket) io" where
  "r53_submit E batch w =
     (case r5_change E batch w of
        (reply, w') \<Rightarrow>
          (case sdk_result reply of
             Inl e \<Rightarrow> (Inl e, w')
           | Inr None \<Rightarrow> (Inl (ProviderError ''response without change id''), w')
           | Inr (Some id0) \<Rightarrow> (Inr (Route53Ticket (trim_with [''/change/''] id0)), w')))"

definition r53_change ::
  "'w r53_env \<Rightarrow> string \<Rightarrow> record_type \<Rightarrow> record_set option \<Rightarrow> record_set option \<Rightarrow> rr_set list \<Rightarrow> ('w, dns_error, change_ticket) io" where
  "r53_change E n t expected desired current_sets =
     (let current = r53_observed n t current_sets
      in case (case current of None \<Rightarrow> None | Some ob \<Rightarrow> ob_unsupported ob) of
           Some reason \<Rightarrow> io_fail (DnsConflict reason)
         | None \<Rightarrow>
             if \<not> same_optional (map_option ob_set current) expected
             then io_fail (DnsConflict ''record set changed at the provider'')
             else if expected = None \<and> desired = None then io_return Immediate
             else r53_submit E (r53_changes current_sets desired))"

definition r53_replace ::
  "'w r53_env \<Rightarrow> string \<Rightarrow> record_type \<Rightarrow> record_set option \<Rightarrow> record_set option \<Rightarrow> 'w \<Rightarrow> ((dns_error, change_ticket) result \<times> 'w) option" where
  "r53_replace E n t expected desired w =
     (case list_exact E n t None [] w of
        None \<Rightarrow> None
      | Some (Inl e, w') \<Rightarrow> Some (Inl e, w')
      | Some (Inr sets, w') \<Rightarrow> Some (r53_change E n t expected desired sets w'))"

definition r53_synced :: "'w r53_env \<Rightarrow> string \<Rightarrow> ('w, dns_error, bool) io" where
  "r53_synced E change_id w = (case r5_status E change_id w of (reply, w') \<Rightarrow> (sdk_result reply, w'))"

subsection \<open>Names survive the trip\<close>

definition plain_name :: "string \<Rightarrow> bool" where
  "plain_name n \<longleftrightarrow> list_all (\<lambda>c. is_ascii_char c \<and> \<not> is_ascii_uppercase c \<and> c \<noteq> backslash) n \<and> \<not> ends_with ''.'' n"

lemma decode_bytes_plain:
  "is_ascii_char c \<Longrightarrow> c \<noteq> backslash \<Longrightarrow> decode_bytes (c # cs) = c # decode_bytes cs"
  by (subst decode_bytes.simps) (simp add: latin1_def is_ascii_char_def byte_of_def)

lemma star_char: "char_of (42::nat) = CHR ''*''"
  by code_simp

lemma decode_bytes_star: "decode_bytes (star_escape @ cs) = CHR ''*'' # decode_bytes cs"
  by (subst decode_bytes.simps) (simp add: star_escape_def octal_code_def latin1_def ascii_defs star_char)

lemma decode_escaped:
  "list_all (\<lambda>c. is_ascii_char c \<and> \<not> is_ascii_uppercase c \<and> c \<noteq> backslash) n \<Longrightarrow> decode_bytes (replace_char (CHR ''*'') star_escape n) = n"
  by (induction n) (auto simp: replace_char_def decode_bytes_star decode_bytes_plain decode_bytes.simps [of "[]"])

lemma escaped_last: "n \<noteq> [] \<Longrightarrow> replace_char (CHR ''*'') star_escape n \<noteq> [] \<and> (last (replace_char (CHR ''*'') star_escape n) = CHR ''.'' \<longleftrightarrow> last n = CHR ''.'')"
proof (induction n rule: rev_induct)
  case (snoc c n)
  show ?case by (simp add: replace_char_append) (simp add: replace_char_def star_escape_def)
qed simp

lemma fqdn_round_trip:
  assumes "plain_name n"
  shows "decode_name (fqdn n) = n"
proof -
  let ?e = "replace_char (CHR ''*'') star_escape n"
  have "dropWhile (\<lambda>c. c = CHR ''.'') (rev ?e) = rev ?e"
  proof (cases n rule: rev_cases)
    case (snoc m c)
    then have "c \<noteq> CHR ''.''" using assms by (auto simp: plain_name_def ends_with_def starts_with_def)
    with escaped_last [of n] snoc have "?e \<noteq> []" "last ?e \<noteq> CHR ''.''" by simp_all
    then show ?thesis by (metis dropWhile_eq_self_iff hd_rev)
  qed (simp add: replace_char_def)
  then have "decode_name (fqdn n) = to_ascii_lowercase n"
    using decode_escaped assms by (simp add: decode_name_def fqdn_def plain_name_def)
  moreover have "to_ascii_lowercase n = n"
    unfolding to_ascii_lowercase_def by (rule map_idI) (use assms in \<open>simp add: ascii_lower_def plain_name_def list_all_iff\<close>)
  ultimately show ?thesis by simp
qed

subsection \<open>The service\<close>

definition ttl_of :: "rr_set \<Rightarrow> int" where
  "ttl_of s = (case rr_ttl s of Some i \<Rightarrow> i | None \<Rightarrow> 0)"

text \<open>A set as a deletion has to name it, and a set as the adapter creates them.\<close>

definition same_rr :: "rr_set \<Rightarrow> rr_set \<Rightarrow> bool" where
  "same_rr r s \<longleftrightarrow> rr_name r = rr_name s \<and> rr_kind r = rr_kind s \<and> ttl_of r = ttl_of s \<and> sort (rr_values r) = sort (rr_values s)"

definition plain_set :: "rr_set \<Rightarrow> bool" where
  "plain_set s \<longleftrightarrow> rr_name s = fqdn (decode_name (rr_name s)) \<and> rr_identifier s = None \<and> \<not> rr_alias s \<and> rr_ttl s \<noteq> None"

fun applies :: "change_action \<Rightarrow> rr_set list \<Rightarrow> rr_set list \<Rightarrow> bool" where
  "applies (DeleteSet s) z z' \<longleftrightarrow> (\<exists>r \<in> set z. same_rr r s \<and> z' = remove1 r z)"
| "applies (CreateSet s) z z' \<longleftrightarrow>
     (\<forall>r \<in> set z. \<not> (rr_name r = rr_name s \<and> rr_kind r = rr_kind s)) \<and> (\<exists>a b. z = a @ b \<and> z' = a @ s # b)"

fun batch_applies :: "change_action list \<Rightarrow> rr_set list \<Rightarrow> rr_set list \<Rightarrow> bool" where
  "batch_applies [] z z' \<longleftrightarrow> z' = z"
| "batch_applies (c # cs) z z' \<longleftrightarrow> (\<exists>z1. applies c z z1 \<and> batch_applies cs z1 z')"

definition plain_batch :: "change_action list \<Rightarrow> bool" where
  "plain_batch batch \<longleftrightarrow> (\<forall>s. CreateSet s \<in> set batch \<longrightarrow> plain_set s)"

subsection \<open>The effect of a batch\<close>

lemma is_exact_unique: "is_exact n t s \<Longrightarrow> is_exact n' t' s \<longleftrightarrow> n' = n \<and> t' = t"
  by (cases t; cases t') (auto simp: is_exact_def)

lemma filter_remove1_other: "\<not> p r \<Longrightarrow> filter p (remove1 r z) = filter p z"
  by (induction z) auto

lemma filter_remove1_single: "filter p z = [r] \<Longrightarrow> filter p (remove1 r z) = []"
  by (metis filter_remove1 remove1.simps)

lemma deleted_exact:
  assumes "applies (DeleteSet raw) z z'" "filter (is_exact n t) z = [raw]"
  shows "filter (is_exact n t) z' = []" "(n', t') \<noteq> (n, t) \<Longrightarrow> filter (is_exact n' t') z' = filter (is_exact n' t') z"
proof -
  have raw: "is_exact n t raw" using assms(2) by (auto simp: filter_eq_Cons_iff)
  obtain r where r: "r \<in> set z" "same_rr r raw" "z' = remove1 r z" using assms(1) by auto
  have ex: "is_exact n t r" using r(2) raw by (simp add: same_rr_def is_exact_def)
  with r(1) have "r \<in> set (filter (is_exact n t) z)" by simp
  with assms(2) have "r = raw" by simp
  with r(3) assms(2) show "filter (is_exact n t) z' = []" by (simp add: filter_remove1_single)
  show "filter (is_exact n' t') z' = filter (is_exact n' t') z" if "(n', t') \<noteq> (n, t)"
    unfolding r(3) by (rule filter_remove1_other) (use that is_exact_unique [OF ex] in auto)
qed

lemma created_exact:
  assumes "applies (CreateSet s) z z'" "is_exact n t s" "filter (is_exact n t) z = []"
  shows "filter (is_exact n t) z' = [s]" "(n', t') \<noteq> (n, t) \<Longrightarrow> filter (is_exact n' t') z' = filter (is_exact n' t') z"
  using assms is_exact_unique [OF assms(2)] by auto

lemma batch_exact:
  assumes "batch_applies (r53_changes sets desired) z z'" "sets = filter (is_exact n t) z" "length sets \<le> 1"
    and d: "\<forall>d. desired = Some d \<longrightarrow> is_exact n t (build_set d)"
  shows "filter (is_exact n t) z' = (case desired of None \<Rightarrow> [] | Some d \<Rightarrow> [build_set d])"
    and "(n', t') \<noteq> (n, t) \<Longrightarrow> filter (is_exact n' t') z' = filter (is_exact n' t') z"
proof -
  obtain z1 where z1: "batch_applies (case sets of [] \<Rightarrow> [] | raw # _ \<Rightarrow> [DeleteSet raw]) z z1"
    "batch_applies (case desired of None \<Rightarrow> [] | Some d \<Rightarrow> [CreateSet (build_set d)]) z1 z'"
    using assms(1) by (cases sets) (auto simp: r53_changes_def)
  have "filter (is_exact n t) z1 = [] \<and> ((n', t') \<noteq> (n, t) \<longrightarrow> filter (is_exact n' t') z1 = filter (is_exact n' t') z)" for n' t'
  proof (cases sets)
    case Nil
    with z1(1) assms(2) show ?thesis by simp
  next
    case (Cons raw rest)
    then have "filter (is_exact n t) z = [raw]" using assms(2,3) by simp
    moreover have "applies (DeleteSet raw) z z1" using z1(1) Cons by simp
    ultimately show ?thesis using deleted_exact by blast
  qed
  note del = this
  show "filter (is_exact n t) z' = (case desired of None \<Rightarrow> [] | Some d \<Rightarrow> [build_set d])"
    using z1(2) del created_exact(1) [of _ z1 z' n t] d by (cases desired) auto
  show "filter (is_exact n' t') z' = filter (is_exact n' t') z" if "(n', t') \<noteq> (n, t)"
    using z1(2) del created_exact(2) [of _ z1 z' n t n' t'] d that by (cases desired) auto
qed

text \<open>
  The documented behaviour: \<open>ListResourceRecordSets\<close> gives the sets from the given name, type and
  identifier on, page by page; \<open>ChangeResourceRecordSets\<close> applies the whole batch or, if the service
  refuses it, nothing; when no answer of the service arrives, it may have done either.
\<close>

locale r53_server =
  fixes E :: "'w r53_env" and zone :: "'w \<Rightarrow> rr_set list"
    and listing :: "'w \<Rightarrow> string \<Rightarrow> record_type \<Rightarrow> string option \<Rightarrow> rr_set list" and ok :: "'w \<Rightarrow> bool"
  assumes list_start: "ok w \<Longrightarrow> listing w n t None = filter (is_exact n t) (zone w)"
    and list_frame: "ok w \<Longrightarrow> r5_list E raw kind i w = (r, w') \<Longrightarrow> ok w' \<and> zone w' = zone w \<and> listing w' = listing w"
    and list_page: "ok w \<Longrightarrow> r5_list E (fqdn n) (record_type_str t) i w = (Replied out, w') \<Longrightarrow>
      (if continues_here n t out \<and> lo_next_identifier out \<noteq> None
       then lo_sets out \<noteq> [] \<and> listing w n t i = lo_sets out @ listing w n t (lo_next_identifier out)
       else listing w n t i = takeWhile (is_exact n t) (lo_sets out))"
    and change_ok: "ok w \<Longrightarrow> plain_batch batch \<Longrightarrow> r5_change E batch w = (c, w') \<Longrightarrow> ok w'"
    and change_applied: "ok w \<Longrightarrow> plain_batch batch \<Longrightarrow> r5_change E batch w = (Replied id0, w') \<Longrightarrow> batch_applies batch (zone w) (zone w')"
    and change_refused: "ok w \<Longrightarrow> plain_batch batch \<Longrightarrow> r5_change E batch w = (SdkFailed (ServiceError code msg), w') \<Longrightarrow> zone w' = zone w"
    and change_lost: "ok w \<Longrightarrow> plain_batch batch \<Longrightarrow> r5_change E batch w = (c, w') \<Longrightarrow> zone w' = zone w \<or> batch_applies batch (zone w) (zone w')"
    and status_frame: "ok w \<Longrightarrow> r5_status E id1 w = (b, w') \<Longrightarrow> ok w' \<and> zone w' = zone w"
begin

lemma list_exact_lists:
  "ok w \<Longrightarrow> \<exists>r w'. list_exact E n t i found w = Some (r, w') \<and> ok w' \<and> zone w' = zone w \<and> (\<forall>sets. r = Inr sets \<longrightarrow> sets = found @ listing w n t i)"
proof (induction "length (listing w n t i)" arbitrary: w i found rule: less_induct)
  case less
  obtain reply w1 where l: "r5_list E (fqdn n) (record_type_str t) i w = (reply, w1)" by fastforce
  note f = list_frame [OF less.prems l]
  show ?case
  proof (cases reply)
    case (Replied out)
    note page = list_page [OF less.prems l [unfolded Replied]]
    show ?thesis
    proof (cases "continues_here n t out \<and> lo_next_identifier out \<noteq> None")
      case True
      then have all: "takeWhile (is_exact n t) (lo_sets out) = lo_sets out"
        by (simp add: continues_here_def list_all_iff)
      have "length (listing w1 n t (lo_next_identifier out)) < length (listing w n t i)"
        using page True f by simp
      from less.hyps [OF this] f obtain r w' where
        "list_exact E n t (lo_next_identifier out) (found @ lo_sets out) w1 = Some (r, w')" "ok w'" "zone w' = zone w1"
        "\<forall>sets. r = Inr sets \<longrightarrow> sets = (found @ lo_sets out) @ listing w1 n t (lo_next_identifier out)" by blast
      with True page f show ?thesis
        by (subst list_exact.simps) (auto simp: l Replied sdk_result_def all Let_def)
    next
      case False
      with page f show ?thesis by (subst list_exact.simps) (simp add: l Replied sdk_result_def Let_def)
    qed
  qed (use f in \<open>subst list_exact.simps, simp add: l sdk_result_def\<close>)+
qed

end

subsection \<open>The adapter as a provider\<close>

text \<open>What can be written: names that survive the trip, and values whose text reads back as the value.\<close>

definition r53_writable :: "record_set \<Rightarrow> bool" where
  "r53_writable r \<longleftrightarrow>
     decode_name (fqdn (rs_name r)) = rs_name r \<and> finite (rs_values r) \<and> rs_ttl r < 2 ^ 32
     \<and> (\<forall>v \<in> rs_values r. normalize_value (rs_type r) (r53_content (rs_type r) v) = Inr v)"

lemma built_values:
  assumes "r53_writable d"
  shows "List.map_filter (\<lambda>v. ok_option (normalize_value (rs_type d) v)) (rr_values (build_set d)) = sorted_list_of_set (rs_values d)"
proof -
  have "List.map_filter (\<lambda>v. ok_option (normalize_value t v)) (map (r53_content t) vs) = vs"
    if "\<forall>v \<in> set vs. normalize_value t (r53_content t v) = Inr v" for t vs
    using that by (induction vs) (auto simp: List.map_filter_simps ok_option_def)
  with assms show ?thesis by (simp add: build_set_def r53_writable_def)
qed

lemma built_written:
  assumes "r53_writable d"
  shows "written (r53_observed (rs_name d) (rs_type d) [build_set d]) (Some d)"
  using assms built_values [OF assms]
  by (simp add: written_def r53_observed_def Let_def same_data_def r53_writable_def, simp add: build_set_def u32_clamp_def)

lemma built_plain: "r53_writable d \<Longrightarrow> plain_set (build_set d) \<and> is_exact (rs_name d) (rs_type d) (build_set d)"
  by (simp add: plain_set_def build_set_def is_exact_def r53_writable_def)

definition r53_view :: "('w \<Rightarrow> rr_set list) \<Rightarrow> 'w \<Rightarrow> string \<Rightarrow> record_type \<Rightarrow> observed option" where
  "r53_view zone w n t = r53_observed n t (filter (is_exact n t) (zone w))"

lemma observed_single: "r53_observed n t sets = Some ob \<Longrightarrow> ob_unsupported ob = None \<Longrightarrow> length sets \<le> 1"
  by (cases sets) (auto simp: r53_observed_def Let_def split: if_splits)

lemma matches_single: "ob_matches (r53_observed n t sets) e \<Longrightarrow> length sets \<le> 1"
  using observed_single by (cases "r53_observed n t sets") (auto simp: ob_matches_def r53_observed_def Let_def split: list.splits)

lemma r53_change_cases:
  "r53_change E n t e d sets w =
     (if ob_matches (r53_observed n t sets) e
      then if e = None \<and> d = None then (Inr Immediate, w) else r53_submit E (r53_changes sets d) w
      else (Inl (DnsConflict (case r53_observed n t sets of
              Some ob \<Rightarrow> (case ob_unsupported ob of Some reason \<Rightarrow> reason | None \<Rightarrow> ''record set changed at the provider'')
            | None \<Rightarrow> ''record set changed at the provider'')), w))"
  by (auto simp: r53_change_def ob_matches_def Let_def io_fail_def io_return_def split: option.splits)

text \<open>The operations in the form of the provider interface; a listing that never ends has no answer, so that
  the first case stands for it only formally, and it does not occur with the service (lemma \<open>get_result\<close>).\<close>

definition answered :: "('w \<Rightarrow> ((dns_error, 'a) result \<times> 'w) option) \<Rightarrow> ('w, dns_error, 'a) io" where
  "answered f w = (case f w of None \<Rightarrow> (Inl TimedOut, w) | Some y \<Rightarrow> y)"

definition route53_ops :: "'w r53_env \<Rightarrow> 'w provider_ops" where
  "route53_ops E =
     \<lparr>pv_get = (\<lambda>n t. answered (r53_get E n t)), pv_replace = (\<lambda>n t e d. answered (r53_replace E n t e d)), pv_synced = r53_synced E\<rparr>"

lemma sdk_conflict: "sdk_result r = Inl (DnsConflict m) \<Longrightarrow> \<exists>code msg. r = SdkFailed (ServiceError code msg)"
  by (auto simp: sdk_result_def map_error_def Let_def split: sdk_reply.splits sdk_error.splits if_splits)

context r53_server
begin

lemma list_result:
  fixes n :: string and t :: record_type
  assumes "ok w"
  obtains r w' where "list_exact E n t None [] w = Some (r, w')" "ok w'" "zone w' = zone w"
    "\<forall>sets. r = Inr sets \<longrightarrow> sets = filter (is_exact n t) (zone w)"
proof -
  obtain r w' where "list_exact E n t None [] w = Some (r, w')" "ok w'" "zone w' = zone w"
    "\<forall>sets. r = Inr sets \<longrightarrow> sets = [] @ listing w n t None"
    using list_exact_lists [OF assms, of n t None "[]"] by blast
  with list_start [OF assms] show thesis by (intro that [of r w']) simp_all
qed

lemma get_result:
  assumes "ok w"
  shows "\<exists>r w'. r53_get E n t w = Some (r, w') \<and> ok w' \<and> zone w' = zone w \<and> (\<forall>ob. r = Inr ob \<longrightarrow> ob = r53_view zone w n t)"
proof -
  obtain r w' where "list_exact E n t None [] w = Some (r, w')" "ok w'" "zone w' = zone w"
    "\<forall>sets. r = Inr sets \<longrightarrow> sets = filter (is_exact n t) (zone w)" by (rule list_result [where n = n and t = t, OF assms])
  then show ?thesis by (cases r) (auto simp: r53_get_def r53_view_def)
qed

lemma submit_result:
  assumes ok: "ok w" and d: "target_for r53_writable n t d" and m: "ob_matches (r53_view zone w n t) e"
    and run: "r53_submit E (r53_changes (filter (is_exact n t) (zone w)) d) w = (k, w')"
  shows "ok w' \<and> (\<forall>n' t'. (n', t') \<noteq> (n, t) \<longrightarrow> r53_view zone w' n' t' = r53_view zone w n' t')
    \<and> (is_ok k \<longrightarrow> written (r53_view zone w' n t) d) \<and> (\<forall>m. k = Inl (DnsConflict m) \<longrightarrow> zone w' = zone w)"
proof -
  let ?sets = "filter (is_exact n t) (zone w)" and ?batch = "r53_changes (filter (is_exact n t) (zone w)) d"
  have plain: "plain_batch ?batch"
    using d built_plain by (auto simp: plain_batch_def r53_changes_def target_for_def split: list.splits option.splits)
  obtain c where c: "r5_change E ?batch w = (c, w')" and k: "is_ok k \<longrightarrow> (\<exists>i. c = Replied i)" and conf: "\<forall>m. k = Inl (DnsConflict m) \<longrightarrow> sdk_result c = Inl (DnsConflict m)"
    using run by (cases "r5_change E ?batch w") (auto simp: r53_submit_def sdk_result_def split: sdk_reply.splits option.splits)
  have ex: "\<forall>r. d = Some r \<longrightarrow> is_exact n t (build_set r)" using d built_plain by (auto simp: target_for_def)
  have one: "length ?sets \<le> 1" using matches_single m unfolding r53_view_def by blast
  note eff = batch_exact [OF _ refl one ex, of "zone w'"]
  have other: "r53_view zone w' n' t' = r53_view zone w n' t'" if "(n', t') \<noteq> (n, t)" for n' t'
    using change_lost [OF ok plain c] eff(2) [OF _ that] by (auto simp: r53_view_def)
  have "written (r53_view zone w' n t) d" if "is_ok k"
  proof -
    obtain i where "c = Replied i" using k \<open>is_ok k\<close> by blast
    with change_applied [OF ok plain] c have "filter (is_exact n t) (zone w') = (case d of None \<Rightarrow> [] | Some r \<Rightarrow> [build_set r])"
      using eff(1) by blast
    then show ?thesis using d built_written
      by (cases d) (auto simp: r53_view_def target_for_def, simp add: written_def r53_observed_def)
  qed
  moreover have "zone w' = zone w" if "k = Inl (DnsConflict m)" for m
    using that conf sdk_conflict [of c m] change_refused [OF ok plain] c by blast
  ultimately show ?thesis using change_ok [OF ok plain c] other by blast
qed

lemma replace_result:
  assumes ok: "ok w" and d: "target_for r53_writable n t d"
  shows "\<exists>k w'. r53_replace E n t e d w = Some (k, w') \<and> ok w'
    \<and> (\<forall>n' t'. (n', t') \<noteq> (n, t) \<longrightarrow> r53_view zone w' n' t' = r53_view zone w n' t')
    \<and> (\<not> ob_matches (r53_view zone w n t) e \<longrightarrow> \<not> is_ok k \<and> zone w' = zone w)
    \<and> (is_ok k \<longrightarrow> ob_matches (r53_view zone w n t) e \<and> written (r53_view zone w' n t) d)
    \<and> (\<forall>m. k = Inl (DnsConflict m) \<longrightarrow> zone w' = zone w)"
proof -
  obtain r w1 where l: "list_exact E n t None [] w = Some (r, w1)" "ok w1" "zone w1 = zone w"
    "\<forall>sets. r = Inr sets \<longrightarrow> sets = filter (is_exact n t) (zone w)" by (rule list_result [where n = n and t = t, OF ok])
  show ?thesis
  proof (cases r)
    case (Inl er)
    with l show ?thesis by (auto simp: r53_replace_def r53_view_def)
  next
    case (Inr sets)
    then have sets: "sets = filter (is_exact n t) (zone w1)" using l by simp
    then have v: "r53_observed n t sets = r53_view zone w1 n t" "r53_view zone w1 = r53_view zone w"
      by (auto simp: r53_view_def fun_eq_iff l(3))
    have run: "r53_replace E n t e d w = Some (r53_change E n t e d sets w1)" by (simp add: r53_replace_def l(1) Inr)
    show ?thesis
    proof (cases "ob_matches (r53_view zone w1 n t) e \<and> \<not> (e = None \<and> d = None)")
      case True
      obtain k w' where s: "r53_submit E (r53_changes sets d) w1 = (k, w')" by fastforce
      note sub = submit_result [OF l(2) d conjunct1 [OF True] s [unfolded sets]]
      have "r53_change E n t e d sets w1 = (k, w')" using True s by (simp only: r53_change_cases v simp_thms if_True if_False)
      with run sub True v(2) l(3) show ?thesis by auto
    next
      case False
      have "written (r53_view zone w1 n t) None" if "ob_matches (r53_view zone w1 n t) None"
        using that by (cases "r53_view zone w1 n t") (auto simp: ob_matches_def written_def)
      with False run l v show ?thesis by (auto simp: r53_change_cases)
    qed
  qed
qed

end

lemma view_zone: "zone w' = zone w \<Longrightarrow> r53_view zone w' = r53_view zone w"
  by (auto simp: r53_view_def fun_eq_iff)

context r53_server
begin

lemma get_op:
  assumes "ok w" "pv_get (route53_ops E) n t w = (r, w')"
  shows "ok w' \<and> r53_view zone w' = r53_view zone w \<and> (\<forall>ob. r = Inr ob \<longrightarrow> ob = r53_view zone w n t)"
proof -
  obtain r1 w1 where g: "r53_get E n t w = Some (r1, w1)" "ok w1" "zone w1 = zone w" "\<forall>ob. r1 = Inr ob \<longrightarrow> ob = r53_view zone w n t"
    using get_result [OF assms(1)] by blast
  have "r1 = r" "w1 = w'" using assms(2) g(1) by (simp_all add: route53_ops_def answered_def)
  with g view_zone [where zone = zone, OF g(3)] show ?thesis by simp
qed

lemma replace_mismatch:
  assumes "ok w" "\<not> ob_matches (r53_view zone w n t) e"
  shows "\<exists>k w'. r53_replace E n t e d w = Some (k, w') \<and> zone w' = zone w"
proof -
  obtain r w1 where "list_exact E n t None [] w = Some (r, w1)" "ok w1" "zone w1 = zone w"
    "\<forall>sets. r = Inr sets \<longrightarrow> sets = filter (is_exact n t) (zone w)" by (rule list_result [where n = n and t = t, OF assms(1)])
  with assms(2) show ?thesis by (cases r) (auto simp: r53_replace_def r53_change_cases r53_view_def)
qed

lemma replace_op: "r53_replace E n t e d w = Some y \<Longrightarrow> pv_replace (route53_ops E) n t e d w = y"
  by (simp add: route53_ops_def answered_def)

end

sublocale r53_server \<subseteq> r53_store: dns_store "route53_ops E" "r53_view zone" ok r53_writable
proof
  fix w n t ob w'
  show "ok w \<Longrightarrow> pv_get (route53_ops E) n t w = (Inr ob, w') \<Longrightarrow> ob = r53_view zone w n t"
    using get_op by blast
next
  fix w n t r w'
  show "ok w \<Longrightarrow> pv_get (route53_ops E) n t w = (r, w') \<Longrightarrow> ok w' \<and> r53_view zone w' = r53_view zone w"
    using get_op by blast
next
  fix w c b w'
  show "ok w \<Longrightarrow> pv_synced (route53_ops E) c w = (b, w') \<Longrightarrow> ok w' \<and> r53_view zone w' = r53_view zone w"
    using status_frame [of w c] by (auto simp: route53_ops_def r53_synced_def intro: view_zone split: prod.splits)
next
  fix w n t d e k w'
  show "ok w \<Longrightarrow> target_for r53_writable n t d \<Longrightarrow> pv_replace (route53_ops E) n t e d w = (k, w') \<Longrightarrow> ok w'"
    using replace_result [of w n t d e] replace_op [of n t e d w] by (metis is_ok_simps(2) prod.inject)
next
  fix w n t d e k w' n' t'
  show "ok w \<Longrightarrow> target_for r53_writable n t d \<Longrightarrow> pv_replace (route53_ops E) n t e d w = (k, w') \<Longrightarrow> (n', t') \<noteq> (n, t)
      \<Longrightarrow> r53_view zone w' n' t' = r53_view zone w n' t'"
    using replace_result [of w n t d e] replace_op [of n t e d w] by (metis is_ok_simps(2) prod.inject)
next
  fix w n t e d k w'
  show "ok w \<Longrightarrow> \<not> ob_matches (r53_view zone w n t) e \<Longrightarrow> pv_replace (route53_ops E) n t e d w = (k, w') \<Longrightarrow> r53_view zone w' = r53_view zone w"
    using replace_mismatch [of w n t e d] replace_op [of n t e d w] by (metis prod.inject view_zone)
next
  fix w n t o'
  show "ok w \<Longrightarrow> r53_view zone w n t = Some o' \<Longrightarrow> rs_name (ob_set o') = n \<and> rs_type (ob_set o') = t"
    by (auto simp: r53_view_def r53_observed_def Let_def split: list.splits)
next
  fix w n t d e k' w'
  show "ok w \<Longrightarrow> target_for r53_writable n t d \<Longrightarrow> pv_replace (route53_ops E) n t e d w = (Inr k', w')
      \<Longrightarrow> ob_matches (r53_view zone w n t) e \<and> written (r53_view zone w' n t) d"
    using replace_result [of w n t d e] replace_op [of n t e d w] by (metis is_ok_simps(2) prod.inject)
qed

subsection \<open>The mock of the service\<close>

text \<open>The API of the module's tests, on parsed requests. The SDK signs every request and reads the answers back.\<close>

record mock_set =
  ms_ttl :: int
  ms_values :: "string list"
  ms_identifier :: "string option"
  ms_alias :: bool

record r53_mock =
  rm_sets :: "(string \<times> string, mock_set) table"
  rm_changes :: "(string, nat) table"
  rm_next_change :: nat
  rm_failures :: "(nat \<times> string) list"

text \<open>What \<open>set_xml\<close> says about a set, and the set that the body of a change names.\<close>

definition set_xml :: "(string \<times> string) \<times> mock_set \<Rightarrow> rr_set" where
  "set_xml = (\<lambda>((name, kind), s).
     \<lparr>rr_name = name, rr_kind = kind, rr_identifier = ms_identifier s, rr_alias = ms_alias s,
      rr_ttl = (if ms_alias s then None else Some (ms_ttl s)), rr_values = (if ms_alias s then [] else ms_values s)\<rparr>)"

definition mock_set_of :: "rr_set \<Rightarrow> mock_set" where
  "mock_set_of s = \<lparr>ms_ttl = ttl_of s, ms_values = rr_values s, ms_identifier = rr_identifier s, ms_alias = rr_alias s\<rparr>"

definition service_error :: "string \<Rightarrow> string \<Rightarrow> 'a sdk_reply" where
  "service_error code message = SdkFailed (ServiceError (Some code) (Some message))"

text \<open>The part of \<open>handle\<close> before the request is served: injected failures and the path of the zone.\<close>

definition mock_accept :: "string \<Rightarrow> (r53_mock \<Rightarrow> 'a sdk_reply \<times> r53_mock) \<Rightarrow> r53_mock \<Rightarrow> 'a sdk_reply \<times> r53_mock" where
  "mock_accept zone_id serve w =
     (case rm_failures w of
        (_, code) # rest \<Rightarrow> (service_error code ''injected failure'', w\<lparr>rm_failures := rest\<rparr>)
      | [] \<Rightarrow>
          if starts_with ''Z123/rrset'' (zone_id @ ''/rrset'') then serve w
          else (service_error ''NoSuchHostedZone'' ''No hosted zone found'', w))"

definition mock_list :: "string \<Rightarrow> string \<Rightarrow> string option \<Rightarrow> r53_mock \<Rightarrow> list_output sdk_reply \<times> r53_mock" where
  "mock_list name kind _ w =
     (Replied \<lparr>lo_sets = (case map_of (rm_sets w) (name, kind) of Some s \<Rightarrow> [set_xml ((name, kind), s)] | None \<Rightarrow> []),
               lo_truncated = False, lo_next_name = None, lo_next_kind = None, lo_next_identifier = None\<rparr>, w)"

definition single_quoted :: "string \<Rightarrow> string" where
  "single_quoted s = CHR 0x27 # s @ [CHR 0x27]"

fun mock_apply ::
  "change_action list \<Rightarrow> (string \<times> string, mock_set) table \<Rightarrow> (string \<times> string, (string \<times> string, mock_set) table) result" where
  "mock_apply [] working = Inr working"
| "mock_apply (CreateSet s # changes) working =
     (let key = (rr_name s, rr_kind s)
      in if map_of working key \<noteq> None
         then Inl (''InvalidChangeBatch'', ''Tried to create resource record set [name='' @ single_quoted (rr_name s) @ '', type='' @ single_quoted (rr_kind s) @ ''] but it already exists'')
         else mock_apply changes (t_insert key (mock_set_of s) working))"
| "mock_apply (DeleteSet s # changes) working =
     (let key = (rr_name s, rr_kind s)
      in if (case map_of working key of
               Some existing \<Rightarrow> ms_ttl existing = ttl_of s \<and> sort (ms_values existing) = sort (rr_values s)
             | None \<Rightarrow> False)
         then mock_apply changes (t_remove key working)
         else Inl (''InvalidChangeBatch'', ''Tried to delete resource record set [name='' @ single_quoted (rr_name s) @ '', type='' @ single_quoted (rr_kind s) @ ''] but the values provided do not match the current values''))"

definition mock_change :: "change_action list \<Rightarrow> r53_mock \<Rightarrow> string option sdk_reply \<times> r53_mock" where
  "mock_change batch w =
     (case mock_apply batch (rm_sets w) of
        Inl (code, message) \<Rightarrow> (service_error code message, w)
      | Inr working \<Rightarrow>
          let next = rm_next_change w + 1; id0 = CHR ''C'' # show_nat next
          in (Replied (Some (''/change/'' @ id0)),
              w\<lparr>rm_sets := working, rm_next_change := next, rm_changes := t_insert id0 0 (rm_changes w)\<rparr>))"

definition mock_status :: "string \<Rightarrow> r53_mock \<Rightarrow> bool sdk_reply \<times> r53_mock" where
  "mock_status id0 w =
     (case rm_failures w of
        (_, code) # rest \<Rightarrow> (service_error code ''injected failure'', w\<lparr>rm_failures := rest\<rparr>)
      | [] \<Rightarrow>
          let polls = (case map_of (rm_changes w) id0 of Some p \<Rightarrow> p | None \<Rightarrow> 0) + 1
          in (Replied (polls > 1), w\<lparr>rm_changes := t_insert id0 polls (rm_changes w)\<rparr>))"

definition r53_mock_env :: "string \<Rightarrow> r53_mock r53_env" where
  "r53_mock_env zone_id =
     \<lparr>r5_list = (\<lambda>name kind i. mock_accept zone_id (mock_list name kind i)),
      r5_change = (\<lambda>batch. mock_accept zone_id (mock_change batch)), r5_status = mock_status\<rparr>"

definition r53_mock_zone :: "r53_mock \<Rightarrow> rr_set list" where
  "r53_mock_zone w = map set_xml (rm_sets w)"

text \<open>The mock compares names as they are written, so they have to be in the form of the service.\<close>

definition mock_entry_ok :: "(string \<times> string) \<times> mock_set \<Rightarrow> bool" where
  "mock_entry_ok = (\<lambda>((name, kind), s). name = fqdn (decode_name name) \<and> (ms_alias s \<longrightarrow> ms_ttl s = 0 \<and> ms_values s = []))"

definition mock_table_ok :: "(string \<times> string, mock_set) table \<Rightarrow> bool" where
  "mock_table_ok tbl \<longleftrightarrow> distinct (map fst tbl) \<and> list_all mock_entry_ok tbl"

lemma set_xml_simps [simp]:
  "rr_name (set_xml x) = fst (fst x)" "rr_kind (set_xml x) = snd (fst x)" "rr_identifier (set_xml x) = ms_identifier (snd x)"
  by (simp_all add: set_xml_def split: prod.splits)

lemma set_xml_data:
  assumes "mock_entry_ok x"
  shows "ttl_of (set_xml x) = ms_ttl (snd x)" "rr_values (set_xml x) = ms_values (snd x)"
  using assms by (auto simp: set_xml_def mock_entry_ok_def ttl_of_def split: prod.splits)

lemma set_xml_mock_set_of: "plain_set s \<Longrightarrow> set_xml ((rr_name s, rr_kind s), mock_set_of s) = s"
  by (auto simp: set_xml_def mock_set_of_def plain_set_def ttl_of_def)

lemma mock_lookup_filter:
  "mock_table_ok tbl \<Longrightarrow> filter (is_exact n t) (map set_xml tbl)
     = takeWhile (is_exact n t) (case map_of tbl (fqdn n, record_type_str t) of Some s \<Rightarrow> [set_xml ((fqdn n, record_type_str t), s)] | None \<Rightarrow> [])"
proof (induction tbl)
  case (Cons x tbl)
  obtain name kind s where x: "x = ((name, kind), s)" by (cases x) auto
  have ok: "mock_table_ok tbl" "name = fqdn (decode_name name)" and new: "(name, kind) \<notin> fst ` set tbl"
    using Cons.prems by (auto simp: mock_table_ok_def mock_entry_ok_def x)
  show ?case
  proof (cases "name = fqdn n \<and> kind = record_type_str t")
    case True
    then have "map_of tbl (fqdn n, record_type_str t) = None" using new by (simp add: map_of_eq_None_iff)
    with Cons.IH [OF ok(1)] True show ?thesis by (simp add: x)
  next
    case False
    then have "\<not> is_exact n t (set_xml x)" using ok(2) by (auto simp: is_exact_def x)
    with Cons.IH [OF ok(1)] False show ?thesis by (auto simp: x)
  qed
qed simp

lemma mock_remove:
  "mock_table_ok tbl \<Longrightarrow> map_of tbl key = Some e \<Longrightarrow>
     mock_table_ok (t_remove key tbl) \<and> map set_xml (t_remove key tbl) = remove1 (set_xml (key, e)) (map set_xml tbl)"
proof (induction tbl)
  case (Cons x tbl)
  obtain k v where x: "x = (k, v)" by (cases x)
  have ok: "mock_table_ok tbl" and new: "k \<notin> fst ` set tbl" using Cons.prems by (auto simp: mock_table_ok_def x)
  show ?case
  proof (cases "k = key")
    case True
    then have "t_remove key tbl = tbl" using new by (simp add: t_remove_def AList.delete_id)
    with True ok Cons.prems show ?thesis by (simp add: x t_remove_def)
  next
    case False
    then have "set_xml (key, e) \<noteq> set_xml x"
      by (metis fst_conv prod.collapse set_xml_simps(1,2) x)
    moreover have "mock_table_ok (x # t_remove key tbl)"
      using Cons.IH [OF ok] Cons.prems False by (auto simp: mock_table_ok_def x t_remove_def AList.delete_eq)
    ultimately show ?thesis using Cons.IH [OF ok] Cons.prems False by (auto simp: x t_remove_def)
  qed
qed simp

lemma t_insert_new: "map_of tbl key = None \<Longrightarrow> t_insert key v tbl = tbl @ [(key, v)]"
  by (induction tbl) (auto simp: t_insert_def split: if_splits)

lemma mock_apply_applies:
  "mock_apply batch tbl = Inr tbl' \<Longrightarrow> mock_table_ok tbl \<Longrightarrow> plain_batch batch \<Longrightarrow>
     mock_table_ok tbl' \<and> batch_applies batch (map set_xml tbl) (map set_xml tbl')"
proof (induction batch arbitrary: tbl)
  case (Cons c batch)
  have plain: "plain_batch batch" using Cons.prems(3) by (simp add: plain_batch_def)
  show ?case
  proof (cases c)
    case (DeleteSet s)
    let ?key = "(rr_name s, rr_kind s)"
    obtain e where e: "map_of tbl ?key = Some e" "ms_ttl e = ttl_of s" "sort (ms_values e) = sort (rr_values s)"
      and rest: "mock_apply batch (t_remove ?key tbl) = Inr tbl'"
      using Cons.prems(1) DeleteSet by (auto simp: Let_def split: if_splits option.splits)
    note rem = mock_remove [OF Cons.prems(2) e(1)]
    have entry: "mock_entry_ok (?key, e)" "(?key, e) \<in> set tbl"
      using Cons.prems(2) map_of_SomeD [OF e(1)] by (auto simp: mock_table_ok_def list_all_iff)
    then have "same_rr (set_xml (?key, e)) s" using set_xml_data [OF entry(1)] e(2,3) by (simp add: same_rr_def)
    with entry(2) rem have "applies c (map set_xml tbl) (map set_xml (t_remove ?key tbl))"
      unfolding DeleteSet applies.simps by (intro bexI [of _ "set_xml (?key, e)"]) auto
    with Cons.IH [OF rest conjunct1 [OF rem] plain] show ?thesis by auto
  next
    case (CreateSet s)
    let ?key = "(rr_name s, rr_kind s)"
    have new: "map_of tbl ?key = None" and rest: "mock_apply batch (tbl @ [(?key, mock_set_of s)]) = Inr tbl'"
      using Cons.prems(1) CreateSet by (auto simp: Let_def t_insert_new split: if_splits)
    have s: "plain_set s" using Cons.prems(3) CreateSet by (simp add: plain_batch_def)
    have ok': "mock_table_ok (tbl @ [(?key, mock_set_of s)])"
      using Cons.prems(2) new s by (auto simp: mock_table_ok_def mock_entry_ok_def plain_set_def mock_set_of_def map_of_eq_None_iff)
    have "\<forall>r \<in> set (map set_xml tbl). \<not> (rr_name r = rr_name s \<and> rr_kind r = rr_kind s)"
      using new by (force simp: map_of_eq_None_iff)
    then have "applies c (map set_xml tbl) (map set_xml (tbl @ [(?key, mock_set_of s)]))"
      unfolding CreateSet applies.simps map_append list.map set_xml_mock_set_of [OF s] by blast
    with Cons.IH [OF rest ok' plain] show ?thesis by auto
  qed
qed simp

interpretation r53_mock: r53_server "r53_mock_env zone_id" r53_mock_zone "\<lambda>w n t i. filter (is_exact n t) (r53_mock_zone w)" "\<lambda>w. mock_table_ok (rm_sets w)"
proof
  fix w raw kind i r w'
  show "mock_table_ok (rm_sets w) \<Longrightarrow> r5_list (r53_mock_env zone_id) raw kind i w = (r, w')
      \<Longrightarrow> mock_table_ok (rm_sets w') \<and> r53_mock_zone w' = r53_mock_zone w \<and> (\<lambda>n t i. filter (is_exact n t) (r53_mock_zone w')) = (\<lambda>n t i. filter (is_exact n t) (r53_mock_zone w))"
    by (auto simp: r53_mock_env_def mock_accept_def mock_list_def r53_mock_zone_def split: list.splits if_splits)
next
  fix w n t i out w'
  show "mock_table_ok (rm_sets w) \<Longrightarrow> r5_list (r53_mock_env zone_id) (fqdn n) (record_type_str t) i w = (Replied out, w') \<Longrightarrow>
      if continues_here n t out \<and> lo_next_identifier out \<noteq> None
      then lo_sets out \<noteq> [] \<and> filter (is_exact n t) (r53_mock_zone w) = lo_sets out @ filter (is_exact n t) (r53_mock_zone w)
      else filter (is_exact n t) (r53_mock_zone w) = takeWhile (is_exact n t) (lo_sets out)"
    using mock_lookup_filter [of "rm_sets w" n t]
    by (auto simp: r53_mock_env_def mock_accept_def mock_list_def r53_mock_zone_def service_error_def continues_here_def split: list.splits if_splits prod.splits)
next
  fix w batch c w'
  assume ok: "mock_table_ok (rm_sets w)" and plain: "plain_batch batch" and run: "r5_change (r53_mock_env zone_id) batch w = (c, w')"
  note eff = mock_apply_applies [OF _ ok plain]
  show "mock_table_ok (rm_sets w')"
    using run ok eff by (auto simp: r53_mock_env_def mock_accept_def mock_change_def Let_def split: list.splits if_splits sum.splits prod.splits)
  show "r53_mock_zone w' = r53_mock_zone w \<or> batch_applies batch (r53_mock_zone w) (r53_mock_zone w')"
    using run eff by (auto simp: r53_mock_env_def mock_accept_def mock_change_def r53_mock_zone_def Let_def split: list.splits if_splits sum.splits prod.splits)
next
  fix w batch id0 w'
  assume "mock_table_ok (rm_sets w)" "plain_batch batch" "r5_change (r53_mock_env zone_id) batch w = (Replied id0, w')"
  then show "batch_applies batch (r53_mock_zone w) (r53_mock_zone w')"
    using mock_apply_applies [of batch "rm_sets w"]
    by (auto simp: r53_mock_env_def mock_accept_def mock_change_def r53_mock_zone_def service_error_def Let_def split: list.splits if_splits sum.splits prod.splits)
next
  fix w batch code msg w'
  assume "r5_change (r53_mock_env zone_id) batch w = (SdkFailed (ServiceError code msg), w')"
  then show "r53_mock_zone w' = r53_mock_zone w"
    by (auto simp: r53_mock_env_def mock_accept_def mock_change_def r53_mock_zone_def Let_def split: list.splits if_splits sum.splits prod.splits)
next
  fix w id1 b w'
  show "mock_table_ok (rm_sets w) \<Longrightarrow> r5_status (r53_mock_env zone_id) id1 w = (b, w') \<Longrightarrow> mock_table_ok (rm_sets w') \<and> r53_mock_zone w' = r53_mock_zone w"
    by (auto simp: r53_mock_env_def mock_status_def r53_mock_zone_def Let_def split: list.splits)
qed simp_all

text \<open>The names that the configuration accepts survive the trip.\<close>

lemma valid_name_survives:
  assumes "valid_name True True n"
  shows "plain_name n"
proof -
  obtain l ls where sp: "split_on (CHR ''.'') n = l # ls" and labels: "valid_label True l \<or> l = ''*''" "\<forall>m \<in> set ls. valid_label True m"
    using assms by (auto simp: valid_name_def split: list.splits)
  have ch: "is_ascii_char c \<and> \<not> is_ascii_uppercase c \<and> c \<noteq> backslash"
    if "is_ascii_lowercase c \<or> is_ascii_digit c \<or> c \<in> {CHR ''-'', CHR ''_'', CHR ''.'', CHR ''*''}" for c
    using that by (auto simp: ascii_defs)
  have "is_ascii_lowercase c \<or> is_ascii_digit c \<or> c \<in> {CHR ''-'', CHR ''_'', CHR ''.'', CHR ''*''}" if "c \<in> set n" for c
  proof -
    from that have "c = CHR ''.'' \<or> (\<exists>m \<in> set (l # ls). c \<in> set m)"
      using iffD1 [OF set_split_on [where c = c and s = n and d = "CHR ''.''"]] sp by metis
    then show ?thesis
    proof
      assume "\<exists>m \<in> set (l # ls). c \<in> set m"
      then obtain m where m: "m \<in> set (l # ls)" "c \<in> set m" by blast
      with labels have "valid_label True m \<or> m = ''*''" by auto
      with m(2) show ?thesis by (auto simp: valid_label_def)
    qed simp
  qed
  then have "list_all (\<lambda>c. is_ascii_char c \<and> \<not> is_ascii_uppercase c \<and> c \<noteq> backslash) n"
    unfolding list_all_iff using ch by blast
  moreover have "\<not> ends_with ''.'' n"
  proof
    assume "ends_with ''.'' n"
    then obtain m where n: "n = m @ ''.''" by (cases n rule: rev_cases) (auto simp: ends_with_def starts_with_def)
    have "split_on (CHR ''.'') (m @ ''.'') = split_on (CHR ''.'') m @ [[]]"
      by (induction m) (auto split: list.splits)
    then have "l # ls = split_on (CHR ''.'') m @ [[]]" using n sp by simp
    then have "[] \<in> set (l # ls)" by (metis in_set_conv_decomp)
    with labels show False by (auto simp: valid_label_def)
  qed
  ultimately show ?thesis by (simp add: plain_name_def)
qed

subsection \<open>The property of the adapter\<close>

text \<open>C16. A change through the Route 53 adapter on a service with the documented behaviour always returns. When it
  reports success, the record set had the expected data and is now read back with exactly the desired
  data, or is gone for a deletion; when the record set is not as expected, the call fails and nothing
  changes; when the answer is a conflict, nothing was changed either; and in every case, also when the answer of the
  service is lost, no record set of another name or type is different.\<close>

theorem route53_replace_exact:
  assumes "r53_server E zone listing ok" "ok w" "target_for r53_writable n t d"
  shows "\<exists>k w'. r53_replace E n t e d w = Some (k, w') \<and> ok w'
    \<and> (\<forall>n' t'. (n', t') \<noteq> (n, t) \<longrightarrow> r53_view zone w' n' t' = r53_view zone w n' t')
    \<and> (\<not> ob_matches (r53_view zone w n t) e \<longrightarrow> \<not> is_ok k \<and> zone w' = zone w)
    \<and> (is_ok k \<longrightarrow> ob_matches (r53_view zone w n t) e \<and> written (r53_view zone w' n t) d)
    \<and> (\<forall>m. k = Inl (DnsConflict m) \<longrightarrow> zone w' = zone w)"
  by (rule r53_server.replace_result [OF assms])

definition empty_r53_mock :: r53_mock where
  "empty_r53_mock = \<lparr>rm_sets = [], rm_changes = [], rm_next_change = 0, rm_failures = []\<rparr>"

definition r53_test_set :: record_set where
  "r53_test_set = \<lparr>rs_name = ''*.b'', rs_type = RA, rs_ttl = 60, rs_values = {''0.0.0.1''}, rs_proxied = None\<rparr>"

lemma r53_test_target: "target_for r53_writable ''*.b'' RA (Some r53_test_set)"
proof -
  have "decode_name (fqdn ''*.b'') = ''*.b''" by (rule fqdn_round_trip) code_simp
  moreover have "normalize_value RA ''0.0.0.1'' = Inr ''0.0.0.1''" by code_simp
  ultimately show ?thesis by (simp add: target_for_def r53_writable_def r53_test_set_def r53_content_def)
qed

theorem route53_replace_exact_witness:
  "\<exists>k w'. r53_replace (r53_mock_env ''Z123'') ''*.b'' RA None (Some r53_test_set) empty_r53_mock = Some (k, w')
     \<and> mock_table_ok (rm_sets w') \<and> (is_ok k \<longrightarrow> written (r53_view r53_mock_zone w' ''*.b'' RA) (Some r53_test_set))"
proof -
  have "mock_table_ok (rm_sets empty_r53_mock)" by (simp add: empty_r53_mock_def mock_table_ok_def)
  from route53_replace_exact [OF r53_mock.r53_server_axioms, OF this r53_test_target, of "''Z123''" None] show ?thesis by blast
qed

end
