(* ===== verification/Certificates.thy ===== *)
theory Certificates
  imports Io Table Hostname Bytes
begin

text \<open>
  Certificates on disk (\<open>sievetube-edge/src/certificate_store.rs\<close>). A managed certificate is written to a
  directory of its own generation, and a pointer file is then replaced to activate it. The model has the
  directory of each name and a list of faults: an operation can fail, and the process can die in
  the middle of it. What was written stays written; the lock of a name is held for the whole of \<open>store\<close>, so no other
  writer is in between. Parsing of X.509 and keys is a parameter.
\<close>

subsection \<open>Validation\<close>

datatype cert_source = Byoc | Acme

fun cert_source_str :: "cert_source \<Rightarrow> string" where
  "cert_source_str Byoc = ''byoc''"
| "cert_source_str Acme = ''acme''"

record 'k cert_entry =
  en_name :: string
  en_source :: cert_source
  en_key :: 'k
  en_not_before :: int
  en_not_after :: int
  en_dns_names :: "string list"
  en_fingerprint :: string
  en_generation :: "nat option"

record 'k parsed_cert =
  px_key :: 'k
  px_not_before :: int
  px_not_after :: int
  px_sans :: "string list"
  px_fingerprint :: string

datatype cert_error = CannotParse string | NotCovered | Expired | NotYetValid

definition is_expired :: "'k cert_entry \<Rightarrow> int \<Rightarrow> bool" where
  "is_expired e now \<longleftrightarrow> now \<ge> en_not_after e"

definition remaining_secs :: "'k cert_entry \<Rightarrow> int \<Rightarrow> int" where
  "remaining_secs e now = en_not_after e - now"

definition lifetime_secs :: "'k cert_entry \<Rightarrow> int" where
  "lifetime_secs e = max (en_not_after e - en_not_before e) 0"

definition NOT_BEFORE_LEEWAY_SECS :: int where "NOT_BEFORE_LEEWAY_SECS = 300"

definition san_name :: "string \<Rightarrow> string" where
  "san_name n = to_ascii_lowercase (rev (dropWhile (\<lambda>c. c = CHR ''.'') (rev n)))"

definition covers :: "string list \<Rightarrow> string \<Rightarrow> bool" where
  "covers dns_names name = list_ex (\<lambda>san. san = name \<or> (\<not> starts_with ''*.'' name \<and> matches_pattern san name)) dns_names"

definition parse_and_validate ::
  "(bytes \<Rightarrow> bytes \<Rightarrow> (string, 'k parsed_cert) result) \<Rightarrow> bytes \<Rightarrow> bytes \<Rightarrow> string \<Rightarrow> cert_source \<Rightarrow> int \<Rightarrow> (cert_error, 'k cert_entry) result" where
  "parse_and_validate parse cert key name source now =
     (case parse cert key of
        Inl e \<Rightarrow> Inl (CannotParse e)
      | Inr p \<Rightarrow>
          let dns_names = map san_name (px_sans p)
          in if \<not> covers dns_names name then Inl NotCovered
             else if now \<ge> px_not_after p then Inl Expired
             else if px_not_before p > now + NOT_BEFORE_LEEWAY_SECS then Inl NotYetValid
             else Inr \<lparr>en_name = name, en_source = source, en_key = px_key p, en_not_before = px_not_before p,
                       en_not_after = px_not_after p, en_dns_names = dns_names, en_fingerprint = px_fingerprint p, en_generation = None\<rparr>)"

subsection \<open>The disk\<close>

datatype node = FileNode bytes | DirNode "(string, bytes) table"

type_synonym dir = "(string, node) table"

datatype fault = Works | Fails nat | Dies nat

record disk =
  dk_dirs :: "(string, dir) table"
  dk_faults :: "fault list"
  dk_dead :: bool

datatype store_error = DiskError | CorruptPointer | CertInvalid cert_error | StaleGeneration nat | GenerationExists

text \<open>
  An operation on the directories: it may be impossible, it can fail on its own, and the process can die
  in it; \<open>eff (Some k)\<close> is what it has done by then.
\<close>

definition disk_op ::
  "((string, dir) table \<Rightarrow> bool) \<Rightarrow> (nat option \<Rightarrow> (string, dir) table \<Rightarrow> (string, dir) table) \<Rightarrow> (disk, store_error, unit) io" where
  "disk_op possible eff w =
     (if dk_dead w then (Inl DiskError, w)
      else let w1 = w\<lparr>dk_faults := tl (dk_faults w)\<rparr>
           in case (if dk_faults w = [] then Works else hd (dk_faults w)) of
                Works \<Rightarrow> if possible (dk_dirs w) then (Inr (), w1\<lparr>dk_dirs := eff None (dk_dirs w)\<rparr>) else (Inl DiskError, w1)
              | Fails k \<Rightarrow> (Inl DiskError, if possible (dk_dirs w) then w1\<lparr>dk_dirs := eff (Some k) (dk_dirs w)\<rparr> else w1)
              | Dies k \<Rightarrow> (Inl DiskError, (if possible (dk_dirs w) then w1\<lparr>dk_dirs := eff (Some k) (dk_dirs w)\<rparr> else w1)\<lparr>dk_dead := True\<rparr>))"

definition disk_read :: "((string, dir) table \<Rightarrow> (store_error, 'a) result) \<Rightarrow> (disk, store_error, 'a) io" where
  "disk_read f w =
     (if dk_dead w then (Inl DiskError, w)
      else let w1 = w\<lparr>dk_faults := tl (dk_faults w)\<rparr>
           in case (if dk_faults w = [] then Works else hd (dk_faults w)) of
                Works \<Rightarrow> (f (dk_dirs w), w1)
              | Fails _ \<Rightarrow> (Inl DiskError, w1)
              | Dies _ \<Rightarrow> (Inl DiskError, w1\<lparr>dk_dead := True\<rparr>))"

text \<open>An effect that takes place as a whole or not at all; the directory of a name and an entry in it.\<close>

definition all_or_nothing :: "('a \<Rightarrow> 'a) \<Rightarrow> nat option \<Rightarrow> 'a \<Rightarrow> 'a" where
  "all_or_nothing f k x = (case k of None \<Rightarrow> f x | Some _ \<Rightarrow> x)"

definition in_dir :: "string \<Rightarrow> (dir \<Rightarrow> dir) \<Rightarrow> (string, dir) table \<Rightarrow> (string, dir) table" where
  "in_dir d f dirs = (case map_of dirs d of None \<Rightarrow> dirs | Some entries \<Rightarrow> t_insert d (f entries) dirs)"

definition entry_of :: "(string, dir) table \<Rightarrow> string \<Rightarrow> string \<Rightarrow> node option" where
  "entry_of dirs d e = (case map_of dirs d of None \<Rightarrow> None | Some es \<Rightarrow> map_of es e)"

definition dir_exists :: "string \<Rightarrow> (string, dir) table \<Rightarrow> bool" where
  "dir_exists d dirs \<longleftrightarrow> map_of dirs d \<noteq> None"

text \<open>\<open>create_private_dir\<close> for the directory of a name and for one in it; one that is there already is fine.\<close>

definition create_dir :: "string \<Rightarrow> (disk, store_error, unit) io" where
  "create_dir d = disk_op (\<lambda>_. True) (all_or_nothing (\<lambda>dirs. if map_of dirs d = None then t_insert d [] dirs else dirs))"

definition create_subdir :: "string \<Rightarrow> string \<Rightarrow> (disk, store_error, unit) io" where
  "create_subdir d e =
     disk_op (\<lambda>dirs. dir_exists d dirs \<and> (case entry_of dirs d e of Some (FileNode _) \<Rightarrow> False | _ \<Rightarrow> True))
       (all_or_nothing (in_dir d (\<lambda>es. if map_of es e = None then t_insert e (DirNode []) es else es)))"

text \<open>\<open>write_file\<close> creates a new file, here in a subdirectory; a failure may leave the first bytes of it.\<close>

definition add_file :: "string \<Rightarrow> bytes \<Rightarrow> node \<Rightarrow> node" where
  "add_file f data n = (case n of DirNode files \<Rightarrow> DirNode (t_insert f data files) | FileNode b \<Rightarrow> FileNode b)"

definition written_part :: "nat option \<Rightarrow> bytes \<Rightarrow> bytes" where
  "written_part k data = (case k of None \<Rightarrow> data | Some i \<Rightarrow> take i data)"

definition write_file :: "string \<Rightarrow> string \<Rightarrow> string \<Rightarrow> bytes \<Rightarrow> (disk, store_error, unit) io" where
  "write_file d e f data =
     disk_op (\<lambda>dirs. case entry_of dirs d e of Some (DirNode files) \<Rightarrow> map_of files f = None | _ \<Rightarrow> False)
       (\<lambda>k. in_dir d (\<lambda>es. case map_of es e of None \<Rightarrow> es | Some n \<Rightarrow> t_insert e (add_file f (written_part k data) n) es))"

text \<open>\<open>rename\<close> replaces a file by a file and an empty directory by a directory.\<close>

definition can_replace :: "node \<Rightarrow> node option \<Rightarrow> bool" where
  "can_replace n old =
     (case (n, old) of
        (_, None) \<Rightarrow> True
      | (FileNode _, Some (FileNode _)) \<Rightarrow> True
      | (DirNode _, Some (DirNode files)) \<Rightarrow> files = []
      | _ \<Rightarrow> False)"

definition rename_entry :: "string \<Rightarrow> string \<Rightarrow> string \<Rightarrow> (disk, store_error, unit) io" where
  "rename_entry d old new =
     disk_op (\<lambda>dirs. case entry_of dirs d old of None \<Rightarrow> False | Some n \<Rightarrow> can_replace n (entry_of dirs d new))
       (all_or_nothing (in_dir d (\<lambda>es. case map_of es old of None \<Rightarrow> es | Some n \<Rightarrow> t_insert new n (t_remove old es))))"

text \<open>\<open>remove_dir_all\<close>: a failure may leave the directory with the files that were not removed yet.\<close>

definition drop_files :: "nat \<Rightarrow> node \<Rightarrow> node" where
  "drop_files k n = (case n of DirNode files \<Rightarrow> DirNode (drop k files) | FileNode b \<Rightarrow> FileNode b)"

definition remove_dir_all :: "string \<Rightarrow> string \<Rightarrow> (disk, store_error, unit) io" where
  "remove_dir_all d e =
     disk_op (\<lambda>dirs. case entry_of dirs d e of Some (DirNode _) \<Rightarrow> True | _ \<Rightarrow> False)
       (\<lambda>k. in_dir d (\<lambda>es. case map_of es e of
          None \<Rightarrow> es
        | Some n \<Rightarrow> (case k of None \<Rightarrow> t_remove e es | Some i \<Rightarrow> t_insert e (drop_files i n) es)))"

definition remove_file :: "string \<Rightarrow> string \<Rightarrow> (disk, store_error, unit) io" where
  "remove_file d e =
     disk_op (\<lambda>dirs. case entry_of dirs d e of Some (FileNode _) \<Rightarrow> True | _ \<Rightarrow> False) (all_or_nothing (in_dir d (t_remove e)))"

text \<open>\<open>write_atomic\<close>: the new content goes to a new temporary file that then replaces the old one.\<close>

definition create_file :: "string \<Rightarrow> string \<Rightarrow> bytes \<Rightarrow> (disk, store_error, unit) io" where
  "create_file d e data =
     disk_op (\<lambda>dirs. dir_exists d dirs \<and> entry_of dirs d e = None) (\<lambda>k. in_dir d (t_insert e (FileNode (written_part k data))))"

definition or_clean_up :: "(disk, 'e, 'a) io \<Rightarrow> (disk, 'e, 'b) io \<Rightarrow> (disk, 'e, 'a) io" where
  "or_clean_up m clean w = (case m w of (Inr a, w') \<Rightarrow> (Inr a, w') | (Inl e, w') \<Rightarrow> (Inl e, snd (clean w')))"

definition write_atomic :: "string \<Rightarrow> string \<Rightarrow> string \<Rightarrow> bytes \<Rightarrow> (disk, store_error, unit) io" where
  "write_atomic uuid d e data =
     (let tmp = ''.'' @ e @ ''.'' @ uuid @ ''.tmp''
      in or_clean_up (io_bind (create_file d tmp data) (\<lambda>_. rename_entry d tmp e)) (remove_file d tmp))"

subsection \<open>The store\<close>

definition CERT_FILE :: string where "CERT_FILE = ''fullchain.pem''"
definition KEY_FILE :: string where "KEY_FILE = ''privkey.pem''"
definition CURRENT_FILE :: string where "CURRENT_FILE = ''current''"
definition STORE_LOCK_FILE :: string where "STORE_LOCK_FILE = ''.store.lock''"
definition KEPT_GENERATIONS :: nat where "KEPT_GENERATIONS = 3"

definition name_dir :: "string \<Rightarrow> string" where
  "name_dir name = (case strip_prefix ''*.'' name of Some rest \<Rightarrow> ''_wildcard.'' @ rest | None \<Rightarrow> name)"

definition gen_dir :: "nat \<Rightarrow> string" where
  "gen_dir g = ''gen-'' @ show_nat g"

definition pointer_of :: "(string, dir) table \<Rightarrow> string \<Rightarrow> (store_error, nat option) result" where
  "pointer_of dirs d =
     (case map_of dirs d of
        None \<Rightarrow> Inr None
      | Some es \<Rightarrow>
          (case map_of es CURRENT_FILE of
             None \<Rightarrow> Inr None
           | Some (DirNode _) \<Rightarrow> Inl DiskError
           | Some (FileNode content) \<Rightarrow>
               (case from_utf8 content of
                  None \<Rightarrow> Inl DiskError
                | Some s \<Rightarrow> (case parse_uint 64 (trim s) of Some g \<Rightarrow> Inr (Some g) | None \<Rightarrow> Inl CorruptPointer))))"

definition current_generation :: "string \<Rightarrow> (disk, store_error, nat option) io" where
  "current_generation name = disk_read (\<lambda>dirs. pointer_of dirs (name_dir name))"

definition generation_of :: "string \<Rightarrow> nat option" where
  "generation_of entry = (case strip_prefix ''gen-'' entry of None \<Rightarrow> None | Some s \<Rightarrow> parse_uint 64 s)"

definition generations_in :: "(string, dir) table \<Rightarrow> string \<Rightarrow> nat list" where
  "generations_in dirs d =
     (case map_of dirs d of None \<Rightarrow> [] | Some es \<Rightarrow> rev (sort (List.map_filter (\<lambda>(e, _). generation_of e) es)))"

definition generations :: "string \<Rightarrow> (disk, store_error, nat list) io" where
  "generations name = disk_read (\<lambda>dirs. Inr (generations_in dirs (name_dir name)))"

text \<open>The sum wraps around as in a release build.\<close>

definition next_generation :: "string \<Rightarrow> (disk, store_error, nat) io" where
  "next_generation name =
     io_bind (generations name) (\<lambda>gs.
     io_bind (current_generation name) (\<lambda>c.
       let newest = (case gs of g # _ \<Rightarrow> g | [] \<Rightarrow> 0); current = (case c of Some g \<Rightarrow> g | None \<Rightarrow> 0)
       in io_return ((max newest current + 1) mod 2 ^ 64)))"

fun remove_generations :: "string \<Rightarrow> nat list \<Rightarrow> disk \<Rightarrow> disk" where
  "remove_generations d [] w = w"
| "remove_generations d (g # gs) w = remove_generations d gs (snd (remove_dir_all d (gen_dir g) w))"

definition prune :: "string \<Rightarrow> nat \<Rightarrow> disk \<Rightarrow> disk" where
  "prune name active w =
     (case generations name w of
        (Inl _, w') \<Rightarrow> w'
      | (Inr gs, w') \<Rightarrow> remove_generations (name_dir name) (drop (KEPT_GENERATIONS - 1) (filter (\<lambda>g. g < active) gs)) w')"

definition read_entry :: "string \<Rightarrow> string \<Rightarrow> string \<Rightarrow> (disk, store_error, bytes) io" where
  "read_entry d e f =
     disk_read (\<lambda>dirs. case entry_of dirs d e of
        Some (DirNode files) \<Rightarrow> (case map_of files f of Some data \<Rightarrow> Inr data | None \<Rightarrow> Inl DiskError)
      | _ \<Rightarrow> Inl DiskError)"

text \<open>The files of a generation, complete before they get their final name.\<close>

definition write_generation :: "string \<Rightarrow> string \<Rightarrow> nat \<Rightarrow> bytes \<Rightarrow> bytes \<Rightarrow> (disk, store_error, unit) io" where
  "write_generation uuid d generation cert key =
     (let tmp = ''.gen-'' @ show_nat generation @ ''.'' @ uuid @ ''.tmp''
      in io_bind (create_subdir d tmp) (\<lambda>_.
         or_clean_up
           (io_bind (write_file d tmp CERT_FILE cert) (\<lambda>_.
            io_bind (write_file d tmp KEY_FILE key) (\<lambda>_. rename_entry d tmp (gen_dir generation))))
           (remove_dir_all d tmp)))"

text \<open>\<open>Path::exists\<close> is false when it cannot tell.\<close>

definition entry_exists :: "string \<Rightarrow> string \<Rightarrow> disk \<Rightarrow> bool \<times> disk" where
  "entry_exists d e w =
     (case disk_read (\<lambda>dirs. Inr (entry_of dirs d e \<noteq> None)) w of (Inr b, w') \<Rightarrow> (b, w') | (Inl _, w') \<Rightarrow> (False, w'))"

text \<open>An active generation that the given one is not newer than.\<close>

definition not_newer :: "nat \<Rightarrow> nat option \<Rightarrow> nat option" where
  "not_newer generation current = (case current of Some c \<Rightarrow> if generation \<le> c then Some c else None | None \<Rightarrow> None)"

text \<open>The new generation and then the pointer to it.\<close>

definition activate :: "string \<times> string \<Rightarrow> string \<Rightarrow> nat \<Rightarrow> bytes \<Rightarrow> bytes \<Rightarrow> (disk, store_error, unit) io" where
  "activate uuids d generation cert key w =
     (case entry_exists d (gen_dir generation) w of
        (True, w1) \<Rightarrow> (Inl GenerationExists, w1)
      | (False, w1) \<Rightarrow>
          io_bind (write_generation (fst uuids) d generation cert key)
            (\<lambda>_. write_atomic (snd uuids) d CURRENT_FILE (as_bytes (show_nat generation))) w1)"

text \<open>The lock of a name: its file is created when it is missing; taking the lock can fail.\<close>

definition open_lock_file :: "string \<Rightarrow> string \<Rightarrow> (disk, store_error, unit) io" where
  "open_lock_file d e =
     disk_op (\<lambda>dirs. dir_exists d dirs \<and> (case entry_of dirs d e of Some (DirNode _) \<Rightarrow> False | _ \<Rightarrow> True))
       (all_or_nothing (in_dir d (\<lambda>es. if map_of es e = None then t_insert e (FileNode []) es else es)))"

definition take_lock :: "string \<Rightarrow> (disk, store_error, unit) io" where
  "take_lock d = io_bind (open_lock_file d STORE_LOCK_FILE) (\<lambda>_. disk_read (\<lambda>_. Inr ()))"

definition cert_store ::
  "(bytes \<Rightarrow> bytes \<Rightarrow> (string, 'k parsed_cert) result) \<Rightarrow> string \<times> string \<Rightarrow> string \<Rightarrow> nat \<Rightarrow> bytes \<Rightarrow> bytes \<Rightarrow> int
   \<Rightarrow> (disk, store_error, 'k cert_entry) io" where
  "cert_store parse uuids name generation cert key now =
     (case parse_and_validate parse cert key name Acme now of
        Inl e \<Rightarrow> io_fail (CertInvalid e)
      | Inr entry \<Rightarrow>
          io_bind (create_dir (name_dir name)) (\<lambda>_.
          io_bind (take_lock (name_dir name)) (\<lambda>_.
          io_bind (current_generation name) (\<lambda>current.
            case not_newer generation current of
              Some c \<Rightarrow> io_fail (StaleGeneration c)
            | None \<Rightarrow>
                io_bind (activate uuids (name_dir name) generation cert key) (\<lambda>_. \<lambda>w.
                  (Inr (entry\<lparr>en_generation := Some generation\<rparr>), prune name generation w))))))"

definition load_generation ::
  "(bytes \<Rightarrow> bytes \<Rightarrow> (string, 'k parsed_cert) result) \<Rightarrow> string \<Rightarrow> nat \<Rightarrow> int \<Rightarrow> (disk, store_error, 'k cert_entry) io" where
  "load_generation parse name generation now =
     (let d = name_dir name
      in io_bind (read_entry d (gen_dir generation) CERT_FILE) (\<lambda>cert.
         io_bind (read_entry d (gen_dir generation) KEY_FILE) (\<lambda>key.
           case parse_and_validate parse cert key name Acme now of
             Inl e \<Rightarrow> io_fail (CertInvalid e)
           | Inr entry \<Rightarrow> io_return (entry\<lparr>en_generation := Some generation\<rparr>))))"

fun load_first ::
  "(bytes \<Rightarrow> bytes \<Rightarrow> (string, 'k parsed_cert) result) \<Rightarrow> string \<Rightarrow> nat list \<Rightarrow> int \<Rightarrow> (disk, store_error, 'k cert_entry option) io" where
  "load_first parse name [] now w = (Inr None, w)"
| "load_first parse name (g # gs) now w =
     (case load_generation parse name g now w of
        (Inr entry, w') \<Rightarrow> (Inr (Some entry), w')
      | (Inl _, w') \<Rightarrow> load_first parse name gs now w')"

definition load_current ::
  "(bytes \<Rightarrow> bytes \<Rightarrow> (string, 'k parsed_cert) result) \<Rightarrow> string \<Rightarrow> int \<Rightarrow> (disk, store_error, 'k cert_entry option) io" where
  "load_current parse name now =
     io_bind (current_generation name) (\<lambda>c.
       case c of
         None \<Rightarrow> io_return None
       | Some current \<Rightarrow> io_bind (generations name) (\<lambda>gs. load_first parse name (filter (\<lambda>g. g \<le> current) gs) now))"

subsection \<open>What an operation leaves alone\<close>

definition same_but :: "string \<Rightarrow> string set \<Rightarrow> disk \<Rightarrow> disk \<Rightarrow> bool" where
  "same_but d E w w' \<longleftrightarrow> (\<forall>d' e. d' \<noteq> d \<or> e \<notin> E \<longrightarrow> entry_of (dk_dirs w') d' e = entry_of (dk_dirs w) d' e)"

lemma same_but_refl [simp]: "dk_dirs w' = dk_dirs w \<Longrightarrow> same_but d E w w'"
  by (simp add: same_but_def)

lemma same_but_trans [trans]: "same_but d E w w' \<Longrightarrow> same_but d E w' w'' \<Longrightarrow> same_but d E w w''"
  by (simp add: same_but_def)

lemma same_but_mono: "same_but d E w w' \<Longrightarrow> E \<subseteq> F \<Longrightarrow> same_but d F w w'"
  by (auto simp: same_but_def)

lemma same_butD: "same_but d E w w' \<Longrightarrow> d' \<noteq> d \<or> e \<notin> E \<Longrightarrow> entry_of (dk_dirs w') d' e = entry_of (dk_dirs w) d' e"
  by (simp add: same_but_def)

lemma entry_of_in_dir:
  "entry_of (in_dir d f dirs) d' e =
     (if d' = d then (case map_of dirs d of None \<Rightarrow> None | Some es \<Rightarrow> map_of (f es) e) else entry_of dirs d' e)"
  by (auto simp: entry_of_def in_dir_def tab_simps split: option.splits)

lemma entry_of_None: "map_of dirs d = None \<Longrightarrow> entry_of dirs d e = None"
  by (simp add: entry_of_def)

lemma entry_of_Some: "map_of dirs d = Some es \<Longrightarrow> entry_of dirs d e = map_of es e"
  by (simp add: entry_of_def)

lemma disk_op_same:
  assumes op: "disk_op possible eff w = (r, w')"
    and eff: "\<And>k d' e. possible (dk_dirs w) \<Longrightarrow> d' \<noteq> d \<or> e \<notin> E \<Longrightarrow> entry_of (eff k (dk_dirs w)) d' e = entry_of (dk_dirs w) d' e"
  shows "same_but d E w w'"
  using op
  by (auto simp: disk_op_def same_but_def Let_def eff split: if_splits fault.splits)

lemma disk_op_Inr:
  "disk_op possible eff w = (Inr u, w') \<Longrightarrow> possible (dk_dirs w) \<and> dk_dirs w' = eff None (dk_dirs w)"
  by (auto simp: disk_op_def Let_def split: if_splits fault.splits)

lemma disk_read_dirs: "disk_read f w = (r, w') \<Longrightarrow> dk_dirs w' = dk_dirs w"
  by (auto simp: disk_read_def Let_def split: if_splits fault.splits)

lemma disk_read_Inr: "disk_read f w = (Inr a, w') \<Longrightarrow> f (dk_dirs w) = Inr a"
  by (auto simp: disk_read_def Let_def split: if_splits fault.splits)

lemma disk_read_same: "disk_read f w = (r, w') \<Longrightarrow> same_but d E w w'"
  by (simp add: disk_read_dirs)

interpretation disk_frame: io_frame "same_but d E" for d E
  by unfold_locales (auto intro: same_but_trans)

lemma or_clean_up_same:
  assumes "or_clean_up m clean w = (r, w')" "\<And>r w1. m w = (r, w1) \<Longrightarrow> same_but d E w w1"
    and "\<And>r w1 w2. clean w1 = (r, w2) \<Longrightarrow> same_but d E w1 w2"
  shows "same_but d E w w'"
  using assms(1,2) assms(3) [OF prod.collapse [symmetric]]
  by (auto simp: or_clean_up_def split: prod.splits sum.splits intro: same_but_trans)

lemma or_clean_up_Inr: "or_clean_up m clean w = (Inr a, w') \<longleftrightarrow> m w = (Inr a, w')"
  by (auto simp: or_clean_up_def split: prod.splits sum.splits)

lemma or_clean_up_Inl:
  "or_clean_up m clean w = (Inl e, w') \<longleftrightarrow> (\<exists>w1. m w = (Inl e, w1) \<and> w' = snd (clean w1))"
  by (auto simp: or_clean_up_def split: prod.splits sum.splits)

lemmas entry_simps = entry_of_def in_dir_def all_or_nothing_def tab_simps

lemma create_dir_same: "create_dir d w = (r, w') \<Longrightarrow> same_but d E w w'"
  unfolding create_dir_def
  by (erule disk_op_same) (auto simp: entry_simps split: option.splits)

lemma create_subdir_same: "create_subdir d e w = (r, w') \<Longrightarrow> e \<in> E \<Longrightarrow> same_but d E w w'"
  unfolding create_subdir_def
  by (erule disk_op_same) (auto simp: entry_simps split: option.splits)

lemma open_lock_file_same: "open_lock_file d e w = (r, w') \<Longrightarrow> e \<in> E \<Longrightarrow> same_but d E w w'"
  unfolding open_lock_file_def
  by (erule disk_op_same) (auto simp: entry_simps split: option.splits)

lemma write_file_same: "write_file d e f data w = (r, w') \<Longrightarrow> e \<in> E \<Longrightarrow> same_but d E w w'"
  unfolding write_file_def
  by (erule disk_op_same) (auto simp: entry_simps split: option.splits)

lemma create_file_same: "create_file d e data w = (r, w') \<Longrightarrow> e \<in> E \<Longrightarrow> same_but d E w w'"
  unfolding create_file_def
  by (erule disk_op_same) (auto simp: entry_simps split: option.splits)

lemma rename_entry_same: "rename_entry d old new w = (r, w') \<Longrightarrow> old \<in> E \<Longrightarrow> new \<in> E \<Longrightarrow> same_but d E w w'"
  unfolding rename_entry_def
  by (erule disk_op_same) (auto simp: entry_simps split: option.splits)

lemma remove_file_same: "remove_file d e w = (r, w') \<Longrightarrow> e \<in> E \<Longrightarrow> same_but d E w w'"
  unfolding remove_file_def
  by (erule disk_op_same) (auto simp: entry_simps split: option.splits)

lemma remove_dir_all_same: "remove_dir_all d e w = (r, w') \<Longrightarrow> e \<in> E \<Longrightarrow> same_but d E w w'"
  unfolding remove_dir_all_def
  by (erule disk_op_same) (auto simp: entry_simps split: option.splits)

text \<open>A failed rename has done nothing.\<close>

lemma rename_entry_Inl:
  "rename_entry d old new w = (Inl er, w') \<Longrightarrow> dk_dirs w' = dk_dirs w"
  by (auto simp: rename_entry_def disk_op_def all_or_nothing_def Let_def split: if_splits fault.splits)

subsection \<open>What an operation achieves\<close>

lemma create_subdir_Inr:
  "create_subdir d e w = (Inr u, w') \<Longrightarrow> \<exists>files. entry_of (dk_dirs w') d e = Some (DirNode files)"
  by (auto simp: create_subdir_def dir_exists_def entry_simps dest!: disk_op_Inr split: option.splits node.splits)
    (metis node.exhaust)

lemma write_file_Inr:
  assumes "write_file d e f data w = (Inr u, w')"
  obtains files where "entry_of (dk_dirs w) d e = Some (DirNode files)"
    and "entry_of (dk_dirs w') d e = Some (DirNode (t_insert f data files))"
proof -
  from disk_op_Inr [OF assms [unfolded write_file_def]] obtain files where
    "entry_of (dk_dirs w) d e = Some (DirNode files)"
    by (auto split: option.splits node.splits)
  with disk_op_Inr [OF assms [unfolded write_file_def]] show thesis
    by (intro that) (auto simp: add_file_def written_part_def entry_simps split: option.splits)
qed

lemma create_file_Inr:
  "create_file d e data w = (Inr u, w') \<Longrightarrow> entry_of (dk_dirs w') d e = Some (FileNode data)"
  by (auto simp: create_file_def dir_exists_def written_part_def entry_simps dest!: disk_op_Inr split: option.splits)

lemma rename_entry_Inr:
  "rename_entry d old new w = (Inr u, w') \<Longrightarrow> entry_of (dk_dirs w') d new = entry_of (dk_dirs w) d old"
  by (auto simp: rename_entry_def entry_simps dest!: disk_op_Inr split: option.splits)

subsection \<open>Storing a generation\<close>

text \<open>Entries that no reader looks at.\<close>

definition hidden :: "string set" where
  "hidden = {e. starts_with ''.'' e}"

lemma lock_hidden [simp]: "STORE_LOCK_FILE \<in> hidden"
  by (simp add: hidden_def STORE_LOCK_FILE_def starts_with_iff)

lemma dot_hidden [simp]: "CHR ''.'' # e \<in> hidden"
  by (simp add: hidden_def starts_with_iff)

lemma hidden_names: "e \<in> hidden \<Longrightarrow> generation_of e = None \<and> e \<noteq> CURRENT_FILE \<and> e \<noteq> gen_dir g"
  by (auto simp: hidden_def starts_with_iff generation_of_def CURRENT_FILE_def gen_dir_def split: option.splits)

lemma current_not_hidden [simp]: "CURRENT_FILE \<notin> hidden"
  using hidden_names by blast

lemma gen_dir_not_hidden [simp]: "gen_dir g \<notin> hidden"
  using hidden_names by blast

lemma gen_dir_inj [simp]: "gen_dir g = gen_dir h \<longleftrightarrow> g = h"
  by (simp add: gen_dir_def show_nat_inj)

lemma gen_dir_not_current [simp]: "gen_dir g \<noteq> CURRENT_FILE" "CURRENT_FILE \<noteq> gen_dir g"
  by (simp_all add: gen_dir_def CURRENT_FILE_def)

lemma generation_of_gen_dir [simp]: "g < 2 ^ 64 \<Longrightarrow> generation_of (gen_dir g) = Some g"
  unfolding generation_of_def gen_dir_def strip_prefix_append option.case by (rule parse_uint_show_nat)

definition complete :: "(string, dir) table \<Rightarrow> string \<Rightarrow> nat \<Rightarrow> bytes \<Rightarrow> bytes \<Rightarrow> bool" where
  "complete dirs d g cert key \<longleftrightarrow>
     (\<exists>files. entry_of dirs d (gen_dir g) = Some (DirNode files) \<and> map_of files CERT_FILE = Some cert \<and> map_of files KEY_FILE = Some key)"

lemma take_lock_same: "take_lock d w = (r, w') \<Longrightarrow> same_but d hidden w w'"
  unfolding take_lock_def
  by (erule disk_frame.bind_step) (auto intro: open_lock_file_same disk_read_same)

lemma write_generation_same:
  assumes "write_generation uuid d g cert key w = (r, w')"
  shows "same_but d (insert (gen_dir g) hidden) w w'"
  using assms unfolding write_generation_def Let_def
  by (elim disk_frame.bind_step or_clean_up_same)
    (auto intro: create_subdir_same write_file_same rename_entry_same remove_dir_all_same)

lemma write_generation_Inr:
  assumes "write_generation uuid d g cert key w = (Inr u, w')"
  shows "complete (dk_dirs w') d g cert key"
proof -
  from assms obtain tmp u1 w0 w1 u2 w2 where
    1: "write_file d tmp CERT_FILE cert w0 = (Inr u1, w1)" and 2: "write_file d tmp KEY_FILE key w1 = (Inr u2, w2)"
    and 3: "rename_entry d tmp (gen_dir g) w2 = (Inr u, w')"
    unfolding write_generation_def Let_def io_bind_Inr or_clean_up_Inr by blast
  from 1 obtain f1 where f1: "entry_of (dk_dirs w1) d tmp = Some (DirNode (t_insert CERT_FILE cert f1))"
    by (rule write_file_Inr)
  from 2 obtain f2 where f2: "entry_of (dk_dirs w1) d tmp = Some (DirNode f2)" "entry_of (dk_dirs w2) d tmp = Some (DirNode (t_insert KEY_FILE key f2))"
    by (rule write_file_Inr)
  from f1 f2 rename_entry_Inr [OF 3] show ?thesis
    by (auto simp: complete_def tab_simps CERT_FILE_def KEY_FILE_def)
qed

text \<open>The pointer is the old one or, only when the call succeeds, the new one.\<close>

lemma write_atomic_same:
  assumes "write_atomic uuid d e data w = (r, w')"
  shows "same_but d (insert e hidden) w w'"
  using assms unfolding write_atomic_def Let_def
  by (elim disk_frame.bind_step or_clean_up_same) (auto intro: create_file_same rename_entry_same remove_file_same)

lemma write_atomic_Inr:
  "write_atomic uuid d e data w = (Inr u, w') \<Longrightarrow> entry_of (dk_dirs w') d e = Some (FileNode data)"
  by (auto simp: write_atomic_def Let_def or_clean_up_Inr io_bind_Inr dest!: create_file_Inr rename_entry_Inr)

lemma write_atomic_Inl:
  assumes "write_atomic uuid d e data w = (Inl er, w')"
  shows "same_but d hidden w w'"
  using assms unfolding write_atomic_def Let_def or_clean_up_Inl io_bind_Inl
  by (auto intro!: same_but_trans [OF _ remove_file_same [OF prod.collapse [symmetric]]] intro: create_file_same
      dest: rename_entry_Inl same_but_trans [OF create_file_same [where E = hidden] same_but_refl])

text \<open>After \<open>activate\<close> the pointer names a complete generation, or nothing that a reader can see has changed.\<close>

definition activated :: "string \<Rightarrow> nat \<Rightarrow> bytes \<Rightarrow> bytes \<Rightarrow> disk \<Rightarrow> bool" where
  "activated d g cert key w \<longleftrightarrow>
     entry_of (dk_dirs w) d CURRENT_FILE = Some (FileNode (as_bytes (show_nat g))) \<and> complete (dk_dirs w) d g cert key"

lemma complete_cong:
  "entry_of dirs' d (gen_dir g) = entry_of dirs d (gen_dir g) \<Longrightarrow> complete dirs' d g cert key \<longleftrightarrow> complete dirs d g cert key"
  by (simp add: complete_def)

lemma entry_exists_dirs: "entry_exists d e w = (b, w') \<Longrightarrow> dk_dirs w' = dk_dirs w"
  by (auto simp: entry_exists_def split: prod.splits sum.splits dest: disk_read_dirs)

lemma activate_Inr:
  assumes "activate uuids d g cert key w = (Inr u, w')"
  shows "activated d g cert key w'" "same_but d (insert CURRENT_FILE (insert (gen_dir g) hidden)) w w'"
proof -
  from assms obtain w1 u1 w2 where 1: "dk_dirs w1 = dk_dirs w"
    and 2: "write_generation (fst uuids) d g cert key w1 = (Inr u1, w2)"
    and 3: "write_atomic (snd uuids) d CURRENT_FILE (as_bytes (show_nat g)) w2 = (Inr u, w')"
    by (auto simp: activate_def io_bind_Inr split: prod.splits bool.splits dest: entry_exists_dirs)
  have "complete (dk_dirs w') d g cert key"
    using write_generation_Inr [OF 2] same_butD [OF write_atomic_same [OF 3], of d "gen_dir g"]
    by (simp add: complete_def)
  with write_atomic_Inr [OF 3] show "activated d g cert key w'" by (simp add: activated_def)
  from 1 write_generation_same [OF 2] write_atomic_same [OF 3]
  show "same_but d (insert CURRENT_FILE (insert (gen_dir g) hidden)) w w'"
    by (auto simp: same_but_def)
qed

lemma activate_Inl:
  assumes "activate uuids d g cert key w = (Inl er, w')"
  shows "same_but d (insert (gen_dir g) hidden) w w'"
proof -
  obtain b w1 where ex: "entry_exists d (gen_dir g) w = (b, w1)" by (cases "entry_exists d (gen_dir g) w")
  then have 1: "same_but d (insert (gen_dir g) hidden) w w1" by (simp add: entry_exists_dirs)
  show ?thesis
  proof (cases b)
    case False
    with assms ex have "io_bind (write_generation (fst uuids) d g cert key)
        (\<lambda>_. write_atomic (snd uuids) d CURRENT_FILE (as_bytes (show_nat g))) w1 = (Inl er, w')"
      by (simp add: activate_def)
    then have "same_but d (insert (gen_dir g) hidden) w1 w'"
      by (rule disk_frame.bind_step) (auto intro: write_generation_same same_but_mono [OF write_atomic_Inl])
    with 1 show ?thesis by (rule same_but_trans)
  qed (use assms ex 1 in \<open>simp add: activate_def\<close>)
qed

lemma remove_generations_same: "set gs \<subseteq> G \<Longrightarrow> same_but d (gen_dir ` G) w (remove_generations d gs w)"
proof (induction gs arbitrary: w)
  case (Cons g gs)
  have "same_but d (gen_dir ` G) w (snd (remove_dir_all d (gen_dir g) w))"
    by (rule remove_dir_all_same [OF prod.collapse [symmetric]]) (use Cons.prems in simp)
  also have "same_but d (gen_dir ` G) \<dots> (remove_generations d (g # gs) w)"
    using Cons by simp
  finally show ?case .
qed simp

lemma prune_same: "same_but (name_dir name) (gen_dir ` {..<g}) w (prune name g w)"
proof (cases "generations name w")
  case (Pair r w1)
  then have dirs: "dk_dirs w1 = dk_dirs w" by (simp add: generations_def disk_read_dirs)
  show ?thesis
  proof (cases r)
    case (Inr gs)
    have "set (drop (KEPT_GENERATIONS - 1) (filter (\<lambda>h. h < g) gs)) \<subseteq> {..<g}"
      by (auto dest: in_set_dropD)
    from remove_generations_same [OF this, of "name_dir name" w1] dirs show ?thesis
      by (simp add: prune_def Pair Inr same_but_def)
  qed (simp add: prune_def Pair dirs)
qed

lemma prune_activated: "activated (name_dir name) g cert key w \<Longrightarrow> activated (name_dir name) g cert key (prune name g w)"
  using same_butD [OF prune_same, of "name_dir name" name CURRENT_FILE g w]
    same_butD [OF prune_same, of "name_dir name" name "gen_dir g" g w]
  by (auto simp: activated_def complete_def image_iff)

subsection \<open>Loading\<close>

text \<open>The disk when the process runs again.\<close>

definition restarted :: "disk \<Rightarrow> disk" where
  "restarted w = w\<lparr>dk_faults := [], dk_dead := False\<rparr>"

lemma disk_read_restarted: "disk_read f (restarted w) = (f (dk_dirs w), restarted w)"
  by (simp add: disk_read_def restarted_def)

definition pointer_node :: "node option \<Rightarrow> (store_error, nat option) result" where
  "pointer_node n =
     (case n of
        None \<Rightarrow> Inr None
      | Some (DirNode _) \<Rightarrow> Inl DiskError
      | Some (FileNode content) \<Rightarrow>
          (case from_utf8 content of
             None \<Rightarrow> Inl DiskError
           | Some s \<Rightarrow> (case parse_uint 64 (trim s) of Some g \<Rightarrow> Inr (Some g) | None \<Rightarrow> Inl CorruptPointer)))"

lemma pointer_of_entry: "pointer_of dirs d = pointer_node (entry_of dirs d CURRENT_FILE)"
  by (auto simp: pointer_of_def pointer_node_def entry_of_def split: option.splits)

lemma show_nat_ascii: "list_all is_ascii_char (show_nat g)"
  using show_nat_digits [of g] by (fastforce simp: list_all_iff is_ascii_digit_def is_ascii_char_def)

lemma trim_show_nat [simp]: "trim (show_nat g) = show_nat g"
proof (rule trim_non_ws)
  have "non_ws_char c" if "c \<in> set (show_nat g)" for c
    using that show_nat_digits [of g] by (fastforce simp: list_all_iff is_ascii_digit_def non_ws_char_def)
  then show "non_ws_char (hd (show_nat g))" "non_ws_char (last (show_nat g))" by simp_all
qed simp

lemma pointer_node_show: "g < 2 ^ 64 \<Longrightarrow> pointer_node (Some (FileNode (as_bytes (show_nat g)))) = Inr (Some g)"
  using parse_uint_show_nat [of g 64]
  by (simp add: pointer_node_def from_utf8_as_bytes wf_string_ascii show_nat_ascii)

lemma map_of_not_None: "map_of es e \<noteq> None \<longleftrightarrow> (\<exists>n. (e, n) \<in> set es)"
  by (force simp: map_of_eq_None_iff)

lemma set_generations_in:
  "set (generations_in dirs d) = {g. \<exists>e. entry_of dirs d e \<noteq> None \<and> generation_of e = Some g}"
  unfolding generations_in_def entry_of_def
  by (cases "map_of dirs d") (auto simp: set_map_filter_iff map_of_not_None simp del: not_None_eq, blast, force)

lemma sorted_generations_in: "sorted (rev (generations_in dirs d))"
  by (simp add: generations_in_def split: option.splits)

text \<open>What loading finds in a generation, and in the first usable one of a list.\<close>

definition usable ::
  "(bytes \<Rightarrow> bytes \<Rightarrow> (string, 'k parsed_cert) result) \<Rightarrow> string \<Rightarrow> int \<Rightarrow> (string, dir) table \<Rightarrow> nat \<Rightarrow> 'k cert_entry option" where
  "usable parse name now dirs g =
     (case entry_of dirs (name_dir name) (gen_dir g) of
        Some (DirNode files) \<Rightarrow>
          (case (map_of files CERT_FILE, map_of files KEY_FILE) of
             (Some cert, Some key) \<Rightarrow>
               map_option (\<lambda>entry. entry\<lparr>en_generation := Some g\<rparr>) (ok_option (parse_and_validate parse cert key name Acme now))
           | _ \<Rightarrow> None)
      | _ \<Rightarrow> None)"

lemma load_generation_restarted:
  "\<exists>r. load_generation parse name g now (restarted w) = (r, restarted w) \<and> ok_option r = usable parse name now (dk_dirs w) g"
  by (auto simp: load_generation_def read_entry_def usable_def Let_def io_bind_def disk_read_restarted io_fail_def io_return_def
      ok_option_def split: option.splits node.splits sum.splits)

fun first_usable :: "(nat \<Rightarrow> 'a option) \<Rightarrow> nat list \<Rightarrow> 'a option" where
  "first_usable f [] = None"
| "first_usable f (g # gs) = (case f g of Some x \<Rightarrow> Some x | None \<Rightarrow> first_usable f gs)"

lemma load_first_restarted:
  "load_first parse name gs now (restarted w) = (Inr (first_usable (usable parse name now (dk_dirs w)) gs), restarted w)"
proof (induction gs)
  case (Cons g gs)
  from load_generation_restarted [of parse name g now w] obtain r where
    "load_generation parse name g now (restarted w) = (r, restarted w)" "usable parse name now (dk_dirs w) g = ok_option r"
    by metis
  with Cons show ?case by (cases r) (simp_all add: ok_option_def)
qed simp

lemma load_current_restarted:
  "load_current parse name now (restarted w) =
     (case pointer_of (dk_dirs w) (name_dir name) of
        Inl e \<Rightarrow> (Inl e, restarted w)
      | Inr None \<Rightarrow> (Inr None, restarted w)
      | Inr (Some c) \<Rightarrow>
          (Inr (first_usable (usable parse name now (dk_dirs w)) (filter (\<lambda>g. g \<le> c) (generations_in (dk_dirs w) (name_dir name)))), restarted w))"
  by (simp add: load_current_def current_generation_def generations_def io_bind_def disk_read_restarted load_first_restarted
      io_return_def split: sum.splits option.splits)

text \<open>The first usable generation of a descending list depends only on the elements of the list.\<close>

lemma first_usable_Some:
  "sorted_wrt (\<ge>) gs \<Longrightarrow> first_usable f gs = Some x \<longleftrightarrow>
     (\<exists>g \<in> set gs. f g = Some x \<and> (\<forall>h \<in> set gs. g < h \<longrightarrow> f h = None))"
proof (induction gs)
  case (Cons g gs)
  then have below: "h \<le> g" if "h \<in> set gs" for h using that by simp
  show ?case
  proof (cases "f g")
    case None
    with Cons below show ?thesis by (auto simp: not_less)
  next
    case (Some y)
    have "y = x" if "h \<in> set (g # gs)" "f h = Some x" "\<forall>k \<in> set (g # gs). h < k \<longrightarrow> f k = None" for h
    proof -
      from that Some have "\<not> h < g" by auto
      with that(1) below have "h = g" by (auto simp: order.order_iff_strict)
      with that Some show ?thesis by simp
    qed
    moreover have "\<forall>k \<in> set (g # gs). g < k \<longrightarrow> f k = None" using below by (auto simp: not_less [symmetric])
    ultimately show ?thesis using Some by (metis first_usable.simps(2) list.set_intros(1) option.inject option.simps(5))
  qed
qed simp

lemma first_usable_cong:
  assumes "sorted_wrt (\<ge>) gs" "sorted_wrt (\<ge>) hs" "set gs = set hs" "\<And>g. g \<in> set gs \<Longrightarrow> f g = f' g"
  shows "first_usable f gs = first_usable f' hs"
proof -
  have "first_usable f gs = Some x \<longleftrightarrow> first_usable f' hs = Some x" for x
    using assms by (auto simp: first_usable_Some)
  then show ?thesis by (metis option.exhaust)
qed

lemma generations_in_desc: "sorted_wrt (\<ge>) (filter P (generations_in dirs d))"
  using sorted_generations_in [of dirs d] by (auto simp: sorted_wrt_rev intro: sorted_wrt_filter)

lemma load_current_unchanged:
  assumes same: "same_but d E w w'" and current: "d = name_dir name \<Longrightarrow> CURRENT_FILE \<notin> E"
    and newer: "\<And>e h c. d = name_dir name \<Longrightarrow> e \<in> E \<Longrightarrow> pointer_of (dk_dirs w) d = Inr (Some c) \<Longrightarrow> h \<le> c \<Longrightarrow> e \<noteq> gen_dir h \<and> generation_of e \<noteq> Some h"
  shows "fst (load_current parse name now (restarted w')) = fst (load_current parse name now (restarted w))"
proof -
  let ?d = "name_dir name"
  have ptr: "pointer_of (dk_dirs w') ?d = pointer_of (dk_dirs w) ?d"
    using same_butD [OF same, of ?d CURRENT_FILE] current by (auto simp: pointer_of_entry)
  have "first_usable (usable parse name now (dk_dirs w')) (filter (\<lambda>g. g \<le> c) (generations_in (dk_dirs w') ?d)) =
      first_usable (usable parse name now (dk_dirs w)) (filter (\<lambda>g. g \<le> c) (generations_in (dk_dirs w) ?d))"
    if c: "pointer_of (dk_dirs w) ?d = Inr (Some c)" for c
  proof (rule first_usable_cong)
    have eq: "entry_of (dk_dirs w') ?d e = entry_of (dk_dirs w) ?d e" if "e = gen_dir h \<or> generation_of e = Some h" "h \<le> c" for e h
      using newer [of e c h] same_butD [OF same, of ?d e] that c by metis
    show "set (filter (\<lambda>g. g \<le> c) (generations_in (dk_dirs w') ?d)) = set (filter (\<lambda>g. g \<le> c) (generations_in (dk_dirs w) ?d))"
      by (auto simp: set_generations_in eq [OF disjI2] intro!: exI)
    show "usable parse name now (dk_dirs w') g = usable parse name now (dk_dirs w) g"
      if "g \<in> set (filter (\<lambda>g. g \<le> c) (generations_in (dk_dirs w') ?d))" for g
      using eq [of "gen_dir g" g] that by (simp add: usable_def)
  qed (rule generations_in_desc)+
  with ptr show ?thesis
    by (auto simp: load_current_restarted split: sum.splits option.splits)
qed

lemma load_current_activated:
  assumes act: "activated (name_dir name) g cert key w" and g: "g < 2 ^ 64"
    and valid: "parse_and_validate parse cert key name Acme now = Inr entry"
  shows "fst (load_current parse name now (restarted w)) = Inr (Some (entry\<lparr>en_generation := Some g\<rparr>))"
proof -
  let ?gs = "filter (\<lambda>h. h \<le> g) (generations_in (dk_dirs w) (name_dir name))"
  have ptr: "pointer_of (dk_dirs w) (name_dir name) = Inr (Some g)"
    using act pointer_node_show [OF g] by (simp add: activated_def pointer_of_entry)
  have use: "usable parse name now (dk_dirs w) g = Some (entry\<lparr>en_generation := Some g\<rparr>)"
    using act valid by (auto simp: activated_def complete_def usable_def ok_option_def)
  have "g \<in> set ?gs"
    using act generation_of_gen_dir [OF g] by (auto simp: set_generations_in activated_def complete_def intro!: exI [of _ "gen_dir g"])
  with use have "first_usable (usable parse name now (dk_dirs w)) ?gs = Some (entry\<lparr>en_generation := Some g\<rparr>)"
    by (subst first_usable_Some [OF generations_in_desc]) auto
  with ptr show ?thesis by (simp add: load_current_restarted)
qed

subsection \<open>The store as a whole\<close>

lemma hidden_unchanged:
  "same_but (name_dir name) hidden w w'
   \<Longrightarrow> fst (load_current parse name now (restarted w')) = fst (load_current parse name now (restarted w))"
  by (erule load_current_unchanged) (simp, metis hidden_names option.distinct(1))

lemma newer_unchanged:
  assumes "same_but (name_dir name) (insert (gen_dir g) hidden) w w'" and g: "g < 2 ^ 64"
    and newer: "\<And>c. pointer_of (dk_dirs w) (name_dir name) = Inr (Some c) \<Longrightarrow> c < g"
  shows "fst (load_current parse name now (restarted w')) = fst (load_current parse name now (restarted w))"
  using assms(1)
proof (rule load_current_unchanged)
  fix e h c
  assume e: "e \<in> insert (gen_dir g) hidden" and c: "pointer_of (dk_dirs w) (name_dir name) = Inr (Some c)" and h: "h \<le> c"
  from newer [OF c] h have "h \<noteq> g" by simp
  with e hidden_names [of e h] generation_of_gen_dir [OF g] show "e \<noteq> gen_dir h \<and> generation_of e \<noteq> Some h" by auto
qed simp

lemma not_newer_None: "not_newer g c = None \<longleftrightarrow> (\<forall>h. c = Some h \<longrightarrow> h < g)"
  by (auto simp: not_newer_def split: option.splits)

text \<open>The steps before the new generation is written.\<close>

lemma cert_store_cases:
  assumes "cert_store parse uuids name g cert key now w = (r, w')"
  obtains (early) er where "r = Inl er" "same_but (name_dir name) hidden w w'"
  | (late) entry w1 q w2 where "parse_and_validate parse cert key name Acme now = Inr entry"
      "same_but (name_dir name) hidden w w1" "\<And>c. pointer_of (dk_dirs w1) (name_dir name) = Inr (Some c) \<Longrightarrow> c < g"
      "activate uuids (name_dir name) g cert key w1 = (q, w2)"
      "case q of Inl er \<Rightarrow> r = Inl er \<and> w' = w2 | Inr _ \<Rightarrow> r = Inr (entry\<lparr>en_generation := Some g\<rparr>) \<and> w' = prune name g w2"
proof (cases "parse_and_validate parse cert key name Acme now")
  case (Inl e)
  with assms show thesis by (intro early) (auto simp: cert_store_def io_fail_def)
next
  case entry: (Inr entry)
  let ?d = "name_dir name"
  obtain r1 w1 where 1: "create_dir ?d w = (r1, w1)" by (cases "create_dir ?d w")
  obtain r2 w2 where 2: "take_lock ?d w1 = (r2, w2)" by (cases "take_lock ?d w1")
  obtain r3 w3 where 3: "current_generation name w2 = (r3, w3)" by (cases "current_generation name w2")
  obtain q w4 where 4: "activate uuids ?d g cert key w3 = (q, w4)" by (cases "activate uuids ?d g cert key w3")
  note s1 = create_dir_same [OF 1, of hidden]
  note s2 = same_but_trans [OF s1 take_lock_same [OF 2]]
  note s3 = same_but_trans [OF s2 disk_read_same [OF 3 [unfolded current_generation_def]]]
  note steps = assms [unfolded cert_store_def entry sum.case]
  show thesis
  proof (cases "is_ok r1 \<and> is_ok r2 \<and> (\<exists>c. r3 = Inr c \<and> not_newer g c = None)")
    case True
    then obtain c where c: "r3 = Inr c" "not_newer g c = None" by blast
    with 3 have p: "pointer_of (dk_dirs w3) ?d = Inr c"
      by (auto simp: current_generation_def disk_read_dirs dest: disk_read_Inr)
    show thesis
    proof (rule late [OF entry s3 _ 4])
      show "h < g" if "pointer_of (dk_dirs w3) ?d = Inr (Some h)" for h
        using that p c(2) by (simp add: not_newer_None)
      show "case q of Inl er \<Rightarrow> r = Inl er \<and> w' = w4 | Inr _ \<Rightarrow> r = Inr (entry\<lparr>en_generation := Some g\<rparr>) \<and> w' = prune name g w4"
        using True c steps 1 2 3 4 by (auto simp: io_bind_def is_ok_iff split: sum.splits)
    qed
  next
    case False
    with steps 1 2 3 s1 s2 s3 have "\<exists>er. r = Inl er \<and> same_but ?d hidden w w'"
      by (auto simp: io_bind_def is_ok_iff io_fail_def split: sum.splits option.splits)
    with early show thesis by blast
  qed
qed

definition loaded_after_restart ::
  "(bytes \<Rightarrow> bytes \<Rightarrow> (string, 'k parsed_cert) result) \<Rightarrow> string \<Rightarrow> int \<Rightarrow> disk \<Rightarrow> (store_error, 'k cert_entry option) result" where
  "loaded_after_restart parse name now w = fst (load_current parse name now (restarted w))"

lemma cert_store_others:
  assumes "cert_store parse uuids name g cert key now w = (r, w')" "d \<noteq> name_dir name"
  shows "entry_of (dk_dirs w') d e = entry_of (dk_dirs w) d e"
  using assms(1)
proof (cases rule: cert_store_cases)
  case early
  with assms(2) show ?thesis by (auto dest: same_butD)
next
  case (late entry w1 q w2)
  have 2: "entry_of (dk_dirs w2) d e = entry_of (dk_dirs w1) d e"
    using late(4) assms(2) by (cases q) (auto dest: activate_Inl activate_Inr(2) same_butD)
  from late(2) assms(2) have 1: "entry_of (dk_dirs w1) d e = entry_of (dk_dirs w) d e" by (auto dest: same_butD)
  have 3: "entry_of (dk_dirs (prune name g w2)) d e = entry_of (dk_dirs w2) d e"
    using same_butD [OF prune_same] assms(2) by blast
  from 1 2 3 late(5) show ?thesis by (cases q) auto
qed

lemma cert_store_other_names:
  assumes "cert_store parse uuids name g cert key now w = (r, w')" "name_dir other \<noteq> name_dir name"
  shows "loaded_after_restart parse other later w' = loaded_after_restart parse other later w"
  unfolding loaded_after_restart_def
proof (rule load_current_unchanged)
  show "same_but (name_dir name) UNIV w w'"
    using cert_store_others [OF assms(1)] by (auto simp: same_but_def)
qed (use assms(2) in auto)

lemma cert_store_atomic:
  assumes store: "cert_store parse uuids name g cert key now w = (r, w')" and g: "g < 2 ^ 64"
  shows "(case r of
            Inl _ \<Rightarrow> \<forall>later. loaded_after_restart parse name later w' = loaded_after_restart parse name later w
          | Inr _ \<Rightarrow>
              (\<forall>later entry. parse_and_validate parse cert key name Acme later = Inr entry \<longrightarrow>
                 loaded_after_restart parse name later w' = Inr (Some (entry\<lparr>en_generation := Some g\<rparr>)))
              \<and> (\<forall>c. pointer_of (dk_dirs w) (name_dir name) = Inr (Some c) \<longrightarrow> c < g))
       \<and> (\<forall>other later. name_dir other \<noteq> name_dir name \<longrightarrow>
            loaded_after_restart parse other later w' = loaded_after_restart parse other later w)"
proof (rule conjI)
  show "case r of
            Inl _ \<Rightarrow> \<forall>later. loaded_after_restart parse name later w' = loaded_after_restart parse name later w
          | Inr _ \<Rightarrow>
              (\<forall>later entry. parse_and_validate parse cert key name Acme later = Inr entry \<longrightarrow>
                 loaded_after_restart parse name later w' = Inr (Some (entry\<lparr>en_generation := Some g\<rparr>)))
              \<and> (\<forall>c. pointer_of (dk_dirs w) (name_dir name) = Inr (Some c) \<longrightarrow> c < g)"
    using store
  proof (cases rule: cert_store_cases)
    case early
    then show ?thesis by (simp add: loaded_after_restart_def hidden_unchanged)
  next
    case (late entry w1 q w2)
    have ptr: "pointer_of (dk_dirs w1) (name_dir name) = pointer_of (dk_dirs w) (name_dir name)"
      using same_butD [OF late(2), of "name_dir name" CURRENT_FILE] by (simp add: pointer_of_entry)
    show ?thesis
    proof (cases q)
      case (Inl er)
      with late g show ?thesis
        by (simp add: loaded_after_restart_def hidden_unchanged [OF late(2)] newer_unchanged [OF activate_Inl])
    next
      case (Inr u)
      with late have "activated (name_dir name) g cert key w'"
        by (auto intro: prune_activated activate_Inr(1))
      with Inr late ptr g show ?thesis
        by (auto simp: loaded_after_restart_def load_current_activated)
    qed
  qed
qed (use cert_store_other_names [OF store] in blast)

text \<open>C8. A store of a certificate is all or nothing, whatever fails in it and wherever the process dies: after a
  restart, a call that did not succeed has left what loading finds at any later time as it was, and after one that did,
  loading finds the new certificate and key as long as they validate. A call that succeeds never replaces the active generation by an older one,
  and no call touches what is found for another name.
\<close>

theorem store_atomic:
  assumes store: "cert_store parse uuids name g cert key now w = (r, w')" and g: "g < 2 ^ 64"
  shows "(case r of
            Inl _ \<Rightarrow> \<forall>later. loaded_after_restart parse name later w' = loaded_after_restart parse name later w
          | Inr _ \<Rightarrow>
              (\<forall>later entry. parse_and_validate parse cert key name Acme later = Inr entry \<longrightarrow>
                 loaded_after_restart parse name later w' = Inr (Some (entry\<lparr>en_generation := Some g\<rparr>)))
              \<and> (\<forall>c. pointer_of (dk_dirs w) (name_dir name) = Inr (Some c) \<longrightarrow> c < g))
       \<and> (\<forall>other later. name_dir other \<noteq> name_dir name \<longrightarrow>
            loaded_after_restart parse other later w' = loaded_after_restart parse other later w)"
  using cert_store_atomic [OF assms] .

definition sample_parse :: "bytes \<Rightarrow> bytes \<Rightarrow> (string, bytes parsed_cert) result" where
  "sample_parse cert key =
     (if cert = key then Inr \<lparr>px_key = key, px_not_before = 0, px_not_after = 100, px_sans = [''a.test''], px_fingerprint = []\<rparr>
      else Inl ''key mismatch'')"

definition sample_store :: "nat \<Rightarrow> bytes \<Rightarrow> fault list \<Rightarrow> disk \<Rightarrow> (store_error, bytes cert_entry) result \<times> disk" where
  "sample_store g data faults w =
     cert_store sample_parse (''u'', ''v'') ''a.test'' g data data 10 (w\<lparr>dk_faults := faults, dk_dead := False\<rparr>)"

definition sample_disk :: disk where
  "sample_disk = snd (sample_store 1 [7] [] \<lparr>dk_dirs = [], dk_faults = [], dk_dead = False\<rparr>)"

text \<open>The first generation is stored; the second one dies when it replaces the pointer.\<close>

theorem store_atomic_witness:
  "is_ok (fst (sample_store 1 [7] [] \<lparr>dk_dirs = [], dk_faults = [], dk_dead = False\<rparr>))
   \<and> map_option en_key (case loaded_after_restart sample_parse ''a.test'' 50 sample_disk of Inr (Some e) \<Rightarrow> Some e | _ \<Rightarrow> None) = Some [7]
   \<and> fst (sample_store 2 [8] (replicate 10 Works @ [Dies 0]) sample_disk) = Inl DiskError
   \<and> loaded_after_restart sample_parse ''a.test'' 50 (snd (sample_store 2 [8] (replicate 10 Works @ [Dies 0]) sample_disk)) =
       loaded_after_restart sample_parse ''a.test'' 50 sample_disk"
proof -
  let ?start = "\<lparr>dk_dirs = [], dk_faults = [], dk_dead = False\<rparr> :: disk" and ?faults = "replicate 10 Works @ [Dies 0]"
  obtain r w where 1: "sample_store 1 [7] [] ?start = (r, w)" by (cases "sample_store 1 [7] [] ?start")
  have ok: "is_ok (fst (sample_store 1 [7] [] ?start))" by code_simp
  obtain q w' where 2: "sample_store 2 [8] ?faults sample_disk = (q, w')" by (cases "sample_store 2 [8] ?faults sample_disk")
  have dies: "fst (sample_store 2 [8] ?faults sample_disk) = Inl DiskError" by code_simp
  from ok 1 obtain x where r: "r = Inr x" by (auto simp: is_ok_iff)
  have valid: "parse_and_validate sample_parse [7] [7] ''a.test'' Acme 50 =
      Inr \<lparr>en_name = ''a.test'', en_source = Acme, en_key = [7], en_not_before = 0, en_not_after = 100, en_dns_names = [''a.test''],
           en_fingerprint = [], en_generation = None\<rparr>"
    by code_simp
  have found: "map_option en_key (case loaded_after_restart sample_parse ''a.test'' 50 w of Inr (Some e) \<Rightarrow> Some e | _ \<Rightarrow> None) = Some [7]"
    using store_atomic [OF 1 [unfolded sample_store_def]] valid by (simp add: r)
  show ?thesis
    using store_atomic [OF 2 [unfolded sample_store_def]] ok dies found 1 2
    by (simp add: sample_disk_def loaded_after_restart_def restarted_def)
qed

end
