(* ===== verification/Tls_Resolver.thy ===== *)
theory Tls_Resolver
  imports Certificates "HOL-Library.List_Lexorder" "HOL-Library.Char_ord"
begin

text \<open>
  The certificate resolver of public HTTPS (\<open>sievetube-edge/src/tls.rs\<close>). It holds one certificate
  for a name: one read from the certificate directory (BYOC), or one that the ACME manager installed. Writers
  hold a lock, and a reader sees one table as a whole, so an operation is one step. The directory is what listing it
  and reading a file return.
\<close>

subsection \<open>The resolver\<close>

record 'k resolver =
  rs_entries :: "(string, 'k cert_entry) table"
  rs_managed :: "string set"

definition new_resolver :: "'k resolver" where
  "new_resolver = \<lparr>rs_entries = [], rs_managed = {}\<rparr>"

record reload_report =
  rp_loaded :: nat
  rp_unchanged :: nat
  rp_kept_previous :: nat
  rp_failed :: nat
  rp_removed :: nat

definition empty_report :: reload_report where
  "empty_report = \<lparr>rp_loaded = 0, rp_unchanged = 0, rp_kept_previous = 0, rp_failed = 0, rp_removed = 0\<rparr>"

definition report_changed :: "reload_report \<Rightarrow> bool" where
  "report_changed r \<longleftrightarrow> rp_loaded r > 0 \<or> rp_removed r > 0"

definition set_managed_names :: "string set \<Rightarrow> 'k resolver \<Rightarrow> 'k resolver" where
  "set_managed_names names r = r\<lparr>rs_managed := names\<rparr>"

subsection \<open>The certificate directory\<close>

datatype dir_error = DirNotFound | DirOther

record cert_files =
  cf_listing :: "(dir_error, (dir_error, string) result list) result"
  cf_read :: "string \<Rightarrow> bytes option"

text \<open>\<open>Path::extension\<close> and \<open>Path::file_stem\<close> of a file name; a leading dot does not start an extension.\<close>

definition file_parts :: "string \<Rightarrow> string \<times> string option" where
  "file_parts name =
     (case rsplit_once (CHR ''.'') name of
        Some (stem, ext) \<Rightarrow> if stem = [] then (name, None) else (stem, Some ext)
      | None \<Rightarrow> (name, None))"

fun collect_pairs :: "(dir_error, string) result list \<Rightarrow> (dir_error, (string \<times> string \<times> string) list) result" where
  "collect_pairs [] = Inr []"
| "collect_pairs (entry # entries) =
     and_then entry (\<lambda>name.
     and_then (collect_pairs entries) (\<lambda>pairs.
       let (stem, ext) = file_parts name
       in Inr (if ext = Some ''crt'' \<and> wf_string stem then (stem, name, stem @ ''.key'') # pairs else pairs)))"

definition list_cert_pairs :: "cert_files \<Rightarrow> (dir_error, (string \<times> string \<times> string) list) result" where
  "list_cert_pairs files = and_then (cf_listing files) (\<lambda>entries. and_then (collect_pairs entries) (\<lambda>pairs. Inr (sort_key fst pairs)))"

subsection \<open>Reloading\<close>

record 'k reload =
  rl_next :: "(string, 'k cert_entry) table"
  rl_seen :: "string set"
  rl_report :: reload_report

definition previous_byoc :: "(string, 'k cert_entry) table \<Rightarrow> string \<Rightarrow> 'k cert_entry option" where
  "previous_byoc current name =
     (case map_of current name of Some e \<Rightarrow> if en_source e = Byoc then Some e else None | None \<Rightarrow> None)"

definition load_pair ::
  "(bytes \<Rightarrow> bytes \<Rightarrow> (string, 'k parsed_cert) result) \<Rightarrow> cert_files \<Rightarrow> int \<Rightarrow> string \<Rightarrow> string \<Rightarrow> string \<Rightarrow> 'k cert_entry option" where
  "load_pair parse files now name cert_path key_path =
     (case (cf_read files cert_path, cf_read files key_path) of
        (Some cert, Some key) \<Rightarrow> ok_option (parse_and_validate parse cert key name Byoc now)
      | _ \<Rightarrow> None)"

definition one_more :: "((nat \<Rightarrow> nat) \<Rightarrow> reload_report \<Rightarrow> reload_report) \<Rightarrow> 'k reload \<Rightarrow> 'k reload" where
  "one_more field l = l\<lparr>rl_report := field Suc (rl_report l)\<rparr>"

definition reload_file ::
  "(bytes \<Rightarrow> bytes \<Rightarrow> (string, 'k parsed_cert) result) \<Rightarrow> cert_files \<Rightarrow> int \<Rightarrow> string set \<Rightarrow> (string, 'k cert_entry) table
   \<Rightarrow> string \<times> string \<times> string \<Rightarrow> 'k reload \<Rightarrow> 'k reload" where
  "reload_file parse files now managed current pair l =
     (case pair of (stem, cert_path, key_path) \<Rightarrow>
      (case normalize_hostname_pattern stem of
         Inl _ \<Rightarrow> one_more rp_failed_update l
       | Inr name \<Rightarrow>
           let l = l\<lparr>rl_seen := insert name (rl_seen l)\<rparr>
           in if name \<in> managed then one_more rp_failed_update l
              else case (load_pair parse files now name cert_path key_path, previous_byoc current name) of
                     (Some entry, Some prev) \<Rightarrow>
                       if en_fingerprint prev = en_fingerprint entry
                       then (one_more rp_unchanged_update l)\<lparr>rl_next := t_insert name prev (rl_next l)\<rparr>
                       else (one_more rp_loaded_update l)\<lparr>rl_next := t_insert name entry (rl_next l)\<rparr>
                   | (Some entry, None) \<Rightarrow> (one_more rp_loaded_update l)\<lparr>rl_next := t_insert name entry (rl_next l)\<rparr>
                   | (None, Some prev) \<Rightarrow>
                       (one_more rp_kept_previous_update (one_more rp_failed_update l))\<lparr>rl_next := t_insert name prev (rl_next l)\<rparr>
                   | (None, None) \<Rightarrow> one_more rp_failed_update l))"

definition reload_byoc ::
  "(bytes \<Rightarrow> bytes \<Rightarrow> (string, 'k parsed_cert) result) \<Rightarrow> cert_files \<Rightarrow> int \<Rightarrow> 'k resolver \<Rightarrow> reload_report \<times> 'k resolver" where
  "reload_byoc parse files now r =
     (let current = rs_entries r
      in case list_cert_pairs files of
           Inl e \<Rightarrow>
             (if e \<noteq> DirNotFound \<or> list_ex (\<lambda>c. en_source c = Byoc) (t_values current)
              then empty_report\<lparr>rp_failed := 1\<rparr> else empty_report, r)
         | Inr pairs \<Rightarrow>
             let l0 = \<lparr>rl_next = t_retain (\<lambda>_ e. en_source e \<noteq> Byoc) current, rl_seen = {}, rl_report = empty_report\<rparr>;
                 l = fold (reload_file parse files now (rs_managed r) current) pairs l0;
                 removed = length (filter (\<lambda>(name, e). en_source e = Byoc \<and> name \<notin> rl_seen l) current)
             in ((rl_report l)\<lparr>rp_removed := removed\<rparr>, r\<lparr>rs_entries := rl_next l\<rparr>))"

definition install_cert :: "'k cert_entry \<Rightarrow> 'k resolver \<Rightarrow> bool \<times> 'k resolver" where
  "install_cert entry r =
     (case map_of (rs_entries r) (en_name entry) of
        Some e \<Rightarrow> if en_fingerprint e = en_fingerprint entry then (False, r)
                  else (True, r\<lparr>rs_entries := t_insert (en_name entry) entry (rs_entries r)\<rparr>)
      | None \<Rightarrow> (True, r\<lparr>rs_entries := t_insert (en_name entry) entry (rs_entries r)\<rparr>))"

subsection \<open>Lookup\<close>

definition get_cert :: "string \<Rightarrow> 'k resolver \<Rightarrow> 'k cert_entry option" where
  "get_cert name r = map_of (rs_entries r) name"

definition lookup_cert :: "string \<Rightarrow> 'k resolver \<Rightarrow> 'k cert_entry option" where
  "lookup_cert sni r =
     (case map_of (rs_entries r) sni of
        Some e \<Rightarrow> Some e
      | None \<Rightarrow> (case wildcard_for sni of Some pattern \<Rightarrow> map_of (rs_entries r) pattern | None \<Rightarrow> None))"

definition resolve_cert :: "string option \<Rightarrow> 'k resolver \<Rightarrow> 'k option" where
  "resolve_cert server_name r =
     (case server_name of
        None \<Rightarrow> None
      | Some sni \<Rightarrow>
          (case normalize_hostname sni of
             Inl _ \<Rightarrow> None
           | Inr name \<Rightarrow> map_option en_key (lookup_cert name r)))"

definition tls_readiness_issues :: "int \<Rightarrow> 'k resolver \<Rightarrow> string list" where
  "tls_readiness_issues now r =
     sort (map (\<lambda>e. ''certificate for '' @ en_name e @ '' ('' @ cert_source_str (en_source e) @ '') expired'')
       (filter (\<lambda>e. is_expired e now) (t_values (rs_entries r))))"

subsection \<open>What a reload does to a name\<close>

text \<open>What one file gives for its name: the previous certificate stays when the new one is the same or unusable.\<close>

definition chosen :: "'k cert_entry option \<Rightarrow> 'k cert_entry option \<Rightarrow> 'k cert_entry option" where
  "chosen loaded prev =
     (case (loaded, prev) of
        (Some entry, Some p) \<Rightarrow> Some (if en_fingerprint p = en_fingerprint entry then p else entry)
      | (Some entry, None) \<Rightarrow> Some entry
      | (None, p) \<Rightarrow> p)"

lemma reload_file_next:
  "rl_next (reload_file parse files now managed current (stem, cp, kp) l) =
     (case normalize_hostname_pattern stem of
        Inl _ \<Rightarrow> rl_next l
      | Inr name \<Rightarrow>
          (if name \<in> managed then rl_next l
           else case chosen (load_pair parse files now name cp kp) (previous_byoc current name) of
                  Some e \<Rightarrow> t_insert name e (rl_next l) | None \<Rightarrow> rl_next l))"
  by (auto simp: reload_file_def chosen_def one_more_def Let_def split: sum.splits option.splits)

definition file_for :: "string \<Rightarrow> string \<times> string \<times> string \<Rightarrow> bool" where
  "file_for name pair \<longleftrightarrow> normalize_hostname_pattern (fst pair) = Inr name"

lemma reload_file_other:
  "\<not> file_for n p \<or> n \<in> managed \<Longrightarrow>
   map_of (rl_next (reload_file parse files now managed current p l)) n = map_of (rl_next l) n"
  by (cases p) (auto simp: reload_file_next file_for_def tab_simps split: sum.splits option.splits)

lemma reload_files_other:
  "\<forall>p \<in> set ps. \<not> file_for n p \<or> n \<in> managed \<Longrightarrow>
   map_of (rl_next (fold (reload_file parse files now managed current) ps l)) n = map_of (rl_next l) n"
  by (induction ps arbitrary: l) (auto simp: reload_file_other)

lemma reload_files_one:
  assumes "ps = xs @ (stem, cp, kp) # ys" "normalize_hostname_pattern stem = Inr n" "n \<notin> managed"
    and "\<forall>p \<in> set xs \<union> set ys. \<not> file_for n p" "map_of (rl_next l) n = None"
  shows "map_of (rl_next (fold (reload_file parse files now managed current) ps l)) n =
    chosen (load_pair parse files now n cp kp) (previous_byoc current n)"
proof -
  let ?step = "reload_file parse files now managed current"
  have "map_of (rl_next (fold ?step xs l)) n = None"
    using assms(4,5) reload_files_other [of xs n managed parse files now current l] by simp
  then have "map_of (rl_next (?step (stem, cp, kp) (fold ?step xs l))) n = chosen (load_pair parse files now n cp kp) (previous_byoc current n)"
    using assms(2,3) by (auto simp: reload_file_next tab_simps split: option.splits)
  with assms(1,4) show ?thesis
    by (simp add: reload_files_other)
qed

lemma wf_reload_files:
  "wf_table (rl_next l) \<Longrightarrow> wf_table (rl_next (fold (reload_file parse files now managed current) ps l))"
proof (induction ps arbitrary: l)
  case (Cons p ps)
  have "wf_table (rl_next (reload_file parse files now managed current p l))"
    using Cons.prems by (cases p) (auto simp: reload_file_next split: sum.splits option.splits)
  with Cons.IH show ?case by simp
qed simp

subsection \<open>The states of the resolver\<close>

text \<open>An entry that validation produced for its name; only its generation is set afterwards.\<close>

definition validated :: "(bytes \<Rightarrow> bytes \<Rightarrow> (string, 'k parsed_cert) result) \<Rightarrow> 'k cert_entry \<Rightarrow> bool" where
  "validated parse e \<longleftrightarrow>
     (\<exists>cert key now. parse_and_validate parse cert key (en_name e) (en_source e) now = Inr (e\<lparr>en_generation := None\<rparr>))"

inductive resolver_run :: "(bytes \<Rightarrow> bytes \<Rightarrow> (string, 'k parsed_cert) result) \<Rightarrow> string set \<Rightarrow> 'k resolver \<Rightarrow> bool"
  for parse managed where
  started: "resolver_run parse managed (set_managed_names managed new_resolver)"
| reloaded: "resolver_run parse managed r \<Longrightarrow> resolver_run parse managed (snd (reload_byoc parse files now r))"
| installed:
    "resolver_run parse managed r \<Longrightarrow> en_name e \<in> managed \<Longrightarrow> en_source e = Acme \<Longrightarrow> validated parse e
     \<Longrightarrow> resolver_run parse managed (snd (install_cert e r))"

definition resolver_ok :: "(bytes \<Rightarrow> bytes \<Rightarrow> (string, 'k parsed_cert) result) \<Rightarrow> string set \<Rightarrow> 'k resolver \<Rightarrow> bool" where
  "resolver_ok parse managed r \<longleftrightarrow>
     wf_table (rs_entries r) \<and> rs_managed r = managed
     \<and> (\<forall>n e. map_of (rs_entries r) n = Some e \<longrightarrow>
          en_name e = n \<and> validated parse e \<and> (en_source e = Acme \<longleftrightarrow> n \<in> managed))"

lemma cert_source_cases: "en_source e \<noteq> Byoc \<longleftrightarrow> en_source e = Acme"
  by (cases "en_source e") auto

lemma parse_and_validate_Inr:
  assumes "parse_and_validate parse cert key name source now = Inr e"
  shows "en_name e = name" "en_source e = source" "en_generation e = None" "covers (en_dns_names e) name"
    "now < en_not_after e" "en_not_before e \<le> now + NOT_BEFORE_LEEWAY_SECS"
  using assms by (auto simp: parse_and_validate_def Let_def split: sum.splits if_splits)

lemma validated_parsed: "parse_and_validate parse cert key name source now = Inr e \<Longrightarrow> validated parse e"
proof -
  assume v: "parse_and_validate parse cert key name source now = Inr e"
  have "e\<lparr>en_generation := None\<rparr> = e" using parse_and_validate_Inr(3) [OF v] by (cases e) simp
  with v parse_and_validate_Inr(1,2) [OF v] show ?thesis unfolding validated_def by metis
qed

lemma load_pair_Some:
  "load_pair parse files now name cp kp = Some e \<Longrightarrow> en_name e = name \<and> en_source e = Byoc \<and> validated parse e"
  by (auto simp: load_pair_def ok_option_eq_Some dest: parse_and_validate_Inr validated_parsed split: option.splits)

lemma previous_byoc_Some:
  "previous_byoc current n = Some e \<longleftrightarrow> map_of current n = Some e \<and> en_source e = Byoc"
  by (auto simp: previous_byoc_def split: option.splits)

lemma reload_start:
  assumes "resolver_ok parse managed r"
  shows "map_of (t_retain (\<lambda>_ e. en_source e \<noteq> Byoc) (rs_entries r)) n = (if n \<in> managed then map_of (rs_entries r) n else None)"
  using assms by (auto simp: resolver_ok_def t_get_retain cert_source_cases split: option.splits)

text \<open>What a reload leaves for a name that is not managed.\<close>

lemma reload_entry:
  assumes ok: "resolver_ok parse managed r"
    and e: "map_of (rl_next l) n = Some e \<Longrightarrow> en_name e = n \<and> validated parse e \<and> (en_source e = Acme \<longleftrightarrow> n \<in> managed)"
    and step: "map_of (rl_next (fold (reload_file parse files now managed (rs_entries r)) ps l)) n = Some e"
  shows "en_name e = n \<and> validated parse e \<and> (en_source e = Acme \<longleftrightarrow> n \<in> managed)"
  using e step
proof (induction ps arbitrary: l)
  case (Cons p ps)
  obtain stem cp kp where p: "p = (stem, cp, kp)" by (cases p)
  let ?l = "reload_file parse files now managed (rs_entries r) p l"
  have "en_name e = n \<and> validated parse e \<and> (en_source e = Acme \<longleftrightarrow> n \<in> managed)" if "map_of (rl_next ?l) n = Some e"
  proof (cases "file_for n p \<and> n \<notin> managed \<and> map_of (rl_next l) n \<noteq> Some e")
    case True
    with that have "chosen (load_pair parse files now n cp kp) (previous_byoc (rs_entries r) n) = Some e"
      by (auto simp: p reload_file_next file_for_def tab_simps split: option.splits)
    then have "load_pair parse files now n cp kp = Some e \<or> previous_byoc (rs_entries r) n = Some e"
      by (auto simp: chosen_def split: option.splits if_splits)
    with True ok show ?thesis
      by (auto simp: previous_byoc_Some resolver_ok_def dest!: load_pair_Some)
  next
    case False
    with that Cons.prems(1) reload_file_other [of n p managed parse files now "rs_entries r" l] show ?thesis by auto
  qed
  from Cons.IH [OF this] Cons.prems(2) show ?case by simp
qed simp

lemma resolver_ok_reload:
  assumes ok: "resolver_ok parse managed r"
  shows "resolver_ok parse managed (snd (reload_byoc parse files now r))"
proof (cases "list_cert_pairs files")
  case (Inl er)
  with ok show ?thesis by (simp add: reload_byoc_def Let_def)
next
  case (Inr ps)
  let ?l0 = "\<lparr>rl_next = t_retain (\<lambda>_ e. en_source e \<noteq> Byoc) (rs_entries r), rl_seen = {}, rl_report = empty_report\<rparr>"
  let ?l = "fold (reload_file parse files now managed (rs_entries r)) ps ?l0"
  from ok have m: "rs_managed r = managed" "wf_table (rs_entries r)" by (simp_all add: resolver_ok_def)
  have "wf_table (rl_next ?l)" by (rule wf_reload_files) (simp add: m)
  moreover have "en_name e = n \<and> validated parse e \<and> (en_source e = Acme \<longleftrightarrow> n \<in> managed)" if "map_of (rl_next ?l) n = Some e" for n e
    by (rule reload_entry [OF ok _ that]) (use ok reload_start [OF ok] in \<open>auto simp: resolver_ok_def split: if_splits\<close>)
  ultimately show ?thesis
    by (simp add: resolver_ok_def reload_byoc_def Let_def Inr m)
qed

lemma resolver_ok_install:
  "resolver_ok parse managed r \<Longrightarrow> en_name e \<in> managed \<Longrightarrow> en_source e = Acme \<Longrightarrow> validated parse e
   \<Longrightarrow> resolver_ok parse managed (snd (install_cert e r))"
  by (auto simp: resolver_ok_def install_cert_def tab_simps split: option.splits if_splits)

lemma resolver_run_ok: "resolver_run parse managed r \<Longrightarrow> resolver_ok parse managed r"
proof (induction rule: resolver_run.induct)
  case started
  show ?case by (simp add: resolver_ok_def set_managed_names_def new_resolver_def)
qed (auto intro: resolver_ok_reload resolver_ok_install)

subsection \<open>The certificate a client gets\<close>

lemma validated_covers: "validated parse e \<Longrightarrow> covers (en_dns_names e) (en_name e)"
  by (auto simp: validated_def dest!: parse_and_validate_Inr(4))

lemma normalized_hostname: "normalize_hostname s = Inr n \<Longrightarrow> valid_name False False n"
  using normalize_valid by (auto simp: normalize_hostname_def)

lemma valid_host_not_star: "valid_name False False n \<Longrightarrow> \<not> starts_with ''*.'' n"
  using hostname_first_label [of n "''*''"] by (auto simp: starts_with_iff)

text \<open>A certificate for a wildcard covers the names that the wildcard stands for.\<close>

lemma wildcard_covers:
  assumes "covers sans p" "wildcard_for n = Some p" and n: "valid_name False False n"
  shows "covers sans n"
proof -
  have "normalize_hostname n = Inr n" using n by (simp add: normalize_hostname_iff)
  from wildcard_for_covers [OF this] assms(2) have "matches_pattern p n" by blast
  moreover from assms(2) have "starts_with ''*.'' p" by (auto simp: wildcard_for_iff starts_with_iff)
  ultimately show ?thesis
    using assms(1) valid_host_not_star [OF n] by (auto simp: covers_def list_ex_iff)
qed

lemma lookup_cert_ok:
  assumes ok: "resolver_ok parse managed r" and l: "lookup_cert n r = Some e" and n: "valid_name False False n"
  shows "validated parse e" "covers (en_dns_names e) n" "en_name e = n \<or> wildcard_for n = Some (en_name e)"
    "en_source e = Acme \<longleftrightarrow> en_name e \<in> managed"
proof -
  from l obtain m where m: "map_of (rs_entries r) m = Some e" "m = n \<or> wildcard_for n = Some m"
    by (auto simp: lookup_cert_def split: option.splits)
  with ok have e: "en_name e = m" "validated parse e" "en_source e = Acme \<longleftrightarrow> m \<in> managed" by (auto simp: resolver_ok_def)
  then show "validated parse e" "en_source e = Acme \<longleftrightarrow> en_name e \<in> managed" by simp_all
  from e m show "en_name e = n \<or> wildcard_for n = Some (en_name e)" by simp
  from validated_covers [OF e(2)] e(1) m(2) n show "covers (en_dns_names e) n" by (auto intro: wildcard_covers)
qed

text \<open>C18. The certificate for a TLS client, in every state that reloads and installations reach: it was
  validated for the name it is kept under, its own names cover the server name that the client asked for, an exact entry wins over a
  wildcard, and a name that is managed by ACME is never served from a file, nor another one by ACME.\<close>

theorem resolve_cert_sound:
  assumes "resolver_run parse managed r" "resolve_cert (Some sni) r = Some k"
  shows "\<exists>n e. normalize_hostname sni = Inr n \<and> en_key e = k \<and> covers (en_dns_names e) n \<and> validated parse e
     \<and> (en_source e = Acme \<longleftrightarrow> en_name e \<in> managed)
     \<and> (en_name e = n \<or> wildcard_for n = Some (en_name e) \<and> get_cert n r = None)"
proof -
  from assms(2) obtain n e where n: "normalize_hostname sni = Inr n" and l: "lookup_cert n r = Some e" and k: "en_key e = k"
    by (auto simp: resolve_cert_def split: sum.splits)
  note ok = resolver_run_ok [OF assms(1)]
  note facts = lookup_cert_ok [OF ok l normalized_hostname [OF n]]
  have "get_cert n r = None" if "en_name e \<noteq> n"
    using l that ok by (auto simp: lookup_cert_def get_cert_def resolver_ok_def split: option.splits)
  with n k facts show ?thesis by blast
qed

definition sample_files :: "bytes \<Rightarrow> bytes \<Rightarrow> cert_files" where
  "sample_files cert key =
     \<lparr>cf_listing = Inr [Inr ''a.test.crt'', Inr ''a.test.key'', Inr ''notes''],
      cf_read = (\<lambda>f. if f = ''a.test.crt'' then Some cert else if f = ''a.test.key'' then Some key else None)\<rparr>"

definition sample_resolver :: "bytes resolver" where
  "sample_resolver = snd (reload_byoc sample_parse (sample_files [7] [7]) 10 (set_managed_names {''b.test''} new_resolver))"

lemma sample_resolver_run: "resolver_run sample_parse {''b.test''} sample_resolver"
  unfolding sample_resolver_def by (intro resolver_run.intros)

theorem resolve_cert_sound_witness:
  "resolve_cert (Some ''A.test.'') sample_resolver = Some [7]
   \<and> (\<exists>e. en_key e = [7] \<and> covers (en_dns_names e) ''a.test'' \<and> validated sample_parse e \<and> en_source e = Byoc)"
proof -
  have r: "resolve_cert (Some ''A.test.'') sample_resolver = Some [7]" by code_simp
  have n: "normalize_hostname ''A.test.'' = Inr ''a.test''" "wildcard_for ''a.test'' = None" by code_simp+
  obtain e where "en_key e = [7]" "covers (en_dns_names e) ''a.test''" "validated sample_parse e"
    "en_source e = Acme \<longleftrightarrow> en_name e \<in> {''b.test''}" "en_name e = ''a.test''"
    using resolve_cert_sound [OF sample_resolver_run r] n by auto
  moreover from this have "en_source e = Byoc" by (cases "en_source e") simp_all
  ultimately show ?thesis using r by blast
qed

text \<open>C36. A reload of the certificate directory decides each name by itself: a directory that cannot be read changes
  nothing; a managed name keeps what it has; a name without a file loses its certificate; and a name with one file gets the
  new certificate when it validates and is another one, and keeps the previous one otherwise.\<close>

theorem reload_byoc_exact:
  assumes run: "resolver_run parse managed r" and reload: "reload_byoc parse files now r = (report, r')"
  shows "case list_cert_pairs files of
       Inl _ \<Rightarrow> r' = r
     | Inr pairs \<Rightarrow> \<forall>n.
         (n \<in> managed \<longrightarrow> get_cert n r' = get_cert n r)
         \<and> (n \<notin> managed \<longrightarrow>
              (filter (file_for n) pairs = [] \<longrightarrow> get_cert n r' = None)
              \<and> (\<forall>stem cp kp. filter (file_for n) pairs = [(stem, cp, kp)] \<longrightarrow>
                    get_cert n r' = chosen (load_pair parse files now n cp kp) (get_cert n r)))"
proof (cases "list_cert_pairs files")
  case (Inl e)
  with reload show ?thesis by (auto simp: reload_byoc_def Let_def)
next
  case (Inr pairs)
  note ok = resolver_run_ok [OF run]
  then have m: "rs_managed r = managed" by (simp add: resolver_ok_def)
  let ?l0 = "\<lparr>rl_next = t_retain (\<lambda>_ e. en_source e \<noteq> Byoc) (rs_entries r), rl_seen = {}, rl_report = empty_report\<rparr>"
  have get: "get_cert n r' = map_of (rl_next (fold (reload_file parse files now managed (rs_entries r)) pairs ?l0)) n" for n
    using reload Inr by (auto simp: reload_byoc_def Let_def get_cert_def m)
  have other: "get_cert n r' = (if n \<in> managed then get_cert n r else None)" if "n \<in> managed \<or> filter (file_for n) pairs = []" for n
    unfolding get using that reload_start [OF ok, of n]
    by (subst reload_files_other) (auto simp: filter_empty_conv get_cert_def)
  have one: "get_cert n r' = chosen (load_pair parse files now n cp kp) (get_cert n r)"
    if n: "n \<notin> managed" and f: "filter (file_for n) pairs = [(stem, cp, kp)]" for n stem cp kp
  proof -
    from f obtain xs ys where ps: "pairs = xs @ (stem, cp, kp) # ys" "file_for n (stem, cp, kp)"
      "\<forall>p \<in> set xs. \<not> file_for n p" "filter (file_for n) ys = []"
      by (auto simp: filter_eq_Cons_iff)
    have "previous_byoc (rs_entries r) n = get_cert n r"
      using ok n by (auto simp: previous_byoc_def get_cert_def resolver_ok_def cert_source_cases split: option.splits)
    moreover have "get_cert n r' = chosen (load_pair parse files now n cp kp) (previous_byoc (rs_entries r) n)"
      unfolding get using ps n reload_start [OF ok, of n]
      by (intro reload_files_one [OF ps(1)]) (auto simp: file_for_def filter_empty_conv)
    ultimately show ?thesis by simp
  qed
  show ?thesis using other one by (simp add: Inr)
qed

text \<open>A pair with the wrong key does not replace the certificate that is in use.\<close>

theorem reload_byoc_exact_witness:
  "load_pair sample_parse (sample_files [8] [9]) 20 ''a.test'' ''a.test.crt'' ''a.test.key'' = None
   \<and> resolve_cert (Some ''a.test'') sample_resolver = Some [7]
   \<and> get_cert ''a.test'' (snd (reload_byoc sample_parse (sample_files [8] [9]) 20 sample_resolver)) = get_cert ''a.test'' sample_resolver"
proof -
  let ?files = "sample_files [8] [9]"
  obtain rep r' where run: "reload_byoc sample_parse ?files 20 sample_resolver = (rep, r')"
    by (cases "reload_byoc sample_parse ?files 20 sample_resolver")
  have pairs: "list_cert_pairs ?files = Inr [(''a.test'', ''a.test.crt'', ''a.test.key'')]" by code_simp
  have f: "filter (file_for ''a.test'') [(''a.test'', ''a.test.crt'', ''a.test.key'')] = [(''a.test'', ''a.test.crt'', ''a.test.key'')]"
    by code_simp
  have l: "load_pair sample_parse ?files 20 ''a.test'' ''a.test.crt'' ''a.test.key'' = None" by code_simp
  have r: "resolve_cert (Some ''a.test'') sample_resolver = Some [7]" by code_simp
  have "get_cert ''a.test'' r' = get_cert ''a.test'' sample_resolver"
    using reload_byoc_exact [OF sample_resolver_run run] f l by (simp add: pairs chosen_def)
  with l r show ?thesis by (simp add: run)
qed

end
