(* ===== verification/Edge_Config.thy ===== *)
theory Edge_Config
  imports Policy Dns_Plan Auth
begin

text \<open>
  The configuration of an Edge after it was read (\<open>sievetube-edge/src/config.rs\<close>) with the identity of an Edge in the mesh
  (\<open>sievetube-edge/src/mesh/certs.rs\<close>). Validation normalises names in place, so it returns the new configuration. Parsing of TOML,
  the existence of a file and the reading of certificates are parameters; a time is in the unit of its field.
\<close>

subsection \<open>Identities in the mesh\<close>

definition EDGE_URI_PREFIX :: string where "EDGE_URI_PREFIX = ''sievetube-edge://''"
definition MESH_DNS_SUFFIX :: string where "MESH_DNS_SUFFIX = ''mesh.sievetube.internal''"

definition server_name :: "string \<Rightarrow> string" where
  "server_name edge_id = edge_id @ ''.'' @ MESH_DNS_SUFFIX"

datatype config_error =
    BadField string
  | BadEdgeId
  | BadPolicy policy_error
  | BadDns dns_config_error
  | NoDnsZone string
  | UnsupportedVersion nat
  | IdentityMismatch "string list"

definition require :: "bool \<Rightarrow> config_error \<Rightarrow> (config_error, unit) result" where
  "require b e = (if b then Inr () else Inl e)"

definition edge_id_char :: "char \<Rightarrow> bool" where
  "edge_id_char c \<longleftrightarrow> is_ascii_lowercase c \<or> is_ascii_digit c \<or> c = CHR ''-''"

definition validate_edge_id :: "string \<Rightarrow> (config_error, unit) result" where
  "validate_edge_id edge_id =
     require (1 \<le> length edge_id \<and> length edge_id \<le> 63 \<and> list_all edge_id_char edge_id
              \<and> \<not> starts_with ''-'' edge_id \<and> \<not> ends_with ''-'' edge_id) BadEdgeId"

text \<open>The URI names of a certificate; none when it cannot be parsed.\<close>

definition edge_ids_from_cert :: "(bytes \<Rightarrow> string list option) \<Rightarrow> bytes \<Rightarrow> string list" where
  "edge_ids_from_cert uri_names der =
     (case uri_names der of None \<Rightarrow> [] | Some uris \<Rightarrow> List.map_filter (strip_prefix EDGE_URI_PREFIX) uris)"

record mesh_identity =
  mi_edge_id :: string
  mi_chain :: "bytes list"
  mi_roots :: "bytes list"

definition load_identity ::
  "(bytes \<Rightarrow> bytes list option) \<Rightarrow> (bytes \<Rightarrow> string list option) \<Rightarrow> (bytes list \<Rightarrow> bytes \<Rightarrow> bool) \<Rightarrow> (string \<Rightarrow> bytes option)
   \<Rightarrow> string \<Rightarrow> string \<Rightarrow> string \<Rightarrow> string \<Rightarrow> (config_error, mesh_identity) result" where
  "load_identity pem uri_names key_matches read_file edge_id ca_path cert_path key_path =
     and_then (validate_edge_id edge_id) (\<lambda>_.
     case (read_file ca_path, read_file cert_path, read_file key_path) of
       (Some ca, Some cert, Some key) \<Rightarrow>
         (case pem ca of
            None \<Rightarrow> Inl (BadField ''mesh CA certificate'')
          | Some roots \<Rightarrow>
              and_then (require (roots \<noteq> []) (BadField ca_path)) (\<lambda>_.
              case pem cert of
                None \<Rightarrow> Inl (BadField ''mesh certificate'')
              | Some [] \<Rightarrow> Inl (BadField ''no mesh certificate found'')
              | Some (leaf # issuers) \<Rightarrow>
                  let ids = edge_ids_from_cert uri_names leaf
                  in and_then (require (ids = [edge_id]) (IdentityMismatch ids)) (\<lambda>_.
                     and_then (require (key_matches (leaf # issuers) key) (BadField ''mesh private key'')) (\<lambda>_.
                       Inr \<lparr>mi_edge_id = edge_id, mi_chain = leaf # issuers, mi_roots = roots\<rparr>))))
     | _ \<Rightarrow> Inl (BadField ''mesh''))"

subsection \<open>The sections\<close>

record mesh_peer_config =
  mpc_edge_id :: string
  mpc_addr :: "string option"

record mesh_config =
  mc_edge_id :: string
  mc_listen :: string
  mc_advertise :: string
  mc_ca_cert :: string
  mc_cert :: string
  mc_key :: string
  mc_peers :: "mesh_peer_config list"
  mc_udp :: bool
  mc_max_streams_per_peer :: nat
  mc_max_streams_per_tenant :: nat
  mc_stream_wait_ms :: nat
  mc_accept_timeout_ms :: nat
  mc_connect_timeout_ms :: nat
  mc_route_ttl_secs :: nat
  mc_route_refresh_secs :: nat
  mc_peer_failure_cooldown_secs :: nat
  mc_max_pending_udp_replies :: nat

definition default_mesh_config :: mesh_config where
  "default_mesh_config =
     \<lparr>mc_edge_id = [], mc_listen = ''0.0.0.0:4434'', mc_advertise = [], mc_ca_cert = [], mc_cert = [], mc_key = [], mc_peers = [],
      mc_udp = True, mc_max_streams_per_peer = 1024, mc_max_streams_per_tenant = 256, mc_stream_wait_ms = 2000,
      mc_accept_timeout_ms = 3000, mc_connect_timeout_ms = 5000, mc_route_ttl_secs = 30, mc_route_refresh_secs = 10,
      mc_peer_failure_cooldown_secs = 15, mc_max_pending_udp_replies = 4096\<rparr>"

definition default_policy_config :: policy_config where
  "default_policy_config =
     \<lparr>pl_enabled = False, pl_mode = Enforce, pl_trusted_proxies = [], pl_blocked_cidrs = [], pl_requests_per_second = None,
      pl_burst = None, pl_rate_limit_key = TenantHostnameIp, pl_max_entries = 100000, pl_idle_ttl_secs = 600, pl_domains = [],
      pl_tcp = \<lparr>tp_connections_per_second = None, tp_connection_burst = None, tp_max_concurrent_per_ip = None,
                tp_max_concurrent_per_listener = None\<rparr>,
      pl_udp = \<lparr>up_packets_per_second = None, up_packet_burst = None, up_bytes_per_second = None, up_byte_burst = None\<rparr>,
      pl_plugins = []\<rparr>"

definition default_dns_config :: dns_config where
  "default_dns_config =
     \<lparr>dc_enabled = False, dc_dry_run = False, dc_state_dir = [], dc_reconcile_interval_secs = 300, dc_settle_secs = 30,
      dc_lease_ttl_secs = 60, dc_single_writer = False, dc_allowed_zones = [], dc_providers = [], dc_records = []\<rparr>"

record port_host_mapping =
  pm_addr :: string
  pm_hostname :: string

record server_config =
  sc_quic_listen :: string
  sc_quic_cert :: "string option"
  sc_quic_key :: "string option"
  sc_http_listen :: string
  sc_https_listen :: string
  sc_tcp_listen :: "port_host_mapping list"
  sc_udp_listen :: "port_host_mapping list"
  sc_health_listen :: string
  sc_drain_timeout_secs :: nat
  sc_udp_reply_timeout_secs :: nat
  sc_udp_max_pending_replies :: nat
  sc_max_connector_connections :: nat

record auth_config =
  au_jwt_secret :: string
  au_jwt_previous_secrets :: "string list"

datatype acme_challenge = Http01 | Dns01
datatype acme_coordination = NoCoordination | ValkeyCoordination

record acme_config =
  ac_enabled :: bool
  ac_directory_url :: string
  ac_contact_email :: "string option"
  ac_terms_of_service_agreed :: bool
  ac_domains :: "string list"
  ac_challenge :: acme_challenge
  ac_state_dir :: string
  ac_ca_root_pem :: "string option"
  ac_renew_before_fraction :: f64
  ac_retry_initial_secs :: nat
  ac_retry_max_secs :: nat
  ac_order_timeout_secs :: nat
  ac_challenge_max_concurrent :: nat
  ac_coordination :: acme_coordination
  ac_store_poll_interval_secs :: nat
  ac_challenge_distribution_timeout_secs :: nat
  ac_dns_resolvers :: "string list"
  ac_dns_propagation_timeout_secs :: nat
  ac_dns_propagation_poll_secs :: nat
  ac_dns_txt_ttl :: nat

record http_config =
  hc_max_connections :: nat
  hc_header_read_timeout_secs :: nat
  hc_max_header_bytes :: nat
  hc_tls_handshake_timeout_secs :: nat
  hc_backend_open_timeout_secs :: nat
  hc_response_header_timeout_secs :: nat
  hc_h2_max_concurrent_streams :: nat
  hc_forwarded_headers :: bool

definition default_http_config :: http_config where
  "default_http_config =
     \<lparr>hc_max_connections = 4096, hc_header_read_timeout_secs = 30, hc_max_header_bytes = 64 * 1024, hc_tls_handshake_timeout_secs = 10,
      hc_backend_open_timeout_secs = 10, hc_response_header_timeout_secs = 60, hc_h2_max_concurrent_streams = 256,
      hc_forwarded_headers = True\<rparr>"

record tls_config =
  tc_cert_dir :: string
  tc_reload_interval_secs :: nat
  tc_acme :: "acme_config option"

datatype routing_mode = Direct | Mesh

record edge_config =
  ec_config_version :: "nat option"
  ec_server :: server_config
  ec_auth :: auth_config
  ec_tls :: tls_config
  ec_valkey :: "string option"
  ec_http :: http_config
  ec_policy :: policy_config
  ec_dns :: dns_config
  ec_routing_mode :: "routing_mode option"
  ec_mesh :: "mesh_config option"

subsection \<open>Validation of the mesh section\<close>

fun all_ok :: "('a \<Rightarrow> (config_error, unit) result) \<Rightarrow> 'a list \<Rightarrow> (config_error, unit) result" where
  "all_ok f [] = Inr ()"
| "all_ok f (x # xs) = and_then (f x) (\<lambda>_. all_ok f xs)"

definition is_unspecified :: "socket_addr \<Rightarrow> bool" where
  "is_unspecified a = (case a of SocketV4 ip _ \<Rightarrow> ip = 0 | SocketV6 ip _ _ _ \<Rightarrow> ip = 0)"

definition socket_port :: "socket_addr \<Rightarrow> 16 word" where
  "socket_port a = (case a of SocketV4 _ p \<Rightarrow> p | SocketV6 _ p _ _ \<Rightarrow> p)"

fun validate_peers :: "string \<Rightarrow> string list \<Rightarrow> mesh_peer_config list \<Rightarrow> (config_error, unit) result" where
  "validate_peers own seen [] = Inr ()"
| "validate_peers own seen (peer # peers) =
     and_then (validate_edge_id (mpc_edge_id peer)) (\<lambda>_.
     and_then (require (mpc_edge_id peer \<noteq> own) (BadField ''mesh.peers: own id'')) (\<lambda>_.
     and_then (require (mpc_edge_id peer \<notin> set seen) (BadField ''mesh.peers: duplicate peer'')) (\<lambda>_.
     and_then (require (case mpc_addr peer of None \<Rightarrow> True | Some addr \<Rightarrow> parse_socket_addr addr \<noteq> None) (BadField ''mesh.peers: addr'')) (\<lambda>_.
       validate_peers own (mpc_edge_id peer # seen) peers))))"

definition validate_mesh :: "(string \<Rightarrow> bool) \<Rightarrow> bool \<Rightarrow> mesh_config \<Rightarrow> (config_error, unit) result" where
  "validate_mesh file_exists has_valkey c =
     and_then (validate_edge_id (mc_edge_id c)) (\<lambda>_.
     and_then (require (parse_socket_addr (mc_listen c) \<noteq> None) (BadField ''mesh.listen'')) (\<lambda>_.
     case parse_socket_addr (mc_advertise c) of
       None \<Rightarrow> Inl (BadField ''mesh.advertise'')
     | Some advertise \<Rightarrow>
         and_then (require (\<not> is_unspecified advertise \<and> socket_port advertise \<noteq> 0) (BadField ''mesh.advertise'')) (\<lambda>_.
         and_then (all_ok (\<lambda>path. and_then (require (trim path \<noteq> []) (BadField ''mesh file not set'')) (\<lambda>_.
                      require (file_exists path) (BadField path))) [mc_ca_cert c, mc_cert c, mc_key c]) (\<lambda>_.
         and_then (validate_peers (mc_edge_id c) [] (mc_peers c)) (\<lambda>_.
         and_then (require (mc_peers c = [] \<or> has_valkey) (BadField ''valkey'')) (\<lambda>_.
         and_then (require (mc_route_refresh_secs c \<noteq> 0 \<and> mc_route_refresh_secs c < mc_route_ttl_secs c) (BadField ''mesh.route_ttl_secs'')) (\<lambda>_.
         and_then (all_ok (\<lambda>v. require (v \<noteq> 0) (BadField ''mesh limit''))
                     [mc_max_streams_per_peer c, mc_max_streams_per_tenant c, mc_max_pending_udp_replies c]) (\<lambda>_.
           all_ok (\<lambda>v. require (v \<noteq> 0) (BadField ''mesh timeout''))
             [mc_stream_wait_ms c, mc_accept_timeout_ms c, mc_connect_timeout_ms c, mc_peer_failure_cooldown_secs c]))))))))"

subsection \<open>Validation of the ACME section\<close>

definition parse_resolver_addr :: "string \<Rightarrow> (config_error, socket_addr) result" where
  "parse_resolver_addr v =
     (let v = trim v
      in case parse_socket_addr v of
           Some a \<Rightarrow> Inr a
         | None \<Rightarrow>
             (case parse_ip_addr v of
                Some (V4 ip) \<Rightarrow> Inr (SocketV4 ip 53)
              | Some (V6 ip) \<Rightarrow> Inr (SocketV6 ip 53 0 0)
              | None \<Rightarrow> Inl (BadField ''tls.acme.dns_resolvers'')))"

fun validate_acme_domains :: "acme_challenge \<Rightarrow> string list \<Rightarrow> string list \<Rightarrow> (config_error, string list) result" where
  "validate_acme_domains challenge seen [] = Inr []"
| "validate_acme_domains challenge seen (domain # domains) =
     and_then (map_err (\<lambda>_. BadField ''tls.acme.domains'') (normalize_hostname_pattern domain)) (\<lambda>normalized.
     and_then (require (\<not> (starts_with ''*.'' normalized \<and> challenge = Http01)) (BadField ''tls.acme.domains: wildcard'')) (\<lambda>_.
     and_then (require (normalized \<notin> set seen) (BadField ''tls.acme.domains: duplicate'')) (\<lambda>_.
     and_then (validate_acme_domains challenge (normalized # seen) domains) (\<lambda>rest. Inr (normalized # rest)))))"

text \<open>\<open>char::is_whitespace\<close> for some character of a string.\<close>

definition has_whitespace :: "string \<Rightarrow> bool" where
  "has_whitespace s \<longleftrightarrow> list_ex (\<lambda>k. strip_any ws_encodings (drop k s) \<noteq> None) [0..<length s]"

definition valid_email :: "string \<Rightarrow> bool" where
  "valid_email email \<longleftrightarrow> CHR ''@'' \<in> set email \<and> \<not> (has_whitespace email \<or> CHR '','' \<in> set email)"

definition validate_acme :: "acme_config \<Rightarrow> (config_error, acme_config) result" where
  "validate_acme c =
     (if \<not> ac_enabled c then Inr c
      else
        and_then (require (ac_terms_of_service_agreed c) (BadField ''tls.acme.terms_of_service_agreed'')) (\<lambda>_.
        and_then (require (starts_with ''https://'' (ac_directory_url c)) (BadField ''tls.acme.directory_url'')) (\<lambda>_.
        and_then (require (ac_domains c \<noteq> []) (BadField ''tls.acme.domains'')) (\<lambda>_.
        and_then (validate_acme_domains (ac_challenge c) [] (ac_domains c)) (\<lambda>domains.
        and_then (require (trim (ac_state_dir c) \<noteq> []) (BadField ''tls.acme.state_dir'')) (\<lambda>_.
        and_then (require (case ac_contact_email c of None \<Rightarrow> True | Some email \<Rightarrow> valid_email email) (BadField ''tls.acme.contact_email'')) (\<lambda>_.
        and_then (require (case ac_renew_before_fraction c of Finite x \<Rightarrow> 0 < x \<and> x < 1 | NotFinite \<Rightarrow> False) (BadField ''tls.acme.renew_before_fraction'')) (\<lambda>_.
        and_then (require (\<not> (ac_retry_initial_secs c = 0 \<or> ac_retry_max_secs c < ac_retry_initial_secs c)) (BadField ''tls.acme.retry_initial_secs'')) (\<lambda>_.
        and_then (require (\<not> (ac_order_timeout_secs c = 0 \<or> ac_challenge_max_concurrent c = 0)) (BadField ''tls.acme.order_timeout_secs'')) (\<lambda>_.
        and_then (require (\<not> (ac_store_poll_interval_secs c = 0 \<or> ac_challenge_distribution_timeout_secs c = 0
                     \<or> ac_dns_propagation_timeout_secs c = 0 \<or> ac_dns_propagation_poll_secs c = 0)) (BadField ''tls.acme timeouts'')) (\<lambda>_.
        and_then (require (60 \<le> ac_dns_txt_ttl c \<and> ac_dns_txt_ttl c \<le> 3600) (BadField ''tls.acme.dns_txt_ttl'')) (\<lambda>_.
        and_then (all_ok (\<lambda>r. and_then (parse_resolver_addr r) (\<lambda>_. Inr ())) (ac_dns_resolvers c)) (\<lambda>_.
          Inr (c\<lparr>ac_domains := domains\<rparr>))))))))))))))"

subsection \<open>Validation of the other sections\<close>

definition validate_http :: "http_config \<Rightarrow> (config_error, unit) result" where
  "validate_http c =
     and_then (require (hc_max_connections c \<noteq> 0) (BadField ''http.max_connections'')) (\<lambda>_.
     and_then (require (8192 \<le> hc_max_header_bytes c \<and> hc_max_header_bytes c \<le> 1024 * 1024) (BadField ''http.max_header_bytes'')) (\<lambda>_.
     and_then (all_ok (\<lambda>v. require (v \<noteq> 0) (BadField ''http timeout''))
                 [hc_header_read_timeout_secs c, hc_tls_handshake_timeout_secs c, hc_backend_open_timeout_secs c,
                  hc_response_header_timeout_secs c]) (\<lambda>_.
       require (hc_h2_max_concurrent_streams c \<noteq> 0) (BadField ''http.h2_max_concurrent_streams''))))"

definition validate_listen_addr :: "string \<Rightarrow> string \<Rightarrow> (config_error, unit) result" where
  "validate_listen_addr field addr =
     require (parse_socket_addr addr \<noteq> None
              \<or> (case rsplit_once (CHR '':'') addr of
                    Some (host, port) \<Rightarrow> host \<noteq> [] \<and> parse_uint 16 port \<noteq> None
                  | None \<Rightarrow> False)) (BadField field)"

fun validate_port_mappings :: "string \<Rightarrow> string list \<Rightarrow> port_host_mapping list \<Rightarrow> (config_error, port_host_mapping list) result" where
  "validate_port_mappings field seen [] = Inr []"
| "validate_port_mappings field seen (m # ms) =
     and_then (validate_listen_addr field (pm_addr m)) (\<lambda>_.
     and_then (require (pm_addr m \<notin> set seen) (BadField (field @ '': duplicate listen address''))) (\<lambda>_.
     and_then (map_err (\<lambda>_. BadField (field @ '': invalid hostname'')) (normalize_hostname (pm_hostname m))) (\<lambda>hostname.
     and_then (validate_port_mappings field (pm_addr m # seen) ms) (\<lambda>rest. Inr (m\<lparr>pm_hostname := hostname\<rparr> # rest)))))"

definition validate_server :: "(string \<Rightarrow> bool) \<Rightarrow> server_config \<Rightarrow> (config_error, server_config) result" where
  "validate_server file_exists s =
     and_then (require (parse_socket_addr (sc_quic_listen s) \<noteq> None) (BadField ''server.quic_listen'')) (\<lambda>_.
     and_then (validate_listen_addr ''server.http_listen'' (sc_http_listen s)) (\<lambda>_.
     and_then (validate_listen_addr ''server.https_listen'' (sc_https_listen s)) (\<lambda>_.
     and_then (validate_listen_addr ''server.health_listen'' (sc_health_listen s)) (\<lambda>_.
     and_then (validate_port_mappings ''server.tcp_listen'' [] (sc_tcp_listen s)) (\<lambda>tcp.
     and_then (validate_port_mappings ''server.udp_listen'' [] (sc_udp_listen s)) (\<lambda>udp.
     and_then (case (sc_quic_cert s, sc_quic_key s) of
                 (Some cert, Some key) \<Rightarrow> all_ok (\<lambda>path. require (file_exists path) (BadField path)) [cert, key]
               | (None, None) \<Rightarrow> Inr ()
               | _ \<Rightarrow> Inl (BadField ''server.quic_cert and server.quic_key'')) (\<lambda>_.
     and_then (require (\<not> (sc_udp_reply_timeout_secs s = 0 \<or> sc_udp_max_pending_replies s = 0 \<or> sc_max_connector_connections s = 0))
                 (BadField ''server limits'')) (\<lambda>_.
       Inr (s\<lparr>sc_tcp_listen := tcp, sc_udp_listen := udp\<rparr>)))))))))"

definition validate_auth :: "auth_config \<Rightarrow> (config_error, unit) result" where
  "validate_auth a =
     and_then (map_err (\<lambda>(_ :: unit auth_error). BadField ''auth.jwt_secret'') (validate_jwt_secret (as_bytes (au_jwt_secret a)))) (\<lambda>_.
     and_then (all_ok (\<lambda>s. map_err (\<lambda>(_ :: unit auth_error). BadField ''auth.jwt_previous_secrets'') (validate_jwt_secret (as_bytes s)))
                 (au_jwt_previous_secrets a)) (\<lambda>_.
       require (distinct (au_jwt_secret a # au_jwt_previous_secrets a)) (BadField ''auth JWT secrets'')))"

text \<open>What an enabled ACME section needs of the others.\<close>

definition challenge_base :: "string \<Rightarrow> string" where
  "challenge_base domain = (case strip_prefix ''*.'' domain of Some b \<Rightarrow> b | None \<Rightarrow> domain)"

definition validate_acme_use ::
  "(string \<Rightarrow> (string option \<times> string option) option) \<Rightarrow> bool \<Rightarrow> dns_config \<Rightarrow> acme_config \<Rightarrow> (config_error, unit) result" where
  "validate_acme_use parse_uri has_valkey dns acme =
     (if \<not> ac_enabled acme then Inr ()
      else
        and_then (require (ac_coordination acme = ValkeyCoordination \<longrightarrow> has_valkey) (BadField ''tls.acme.coordination'')) (\<lambda>_.
        if ac_challenge acme = Dns01
        then and_then (map_err BadDns (compile_dns parse_uri dns)) (\<lambda>compiled.
               all_ok (\<lambda>domain.
                 let challenge = ''_acme-challenge.'' @ challenge_base domain
                 in require (list_ex (\<lambda>p. is_within_zone challenge (ps_zone p)) (cd_providers compiled)) (NoDnsZone challenge))
                 (ac_domains acme))
        else Inr ()))"

definition validate_dns_use ::
  "(string \<Rightarrow> (string option \<times> string option) option) \<Rightarrow> bool \<Rightarrow> dns_config \<Rightarrow> (config_error, unit) result" where
  "validate_dns_use parse_uri has_valkey dns =
     (if \<not> dc_enabled dns then Inr ()
      else
        and_then (require (trim (dc_state_dir dns) \<noteq> []) (BadField ''dns.state_dir'')) (\<lambda>_.
        and_then (require (\<not> (dc_reconcile_interval_secs dns = 0 \<or> dc_lease_ttl_secs dns < 5)) (BadField ''dns.reconcile_interval_secs'')) (\<lambda>_.
        and_then (require (has_valkey \<or> dc_single_writer dns) (BadField ''dns.single_writer'')) (\<lambda>_.
        and_then (map_err BadDns (compile_dns parse_uri dns)) (\<lambda>_. Inr ())))))"

text \<open>The mode of routing that a version stands for when none is set.\<close>

definition routing_mode_of :: "nat \<Rightarrow> routing_mode option \<Rightarrow> routing_mode" where
  "routing_mode_of version mode = (case mode of Some m \<Rightarrow> m | None \<Rightarrow> if version = 2 then Mesh else Direct)"

definition validate_edge ::
  "'n ipnet \<Rightarrow> (string \<Rightarrow> (string option \<times> string option) option) \<Rightarrow> (string \<Rightarrow> bool) \<Rightarrow> edge_config \<Rightarrow> (config_error, edge_config) result" where
  "validate_edge N parse_uri file_exists c =
     and_then (validate_server file_exists (ec_server c)) (\<lambda>server.
     and_then (validate_auth (ec_auth c)) (\<lambda>_.
     and_then (map_err BadPolicy (compile N (ec_policy c))) (\<lambda>_.
     and_then (require (tc_reload_interval_secs (ec_tls c) \<noteq> 0) (BadField ''tls.reload_interval_secs'')) (\<lambda>_.
     and_then (case tc_acme (ec_tls c) of None \<Rightarrow> Inr None | Some acme \<Rightarrow> and_then (validate_acme acme) (\<lambda>a. Inr (Some a))) (\<lambda>acme.
     and_then (case acme of None \<Rightarrow> Inr () | Some a \<Rightarrow> validate_acme_use parse_uri (ec_valkey c \<noteq> None) (ec_dns c) a) (\<lambda>_.
     and_then (require (case ec_valkey c of None \<Rightarrow> True | Some url \<Rightarrow> trim url \<noteq> []) (BadField ''valkey.url'')) (\<lambda>_.
     and_then (validate_http (ec_http c)) (\<lambda>_.
     let version = (case ec_config_version c of None \<Rightarrow> 1 | Some v \<Rightarrow> v)
     in and_then (require (\<not> (version = 0 \<or> version > 2)) (UnsupportedVersion version)) (\<lambda>_.
        let mode = routing_mode_of version (ec_routing_mode c)
        in and_then (case ec_mesh c of
                       None \<Rightarrow> require (mode = Direct) (BadField ''mesh'')
                     | Some mesh \<Rightarrow> validate_mesh file_exists (ec_valkey c \<noteq> None) mesh) (\<lambda>_.
           and_then (validate_dns_use parse_uri (ec_valkey c \<noteq> None) (ec_dns c)) (\<lambda>_.
             Inr (c\<lparr>ec_server := server, ec_tls := (ec_tls c)\<lparr>tc_acme := acme\<rparr>, ec_routing_mode := Some mode\<rparr>))))))))))))"

subsection \<open>Facts on the checks\<close>

named_theorems check_simps \<open>when a check passes\<close>

lemma require_Inr [check_simps]: "require b e = Inr u \<longleftrightarrow> b"
  by (simp add: require_def)

lemma map_err_Inr [check_simps]: "map_err f r = Inr x \<longleftrightarrow> r = Inr x"
  by (cases r) (auto simp: map_err_def)

lemma all_ok_Inr [check_simps]: "all_ok f xs = Inr u \<longleftrightarrow> (\<forall>x \<in> set xs. f x = Inr ())"
  by (induction xs) auto

lemma validate_peers_Inr:
  "validate_peers own seen peers = Inr u \<longleftrightarrow>
     distinct (map mpc_edge_id peers) \<and> set seen \<inter> mpc_edge_id ` set peers = {}
     \<and> (\<forall>p \<in> set peers. validate_edge_id (mpc_edge_id p) = Inr () \<and> mpc_edge_id p \<noteq> own
            \<and> (case mpc_addr p of None \<Rightarrow> True | Some a \<Rightarrow> parse_socket_addr a \<noteq> None))"
  by (induction peers arbitrary: seen) (auto simp: check_simps)

lemma validate_acme_domains_Inr:
  "validate_acme_domains ch seen ds = Inr ds' \<Longrightarrow>
     distinct ds' \<and> set seen \<inter> set ds' = {} \<and> length ds' = length ds
     \<and> (\<forall>d \<in> set ds'. valid_name True False d \<and> \<not> (starts_with ''*.'' d \<and> ch = Http01))"
proof (induction ds arbitrary: seen ds')
  case (Cons d ds)
  then obtain n rest where n: "normalize_hostname_pattern d = Inr n" and rest: "validate_acme_domains ch (n # seen) ds = Inr rest"
    and ds': "ds' = n # rest" "n \<notin> set seen" "\<not> (starts_with ''*.'' n \<and> ch = Http01)"
    by (auto simp: check_simps)
  from n have "valid_name True False n" using normalize_valid by (auto simp: normalize_hostname_pattern_def)
  with Cons.IH [OF rest] ds' show ?case by auto
qed simp

lemma validate_acme_domains_fixed:
  "distinct ds \<Longrightarrow> set seen \<inter> set ds = {} \<Longrightarrow> \<forall>d \<in> set ds. valid_name True False d \<and> \<not> (starts_with ''*.'' d \<and> ch = Http01)
   \<Longrightarrow> validate_acme_domains ch seen ds = Inr ds"
proof (induction ds arbitrary: seen)
  case (Cons d ds)
  then have "normalize_hostname_pattern d = Inr d" by (simp add: normalize_pattern_iff)
  with Cons show ?case by (auto simp: require_def map_err_def)
qed simp

lemma validate_acme_Inr:
  assumes "validate_acme c = Inr c'"
  shows "validate_acme c' = Inr c'" "ac_enabled c' = ac_enabled c"
    "ac_enabled c \<Longrightarrow> distinct (ac_domains c') \<and> ac_domains c' \<noteq> []
       \<and> (\<forall>d \<in> set (ac_domains c'). valid_name True False d \<and> \<not> (starts_with ''*.'' d \<and> ac_challenge c' = Http01))
       \<and> (\<exists>x. ac_renew_before_fraction c' = Finite x \<and> 0 < x \<and> x < 1)
       \<and> 0 < ac_retry_initial_secs c' \<and> ac_retry_initial_secs c' \<le> ac_retry_max_secs c'
       \<and> 0 < ac_order_timeout_secs c' \<and> 60 \<le> ac_dns_txt_ttl c' \<and> ac_dns_txt_ttl c' \<le> 3600"
proof -
  show "ac_enabled c' = ac_enabled c" using assms by (auto simp: validate_acme_def split: if_splits)
  have "validate_acme c' = Inr c' \<and> (ac_enabled c \<longrightarrow> distinct (ac_domains c') \<and> ac_domains c' \<noteq> []
       \<and> (\<forall>d \<in> set (ac_domains c'). valid_name True False d \<and> \<not> (starts_with ''*.'' d \<and> ac_challenge c' = Http01))
       \<and> (\<exists>x. ac_renew_before_fraction c' = Finite x \<and> 0 < x \<and> x < 1)
       \<and> 0 < ac_retry_initial_secs c' \<and> ac_retry_initial_secs c' \<le> ac_retry_max_secs c'
       \<and> 0 < ac_order_timeout_secs c' \<and> 60 \<le> ac_dns_txt_ttl c' \<and> ac_dns_txt_ttl c' \<le> 3600)"
  proof (cases "ac_enabled c")
    case True
    then obtain ds where ds: "validate_acme_domains (ac_challenge c) [] (ac_domains c) = Inr ds" and c': "c' = c\<lparr>ac_domains := ds\<rparr>"
      and ne: "ac_domains c \<noteq> []"
      using assms by (auto simp: validate_acme_def check_simps)
    from validate_acme_domains_Inr [OF ds] have d: "distinct ds" "length ds = length (ac_domains c)"
      "\<forall>d \<in> set ds. valid_name True False d \<and> \<not> (starts_with ''*.'' d \<and> ac_challenge c = Http01)" by auto
    from d ne have "ds \<noteq> []" by auto
    moreover have "validate_acme_domains (ac_challenge c) [] ds = Inr ds"
      by (rule validate_acme_domains_fixed) (use d in auto)
    ultimately show ?thesis
      using assms True d(1,3) unfolding c' validate_acme_def by (auto simp: check_simps not_less split: f64.splits)
  qed (use assms in \<open>auto simp: validate_acme_def\<close>)
  then show "validate_acme c' = Inr c'" "ac_enabled c \<Longrightarrow> distinct (ac_domains c') \<and> ac_domains c' \<noteq> []
       \<and> (\<forall>d \<in> set (ac_domains c'). valid_name True False d \<and> \<not> (starts_with ''*.'' d \<and> ac_challenge c' = Http01))
       \<and> (\<exists>x. ac_renew_before_fraction c' = Finite x \<and> 0 < x \<and> x < 1)
       \<and> 0 < ac_retry_initial_secs c' \<and> ac_retry_initial_secs c' \<le> ac_retry_max_secs c'
       \<and> 0 < ac_order_timeout_secs c' \<and> 60 \<le> ac_dns_txt_ttl c' \<and> ac_dns_txt_ttl c' \<le> 3600"
    by blast+
qed

lemma validate_port_mappings_Inr:
  "validate_port_mappings field seen ms = Inr ms' \<Longrightarrow>
     distinct (map pm_addr ms') \<and> map pm_addr ms' = map pm_addr ms \<and> set seen \<inter> pm_addr ` set ms' = {}
     \<and> (\<forall>m \<in> set ms'. valid_name False False (pm_hostname m) \<and> validate_listen_addr field (pm_addr m) = Inr ())"
proof (induction ms arbitrary: seen ms')
  case (Cons m ms)
  then obtain n rest where n: "normalize_hostname (pm_hostname m) = Inr n"
    and rest: "validate_port_mappings field (pm_addr m # seen) ms = Inr rest" and ms': "ms' = m\<lparr>pm_hostname := n\<rparr> # rest"
    and here: "pm_addr m \<notin> set seen" "validate_listen_addr field (pm_addr m) = Inr ()"
    by (auto simp: check_simps)
  from n have "valid_name False False n" using normalize_valid by (auto simp: normalize_hostname_def)
  with Cons.IH [OF rest] ms' here show ?case by auto (metis image_eqI list.set_map)
qed simp

lemma validate_port_mappings_fixed:
  "distinct (map pm_addr ms) \<Longrightarrow> set seen \<inter> pm_addr ` set ms = {}
   \<Longrightarrow> \<forall>m \<in> set ms. valid_name False False (pm_hostname m) \<and> validate_listen_addr field (pm_addr m) = Inr ()
   \<Longrightarrow> validate_port_mappings field seen ms = Inr ms"
proof (induction ms arbitrary: seen)
  case (Cons m ms)
  then have "normalize_hostname (pm_hostname m) = Inr (pm_hostname m)" by (simp add: normalize_hostname_iff)
  with Cons show ?case by (auto simp: check_simps require_def map_err_def)
qed simp

lemma validate_server_Inr:
  assumes "validate_server ex s = Inr s'"
  shows "validate_server ex s' = Inr s'" "distinct (map pm_addr (sc_tcp_listen s'))" "distinct (map pm_addr (sc_udp_listen s'))"
    "\<forall>m \<in> set (sc_tcp_listen s') \<union> set (sc_udp_listen s'). valid_name False False (pm_hostname m)"
    "0 < sc_udp_max_pending_replies s'" "0 < sc_max_connector_connections s'"
proof -
  from assms obtain tcp udp where t: "validate_port_mappings ''server.tcp_listen'' [] (sc_tcp_listen s) = Inr tcp"
    and u: "validate_port_mappings ''server.udp_listen'' [] (sc_udp_listen s) = Inr udp"
    and s': "s' = s\<lparr>sc_tcp_listen := tcp, sc_udp_listen := udp\<rparr>"
    by (auto simp: validate_server_def check_simps)
  note T = validate_port_mappings_Inr [OF t] and U = validate_port_mappings_Inr [OF u]
  show "distinct (map pm_addr (sc_tcp_listen s'))" "distinct (map pm_addr (sc_udp_listen s'))"
    "\<forall>m \<in> set (sc_tcp_listen s') \<union> set (sc_udp_listen s'). valid_name False False (pm_hostname m)"
    using T U by (auto simp: s')
  show "0 < sc_udp_max_pending_replies s'" "0 < sc_max_connector_connections s'"
    using assms unfolding s' by (auto simp: validate_server_def check_simps)
  have "validate_port_mappings ''server.tcp_listen'' [] tcp = Inr tcp" "validate_port_mappings ''server.udp_listen'' [] udp = Inr udp"
    using T U by (auto intro!: validate_port_mappings_fixed)
  then show "validate_server ex s' = Inr s'"
    using assms unfolding s' validate_server_def by (auto simp: check_simps)
qed

lemma validate_auth_Inr:
  assumes "validate_auth a = Inr u"
  shows "distinct (au_jwt_secret a # au_jwt_previous_secrets a)"
    "\<forall>s \<in> set (au_jwt_secret a # au_jwt_previous_secrets a). MIN_JWT_SECRET_LEN \<le> length s"
  using assms by (auto simp: validate_auth_def check_simps validate_jwt_secret_def split: if_splits)

lemma validate_acme_use_Inr:
  assumes "validate_acme_use parse_uri has_valkey dns a = Inr u" "ac_enabled a"
  shows "ac_coordination a = ValkeyCoordination \<Longrightarrow> has_valkey"
    "ac_challenge a = Dns01 \<Longrightarrow> \<exists>compiled. compile_dns parse_uri dns = Inr compiled \<and>
       (\<forall>d \<in> set (ac_domains a). \<exists>p \<in> set (cd_providers compiled). is_within_zone (''_acme-challenge.'' @ challenge_base d) (ps_zone p))"
  using assms by (auto simp: validate_acme_use_def check_simps Let_def list_ex_iff split: if_splits)

lemma validate_mesh_Inr:
  assumes "validate_mesh ex has_valkey m = Inr u"
  shows "validate_edge_id (mc_edge_id m) = Inr ()" "distinct (map mpc_edge_id (mc_peers m))" "mc_edge_id m \<notin> mpc_edge_id ` set (mc_peers m)"
    "mc_peers m \<noteq> [] \<Longrightarrow> has_valkey" "0 < mc_route_refresh_secs m" "mc_route_refresh_secs m < mc_route_ttl_secs m"
    "0 < mc_max_streams_per_peer m" "0 < mc_max_streams_per_tenant m"
  using assms by (auto simp: validate_mesh_def check_simps validate_peers_Inr split: option.splits)

text \<open>What the checks of the whole configuration amount to.\<close>

definition version_of :: "edge_config \<Rightarrow> nat" where
  "version_of c = (case ec_config_version c of None \<Rightarrow> 1 | Some v \<Rightarrow> v)"

definition mesh_ok :: "(string \<Rightarrow> bool) \<Rightarrow> edge_config \<Rightarrow> routing_mode \<Rightarrow> bool" where
  "mesh_ok ex c mode \<longleftrightarrow>
     (case ec_mesh c of None \<Rightarrow> mode = Direct | Some m \<Rightarrow> validate_mesh ex (ec_valkey c \<noteq> None) m = Inr ())"

definition acme_ok :: "(string \<Rightarrow> (string option \<times> string option) option) \<Rightarrow> edge_config \<Rightarrow> acme_config option \<Rightarrow> bool" where
  "acme_ok parse_uri c acme \<longleftrightarrow>
     (case acme of
        None \<Rightarrow> tc_acme (ec_tls c) = None
      | Some a \<Rightarrow> (\<exists>a0. tc_acme (ec_tls c) = Some a0 \<and> validate_acme a0 = Inr a)
                  \<and> validate_acme_use parse_uri (ec_valkey c \<noteq> None) (ec_dns c) a = Inr ())"

lemma mesh_ok_iff:
  "(case ec_mesh c of None \<Rightarrow> require (mode = Direct) (BadField ''mesh'') | Some mesh \<Rightarrow> validate_mesh ex (ec_valkey c \<noteq> None) mesh) = Inr u
   \<longleftrightarrow> mesh_ok ex c mode"
  by (auto simp: mesh_ok_def check_simps split: option.splits)

lemma acme_ok_iff:
  "(case tc_acme (ec_tls c) of None \<Rightarrow> Inr None | Some acme \<Rightarrow> and_then (validate_acme acme) (\<lambda>a. Inr (Some a))) = Inr acme
   \<and> (case acme of None \<Rightarrow> Inr () | Some a \<Rightarrow> validate_acme_use parse_uri (ec_valkey c \<noteq> None) (ec_dns c) a) = Inr u
   \<longleftrightarrow> acme_ok parse_uri c acme"
  by (auto simp: acme_ok_def split: option.splits)

lemma validate_edge_Inr:
  "validate_edge N parse_uri ex c = Inr c' \<longleftrightarrow>
     (\<exists>server acme p. validate_server ex (ec_server c) = Inr server \<and> validate_auth (ec_auth c) = Inr ()
        \<and> compile N (ec_policy c) = Inr p \<and> tc_reload_interval_secs (ec_tls c) \<noteq> 0 \<and> acme_ok parse_uri c acme
        \<and> (case ec_valkey c of None \<Rightarrow> True | Some url \<Rightarrow> trim url \<noteq> []) \<and> validate_http (ec_http c) = Inr ()
        \<and> 1 \<le> version_of c \<and> version_of c \<le> 2 \<and> mesh_ok ex c (routing_mode_of (version_of c) (ec_routing_mode c))
        \<and> validate_dns_use parse_uri (ec_valkey c \<noteq> None) (ec_dns c) = Inr ()
        \<and> c' = c\<lparr>ec_server := server, ec_tls := (ec_tls c)\<lparr>tc_acme := acme\<rparr>,
                  ec_routing_mode := Some (routing_mode_of (version_of c) (ec_routing_mode c))\<rparr>)"
  unfolding validate_edge_def Let_def and_then_eq_Inr version_of_def [symmetric] mesh_ok_iff
  using acme_ok_iff [of c _ parse_uri "()"]
  by (auto simp: check_simps not_less Suc_le_eq simp del: not_None_eq)

text \<open>A loaded identity is the one of the configuration, bound by the certificate alone.\<close>

lemma load_identity_Inr:
  assumes "load_identity pem uri_names key_matches read_file edge_id ca cert key = Inr m"
  shows "mi_edge_id m = edge_id" "mi_chain m \<noteq> []" "edge_ids_from_cert uri_names (hd (mi_chain m)) = [edge_id]" "mi_roots m \<noteq> []"
    "validate_edge_id edge_id = Inr ()"
  using assms by (auto simp: load_identity_def check_simps Let_def split: option.splits list.splits)

lemma server_name_inj: "server_name a = server_name b \<longleftrightarrow> a = b"
  by (simp add: server_name_def)

subsection \<open>The validated configuration\<close>


definition sample_edge_config :: edge_config where
  "sample_edge_config =
     \<lparr>ec_config_version = None,
      ec_server = \<lparr>sc_quic_listen = ''127.0.0.1:4433'', sc_quic_cert = None, sc_quic_key = None, sc_http_listen = ''127.0.0.1:8080'',
        sc_https_listen = ''localhost:8443'', sc_tcp_listen = [\<lparr>pm_addr = ''0.0.0.0:2222'', pm_hostname = ''SSH.Example.com.''\<rparr>],
        sc_udp_listen = [], sc_health_listen = ''127.0.0.1:9090'', sc_drain_timeout_secs = 30, sc_udp_reply_timeout_secs = 10,
        sc_udp_max_pending_replies = 16, sc_max_connector_connections = 16\<rparr>,
      ec_auth = \<lparr>au_jwt_secret = ''0123456789abcdef0123456789abcdef'', au_jwt_previous_secrets = []\<rparr>,
      ec_tls = \<lparr>tc_cert_dir = ''certs'', tc_reload_interval_secs = 30, tc_acme = None\<rparr>,
      ec_valkey = None,
      ec_http = \<lparr>hc_max_connections = 16, hc_header_read_timeout_secs = 30, hc_max_header_bytes = 8192, hc_tls_handshake_timeout_secs = 10,
        hc_backend_open_timeout_secs = 10, hc_response_header_timeout_secs = 60, hc_h2_max_concurrent_streams = 16, hc_forwarded_headers = True\<rparr>,
      ec_policy = default_policy_config\<lparr>pl_max_entries := 10\<rparr>, ec_dns = default_dns_config, ec_routing_mode = None, ec_mesh = None\<rparr>"


end
