(* ===== verification/Acme.thy ===== *)
theory Acme
  imports Tls_Resolver Edge_Config Dns_Txt Mesh_Routes Rate_Limit
begin

text \<open>
  Automatic certificates (\<open>sievetube-edge/src/acme.rs\<close>) with the HTTP-01 part of the control plane
  (\<open>sievetube-edge/src/valkey.rs\<close>). The certificate authority, the clock, the control plane and the challenge
  solver are an environment: a record of calls on a world of their own. A call can fail, and it can be the point where the timeout of the order
  drops the future (\<open>TimedOut\<close>); nothing after it runs then, as for an error. The loops of an order that wait for others take the number of rounds
  after which the timeout comes, which can be any number. The certificate store and the files of the account are disks with faults.
\<close>

subsection \<open>HTTP-01 responses\<close>

definition CHALLENGE_PATH_PREFIX :: string where "CHALLENGE_PATH_PREFIX = ''/.well-known/acme-challenge/''"
definition MAX_SLEEP_SECS :: int where "MAX_SLEEP_SECS = 300"
definition MAX_TOKEN_LEN :: nat where "MAX_TOKEN_LEN = 256"

type_synonym responses = "(string \<times> string, string) table"

record http01_challenges =
  hx_domains :: "string set"
  hx_responses :: responses
  hx_in_flight :: nat

definition new_http01 :: "string set \<Rightarrow> nat \<Rightarrow> http01_challenges" where
  "new_http01 domains max_concurrent = \<lparr>hx_domains = domains, hx_responses = [], hx_in_flight = max_concurrent\<rparr>"

definition is_managed :: "string \<Rightarrow> http01_challenges \<Rightarrow> bool" where
  "is_managed hostname h \<longleftrightarrow> hostname \<in> hx_domains h"

definition serves_challenge :: "string \<Rightarrow> http01_challenges \<Rightarrow> bool" where
  "serves_challenge hostname h \<longleftrightarrow> is_managed hostname h \<or> list_ex (\<lambda>((d, _), _). d = hostname) (hx_responses h)"

definition token_char :: "char \<Rightarrow> bool" where
  "token_char c \<longleftrightarrow> is_ascii_alphanumeric c \<or> c = CHR ''-'' \<or> c = CHR ''_''"

definition token_from_path :: "string \<Rightarrow> string option" where
  "token_from_path path =
     (case strip_prefix CHALLENGE_PATH_PREFIX path of
        None \<Rightarrow> None
      | Some token \<Rightarrow> if token \<noteq> [] \<and> length token \<le> MAX_TOKEN_LEN \<and> list_all token_char token then Some token else None)"

definition challenge_insert :: "string \<Rightarrow> string \<Rightarrow> string \<Rightarrow> responses \<Rightarrow> responses" where
  "challenge_insert hostname token key_authorization r = t_insert (hostname, token) key_authorization r"

definition challenge_remove :: "string \<Rightarrow> string \<Rightarrow> responses \<Rightarrow> responses" where
  "challenge_remove hostname token r = t_remove (hostname, token) r"

definition challenge_lookup :: "string \<Rightarrow> string \<Rightarrow> responses \<Rightarrow> string option" where
  "challenge_lookup hostname token r = map_of r (hostname, token)"

definition try_acquire_challenge :: "http01_challenges \<Rightarrow> bool \<times> http01_challenges" where
  "try_acquire_challenge h = (if hx_in_flight h = 0 then (False, h) else (True, h\<lparr>hx_in_flight := hx_in_flight h - 1\<rparr>))"

subsection \<open>The control plane\<close>

definition EDGES_KEY :: string where "EDGES_KEY = ''sievetube:edges''"
definition HTTP01_KEY :: string where "HTTP01_KEY = ''sievetube:acme:http01''"
definition HTTP01_RESPONDERS_KEY :: string where "HTTP01_RESPONDERS_KEY = ''sievetube:acme:http01:responders''"

definition http01_value_key :: "string \<Rightarrow> string \<Rightarrow> string" where
  "http01_value_key domain token = HTTP01_KEY @ '':'' @ domain @ '':'' @ token"

definition http01_acks_key :: "string \<Rightarrow> string \<Rightarrow> string" where
  "http01_acks_key domain token = HTTP01_KEY @ '':'' @ domain @ '':'' @ token @ '':acks''"

text \<open>An announcement that lasts for a time; \<open>now\<close> is the clock of the Edge in milliseconds.\<close>

definition announce_script :: "'db redis_sets \<Rightarrow> string \<Rightarrow> nat \<Rightarrow> nat \<Rightarrow> string \<Rightarrow> 'db \<Rightarrow> unit \<times> 'db" where
  "announce_script Z key now ttl member db = ((), rz_remrangebyscore Z key now (rz_add Z key (now + ttl) member db))"

definition heartbeat_presence :: "'db redis_sets \<Rightarrow> round_trip \<Rightarrow> nat \<Rightarrow> nat \<Rightarrow> valkey_handle \<Rightarrow> 'db \<Rightarrow> (control_plane_error, unit) result \<times> 'db" where
  "heartbeat_presence Z net now ttl vh = invoke net (announce_script Z EDGES_KEY now ttl (vh_edge_id vh))"

definition remove_presence :: "'db redis_sets \<Rightarrow> round_trip \<Rightarrow> valkey_handle \<Rightarrow> 'db \<Rightarrow> (control_plane_error, unit) result \<times> 'db" where
  "remove_presence Z net vh = invoke net (\<lambda>db. ((), snd (rz_rem Z EDGES_KEY (vh_edge_id vh) db)))"

definition live_edges :: "'db redis_sets \<Rightarrow> round_trip \<Rightarrow> nat \<Rightarrow> 'db \<Rightarrow> (control_plane_error, string list) result \<times> 'db" where
  "live_edges Z net now = invoke net (\<lambda>db. (map fst (rz_rangebyscore Z EDGES_KEY now db), db))"

definition publish_http01 ::
  "'db redis \<Rightarrow> 'db redis_sets \<Rightarrow> round_trip \<Rightarrow> nat \<Rightarrow> nat \<Rightarrow> string \<Rightarrow> string \<Rightarrow> string \<Rightarrow> nat \<Rightarrow> valkey_handle \<Rightarrow> 'db
   \<Rightarrow> (control_plane_error, unit) result \<times> 'db" where
  "publish_http01 R Z net n now domain token key_authorization ttl vh =
     invoke net (\<lambda>db.
       let acks = http01_acks_key domain token;
           db1 = rd_set R n (http01_value_key domain token) key_authorization (Some ttl) db;
           db2 = snd (rd_del R n acks db1);
           db3 = rs_pexpire Z n acks ttl (rs_add Z n acks (vh_edge_id vh) db2)
       in announce_script Z HTTP01_KEY now ttl (domain @ '' '' @ token) db3)"

definition unpublish_http01 ::
  "'db redis \<Rightarrow> 'db redis_sets \<Rightarrow> round_trip \<Rightarrow> nat \<Rightarrow> string \<Rightarrow> string \<Rightarrow> 'db \<Rightarrow> (control_plane_error, unit) result \<times> 'db" where
  "unpublish_http01 R Z net n domain token =
     invoke net (\<lambda>db.
       let db1 = snd (rd_del R n (http01_value_key domain token) db);
           db2 = snd (rd_del R n (http01_acks_key domain token) db1)
       in ((), snd (rz_rem Z HTTP01_KEY (domain @ '' '' @ token) db2)))"

text \<open>The published challenges; each value is read by a command of its own, and \<open>nets\<close> gives their fate.\<close>

fun pending_values ::
  "'db redis \<Rightarrow> nat \<Rightarrow> (string \<Rightarrow> round_trip) \<Rightarrow> string list \<Rightarrow> 'db \<Rightarrow> (control_plane_error, (string \<times> string \<times> string) list) result" where
  "pending_values R n nets [] db = Inr []"
| "pending_values R n nets (member # members) db =
     (case split_once (CHR '' '') member of
        None \<Rightarrow> pending_values R n nets members db
      | Some (domain, token) \<Rightarrow>
          and_then (fst (invoke (nets member) (\<lambda>db. (rd_get R n (http01_value_key domain token) db, db)) db)) (\<lambda>v.
          and_then (pending_values R n nets members db) (\<lambda>rest.
            Inr (case v of Some key_authorization \<Rightarrow> (domain, token, key_authorization) # rest | None \<Rightarrow> rest))))"

definition pending_http01 ::
  "'db redis \<Rightarrow> 'db redis_sets \<Rightarrow> round_trip \<Rightarrow> (string \<Rightarrow> round_trip) \<Rightarrow> nat \<Rightarrow> nat \<Rightarrow> 'db
   \<Rightarrow> (control_plane_error, (string \<times> string \<times> string) list) result" where
  "pending_http01 R Z net nets n now db =
     and_then (fst (invoke net (\<lambda>db. (map fst (rz_rangebyscore Z HTTP01_KEY now db), db)) db)) (\<lambda>members.
       pending_values R n nets members db)"

definition ack_http01 :: "'db redis_sets \<Rightarrow> round_trip \<Rightarrow> nat \<Rightarrow> string \<Rightarrow> string \<Rightarrow> valkey_handle \<Rightarrow> 'db \<Rightarrow> (control_plane_error, unit) result \<times> 'db" where
  "ack_http01 Z net n domain token vh =
     invoke net (\<lambda>db.
       let acks = http01_acks_key domain token in ((), rs_pexpire Z n acks 600000 (rs_add Z n acks (vh_edge_id vh) db)))"

definition http01_acks :: "'db redis_sets \<Rightarrow> round_trip \<Rightarrow> nat \<Rightarrow> string \<Rightarrow> string \<Rightarrow> 'db \<Rightarrow> (control_plane_error, string list) result \<times> 'db" where
  "http01_acks Z net n domain token = invoke net (\<lambda>db. (rs_members Z n (http01_acks_key domain token) db, db))"

definition heartbeat_http01_responder :: "'db redis_sets \<Rightarrow> round_trip \<Rightarrow> nat \<Rightarrow> nat \<Rightarrow> valkey_handle \<Rightarrow> 'db \<Rightarrow> (control_plane_error, unit) result \<times> 'db" where
  "heartbeat_http01_responder Z net now ttl vh = invoke net (announce_script Z HTTP01_RESPONDERS_KEY now ttl (vh_edge_id vh))"

definition remove_http01_responder :: "'db redis_sets \<Rightarrow> round_trip \<Rightarrow> valkey_handle \<Rightarrow> 'db \<Rightarrow> (control_plane_error, unit) result \<times> 'db" where
  "remove_http01_responder Z net vh = invoke net (\<lambda>db. ((), snd (rz_rem Z HTTP01_RESPONDERS_KEY (vh_edge_id vh) db)))"

definition http01_responders :: "'db redis_sets \<Rightarrow> round_trip \<Rightarrow> nat \<Rightarrow> 'db \<Rightarrow> (control_plane_error, string list) result \<times> 'db" where
  "http01_responders Z net now = invoke net (\<lambda>db. (map fst (rz_rangebyscore Z HTTP01_RESPONDERS_KEY now db), db))"

subsection \<open>Times\<close>

text \<open>\<open>fl\<close> rounds to the nearest f64; \<open>round\<close> of Rust rounds halves away from zero, and here nothing is negative.\<close>

definition renewal_due_at :: "(real \<Rightarrow> real) \<Rightarrow> 'k cert_entry \<Rightarrow> real \<Rightarrow> int" where
  "renewal_due_at fl e renew_before_fraction =
     en_not_after e - \<lfloor>fl (fl (real_of_int (lifetime_secs e)) * renew_before_fraction) + 1 / 2\<rfloor>"

definition clamp_unit :: "real \<Rightarrow> real" where
  "clamp_unit x = max 0 (min x 1)"

definition retry_delay :: "(real \<Rightarrow> real) \<Rightarrow> nat \<Rightarrow> nat \<Rightarrow> nat \<Rightarrow> real \<Rightarrow> nat option" where
  "retry_delay fl failures initial max_delay jitter =
     (let exponent = min (failures - 1) 32;
          base = min (fl (as_secs_f64 fl initial * 2 ^ exponent)) (as_secs_f64 fl max_delay)
      in from_secs_f64 (fl (base * fl (fl (8 / 10) + fl (fl (4 / 10) * clamp_unit jitter)))))"

subsection \<open>The manager\<close>

datatype acme_error =
    TimedOut | CallFailed string | StoreFailed store_error | NotConfirmed nat | AuthorizationFailed | NoChallenge | NoSolver
  | UnsupportedIdentifier | OrderFailed | LeaseLost

record domain_state =
  ds_failures :: nat
  ds_next_attempt :: int

datatype authorization_status = AuthValid | AuthPending | AuthOther

record authorization =
  az_status :: authorization_status
  az_dns_name :: "string option"
  az_http01 :: "(string \<times> string) option"
  az_dns01 :: "(string \<times> string) option"

text \<open>What the manager calls: clock and chance, the account, the order, the control plane and the solver. A challenge is its token with the response.\<close>

record 'x acme_env =
  xe_now :: "'x \<Rightarrow> int \<times> 'x"
  xe_instant :: "'x \<Rightarrow> nat \<times> 'x"
  xe_sleep :: "nat \<Rightarrow> ('x, acme_error, unit) io"
  xe_random_unit :: "'x \<Rightarrow> real \<times> 'x"
  xe_uuid :: "'x \<Rightarrow> string \<times> 'x"
  xe_from_credentials :: "bytes \<Rightarrow> ('x, acme_error, unit) io"
  xe_generate_key :: "('x, acme_error, bytes) io"
  xe_create_account :: "bytes \<Rightarrow> ('x, acme_error, bytes) io"
  xe_update_contacts :: "string \<Rightarrow> ('x, acme_error, unit) io"
  xe_new_order :: "string \<Rightarrow> ('x, acme_error, unit) io"
  xe_next_authorization :: "('x, acme_error, authorization option) io"
  xe_set_ready :: "string \<Rightarrow> ('x, acme_error, unit) io"
  xe_poll_ready :: "('x, acme_error, bool) io"
  xe_certificate_key :: "string \<Rightarrow> ('x, acme_error, bytes \<times> bytes) io"
  xe_finalize :: "bytes \<Rightarrow> ('x, acme_error, unit) io"
  xe_poll_certificate :: "('x, acme_error, bytes) io"
  xe_edge_id :: string
  xe_connected :: "'x \<Rightarrow> bool"
  xe_acquire_lease :: "string \<Rightarrow> nat \<Rightarrow> nat \<Rightarrow> ('x, acme_error, nat option) io"
  xe_check_lease :: "string \<Rightarrow> nat \<Rightarrow> ('x, acme_error, bool) io"
  xe_lease_owner :: "string \<Rightarrow> ('x, acme_error, string option) io"
  xe_release_lease :: "string \<Rightarrow> nat \<Rightarrow> ('x, acme_error, unit) io"
  xe_publish :: "string \<Rightarrow> string \<Rightarrow> string \<Rightarrow> nat \<Rightarrow> ('x, acme_error, unit) io"
  xe_unpublish :: "string \<Rightarrow> string \<Rightarrow> ('x, acme_error, unit) io"
  xe_live_edges :: "('x, acme_error, string list) io"
  xe_responders :: "('x, acme_error, string list) io"
  xe_acks :: "string \<Rightarrow> string \<Rightarrow> ('x, acme_error, string list) io"
  xe_pending :: "('x, acme_error, (string \<times> string \<times> string) list) io"
  xe_ack :: "string \<Rightarrow> string \<Rightarrow> ('x, acme_error, unit) io"
  xe_txt_add :: "string \<Rightarrow> string \<Rightarrow> ('x, acme_error, txt_handle) io"
  xe_txt_wait :: "txt_handle \<Rightarrow> ('x, acme_error, unit) io"
  xe_txt_remove :: "txt_handle \<Rightarrow> ('x, acme_error, unit) io"
  xe_txt_journal :: "'x \<Rightarrow> txt_handle list"
  xe_txt_cleanup_entry :: "txt_handle \<Rightarrow> 'x \<Rightarrow> 'x"
  xe_txt_cleanup_journal :: "'x \<Rightarrow> 'x"

record ('k, 'x) acme_manager =
  mg_settings :: acme_config
  mg_env :: "'x acme_env"
  mg_parse :: "bytes \<Rightarrow> bytes \<Rightarrow> (string, 'k parsed_cert) result"
  mg_status_bytes :: "(string, domain_state) table \<Rightarrow> bytes"
  mg_fl :: "real \<Rightarrow> real"
  mg_renew_before_fraction :: real
  mg_dns01 :: bool
  mg_rounds :: nat

text \<open>The state: both disks, the resolver, the responses, the back-off of the domains, whether the account is there, and what the
  running order has published.\<close>

record ('k, 'x) acme_world =
  aw_store :: disk
  aw_files :: disk
  aw_resolver :: "'k resolver"
  aw_responses :: responses
  aw_state :: "(string, domain_state) table"
  aw_account :: bool
  aw_http01 :: "string list"
  aw_txt :: "txt_handle list"
  aw_ext :: 'x

definition ext_call :: "('x, acme_error, 'a) io \<Rightarrow> (('k, 'x) acme_world, acme_error, 'a) io" where
  "ext_call f w = (case f (aw_ext w) of (r, x) \<Rightarrow> (r, w\<lparr>aw_ext := x\<rparr>))"

definition ext_get :: "('x \<Rightarrow> 'a \<times> 'x) \<Rightarrow> (('k, 'x) acme_world, acme_error, 'a) io" where
  "ext_get f w = (case f (aw_ext w) of (a, x) \<Rightarrow> (Inr a, w\<lparr>aw_ext := x\<rparr>))"

definition store_call :: "(disk, store_error, 'a) io \<Rightarrow> (('k, 'x) acme_world, acme_error, 'a) io" where
  "store_call f w = (case f (aw_store w) of (r, d) \<Rightarrow> (map_err StoreFailed r, w\<lparr>aw_store := d\<rparr>))"

definition files_call :: "(disk, store_error, 'a) io \<Rightarrow> (('k, 'x) acme_world, acme_error, 'a) io" where
  "files_call f w = (case f (aw_files w) of (r, d) \<Rightarrow> (map_err StoreFailed r, w\<lparr>aw_files := d\<rparr>))"

definition get_now :: "('k, 'x) acme_manager \<Rightarrow> (('k, 'x) acme_world, acme_error, int) io" where
  "get_now M = ext_get (xe_now (mg_env M))"

definition coordinated :: "('k, 'x) acme_manager \<Rightarrow> bool" where
  "coordinated M \<longleftrightarrow> ac_coordination (mg_settings M) = ValkeyCoordination"

definition acme_lease_resource :: "string \<Rightarrow> string" where
  "acme_lease_resource domain = ''acme:'' @ domain"

subsection \<open>The account\<close>

definition STATE_DIR :: string where "STATE_DIR = ''state''"
definition ACCOUNT_FILE :: string where "ACCOUNT_FILE = ''account.json''"
definition ACCOUNT_KEY_FILE :: string where "ACCOUNT_KEY_FILE = ''account-key.der''"
definition STATUS_FILE :: string where "STATUS_FILE = ''status.json''"

text \<open>\<open>fs::read\<close>; \<open>None\<close> is a file that is not there.\<close>

definition read_path :: "string \<Rightarrow> string \<Rightarrow> (disk, store_error, bytes option) io" where
  "read_path d e =
     disk_read (\<lambda>dirs. case entry_of dirs d e of
        None \<Rightarrow> Inr None
      | Some (FileNode data) \<Rightarrow> Inr (Some data)
      | Some (DirNode _) \<Rightarrow> Inl DiskError)"

definition pending_account_key :: "('k, 'x) acme_manager \<Rightarrow> (('k, 'x) acme_world, acme_error, bytes) io" where
  "pending_account_key M =
     io_bind (files_call (read_path STATE_DIR ACCOUNT_KEY_FILE)) (\<lambda>key.
       case key of
         Some der \<Rightarrow> io_return der
       | None \<Rightarrow>
           io_bind (ext_call (xe_generate_key (mg_env M))) (\<lambda>der.
           io_bind (ext_get (xe_uuid (mg_env M))) (\<lambda>uuid.
           io_bind (files_call (write_atomic uuid STATE_DIR ACCOUNT_KEY_FILE der)) (\<lambda>_. io_return der))))"

definition create_account :: "('k, 'x) acme_manager \<Rightarrow> (('k, 'x) acme_world, acme_error, unit) io" where
  "create_account M =
     io_bind (pending_account_key M) (\<lambda>key.
     io_bind (ext_call (xe_create_account (mg_env M) key)) (\<lambda>credentials.
     io_bind (case ac_contact_email (mg_settings M) of
                None \<Rightarrow> io_return ()
              | Some email \<Rightarrow> ext_call (xe_update_contacts (mg_env M) (''mailto:'' @ email))) (\<lambda>_.
     io_bind (ext_get (xe_uuid (mg_env M))) (\<lambda>uuid.
     io_bind (files_call (write_atomic uuid STATE_DIR ACCOUNT_FILE credentials)) (\<lambda>_. \<lambda>w.
       (Inr (), (snd (files_call (remove_file STATE_DIR ACCOUNT_KEY_FILE) w))\<lparr>aw_account := True\<rparr>))))))"

definition acme_account :: "('k, 'x) acme_manager \<Rightarrow> (('k, 'x) acme_world, acme_error, unit) io" where
  "acme_account M w =
     (if aw_account w then (Inr (), w)
      else case files_call (read_path STATE_DIR ACCOUNT_FILE) w of
             (Inr (Some credentials), w1) \<Rightarrow>
               io_bind (ext_call (xe_from_credentials (mg_env M) credentials)) (\<lambda>_. \<lambda>w. (Inr (), w\<lparr>aw_account := True\<rparr>)) w1
           | (_, w1) \<Rightarrow> create_account M w1)"

subsection \<open>An order\<close>

text \<open>The Edges that answer challenges and have not confirmed one.\<close>

definition unconfirmed :: "string list \<Rightarrow> string list \<Rightarrow> string list \<Rightarrow> nat" where
  "unconfirmed live responders acks = card (set live \<inter> set responders - set acks)"

fun await_acks :: "('k, 'x) acme_manager \<Rightarrow> nat \<Rightarrow> string \<Rightarrow> string \<Rightarrow> nat \<Rightarrow> (('k, 'x) acme_world, acme_error, unit) io" where
  "await_acks M deadline domain token 0 = io_fail TimedOut"
| "await_acks M deadline domain token (Suc rounds) =
     io_bind (ext_call (xe_live_edges (mg_env M))) (\<lambda>live.
     io_bind (ext_call (xe_responders (mg_env M))) (\<lambda>responders.
     io_bind (ext_call (xe_acks (mg_env M) domain token)) (\<lambda>acks.
       if unconfirmed live responders acks = 0 then io_return ()
       else
         io_bind (ext_get (xe_instant (mg_env M))) (\<lambda>now.
           if deadline \<le> now then io_fail (NotConfirmed (unconfirmed live responders acks))
           else io_bind (ext_call (xe_sleep (mg_env M) 200)) (\<lambda>_. await_acks M deadline domain token rounds)))))"

definition distribute_http01 :: "('k, 'x) acme_manager \<Rightarrow> string \<Rightarrow> string \<Rightarrow> string \<Rightarrow> (('k, 'x) acme_world, acme_error, unit) io" where
  "distribute_http01 M domain token key_authorization =
     io_bind (ext_call (xe_publish (mg_env M) domain token key_authorization ((ac_order_timeout_secs (mg_settings M) + 60) * 1000))) (\<lambda>_.
     io_bind (ext_get (xe_instant (mg_env M))) (\<lambda>now.
       await_acks M (now + ac_challenge_distribution_timeout_secs (mg_settings M) * 1000) domain token (mg_rounds M)))"

definition answer_http01 :: "('k, 'x) acme_manager \<Rightarrow> string \<Rightarrow> authorization \<Rightarrow> (('k, 'x) acme_world, acme_error, unit) io" where
  "answer_http01 M domain authz =
     (case az_http01 authz of
        None \<Rightarrow> io_fail NoChallenge
      | Some (token, key_authorization) \<Rightarrow>
          io_bind (\<lambda>w. (Inr (), w\<lparr>aw_responses := challenge_insert domain token key_authorization (aw_responses w),
                                   aw_http01 := aw_http01 w @ [token]\<rparr>)) (\<lambda>_.
          io_bind (if coordinated M then distribute_http01 M domain token key_authorization else io_return ()) (\<lambda>_.
            ext_call (xe_set_ready (mg_env M) token))))"

definition answer_dns01 :: "('k, 'x) acme_manager \<Rightarrow> authorization \<Rightarrow> (('k, 'x) acme_world, acme_error, unit) io" where
  "answer_dns01 M authz =
     (if \<not> mg_dns01 M then io_fail NoSolver
      else case az_dns_name authz of
             None \<Rightarrow> io_fail UnsupportedIdentifier
           | Some base \<Rightarrow>
               (case az_dns01 authz of
                  None \<Rightarrow> io_fail NoChallenge
                | Some (token, dns_value) \<Rightarrow>
                    io_bind (ext_call (xe_txt_add (mg_env M) base dns_value)) (\<lambda>handle.
                    io_bind (\<lambda>w. (Inr (), w\<lparr>aw_txt := aw_txt w @ [handle]\<rparr>)) (\<lambda>_.
                    io_bind (ext_call (xe_txt_wait (mg_env M) handle)) (\<lambda>_.
                      ext_call (xe_set_ready (mg_env M) token))))))"

fun answer_authorizations :: "('k, 'x) acme_manager \<Rightarrow> string \<Rightarrow> nat \<Rightarrow> (('k, 'x) acme_world, acme_error, unit) io" where
  "answer_authorizations M domain 0 = io_fail TimedOut"
| "answer_authorizations M domain (Suc rounds) =
     io_bind (ext_call (xe_next_authorization (mg_env M))) (\<lambda>next_authz.
       case next_authz of
         None \<Rightarrow> io_return ()
       | Some authz \<Rightarrow>
           (case az_status authz of
              AuthValid \<Rightarrow> answer_authorizations M domain rounds
            | AuthPending \<Rightarrow>
                io_bind (case ac_challenge (mg_settings M) of Http01 \<Rightarrow> answer_http01 M domain authz | Dns01 \<Rightarrow> answer_dns01 M authz) (\<lambda>_.
                  answer_authorizations M domain rounds)
            | AuthOther \<Rightarrow> io_fail AuthorizationFailed))"

definition complete_order :: "('k, 'x) acme_manager \<Rightarrow> string \<Rightarrow> (('k, 'x) acme_world, acme_error, bytes \<times> bytes) io" where
  "complete_order M domain =
     io_bind (answer_authorizations M domain (mg_rounds M)) (\<lambda>_.
     io_bind (ext_call (xe_poll_ready (mg_env M))) (\<lambda>ready.
     if \<not> ready then io_fail OrderFailed
     else
       io_bind (ext_call (xe_certificate_key (mg_env M) domain)) (\<lambda>(key, csr).
       io_bind (ext_call (xe_finalize (mg_env M) csr)) (\<lambda>_.
       io_bind (ext_call (xe_poll_certificate (mg_env M))) (\<lambda>chain. io_return (chain, key))))))"

definition run_order :: "('k, 'x) acme_manager \<Rightarrow> string \<Rightarrow> (('k, 'x) acme_world, acme_error, bytes \<times> bytes) io" where
  "run_order M domain =
     io_bind (acme_account M) (\<lambda>_.
     io_bind (ext_call (xe_new_order (mg_env M) domain)) (\<lambda>_. complete_order M domain))"

text \<open>Removal of what an order has published; errors of the control plane and of the solver are only logged.\<close>

fun cleanup_http01 :: "('k, 'x) acme_manager \<Rightarrow> string \<Rightarrow> string list \<Rightarrow> ('k, 'x) acme_world \<Rightarrow> ('k, 'x) acme_world" where
  "cleanup_http01 M domain [] w = w"
| "cleanup_http01 M domain (token # tokens) w =
     (let w1 = w\<lparr>aw_responses := challenge_remove domain token (aw_responses w)\<rparr>;
          w2 = (if coordinated M then snd (ext_call (xe_unpublish (mg_env M) domain token) w1) else w1)
      in cleanup_http01 M domain tokens w2)"

fun cleanup_txt :: "('k, 'x) acme_manager \<Rightarrow> txt_handle list \<Rightarrow> ('k, 'x) acme_world \<Rightarrow> ('k, 'x) acme_world" where
  "cleanup_txt M [] w = w"
| "cleanup_txt M (h # hs) w = cleanup_txt M hs (snd (ext_call (xe_txt_remove (mg_env M) h) w))"

definition cleanup_published :: "('k, 'x) acme_manager \<Rightarrow> string \<Rightarrow> ('k, 'x) acme_world \<Rightarrow> ('k, 'x) acme_world" where
  "cleanup_published M domain w =
     (let w1 = cleanup_http01 M domain (aw_http01 w) w in if mg_dns01 M then cleanup_txt M (aw_txt w1) w1 else w1)"

text \<open>The generation to store: the one of the lease while it is held, or the next one.\<close>

definition issue_generation :: "('k, 'x) acme_manager \<Rightarrow> string \<Rightarrow> nat option \<Rightarrow> (('k, 'x) acme_world, acme_error, nat) io" where
  "issue_generation M domain generation w =
     (case generation of
        None \<Rightarrow> store_call (Certificates.next_generation domain) w
      | Some g \<Rightarrow>
          if coordinated M
          then (case ext_call (xe_check_lease (mg_env M) (acme_lease_resource domain) g) w of
                  (Inr True, w1) \<Rightarrow> (Inr g, w1)
                | (_, w1) \<Rightarrow> (Inl LeaseLost, w1))
          else (Inr g, w))"

definition acme_issue :: "('k, 'x) acme_manager \<Rightarrow> string \<Rightarrow> nat option \<Rightarrow> (('k, 'x) acme_world, acme_error, 'k cert_entry) io" where
  "acme_issue M domain generation w =
     (case run_order M domain (w\<lparr>aw_http01 := [], aw_txt := []\<rparr>) of
        (outcome, w1) \<Rightarrow>
          let w2 = cleanup_published M domain w1
          in case outcome of
               Inl e \<Rightarrow> (Inl e, w2)
             | Inr (chain, key) \<Rightarrow>
                 io_bind (issue_generation M domain generation) (\<lambda>g.
                 io_bind (get_now M) (\<lambda>now.
                 io_bind (ext_get (xe_uuid (mg_env M))) (\<lambda>u1.
                 io_bind (ext_get (xe_uuid (mg_env M))) (\<lambda>u2.
                   store_call (cert_store (mg_parse M) (u1, u2) domain g chain key now))))) w2)"

subsection \<open>Attempts\<close>

definition refresh_from_store :: "('k, 'x) acme_manager \<Rightarrow> string \<Rightarrow> int \<Rightarrow> ('k, 'x) acme_world \<Rightarrow> ('k, 'x) acme_world" where
  "refresh_from_store M domain now w =
     (let installed = (case get_cert domain (aw_resolver w) of
                         Some e \<Rightarrow> if en_source e = Acme then en_generation e else None
                       | None \<Rightarrow> None)
      in case store_call (current_generation domain) w of
           (Inr (Some current), w1) \<Rightarrow>
             if Some current = installed then w1
             else (case store_call (load_current (mg_parse M) domain now) w1 of
                     (Inr (Some entry), w2) \<Rightarrow>
                       if en_generation entry = installed then w2
                       else w2\<lparr>aw_resolver := snd (install_cert entry (aw_resolver w2))\<rparr>
                   | (_, w2) \<Rightarrow> w2)
         | (_, w1) \<Rightarrow> w1)"

definition load_existing :: "('k, 'x) acme_manager \<Rightarrow> ('k, 'x) acme_world \<Rightarrow> ('k, 'x) acme_world" where
  "load_existing M w =
     (case xe_now (mg_env M) (aw_ext w) of
        (now, x) \<Rightarrow> fold (\<lambda>domain. refresh_from_store M domain now) (ac_domains (mg_settings M)) (w\<lparr>aw_ext := x\<rparr>))"

definition due_at :: "('k, 'x) acme_manager \<Rightarrow> string \<Rightarrow> int \<Rightarrow> ('k, 'x) acme_world \<Rightarrow> int" where
  "due_at M domain now w =
     max (case get_cert domain (aw_resolver w) of
            Some e \<Rightarrow> if en_source e = Acme \<and> \<not> is_expired e now then renewal_due_at (mg_fl M) e (mg_renew_before_fraction M) else now
          | None \<Rightarrow> now)
         (case map_of (aw_state w) domain of Some s \<Rightarrow> ds_next_attempt s | None \<Rightarrow> 0)"

definition persist_state :: "('k, 'x) acme_manager \<Rightarrow> ('k, 'x) acme_world \<Rightarrow> ('k, 'x) acme_world" where
  "persist_state M w =
     snd (io_bind (ext_get (xe_uuid (mg_env M))) (\<lambda>uuid.
            files_call (write_atomic uuid STATE_DIR STATUS_FILE (mg_status_bytes M (aw_state w)))) w)"

text \<open>The back-off after a failure. \<open>None\<close> would be the panic of \<open>from_secs_f64\<close>.\<close>

definition record_failure :: "('k, 'x) acme_manager \<Rightarrow> string \<Rightarrow> int \<Rightarrow> ('k, 'x) acme_world \<Rightarrow> ('k, 'x) acme_world option" where
  "record_failure M domain now w =
     (let failures = (case map_of (aw_state w) domain of Some s \<Rightarrow> ds_failures s | None \<Rightarrow> 0) + 1
      in case xe_random_unit (mg_env M) (aw_ext w) of
           (jitter, x) \<Rightarrow>
             (case retry_delay (mg_fl M) failures (ac_retry_initial_secs (mg_settings M) * nanos_per_sec)
                     (ac_retry_max_secs (mg_settings M) * nanos_per_sec) jitter of
                None \<Rightarrow> None
              | Some delay \<Rightarrow>
                  Some (w\<lparr>aw_ext := x,
                          aw_state := t_insert domain \<lparr>ds_failures = failures, ds_next_attempt = now + max (int (delay div nanos_per_sec)) 1\<rparr> (aw_state w)\<rparr>)))"

definition acme_attempt :: "('k, 'x) acme_manager \<Rightarrow> string \<Rightarrow> nat option \<Rightarrow> ('k, 'x) acme_world \<Rightarrow> ('k, 'x) acme_world option" where
  "acme_attempt M domain generation w =
     (case acme_issue M domain generation w of
        (result, w1) \<Rightarrow>
          (case xe_now (mg_env M) (aw_ext w1) of
             (now, x) \<Rightarrow>
               let w2 = w1\<lparr>aw_ext := x\<rparr>
               in map_option (persist_state M)
                    (case result of
                       Inr entry \<Rightarrow>
                         Some (w2\<lparr>aw_resolver := snd (install_cert entry (aw_resolver w2)), aw_state := t_remove domain (aw_state w2)\<rparr>)
                     | Inl _ \<Rightarrow> record_failure M domain now w2)))"

definition leased_attempt :: "('k, 'x) acme_manager \<Rightarrow> string \<Rightarrow> nat \<Rightarrow> ('k, 'x) acme_world \<Rightarrow> ('k, 'x) acme_world option" where
  "leased_attempt M domain generation w =
     (case xe_now (mg_env M) (aw_ext w) of
        (now, x) \<Rightarrow>
          let w1 = refresh_from_store M domain now (w\<lparr>aw_ext := x\<rparr>)
          in case xe_now (mg_env M) (aw_ext w1) of
               (now1, x1) \<Rightarrow>
                 (case xe_now (mg_env M) x1 of
                    (now2, x2) \<Rightarrow>
                      map_option (\<lambda>w. snd (ext_call (xe_release_lease (mg_env M) (acme_lease_resource domain) generation) w))
                        (if due_at M domain now1 w1 \<le> now2 then acme_attempt M domain (Some generation) (w1\<lparr>aw_ext := x2\<rparr>)
                         else Some (w1\<lparr>aw_ext := x2\<rparr>))))"

definition coordinated_attempt :: "('k, 'x) acme_manager \<Rightarrow> string \<Rightarrow> ('k, 'x) acme_world \<Rightarrow> ('k, 'x) acme_world option" where
  "coordinated_attempt M domain w =
     (if \<not> coordinated M then acme_attempt M domain None w
      else case store_call (Certificates.next_generation domain) w of
             (Inl _, w1) \<Rightarrow> Some w1
           | (Inr min_generation, w1) \<Rightarrow>
               (case ext_call (xe_acquire_lease (mg_env M) (acme_lease_resource domain)
                        ((ac_order_timeout_secs (mg_settings M) + 120) * 1000) min_generation) w1 of
                  (Inr (Some generation), w2) \<Rightarrow> leased_attempt M domain generation w2
                | (_, w2) \<Rightarrow> Some w2))"

text \<open>One domain in a round of the scheduler.\<close>

definition schedule_domain :: "('k, 'x) acme_manager \<Rightarrow> string \<Rightarrow> int \<times> ('k, 'x) acme_world \<Rightarrow> (int \<times> ('k, 'x) acme_world) option" where
  "schedule_domain M domain st =
     (case st of (wake_at, w) \<Rightarrow>
      (case xe_now (mg_env M) (aw_ext w) of
         (now, x) \<Rightarrow>
           let w1 = w\<lparr>aw_ext := x\<rparr>; poll = int (ac_store_poll_interval_secs (mg_settings M))
           in if coordinated M \<and> \<not> xe_connected (mg_env M) (aw_ext w1) then Some (min wake_at (now + poll), w1)
              else
                let w2 = refresh_from_store M domain now w1
                in case (if due_at M domain now w2 \<le> now then coordinated_attempt M domain w2 else Some w2) of
                     None \<Rightarrow> None
                   | Some w3 \<Rightarrow>
                       (case xe_now (mg_env M) (aw_ext w3) of
                          (now3, x3) \<Rightarrow>
                            let wake = min wake_at (due_at M domain now3 w3)
                            in Some (if coordinated M then min wake (now3 + poll) else wake, w3\<lparr>aw_ext := x3\<rparr>))))"

fun schedule_domains :: "('k, 'x) acme_manager \<Rightarrow> string list \<Rightarrow> int \<times> ('k, 'x) acme_world \<Rightarrow> (int \<times> ('k, 'x) acme_world) option" where
  "schedule_domains M [] st = Some st"
| "schedule_domains M (d # ds) st = (case schedule_domain M d st of None \<Rightarrow> None | Some st' \<Rightarrow> schedule_domains M ds st')"

definition schedule_round :: "('k, 'x) acme_manager \<Rightarrow> ('k, 'x) acme_world \<Rightarrow> (int \<times> ('k, 'x) acme_world) option" where
  "schedule_round M w =
     (case xe_now (mg_env M) (aw_ext w) of
        (now, x) \<Rightarrow>
          map_option (\<lambda>(wake_at, w'). case xe_now (mg_env M) (aw_ext w') of
               (now', x') \<Rightarrow> (max 1 (min (wake_at - now') MAX_SLEEP_SECS), w'\<lparr>aw_ext := x'\<rparr>))
            (schedule_domains M (ac_domains (mg_settings M)) (now + MAX_SLEEP_SECS, w\<lparr>aw_ext := x\<rparr>)))"

definition acme_readiness_issues :: "('k, 'x) acme_manager \<Rightarrow> int \<Rightarrow> ('k, 'x) acme_world \<Rightarrow> string list" where
  "acme_readiness_issues M now w =
     map (\<lambda>d. ''no valid ACME certificate for '' @ d)
       (filter (\<lambda>d. \<not> (case get_cert d (aw_resolver w) of Some e \<Rightarrow> en_source e = Acme \<and> \<not> is_expired e now | None \<Rightarrow> False))
          (ac_domains (mg_settings M)))"

subsection \<open>Challenges of other Edges\<close>

fun sync_pending ::
  "'x acme_env \<Rightarrow> (string \<times> string \<times> string) list \<Rightarrow> responses \<times> (string \<times> string) set \<times> 'x \<Rightarrow> responses \<times> (string \<times> string) set \<times> 'x" where
  "sync_pending E [] st = st"
| "sync_pending E ((domain, token, key_authorization) # pending) st =
     (case st of (r, synced, x) \<Rightarrow>
        let (r1, synced1) = (if challenge_lookup domain token r = None
                             then (challenge_insert domain token key_authorization r, insert (domain, token) synced)
                             else (r, synced))
        in sync_pending E pending (r1, synced1, snd (xe_ack E domain token x)))"

text \<open>One round; a response of the round before that is no longer published is removed.\<close>

definition sync_round :: "'x acme_env \<Rightarrow> responses \<times> (string \<times> string) set \<times> 'x \<Rightarrow> responses \<times> (string \<times> string) set \<times> 'x" where
  "sync_round E st =
     (case st of (r, synced, x) \<Rightarrow>
      (case xe_pending E x of
         (Inl _, x1) \<Rightarrow> (r, synced, x1)
       | (Inr pending, x1) \<Rightarrow>
           (case sync_pending E pending (r, synced, x1) of
              (r2, synced2, x2) \<Rightarrow>
                let current = (\<lambda>(d, t, _). (d, t)) ` set pending
                in (t_retain (\<lambda>key _. key \<notin> synced2 - current) r2, synced2 \<inter> current, x2))))"

subsection \<open>Left-over values of DNS-01\<close>

fun leases_free :: "'x acme_env \<Rightarrow> string list \<Rightarrow> bool \<Rightarrow> 'x \<Rightarrow> bool \<times> 'x" where
  "leases_free E [] removable x = (removable, x)"
| "leases_free E (resource # resources) removable x =
     (case xe_lease_owner E (acme_lease_resource resource) x of
        (Inr None, x1) \<Rightarrow> leases_free E resources removable x1
      | (Inr (Some owner), x1) \<Rightarrow> leases_free E resources (removable \<and> owner = xe_edge_id E) x1
      | (Inl _, x1) \<Rightarrow> leases_free E resources False x1)"

definition cleanup_handle :: "'x acme_env \<Rightarrow> txt_handle \<Rightarrow> 'x \<Rightarrow> 'x" where
  "cleanup_handle E h x =
     (case handle_domain h of
        None \<Rightarrow> x
      | Some domain \<Rightarrow>
          (case leases_free E [domain, ''*.'' @ domain] True x of
             (removable, x1) \<Rightarrow> if removable then xe_txt_cleanup_entry E h x1 else x1))"

definition cleanup_dns01 :: "('k, 'x) acme_manager \<Rightarrow> 'x \<Rightarrow> 'x" where
  "cleanup_dns01 M x =
     (let E = mg_env M
      in if \<not> coordinated M then xe_txt_cleanup_journal E x
         else fold (cleanup_handle E) (xe_txt_journal E x) x)"

text \<open>A manager that starts: the state of an earlier run is used when it can be read.\<close>

definition acme_new ::
  "('k, 'x) acme_manager \<Rightarrow> (bytes \<Rightarrow> (string, domain_state) table option) \<Rightarrow> disk \<Rightarrow> disk \<Rightarrow> 'k resolver \<Rightarrow> 'x \<Rightarrow> ('k, 'x) acme_world option" where
  "acme_new M parse_status store files resolver x =
     (if ac_challenge (mg_settings M) = Dns01 \<and> \<not> mg_dns01 M then None
      else case read_path STATE_DIR STATUS_FILE files of
             (r, files1) \<Rightarrow>
               Some \<lparr>aw_store = store, aw_files = files1, aw_resolver = set_managed_names (set (ac_domains (mg_settings M))) resolver,
                     aw_responses = [],
                     aw_state = (case r of Inr (Some data) \<Rightarrow> (case parse_status data of Some t \<Rightarrow> t | None \<Rightarrow> []) | _ \<Rightarrow> []),
                     aw_account = False, aw_http01 = [], aw_txt = [], aw_ext = x\<rparr>)"

subsection \<open>What an order leaves alone\<close>

text \<open>An order changes neither the store, nor the resolver, nor the back-off; responses change only for the tokens it has noted.\<close>

definition order_rel :: "string \<Rightarrow> ('k, 'x) acme_world \<Rightarrow> ('k, 'x) acme_world \<Rightarrow> bool" where
  "order_rel domain w w' \<longleftrightarrow>
     aw_store w' = aw_store w \<and> aw_resolver w' = aw_resolver w \<and> aw_state w' = aw_state w
     \<and> set (aw_http01 w) \<subseteq> set (aw_http01 w')
     \<and> (\<forall>d t. \<not> (d = domain \<and> t \<in> set (aw_http01 w')) \<longrightarrow> map_of (aw_responses w') (d, t) = map_of (aw_responses w) (d, t))"

interpretation order_frame: io_frame "order_rel domain" for domain
  by unfold_locales (auto simp: order_rel_def)

lemma framed_ext [intro!]: "framed (order_rel domain) (ext_call f)"
  by (rule framedI) (auto simp: ext_call_def order_rel_def split: prod.splits)

lemma framed_ext_get [intro!]: "framed (order_rel domain) (ext_get f)"
  by (rule framedI) (auto simp: ext_get_def order_rel_def split: prod.splits)

lemma framed_files [intro!]: "framed (order_rel domain) (files_call f)"
  by (rule framedI) (auto simp: files_call_def order_rel_def split: prod.splits)

lemma framed_account: "framed (order_rel domain) (acme_account M)"
proof (rule framedI)
  fix w r w'
  assume run: "acme_account M w = (r, w')"
  have done_flag: "framed (order_rel domain) (\<lambda>w. (Inr (), w\<lparr>aw_account := True\<rparr>))"
    by (rule framedI) (auto simp: order_rel_def)
  have key: "framed (order_rel domain) (pending_account_key M)"
    unfolding pending_account_key_def by (intro order_frame.framed_intros framed_files framed_ext framed_ext_get)
  have last: "framed (order_rel domain) (\<lambda>w. (Inr (), (snd (files_call (remove_file STATE_DIR ACCOUNT_KEY_FILE) w))\<lparr>aw_account := True\<rparr>))"
    by (rule framedI) (auto simp: files_call_def order_rel_def split: prod.splits)
  have create: "framed (order_rel domain) (create_account M)"
    unfolding create_account_def by (intro order_frame.framed_intros framed_files framed_ext framed_ext_get key last)
  have known: "framed (order_rel domain) (io_bind (ext_call f) (\<lambda>_. \<lambda>w. (Inr (), w\<lparr>aw_account := True\<rparr>)))" for f
    by (intro order_frame.framed_bind framed_ext done_flag)
  show "order_rel domain w w'"
  proof (cases "aw_account w")
    case True
    with run show ?thesis by (simp add: acme_account_def order_frame.rel_refl)
  next
    case False
    obtain q w1 where q: "files_call (read_path STATE_DIR ACCOUNT_FILE) w = (q, w1)"
      by (cases "files_call (read_path STATE_DIR ACCOUNT_FILE) w") blast
    have "order_rel domain w1 w'"
      using run False q by (auto simp: acme_account_def split: sum.splits option.splits intro: framedD [OF known] framedD [OF create])
    with framedD [OF framed_files q] show ?thesis by (rule order_frame.rel_trans)
  qed
qed

lemma framed_await_acks: "framed (order_rel domain) (await_acks M deadline d token rounds)"
  by (induction rounds) (simp add: order_frame.framed_fail, simp, intro order_frame.framed_intros framed_ext framed_ext_get)

lemma framed_answer_http01: "framed (order_rel domain) (answer_http01 M domain authz)"
proof -
  have note_token: "framed (order_rel domain)
      (\<lambda>w. (Inr (), w\<lparr>aw_responses := challenge_insert domain token ka (aw_responses w), aw_http01 := aw_http01 w @ [token]\<rparr>))" for token ka
    by (rule framedI) (auto simp: order_rel_def challenge_insert_def tab_simps)
  show ?thesis
    unfolding answer_http01_def distribute_http01_def
    by (intro order_frame.framed_intros framed_ext framed_ext_get framed_await_acks note_token)
qed

lemma framed_answer_dns01: "framed (order_rel domain) (answer_dns01 M authz)"
proof -
  have note_handle: "framed (order_rel domain) (\<lambda>w. (Inr (), w\<lparr>aw_txt := aw_txt w @ [h]\<rparr>))" for h
    by (rule framedI) (auto simp: order_rel_def)
  show ?thesis
    unfolding answer_dns01_def by (intro order_frame.framed_intros framed_ext note_handle)
qed

lemma framed_answer_authorizations: "framed (order_rel domain) (answer_authorizations M domain rounds)"
proof (induction rounds)
  case (Suc rounds)
  have "framed (order_rel domain) (case az_status authz of
              AuthValid \<Rightarrow> answer_authorizations M domain rounds
            | AuthPending \<Rightarrow>
                io_bind (case ac_challenge (mg_settings M) of Http01 \<Rightarrow> answer_http01 M domain authz | Dns01 \<Rightarrow> answer_dns01 M authz) (\<lambda>_.
                  answer_authorizations M domain rounds)
            | AuthOther \<Rightarrow> io_fail AuthorizationFailed)" for authz
    by (auto split: authorization_status.splits acme_challenge.splits
        intro: Suc order_frame.framed_bind order_frame.framed_fail framed_answer_http01 framed_answer_dns01)
  then show ?case
    unfolding answer_authorizations.simps by (intro order_frame.framed_bind framed_ext order_frame.framed_option order_frame.framed_return)
qed (simp add: order_frame.framed_fail)

lemma framed_run_order: "framed (order_rel domain) (run_order M domain)"
  unfolding run_order_def complete_order_def
  by (intro order_frame.framed_intros framed_ext framed_account framed_answer_authorizations)

subsection \<open>What is left of an order\<close>

lemma cleanup_http01_frame:
  "aw_store (cleanup_http01 M domain tokens w) = aw_store w \<and> aw_resolver (cleanup_http01 M domain tokens w) = aw_resolver w
   \<and> aw_state (cleanup_http01 M domain tokens w) = aw_state w
   \<and> map_of (aw_responses (cleanup_http01 M domain tokens w)) (d, t) =
       (if d = domain \<and> t \<in> set tokens then None else map_of (aw_responses w) (d, t))"
  by (induction tokens arbitrary: w) (auto simp: Let_def ext_call_def challenge_remove_def tab_simps split: prod.splits)

lemma cleanup_txt_frame:
  "aw_store (cleanup_txt M hs w) = aw_store w \<and> aw_resolver (cleanup_txt M hs w) = aw_resolver w
   \<and> aw_state (cleanup_txt M hs w) = aw_state w \<and> aw_responses (cleanup_txt M hs w) = aw_responses w"
  by (induction hs arbitrary: w) (auto simp: ext_call_def split: prod.splits)

lemma cleanup_published_frame:
  "aw_store (cleanup_published M domain w) = aw_store w \<and> aw_resolver (cleanup_published M domain w) = aw_resolver w
   \<and> aw_state (cleanup_published M domain w) = aw_state w
   \<and> map_of (aw_responses (cleanup_published M domain w)) (d, t) =
       (if d = domain \<and> t \<in> set (aw_http01 w) then None else map_of (aw_responses w) (d, t))"
  by (simp add: cleanup_published_def Let_def cleanup_txt_frame cleanup_http01_frame)

text \<open>The responses after an order and its clean-up.\<close>

definition responses_cleaned :: "string \<Rightarrow> responses \<Rightarrow> responses \<Rightarrow> bool" where
  "responses_cleaned domain r r' \<longleftrightarrow> (\<forall>d t. map_of r' (d, t) = map_of r (d, t) \<or> d = domain \<and> map_of r' (d, t) = None)"

lemma run_order_cleaned:
  assumes "run_order M domain (w\<lparr>aw_http01 := [], aw_txt := []\<rparr>) = (r, w1)" "w2 = cleanup_published M domain w1"
  shows "responses_cleaned domain (aw_responses w) (aw_responses w2)" "aw_store w2 = aw_store w" "aw_resolver w2 = aw_resolver w"
    "aw_state w2 = aw_state w"
  using framedD [OF framed_run_order assms(1)] by (auto simp: order_rel_def responses_cleaned_def cleanup_published_frame assms(2))

text \<open>The steps between the order and the store.\<close>

definition settled :: "('k, 'x) acme_world \<Rightarrow> ('k, 'x) acme_world \<Rightarrow> bool" where
  "settled w w' \<longleftrightarrow> aw_resolver w' = aw_resolver w \<and> aw_state w' = aw_state w \<and> aw_responses w' = aw_responses w
     \<and> dk_dirs (aw_store w') = dk_dirs (aw_store w)"

interpretation settled_frame: io_frame settled
  by unfold_locales (auto simp: settled_def)

lemma settled_ext: "framed settled (ext_call f)"
  by (rule framedI) (auto simp: ext_call_def settled_def split: prod.splits)

lemma settled_ext_get: "framed settled (ext_get f)"
  by (rule framedI) (auto simp: ext_get_def settled_def split: prod.splits)

lemma ext_get_Inr: "\<exists>a w'. ext_get f w = (Inr a, w')"
  by (cases "f (aw_ext w)") (simp add: ext_get_def)

lemma next_generation_dirs: "Certificates.next_generation name w = (r, w') \<Longrightarrow> dk_dirs w' = dk_dirs w"
  by (auto simp: Certificates.next_generation_def io_bind_def generations_def current_generation_def io_return_def Let_def
      split: prod.splits sum.splits dest!: disk_read_dirs)

lemma settled_issue_generation: "framed settled (issue_generation M domain generation)"
proof (rule framedI)
  fix w r w'
  assume "issue_generation M domain generation w = (r, w')"
  then show "settled w w'"
    by (auto simp: issue_generation_def store_call_def settled_def
        split: option.splits if_splits prod.splits sum.splits bool.splits dest: next_generation_dirs framedD [OF settled_ext])
qed

text \<open>The outcome of an order: it stops before anything is stored, or it ends with a store.\<close>

lemma acme_issue_cases:
  assumes "acme_issue M domain generation w = (r, w')"
  obtains (stopped) e where "r = Inl e" "responses_cleaned domain (aw_responses w) (aw_responses w')"
      "aw_resolver w' = aw_resolver w" "aw_state w' = aw_state w" "dk_dirs (aw_store w') = dk_dirs (aw_store w)"
  | (stored) chain key g now uuids d q d' w2 w3 where "responses_cleaned domain (aw_responses w) (aw_responses w')"
      "aw_resolver w' = aw_resolver w" "aw_state w' = aw_state w" "dk_dirs d = dk_dirs (aw_store w)" "aw_store w' = d'"
      "cert_store (mg_parse M) uuids domain g chain key now d = (q, d')" "r = map_err StoreFailed q"
      "issue_generation M domain generation w2 = (Inr g, w3)"
proof -
  obtain outcome w1 where o: "run_order M domain (w\<lparr>aw_http01 := [], aw_txt := []\<rparr>) = (outcome, w1)"
    by (cases "run_order M domain (w\<lparr>aw_http01 := [], aw_txt := []\<rparr>)")
  define w2 where "w2 = cleanup_published M domain w1"
  note c = run_order_cleaned [OF o w2_def]
  show thesis
  proof (cases outcome)
    case (Inl e)
    with assms o c show thesis by (intro stopped) (auto simp: acme_issue_def w2_def)
  next
    case (Inr ck)
    obtain chain key where ck: "ck = (chain, key)" by (cases ck)
    obtain gr w3 where g: "issue_generation M domain generation w2 = (gr, w3)" by (cases "issue_generation M domain generation w2")
    note s3 = framedD [OF settled_issue_generation g]
    show thesis
    proof (cases gr)
      case er: (Inl e)
      with assms o Inr ck g c s3 show thesis
        by (intro stopped) (auto simp: acme_issue_def Let_def io_bind_def settled_def w2_def)
    next
      case gen: (Inr g0)
      obtain now w4 where n: "get_now M w3 = (Inr now, w4)" unfolding get_now_def using ext_get_Inr [of "xe_now (mg_env M)" w3] by blast
      obtain u1 w5 where u1: "ext_get (xe_uuid (mg_env M)) w4 = (Inr u1, w5)" using ext_get_Inr [of "xe_uuid (mg_env M)" w4] by blast
      obtain u2 w6 where u2: "ext_get (xe_uuid (mg_env M)) w5 = (Inr u2, w6)" using ext_get_Inr [of "xe_uuid (mg_env M)" w5] by blast
      obtain q d' where q: "cert_store (mg_parse M) (u1, u2) domain g0 chain key now (aw_store w6) = (q, d')" by fastforce
      have "settled w2 w6"
        using s3 framedD [OF settled_ext_get n [unfolded get_now_def]] framedD [OF settled_ext_get u1] framedD [OF settled_ext_get u2]
        by (simp add: settled_def)
      moreover have "r = map_err StoreFailed q" "w' = w6\<lparr>aw_store := d'\<rparr>"
        using assms o Inr ck g gen n u1 u2 q by (auto simp: acme_issue_def Let_def io_bind_def store_call_def w2_def)
      ultimately show thesis
        using c q g gen by (intro stored [where q = q]) (auto simp: settled_def)
    qed
  qed
qed

subsection \<open>Attempts as a whole\<close>

lemma persist_state_frame:
  "aw_store (persist_state M w) = aw_store w" "aw_resolver (persist_state M w) = aw_resolver w" "aw_state (persist_state M w) = aw_state w"
  "aw_responses (persist_state M w) = aw_responses w"
  by (auto simp: persist_state_def io_bind_def ext_get_def files_call_def split: prod.splits)

lemma record_failure_Some:
  assumes "record_failure M domain now w = Some w'"
  shows "aw_store w' = aw_store w" "aw_resolver w' = aw_resolver w" "aw_responses w' = aw_responses w"
    "\<And>d. d \<noteq> domain \<Longrightarrow> map_of (aw_state w') d = map_of (aw_state w) d"
    "\<exists>s. map_of (aw_state w') domain = Some s \<and> now < ds_next_attempt s
       \<and> ds_failures s = Suc (case map_of (aw_state w) domain of Some s \<Rightarrow> ds_failures s | None \<Rightarrow> 0)"
  using assms by (auto simp: record_failure_def Let_def tab_simps split: prod.splits option.splits)

lemma install_cert_get:
  "d \<noteq> en_name e \<Longrightarrow> get_cert d (snd (install_cert e r)) = get_cert d r"
  "\<exists>e'. get_cert (en_name e) (snd (install_cert e r)) = Some e' \<and> en_fingerprint e' = en_fingerprint e"
  by (auto simp: install_cert_def get_cert_def tab_simps split: option.splits)

lemma loaded_after_restart_dirs:
  "dk_dirs w' = dk_dirs w \<Longrightarrow> loaded_after_restart parse name now w' = loaded_after_restart parse name now w"
  by (simp add: loaded_after_restart_def load_current_restarted split: sum.splits option.splits)

lemma issue_generation_Inr:
  assumes "issue_generation M domain generation w = (Inr g, w')" "\<forall>h. generation = Some h \<longrightarrow> h < 2 ^ 64"
  shows "g < 2 ^ 64"
    "generation = Some h \<Longrightarrow> g = h \<and> (coordinated M \<longrightarrow> (\<exists>x x'. xe_check_lease (mg_env M) (acme_lease_resource domain) g x = (Inr True, x')))"
proof -
  show "g < 2 ^ 64"
    using assms
    by (auto simp: issue_generation_def store_call_def Certificates.next_generation_def io_bind_def io_return_def Let_def map_err_def
        split: option.splits if_splits prod.splits sum.splits bool.splits)
  show "generation = Some h \<Longrightarrow> g = h \<and> (coordinated M \<longrightarrow> (\<exists>x x'. xe_check_lease (mg_env M) (acme_lease_resource domain) g x = (Inr True, x')))"
    using assms(1) by (auto simp: issue_generation_def ext_call_def split: if_splits prod.splits sum.splits bool.splits)
qed

text \<open>What an order has done, by its result.\<close>

definition issued :: "('k, 'x) acme_manager \<Rightarrow> string \<Rightarrow> nat option \<Rightarrow> disk \<Rightarrow> disk \<Rightarrow> 'k cert_entry \<Rightarrow> bool" where
  "issued M domain generation d d' e \<longleftrightarrow>
     (\<exists>g chain key now. en_generation e = Some g
        \<and> parse_and_validate (mg_parse M) chain key domain Acme now = Inr (e\<lparr>en_generation := None\<rparr>)
        \<and> (\<forall>later entry. parse_and_validate (mg_parse M) chain key domain Acme later = Inr entry \<longrightarrow>
              loaded_after_restart (mg_parse M) domain later d' = Inr (Some (entry\<lparr>en_generation := Some g\<rparr>)))
        \<and> (\<forall>c. pointer_of (dk_dirs d) (name_dir domain) = Inr (Some c) \<longrightarrow> c < g)
        \<and> (\<forall>h. generation = Some h \<longrightarrow> g = h \<and>
              (coordinated M \<longrightarrow> (\<exists>x x'. xe_check_lease (mg_env M) (acme_lease_resource domain) g x = (Inr True, x')))))"

lemma cert_store_entry:
  assumes "cert_store parse uuids name g cert key now w = (Inr e, w')"
  shows "parse_and_validate parse cert key name Acme now = Inr (e\<lparr>en_generation := None\<rparr>)" "en_generation e = Some g"
proof -
  from assms obtain entry where v: "parse_and_validate parse cert key name Acme now = Inr entry" and e: "e = entry\<lparr>en_generation := Some g\<rparr>"
    by (cases rule: cert_store_cases) (auto split: sum.splits)
  have "entry\<lparr>en_generation := None\<rparr> = entry" using parse_and_validate_Inr(3) [OF v] by (cases entry) simp
  with v e show "parse_and_validate parse cert key name Acme now = Inr (e\<lparr>en_generation := None\<rparr>)" "en_generation e = Some g" by simp_all
qed

lemma acme_issue_sound:
  assumes run: "acme_issue M domain generation w = (r, w')" and bound: "\<forall>h. generation = Some h \<longrightarrow> h < 2 ^ 64"
  shows "responses_cleaned domain (aw_responses w) (aw_responses w')" "aw_resolver w' = aw_resolver w" "aw_state w' = aw_state w"
    "\<And>other later. name_dir other \<noteq> name_dir domain \<Longrightarrow>
       loaded_after_restart (mg_parse M) other later (aw_store w') = loaded_after_restart (mg_parse M) other later (aw_store w)"
    "case r of
       Inl _ \<Rightarrow> \<forall>later. loaded_after_restart (mg_parse M) domain later (aw_store w') = loaded_after_restart (mg_parse M) domain later (aw_store w)
     | Inr e \<Rightarrow> issued M domain generation (aw_store w) (aw_store w') e"
proof -
  note dirs = loaded_after_restart_dirs
  show "responses_cleaned domain (aw_responses w) (aw_responses w')" "aw_resolver w' = aw_resolver w" "aw_state w' = aw_state w"
    using run by (cases rule: acme_issue_cases; simp)+
  show "loaded_after_restart (mg_parse M) other later (aw_store w') = loaded_after_restart (mg_parse M) other later (aw_store w)"
    if "name_dir other \<noteq> name_dir domain" for other later
    using run
  proof (cases rule: acme_issue_cases)
    case stopped
    then show ?thesis by (simp add: dirs [OF stopped(5)])
  next
    case (stored chain key g now uuids d q d' w2 w3)
    have "loaded_after_restart (mg_parse M) other later d' = loaded_after_restart (mg_parse M) other later d"
      using cert_store_other_names [OF stored(6) that] .
    with stored show ?thesis by (simp add: dirs [OF stored(4)])
  qed
  show "case r of
       Inl _ \<Rightarrow> \<forall>later. loaded_after_restart (mg_parse M) domain later (aw_store w') = loaded_after_restart (mg_parse M) domain later (aw_store w)
     | Inr e \<Rightarrow> issued M domain generation (aw_store w) (aw_store w') e"
    using run
  proof (cases rule: acme_issue_cases)
    case stopped
    then show ?thesis by (simp add: dirs [OF stopped(5)])
  next
    case (stored chain key g now uuids d q d' w2 w3)
    note gen = issue_generation_Inr [OF stored(8) bound]
    note atomic = cert_store_atomic [OF stored(6) gen(1), THEN conjunct1]
    show ?thesis
    proof (cases q)
      case (Inl er)
      with atomic stored show ?thesis by (simp add: map_err_def dirs [OF stored(4)])
    next
      case (Inr e)
      with stored(6) have e: "parse_and_validate (mg_parse M) chain key domain Acme now = Inr (e\<lparr>en_generation := None\<rparr>)" "en_generation e = Some g"
        by (auto dest: cert_store_entry)
      from Inr atomic have "issued M domain generation (aw_store w) d' e"
        unfolding issued_def using e gen(2) stored(4) by (intro exI [of _ g] exI [of _ chain] exI [of _ key] exI [of _ now]) auto
      with Inr stored show ?thesis by (simp add: map_err_def)
    qed
  qed
qed


definition sample_acme_config :: acme_config where
  "sample_acme_config =
     \<lparr>ac_enabled = True, ac_directory_url = ''https://ca.test/dir'', ac_contact_email = None, ac_terms_of_service_agreed = True,
      ac_domains = [''a.test''], ac_challenge = Http01, ac_state_dir = ''acme'', ac_ca_root_pem = None, ac_renew_before_fraction = Finite (1 / 2),
      ac_retry_initial_secs = 1, ac_retry_max_secs = 2, ac_order_timeout_secs = 5, ac_challenge_max_concurrent = 1,
      ac_coordination = NoCoordination, ac_store_poll_interval_secs = 1, ac_challenge_distribution_timeout_secs = 1, ac_dns_resolvers = [],
      ac_dns_propagation_timeout_secs = 1, ac_dns_propagation_poll_secs = 1, ac_dns_txt_ttl = 60\<rparr>"

text \<open>A certificate authority with one authorization per order; its world counts the authorizations it has given out.\<close>

definition sample_acme_env :: "nat acme_env" where
  "sample_acme_env =
     \<lparr>xe_now = (\<lambda>x. (10, x)), xe_instant = (\<lambda>x. (0, x)), xe_sleep = (\<lambda>_. io_return ()), xe_random_unit = (\<lambda>x. (0, x)),
      xe_uuid = (\<lambda>x. (''u'', x)), xe_from_credentials = (\<lambda>_. io_return ()), xe_generate_key = io_return [1],
      xe_create_account = (\<lambda>_. io_return [2]), xe_update_contacts = (\<lambda>_. io_return ()), xe_new_order = (\<lambda>_. io_return ()),
      xe_next_authorization = (\<lambda>x. (Inr (if x = 0 then Some \<lparr>az_status = AuthPending, az_dns_name = Some ''a.test'',
          az_http01 = Some (''tok'', ''tok.thumb''), az_dns01 = None\<rparr> else None), x + 1)),
      xe_set_ready = (\<lambda>_. io_return ()), xe_poll_ready = io_return True, xe_certificate_key = (\<lambda>_. io_return ([7], [])),
      xe_finalize = (\<lambda>_. io_return ()), xe_poll_certificate = io_return [7], xe_edge_id = ''e1'', xe_connected = (\<lambda>_. True),
      xe_acquire_lease = (\<lambda>_ _ _. io_return None), xe_check_lease = (\<lambda>_ _. io_return False), xe_lease_owner = (\<lambda>_. io_return None),
      xe_release_lease = (\<lambda>_ _. io_return ()), xe_publish = (\<lambda>_ _ _ _. io_return ()), xe_unpublish = (\<lambda>_ _. io_return ()),
      xe_live_edges = io_return [], xe_responders = io_return [], xe_acks = (\<lambda>_ _. io_return []), xe_pending = io_return [],
      xe_ack = (\<lambda>_ _. io_return ()), xe_txt_add = (\<lambda>_ _. io_fail NoSolver), xe_txt_wait = (\<lambda>_. io_return ()), xe_txt_remove = (\<lambda>_. io_return ()),
      xe_txt_journal = (\<lambda>_. []), xe_txt_cleanup_entry = (\<lambda>_ x. x), xe_txt_cleanup_journal = (\<lambda>x. x)\<rparr>"

definition sample_manager :: "(bytes, nat) acme_manager" where
  "sample_manager =
     \<lparr>mg_settings = sample_acme_config, mg_env = sample_acme_env, mg_parse = sample_parse, mg_status_bytes = (\<lambda>_. []), mg_fl = (\<lambda>x. x),
      mg_renew_before_fraction = 1 / 2, mg_dns01 = False, mg_rounds = 3\<rparr>"

definition sample_world :: "(bytes, nat) acme_world" where
  "sample_world =
     \<lparr>aw_store = \<lparr>dk_dirs = [], dk_faults = [], dk_dead = False\<rparr>, aw_files = \<lparr>dk_dirs = [(STATE_DIR, [])], dk_faults = [], dk_dead = False\<rparr>,
      aw_resolver = set_managed_names {''a.test''} new_resolver, aw_responses = [], aw_state = [], aw_account = False, aw_http01 = [],
      aw_txt = [], aw_ext = 0\<rparr>"


subsection \<open>Serving the challenges of other Edges\<close>

definition pending_key :: "string \<times> string \<times> string \<Rightarrow> string \<times> string" where
  "pending_key p = (case p of (d, t, _) \<Rightarrow> (d, t))"

definition pending_value :: "(string \<times> string \<times> string) list \<Rightarrow> string \<times> string \<Rightarrow> string option" where
  "pending_value pending k = map_of (map (\<lambda>(d, t, v). ((d, t), v)) pending) k"

lemma pending_value_None: "pending_value pending k = None \<longleftrightarrow> k \<notin> pending_key ` set pending"
  by (force simp: pending_value_def pending_key_def map_of_eq_None_iff)

lemma sync_pending_Cons:
  "sync_pending E ((d, t, v) # pending) (r, synced, x) =
     sync_pending E pending
       (if map_of r (d, t) = None then t_insert (d, t) v r else r, if map_of r (d, t) = None then insert (d, t) synced else synced,
        snd (xe_ack E d t x))"
  by (simp add: challenge_lookup_def challenge_insert_def)

lemma sync_pending_responses:
  "sync_pending E pending (r, synced, x) = (r', synced', x') \<Longrightarrow>
   map_of r' k = (case map_of r k of Some v \<Rightarrow> Some v | None \<Rightarrow> pending_value pending k)"
proof (induction pending arbitrary: r synced x)
  case (Cons p pending)
  obtain d t v where p: "p = (d, t, v)" by (cases p)
  from Cons.IH [OF Cons.prems [unfolded p sync_pending_Cons]] show ?case
    by (auto simp: p pending_value_def tab_simps split: option.splits)
qed (auto simp: pending_value_def split: option.splits)

lemma sync_pending_synced:
  "sync_pending E pending (r, synced, x) = (r', synced', x') \<Longrightarrow>
   k \<in> synced' \<longleftrightarrow> k \<in> synced \<or> map_of r k = None \<and> pending_value pending k \<noteq> None"
proof (induction pending arbitrary: r synced x)
  case (Cons p pending)
  obtain d t v where p: "p = (d, t, v)" by (cases p)
  from Cons.IH [OF Cons.prems [unfolded p sync_pending_Cons]] show ?case
    by (auto simp: p pending_value_def tab_simps split: if_splits)
qed (auto simp: pending_value_def)

lemma wf_sync_pending:
  "sync_pending E pending (r, synced, x) = (r', synced', x') \<Longrightarrow> wf_table r \<Longrightarrow> wf_table r'"
proof (induction pending arbitrary: r synced x)
  case (Cons p pending)
  obtain d t v where p: "p = (d, t, v)" by (cases p)
  from Cons.IH [OF Cons.prems(1) [unfolded p sync_pending_Cons]] Cons.prems(2) show ?case by simp
qed simp

text \<open>C39. A round that reads the challenges other Edges have published: it answers every published one, never replaces a response that is there, drops the
  responses of earlier rounds that are no longer published, and leaves the responses of this Edge's own orders alone; what it will drop later is exactly what it took over and is still published.
  When the list cannot be read, nothing changes.\<close>

theorem sync_round_exact:
  assumes wf: "wf_table r" and round: "sync_round E (r, synced, x) = (r', synced', x')"
  shows "case fst (xe_pending E x) of
       Inl _ \<Rightarrow> r' = r \<and> synced' = synced
     | Inr pending \<Rightarrow> wf_table r'
         \<and> (\<forall>k. challenge_lookup (fst k) (snd k) r' =
              (case pending_value pending k of
                 Some v \<Rightarrow> (case challenge_lookup (fst k) (snd k) r of Some own \<Rightarrow> Some own | None \<Rightarrow> Some v)
               | None \<Rightarrow> if k \<in> synced then None else challenge_lookup (fst k) (snd k) r))
         \<and> (\<forall>k. k \<in> synced' \<longleftrightarrow> pending_value pending k \<noteq> None \<and> (k \<in> synced \<or> challenge_lookup (fst k) (snd k) r = None))"
proof (cases "xe_pending E x")
  case (Pair q x1)
  show ?thesis
  proof (cases q)
    case (Inl e)
    with round Pair show ?thesis by (simp add: sync_round_def)
  next
    case (Inr pending)
    obtain r2 s2 x2 where s: "sync_pending E pending (r, synced, x1) = (r2, s2, x2)"
      by (cases "sync_pending E pending (r, synced, x1)")
    note res = sync_pending_responses [OF s] sync_pending_synced [OF s] wf_sync_pending [OF s wf]
    have cur: "(\<lambda>(d, t, _). (d, t)) ` set pending = {k. pending_value pending k \<noteq> None}"
      by (simp add: set_eq_iff pending_value_None pending_key_def)
    have r': "r' = t_retain (\<lambda>key _. key \<notin> s2 - {k. pending_value pending k \<noteq> None}) r2"
      and s': "synced' = s2 \<inter> {k. pending_value pending k \<noteq> None}"
      using round by (simp_all add: sync_round_def Pair Inr s Let_def cur)
    have "challenge_lookup (fst k) (snd k) r' =
              (case pending_value pending k of
                 Some v \<Rightarrow> (case challenge_lookup (fst k) (snd k) r of Some own \<Rightarrow> Some own | None \<Rightarrow> Some v)
               | None \<Rightarrow> if k \<in> synced then None else challenge_lookup (fst k) (snd k) r)" for k
      using res(2) [of k] unfolding r' challenge_lookup_def t_get_retain [OF res(3)] prod.collapse res(1)
      by (auto split: option.splits)
    moreover have "k \<in> synced' \<longleftrightarrow> pending_value pending k \<noteq> None \<and> (k \<in> synced \<or> challenge_lookup (fst k) (snd k) r = None)" for k
      using res(2) [of k] by (auto simp: s' challenge_lookup_def)
    ultimately show ?thesis using res(3) by (simp add: Pair Inr r')
  qed
qed

definition sample_sync_env :: "nat acme_env" where
  "sample_sync_env = sample_acme_env\<lparr>xe_pending := io_return [(''b.test'', ''t2'', ''t2.thumb'')]\<rparr>"

theorem sync_round_exact_witness:
  "\<exists>r' synced' x'. sync_round sample_sync_env ([((''a.test'', ''t1''), ''own''), ((''c.test'', ''t3''), ''old'')], {(''c.test'', ''t3'')}, 0) = (r', synced', x')
     \<and> challenge_lookup ''a.test'' ''t1'' r' = Some ''own'' \<and> challenge_lookup ''b.test'' ''t2'' r' = Some ''t2.thumb''
     \<and> challenge_lookup ''c.test'' ''t3'' r' = None"
proof -
  let ?r = "[((''a.test'', ''t1''), ''own''), ((''c.test'', ''t3''), ''old'')]"
  obtain r' synced' x' where round: "sync_round sample_sync_env (?r, {(''c.test'', ''t3'')}, 0) = (r', synced', x')"
    by (cases "sync_round sample_sync_env (?r, {(''c.test'', ''t3'')}, 0)")
  have wf: "wf_table ?r" by (simp add: wf_table_def)
  have pending: "fst (xe_pending sample_sync_env 0) = Inr [(''b.test'', ''t2'', ''t2.thumb'')]"
    by (simp add: sample_sync_env_def io_return_def)
  have "challenge_lookup (fst k) (snd k) r' =
        (case pending_value [(''b.test'', ''t2'', ''t2.thumb'')] k of
           Some v \<Rightarrow> (case challenge_lookup (fst k) (snd k) ?r of Some own \<Rightarrow> Some own | None \<Rightarrow> Some v)
         | None \<Rightarrow> if k \<in> {(''c.test'', ''t3'')} then None else challenge_lookup (fst k) (snd k) ?r)" for k
    using sync_round_exact [OF wf round] unfolding pending sum.case by blast
  from this [of "(''a.test'', ''t1'')"] this [of "(''b.test'', ''t2'')"] this [of "(''c.test'', ''t3'')"] round
  show ?thesis by (simp add: pending_value_def challenge_lookup_def)
qed

end
