(* ===== verification/Spec2Isabelle.thy ===== *)
theory Spec2Isabelle
  imports Connector_Reconnect Router Policy Dns_Contract Dns_Txt Dns_Route53 Acme
begin

text \<open>
  Verification library for Sieve Tube, a reverse tunnel: an Edge accepts public traffic and
  forwards it over QUIC to the Connector that serves the hostname.
\<close>

section \<open>Across Edges\<close>

subsection \<open>Forwarded streams\<close>

lemma open_remote_stream_sent:
  assumes "open_remote_stream ser_req de_resp env r hostname protocol client_addr counter ms
             = (Inr sent, net, counter', ms')"
  shows "write_forward_request ser_req
           (remote_request (ms_edge_id ms) r hostname protocol client_addr counter (re_remaining env)) = Inr sent"
  using assms
  by (auto simp: open_remote_stream_def exchange_request_def Let_def next_request_id_def
      split: prod.splits sum.splits exchange.splits option.splits if_splits)

lemma write_read_forward_request:
  assumes "write_forward_request ser m = Inr frame" "de (ser m) = Some m"
  shows "read_forward_request de frame = Inr (m, [])"
  using read_frame_write_frame [OF assms(1) [unfolded write_forward_request_def],
      of de TAG_FORWARD_REQUEST "[]"] assms(2)
  by (simp add: read_forward_request_def)


definition edge1 :: "(unit, unit) mesh_service" where
  "edge1 = new_mesh_service ''e1'' (new_pool [''e2''] 30) [] new_registry sample_limits (new_udp_table 2 10)"

definition edge2_ad :: "protocol \<Rightarrow> route_ad" where
  "edge2_ad p = \<lparr>ra_hostname = ''a.example.com'', ra_protocol = p, ra_tenant_id = ''t'',
                 ra_edge_id = ''e2'', ra_generation = 1\<rparr>"

definition edge1_env :: "unit remote_env" where
  "edge1_env = sample_remote_env\<lparr>re_net := \<lparr>mn_closed = (\<lambda>_. False), mn_stable_id = (\<lambda>_. 0),
                                            mn_peer_edge_id = (\<lambda>_. Some ''e2'')\<rparr>\<rparr>"

definition edge1_request :: forward_request where
  "edge1_request = remote_request ''e1'' (sample_remote ''e2'') ''a.example.com'' Http sample_addr 1 10"

lemma sample_edge2:
  "reg_inv (ms_registry sample_service)"
  "edge2_ad p \<in> set (local_ads (ms_registry sample_service) (ms_edge_id sample_service))"
proof -
  show inv: "reg_inv (ms_registry sample_service)"
    using register_inv [OF new_registry_inv sample_registers(1)]
    by (simp add: sample_service_def new_mesh_service_def)
  have "get_by_hostname sample_registry ''a.example.com''
      = Some (new_handle 5 1 (sample_registration ''t'' [''a.example.com'']))"
    by (simp add: get_by_hostname_def sample_registry_def register_def taken_hostname_def
        sample_registration_def new_registry_def new_handle_def t_insert_def insert_all_def Let_def)
  then show "edge2_ad p \<in> set (local_ads (ms_registry sample_service) (ms_edge_id sample_service))"
    unfolding set_local_ads [OF inv]
    by (simp add: edge2_ad_def sample_service_def new_mesh_service_def supports_def new_handle_def
        sample_registration_def)
qed

lemma edge1_opens:
  "fst (open_remote_stream (\<lambda>_. [7]) (\<lambda>_. Some accept_response) edge1_env (sample_remote ''e2'')
     ''a.example.com'' Http sample_addr 1 edge1) = Inr (be_u32 2 @ [0x10] @ [7])"
  by code_simp


subsection \<open>Forwarded datagrams\<close>

lemma forward_udp_sent:
  assumes "forward_udp env max_size send_ok now r hostname payload client_addr socket counter ms
             = (Inr (c, datagram), counter', ms')"
  shows "mesh_encode \<lparr>md_kind = Request, md_request_id = counter,
           md_connection_generation = rr_generation r, md_ingress_edge_id = ms_edge_id ms,
           md_tenant_id = rr_tenant_id r, md_hostname = hostname\<rparr> payload = Inr datagram"
    and "counter' = counter + 1" "ms_edge_id ms' = ms_edge_id ms"
    and "udp_insert now counter (entry_client_via_peer now client_addr socket (rr_edge_id r))
           (ms_udp_replies ms) = (True, ms_udp_replies ms')"
  using assms
  by (auto simp: forward_udp_def Let_def next_request_id_def
      split: prod.splits sum.splits if_splits bool.splits)

lemma udp_insert_room:
  assumes "udp_inv t" "udp_len t < ut_max_entries t"
  obtains t' where "udp_insert now i e t = (True, t')" "pending t' i = Some e" "ut_ttl t' = ut_ttl t"
  using assms by (auto simp: udp_insert_def udp_len_def tab_simps)

lemma udp_insert_True:
  "udp_insert now i e t = (True, t') \<Longrightarrow> pending t' i = Some e \<and> ut_ttl t' = ut_ttl t"
  by (auto simp: udp_insert_def Let_def tab_simps split: if_splits)

text \<open>C20. A UDP request crosses the mesh and its reply comes back: if the ingress Edge forwards a
  client's datagram over a current advertisement of a peer, the peer hands the payload to the
  Connector it advertised under an id of its own; whatever the Connector answers under that
  id is sent back by the peer, and the ingress Edge delivers exactly that payload to exactly
  that client, as long as no link drops the datagrams, the peer's table has room and the
  pending entries have not expired.\<close>

theorem udp_mesh_round_trip:
  fixes tables :: "nat \<Rightarrow> ('s2, 'c) udp_reply_table" and ms1 :: "('s1, 'c) mesh_service"
    and tables1 :: "nat \<Rightarrow> ('s1, 'c) udp_reply_table"
  assumes reg: "reg_inv (ms_registry ms2)"
    and ad: "ad \<in> set (local_ads (ms_registry ms2) (ms_edge_id ms2))" "ra_protocol ad = Udp"
    and route: "rr_edge_id r = ra_edge_id ad" "rr_tenant_id r = ra_tenant_id ad"
    and wf: "wf_string (ms_edge_id ms1)" "wf_string (ra_tenant_id ad)" "wf_string (ra_hostname ad)"
    and sent: "forward_udp env max1 ok1 t0 r (ra_hostname ad) payload client_addr socket c1 ms1
                 = (Inr (link, d1), c1', ms1')"
    and h: "get_by_hostname (ms_registry ms2) (ra_hostname ad) = Some h"
    and room: "udp_inv (tables (ch_udp_reply_map h))"
      "udp_len (tables (ch_udp_reply_map h)) < ut_max_entries (tables (ch_udp_reply_map h))"
    and timely: "t2 - t1 < ut_ttl (tables (ch_udp_reply_map h))" "t3 - t0 < ut_ttl (ms_udp_replies ms1)"
  shows "\<exists>d2 tables2. handle_datagram (\<lambda>_. None) (\<lambda>_ _. True) t1 (ms_edge_id ms1) back d1 c2 tables ms2
             = (ToConnector (ch_connection h) d2, c2 + 1, tables2, ms2)
           \<and> datagram_decode d2 = Some (\<lparr>dh_request_id = c2, dh_hostname = ra_hostname ad\<rparr>, payload)
           \<and> (\<forall>answer. \<exists>d4.
                fst (udp_reply (\<lambda>_. None) (\<lambda>_ _. True) t2
                       (datagram_encode \<lparr>dh_request_id = c2, dh_hostname = ra_hostname ad\<rparr> answer)
                       (tables2 (ch_udp_reply_map h))) = ToPeer back d4
                \<and> fst (handle_datagram (\<lambda>_. None) (\<lambda>_ _. True) t3 (ms_edge_id ms2) link d4 c3 tables1 ms1')
                    = Delivered_client socket client_addr answer)"
proof -
  let ?host = "ra_hostname ad" and ?key = "ch_udp_reply_map h"
  let ?dh = "\<lparr>dh_request_id = c2, dh_hostname = ?host\<rparr>"
  obtain h' where h': "get_by_hostname (ms_registry ms2) ?host = Some h'" "supports h' ?host Udp"
    "ra_tenant_id ad = ch_tenant_id h'" and e2: "ra_edge_id ad = ms_edge_id ms2"
    using set_local_ads [OF reg] ad by auto
  have hh: "supports h ?host Udp" "ra_tenant_id ad = ch_tenant_id h" using h h' by auto
  note fs = forward_udp_sent [OF sent]
  have short: "length ?host \<le> MAX_ID_LEN" "length (ms_edge_id ms1) \<le> MAX_ID_LEN"
    using fs(1) by (auto simp: mesh_encode_def split: if_splits)
  have fits: "datagram_fits ?dh" using short wf by (simp add: datagram_fits_def MAX_ID_LEN_def)
  have dec1: "mesh_decode d1 = Inr (\<lparr>md_kind = Request, md_request_id = c1,
      md_connection_generation = rr_generation r, md_ingress_edge_id = ms_edge_id ms1,
      md_tenant_id = rr_tenant_id r, md_hostname = ?host\<rparr>, payload)"
    by (rule mesh_decode_encode [OF _ fs(1)]) (use wf route in \<open>simp add: mesh_fits_def\<close>)
  let ?entry = "entry_peer t1 back (ms_edge_id ms1) c1 ?host :: ('s2, 'c) udp_reply_entry"
  obtain t' where ins: "udp_insert t1 c2 ?entry (tables ?key) = (True, t')" "pending t' c2 = Some ?entry"
    "ut_ttl t' = ut_ttl (tables ?key)"
    using udp_insert_room [OF room] .
  let ?d2 = "datagram_encode ?dh payload" and ?tables2 = "tables(?key := t')"
  have "handle_datagram (\<lambda>_. None) (\<lambda>_ _. True) t1 (ms_edge_id ms1) back d1 c2 tables ms2
      = (ToConnector (ch_connection h) ?d2, c2 + 1, ?tables2, ms2)"
    using dec1 h hh ins(1) route
    by (simp add: handle_datagram_def handle_request_datagram_def next_request_id_def too_large_def)
  moreover have "\<exists>d4. fst (udp_reply (\<lambda>_. None) (\<lambda>_ _. True) t2 (datagram_encode ?dh answer) (?tables2 ?key)) = ToPeer back d4
      \<and> fst (handle_datagram (\<lambda>_. None) (\<lambda>_ _. True) t3 (ms_edge_id ms2) link d4 c3 tables1 ms1')
          = Delivered_client socket client_addr answer" for answer
  proof -
    obtain d4 where d4: "mesh_encode (mesh_reply (ms_edge_id ms1) c1 ?host) answer = Inr d4"
      using short by (simp add: mesh_encode_def mesh_reply_def)
    have dec4: "mesh_decode d4 = Inr (mesh_reply (ms_edge_id ms1) c1 ?host, answer)"
      by (rule mesh_decode_encode [OF _ d4])
         (use wf wf_string_ascii [of "[]"] in \<open>simp add: mesh_fits_def mesh_reply_def\<close>)
    have "fst (udp_reply (\<lambda>_. None) (\<lambda>_ _. True) t2 (datagram_encode ?dh answer) (?tables2 ?key)) = ToPeer back d4"
      using ins timely(1) d4
      by (simp add: udp_reply_def datagram_decode_encode [OF fits] udp_take_def udp_fresh_def
          entry_peer_def route_reply_def too_large_def)
    moreover have "fst (handle_datagram (\<lambda>_. None) (\<lambda>_ _. True) t3 (ms_edge_id ms2) link d4 c3 tables1 ms1')
        = Delivered_client socket client_addr answer"
      using dec4 udp_insert_True [OF fs(4)] timely(2) e2 route fs(3)
      by (simp add: handle_datagram_def handle_reply_datagram_def mesh_reply_def udp_take_if_def
          udp_fresh_def entry_client_via_peer_def split: prod.splits)
    ultimately show ?thesis by blast
  qed
  ultimately show ?thesis using datagram_decode_encode [OF fits] by blast
qed

lemma edge1_forwards:
  "fst (forward_udp edge1_env (\<lambda>_. None) True 5 (sample_remote ''e2'') ''a.example.com'' [7] sample_addr () 1 edge1)
     = Inr ((), (case mesh_encode \<lparr>md_kind = Request, md_request_id = 1, md_connection_generation = 1,
                   md_ingress_edge_id = ''e1'', md_tenant_id = ''t'', md_hostname = ''a.example.com''\<rparr> [7] of
                   Inl _ \<Rightarrow> [] | Inr d \<Rightarrow> d))"
  by code_simp

theorem udp_mesh_round_trip_witness:
  "\<exists>d1 ms1 d2 tables2 d4.
     fst (forward_udp edge1_env (\<lambda>_. None) True 5 (sample_remote ''e2'') ''a.example.com'' [7] sample_addr () 1 edge1)
       = Inr ((), d1)
     \<and> handle_datagram (\<lambda>_. None) (\<lambda>_ _. True) 6 ''e1'' () d1 9 (\<lambda>_. new_udp_table 2 10) sample_service
       = (ToConnector () d2, 10, tables2, sample_service)
     \<and> fst (handle_datagram (\<lambda>_. None) (\<lambda>_ _. True) 8 ''e2'' () d4 2 (\<lambda>_. new_udp_table 2 10) ms1)
       = Delivered_client () sample_addr [3 :: byte]"
proof -
  obtain d1 c ms1 where sent: "forward_udp edge1_env (\<lambda>_. None) True 5 (sample_remote ''e2'')
      (ra_hostname (edge2_ad Udp)) [7] sample_addr () 1 edge1 = (Inr ((), d1), c, ms1)"
    using edge1_forwards unfolding edge2_ad_def by (metis prod.collapse route_ad.select_convs(1))
  let ?h = "new_handle 5 1 (sample_registration ''t'' [''a.example.com''])"
  have h: "get_by_hostname (ms_registry sample_service) (ra_hostname (edge2_ad Udp)) = Some ?h"
    by (simp add: edge2_ad_def sample_service_def new_mesh_service_def get_by_hostname_def sample_registry_def
        register_def taken_hostname_def sample_registration_def new_registry_def new_handle_def
        t_insert_def insert_all_def Let_def)
  have id1: "ms_edge_id edge1 = ''e1''" "ms_edge_id sample_service = ''e2''" "ch_connection ?h = ()"
    by (simp_all add: edge1_def sample_service_def new_mesh_service_def)
  have wf: "wf_string ''e1''" "wf_string ''t''" "wf_string ''a.example.com''"
    by code_simp+
  have "\<exists>d2 tables2. handle_datagram (\<lambda>_. None) (\<lambda>_ _. True) 6 (ms_edge_id edge1) () d1 9
        (\<lambda>_. new_udp_table 2 10 :: (unit, unit) udp_reply_table) sample_service
      = (ToConnector (ch_connection ?h) d2, 9 + 1, tables2, sample_service)
    \<and> datagram_decode d2 = Some (\<lparr>dh_request_id = 9, dh_hostname = ra_hostname (edge2_ad Udp)\<rparr>, [7])
    \<and> (\<forall>answer. \<exists>d4.
         fst (udp_reply (\<lambda>_. None) (\<lambda>_ _. True) 7
                (datagram_encode \<lparr>dh_request_id = 9, dh_hostname = ra_hostname (edge2_ad Udp)\<rparr> answer)
                (tables2 (ch_udp_reply_map ?h))) = ToPeer () d4
         \<and> fst (handle_datagram (\<lambda>_. None) (\<lambda>_ _. True) 8 (ms_edge_id sample_service) () d4 2
                  (\<lambda>_. new_udp_table 2 10) ms1) = Delivered_client () sample_addr answer)"
    by (rule udp_mesh_round_trip [OF sample_edge2 _ _ _ _ _ _ sent h])
       (simp_all add: edge2_ad_def sample_remote_def id1 wf udp_len_def udp_inv_def new_udp_table_def t_len_def
         edge1_def new_mesh_service_def)
  then show ?thesis
    using sent by (fastforce simp: id1 edge2_ad_def)
qed

end
